(* ===== verification/Prelude.thy ===== *)
theory Prelude
  imports Main "HOL-Library.Word"
begin

unbundle bit_operations_syntax

text \<open>
  Shared by every component: the machine integers of the source, byte strings, the result type
  of fallible operations with the effect of the \<open>?\<close> operator, big-endian encodings, and the
  theorem collections the component proofs draw on.

  A Rust \<open>Result<T, E>\<close> is \<open>'e + 'a\<close>: \<open>Inl\<close> carries the error, \<open>Inr\<close> the value. A byte
  slice is a list of \<open>8 word\<close>; a \<open>usize\<close> that only measures lengths is \<open>nat\<close>; \<open>Instant\<close>
  and \<open>Duration\<close> are \<open>nat\<close> counts of one fixed unit, nanoseconds.
\<close>

section \<open>Machine types\<close>

type_synonym u8 = "8 word"
type_synonym u16 = "16 word"
type_synonym u32 = "32 word"
type_synonym u64 = "64 word"
type_synonym bytes = "u8 list"
type_synonym instant = nat
type_synonym duration = nat

text \<open>One second, in the unit of \<open>duration\<close>.\<close>

definition secs :: "nat \<Rightarrow> duration" where
  "secs n = n * 1000000000"

section \<open>Results\<close>

named_theorems result_simps "evaluation and inversion of the result operations"
named_theorems codec_simps "encoding and decoding of fixed-width fields"

definition bindE :: "'e + 'a \<Rightarrow> ('a \<Rightarrow> 'e + 'b) \<Rightarrow> 'e + 'b" where
  "bindE r f = (case r of Inl e \<Rightarrow> Inl e | Inr a \<Rightarrow> f a)"

definition ok_or :: "'a option \<Rightarrow> 'e \<Rightarrow> 'e + 'a" where
  "ok_or v e = (case v of None \<Rightarrow> Inl e | Some a \<Rightarrow> Inr a)"

definition map_err :: "('e \<Rightarrow> 'f) \<Rightarrow> 'e + 'a \<Rightarrow> 'f + 'a" where
  "map_err f r = (case r of Inl e \<Rightarrow> Inl (f e) | Inr a \<Rightarrow> Inr a)"

lemma bindE_simps [simp, result_simps]:
  "bindE (Inl e) f = Inl e"
  "bindE (Inr a) f = f a"
  by (simp_all add: bindE_def)

lemma ok_or_simps [simp, result_simps]:
  "ok_or None e = Inl e"
  "ok_or (Some a) e = Inr a"
  by (simp_all add: ok_or_def)

lemma bindE_eq_Inr [result_simps]:
  "bindE r f = Inr b \<longleftrightarrow> (\<exists>a. r = Inr a \<and> f a = Inr b)"
  by (cases r) auto

lemma bindE_eq_Inl [result_simps]:
  "bindE r f = Inl e \<longleftrightarrow> r = Inl e \<or> (\<exists>a. r = Inr a \<and> f a = Inl e)"
  by (cases r) auto

lemma ok_or_eq_Inr [simp, result_simps]: "ok_or v e = Inr a \<longleftrightarrow> v = Some a"
  by (cases v) auto

lemma ok_or_eq_Inl [simp, result_simps]: "ok_or v e = Inl f \<longleftrightarrow> v = None \<and> e = f"
  by (cases v) auto

lemma bindE_cong [fundef_cong]:
  "r = r' \<Longrightarrow> (\<And>a. r' = Inr a \<Longrightarrow> f a = g a) \<Longrightarrow> bindE r f = bindE r' g"
  by (cases r') auto

section \<open>Byte slices\<close>

text \<open>\<open>slice.get(a..b)\<close>: \<open>None\<close> out of range, never a panic.\<close>

definition slice_get :: "nat \<Rightarrow> nat \<Rightarrow> 'a list \<Rightarrow> 'a list option" where
  "slice_get a b xs = (if a \<le> b \<and> b \<le> length xs then Some (take (b - a) (drop a xs)) else None)"

lemma slice_get_Some_iff:
  "slice_get a b xs = Some ys \<longleftrightarrow> a \<le> b \<and> b \<le> length xs \<and> ys = take (b - a) (drop a xs)"
  by (auto simp: slice_get_def)

lemma slice_get_None_iff: "slice_get a b xs = None \<longleftrightarrow> \<not> (a \<le> b \<and> b \<le> length xs)"
  by (auto simp: slice_get_def)

lemma slice_get_length: "slice_get a b xs = Some ys \<Longrightarrow> length ys = b - a"
  by (auto simp: slice_get_Some_iff)

lemma slice_get_append:
  assumes "length xs = a" and "length ys = b - a" and "a \<le> b"
  shows "slice_get a b (xs @ ys @ zs) = Some ys"
  using assms by (simp add: slice_get_def)

section \<open>Big-endian integers\<close>

definition be16 :: "u16 \<Rightarrow> bytes" where
  "be16 w = [ucast (drop_bit 8 w), ucast w]"

definition from_be16 :: "bytes \<Rightarrow> u16" where
  "from_be16 bs = push_bit 8 (ucast (bs ! 0)) OR ucast (bs ! 1)"

definition be32 :: "u32 \<Rightarrow> bytes" where
  "be32 w = [ucast (drop_bit 24 w), ucast (drop_bit 16 w), ucast (drop_bit 8 w), ucast w]"

definition from_be32 :: "bytes \<Rightarrow> u32" where
  "from_be32 bs =
     push_bit 24 (ucast (bs ! 0)) OR push_bit 16 (ucast (bs ! 1)) OR
     push_bit 8 (ucast (bs ! 2)) OR ucast (bs ! 3)"

lemma length_be16 [simp, codec_simps]: "length (be16 w) = 2"
  by (simp add: be16_def)

lemma length_be32 [simp, codec_simps]: "length (be32 w) = 4"
  by (simp add: be32_def)

lemma byte_bit_high [simp]: "8 \<le> n \<Longrightarrow> \<not> bit (b :: u8) n"
  using bit_imp_le_length [of b n] by auto

lemma from_be16_be16 [simp, codec_simps]: "from_be16 (be16 w) = w"
proof (rule bit_word_eqI)
  fix n assume "n < LENGTH(16)"
  then show "bit (from_be16 (be16 w)) n = bit w n"
    by (auto simp: from_be16_def be16_def bit_simps)
qed

lemma from_be32_be32 [simp, codec_simps]: "from_be32 (be32 w) = w"
proof (rule bit_word_eqI)
  fix n assume "n < LENGTH(32)"
  moreover have "n - 8 < 8 \<longleftrightarrow> n < 16" "n - 16 < 8 \<longleftrightarrow> n < 24" "n - 24 < 8 \<longleftrightarrow> n < 32"
    by arith+
  ultimately show "bit (from_be32 (be32 w)) n = bit w n"
    by (auto simp: from_be32_def be32_def bit_simps)
qed

lemma be32_from_be32 [codec_simps]:
  assumes "length bs = 4"
  shows "be32 (from_be32 bs) = bs"
proof -
  obtain a b c d where bs: "bs = [a, b, c, d]"
    using assms by (auto simp: numeral_eq_Suc length_Suc_conv)
  show ?thesis
    unfolding bs be32_def from_be32_def
    by (auto intro!: bit_word_eqI simp: bit_simps)
qed

lemma be16_from_be16 [codec_simps]:
  assumes "length bs = 2"
  shows "be16 (from_be16 bs) = bs"
proof -
  obtain a b where bs: "bs = [a, b]"
    using assms by (auto simp: numeral_eq_Suc length_Suc_conv)
  show ?thesis
    unfolding bs be16_def from_be16_def
    by (auto intro!: bit_word_eqI simp: bit_simps)
qed

lemma be32_inject [simp]: "be32 v = be32 w \<longleftrightarrow> v = w"
  using from_be32_be32 by metis

section \<open>Words\<close>

lemma unat_word_add_1:
  "unat w + 1 < 2 ^ LENGTH('a) \<Longrightarrow> unat (w + 1) = unat w + 1" for w :: "'a::len word"
  by (simp add: unat_word_ariths(1))

lemma word_less_unat: "v < w \<longleftrightarrow> unat v < unat w" for v w :: "'a::len word"
  by (simp add: word_less_nat_alt)

end
