(* ===== verification/Errors.thy ===== *)
theory Errors
  imports Prelude
begin

text \<open>
  The wire vocabulary every layer of the OpenVPN client shares (\<open>packet.rs\<close>: opcodes, key
  generations, session ids) and the crate's one error type with its division into errors that
  end the session and errors about a single datagram (\<open>lib.rs\<close>: \<open>Error\<close>,
  \<open>Error::is_fatal\<close>).
\<close>

section \<open>Opcodes\<close>

datatype opcode =
    ControlSoftResetV1 | ControlV1 | AckV1 | DataV1
  | ControlHardResetClientV2 | ControlHardResetServerV2 | DataV2

text \<open>\<open>#[repr(u8)]\<close>: the discriminant that \<open>opcode as u8\<close> yields.\<close>

fun opcode_u8 :: "opcode \<Rightarrow> u8" where
  "opcode_u8 ControlSoftResetV1 = 3"
| "opcode_u8 ControlV1 = 4"
| "opcode_u8 AckV1 = 5"
| "opcode_u8 DataV1 = 6"
| "opcode_u8 ControlHardResetClientV2 = 7"
| "opcode_u8 ControlHardResetServerV2 = 8"
| "opcode_u8 DataV2 = 9"

section \<open>Key generations and session ids\<close>

datatype key_id = KeyId (key_id_get: u8)

datatype session_id = SessionId (sid_bytes: bytes)

text \<open>\<open>KeyId\<close> derives \<open>PartialOrd\<close> and \<open>Ord\<close> through its one field.\<close>

instantiation key_id :: linorder
begin

definition less_eq_key_id :: "key_id \<Rightarrow> key_id \<Rightarrow> bool" where
  "less_eq_key_id a b \<longleftrightarrow> key_id_get a \<le> key_id_get b"

definition less_key_id :: "key_id \<Rightarrow> key_id \<Rightarrow> bool" where
  "less_key_id a b \<longleftrightarrow> key_id_get a < key_id_get b"

instance
  by standard (auto simp: less_eq_key_id_def less_key_id_def intro: key_id.expand)

end

section \<open>Errors\<close>

text \<open>
  \<open>Truncated\<close> and \<open>FieldTooLong\<close> carry the context literal; errors that carry a Rust
  \<open>String\<close> carry its UTF-8 bytes. \<open>Tls\<close> and \<open>Io\<close> wrap messages of libraries.
\<close>

datatype error =
    Truncated string
  | UnknownOpcode u8
  | TooManyAcks nat
  | BadHmac
  | WrongSession
  | OtherKeyId key_id key_id
  | AckForAnotherSession
  | Replayed
  | UnexpectedFirstPacket
  | UnsupportedKeyMethod u8
  | AuthFailed bytes
  | UnexpectedControlMessage bytes
  | PeerClosed
  | UnexpectedDataOpcode opcode
  | BadPadding
  | PacketIdExhausted
  | BadPushDirective bytes
  | UnsupportedCipher bytes
  | UnsupportedCompression bytes
  | NotReady
  | NoPushReply
  | HandshakeTimeout
  | PeerGone duration
  | Io bytes
  | BadProfile bytes
  | UnsupportedProfileOption bytes
  | FieldTooLong string
  | Tls bytes
  | KeyLength nat
  | KeyNotHex
  | KeyMissing

text \<open>Whether an error ends the session, or only this datagram.\<close>

fun is_fatal :: "error \<Rightarrow> bool" where
  "is_fatal (Truncated _) = False"
| "is_fatal (UnknownOpcode _) = False"
| "is_fatal BadHmac = False"
| "is_fatal WrongSession = False"
| "is_fatal AckForAnotherSession = False"
| "is_fatal UnexpectedFirstPacket = False"
| "is_fatal Replayed = False"
| "is_fatal (OtherKeyId _ _) = False"
| "is_fatal (TooManyAcks _) = False"
| "is_fatal (UnexpectedDataOpcode _) = False"
| "is_fatal BadPadding = False"
| "is_fatal (UnexpectedControlMessage _) = False"
| "is_fatal NotReady = False"
| "is_fatal (KeyLength _) = True"
| "is_fatal KeyNotHex = True"
| "is_fatal KeyMissing = True"
| "is_fatal (UnsupportedKeyMethod _) = True"
| "is_fatal (FieldTooLong _) = True"
| "is_fatal (Tls _) = True"
| "is_fatal (AuthFailed _) = True"
| "is_fatal PeerClosed = True"
| "is_fatal PacketIdExhausted = True"
| "is_fatal (BadPushDirective _) = True"
| "is_fatal (UnsupportedCipher _) = True"
| "is_fatal (UnsupportedCompression _) = True"
| "is_fatal NoPushReply = True"
| "is_fatal (BadProfile _) = True"
| "is_fatal (UnsupportedProfileOption _) = True"
| "is_fatal HandshakeTimeout = True"
| "is_fatal (PeerGone _) = True"
| "is_fatal (Io _) = True"

end
