(* ===== verification/Cursor.thy ===== *)
theory Cursor
  imports Errors
begin

text \<open>
  The bounds-checked reader both decoders of the OpenVPN client are written with (\<open>Cursor\<close> in
  \<open>packet.rs\<close>, and \<open>Reader\<close> in \<open>key_method.rs\<close>, which is the same structure), and the
  interface of a field of the wire: an encoder and a decoder that consumes exactly what the
  encoder wrote. \<open>stream_codec\<close> adds that the decoder accepts nothing else.
\<close>

section \<open>The cursor\<close>

record cursor =
  cur_bytes :: bytes
  cur_at :: nat

definition cursor_new :: "bytes \<Rightarrow> cursor" where
  "cursor_new bs = \<lparr>cur_bytes = bs, cur_at = 0\<rparr>"

definition cursor_take :: "nat \<Rightarrow> string \<Rightarrow> cursor \<Rightarrow> error + bytes \<times> cursor" where
  "cursor_take n context c =
     bindE (ok_or (slice_get (cur_at c) (cur_at c + n) (cur_bytes c)) (Truncated context))
       (\<lambda>slice. Inr (slice, c\<lparr>cur_at := cur_at c + n\<rparr>))"

definition cursor_u8 :: "string \<Rightarrow> cursor \<Rightarrow> error + u8 \<times> cursor" where
  "cursor_u8 context c = bindE (cursor_take 1 context c) (\<lambda>(s, c'). Inr (s ! 0, c'))"

definition cursor_u32 :: "string \<Rightarrow> cursor \<Rightarrow> error + u32 \<times> cursor" where
  "cursor_u32 context c = bindE (cursor_take 4 context c) (\<lambda>(s, c'). Inr (from_be32 s, c'))"

definition SID_LEN :: nat where
  "SID_LEN = 8"

definition cursor_session_id :: "cursor \<Rightarrow> error + session_id \<times> cursor" where
  "cursor_session_id c =
     bindE (cursor_take SID_LEN ''an acked session id'' c) (\<lambda>(s, c'). Inr (SessionId s, c'))"

definition cursor_rest :: "cursor \<Rightarrow> bytes" where
  "cursor_rest c = drop (cur_at c) (cur_bytes c)"

text \<open>A loop that reads \<open>n\<close> fields in a row and stops at the first error.\<close>

fun read_many :: "(cursor \<Rightarrow> error + 'a \<times> cursor) \<Rightarrow> nat \<Rightarrow> cursor \<Rightarrow> error + 'a list \<times> cursor"
where
  "read_many dec 0 c = Inr ([], c)"
| "read_many dec (Suc n) c =
     bindE (dec c) (\<lambda>(a, c'). bindE (read_many dec n c') (\<lambda>(as, c''). Inr (a # as, c'')))"

section \<open>Reading forwards\<close>

text \<open>\<open>reads c bs c'\<close>: the cursor moved over exactly \<open>bs\<close>, inside its buffer.\<close>

definition reads :: "cursor \<Rightarrow> bytes \<Rightarrow> cursor \<Rightarrow> bool" where
  "reads c bs c' \<longleftrightarrow> cursor_rest c = bs @ cursor_rest c' \<and> cur_bytes c' = cur_bytes c \<and>
     cur_at c' = cur_at c + length bs"

lemma reads_refl [simp]: "reads c [] c"
  by (simp add: reads_def)

lemma reads_trans: "reads c as c' \<Longrightarrow> reads c' bs c'' \<Longrightarrow> reads c (as @ bs) c''"
  by (simp add: reads_def)

lemma cursor_rest_new [simp]: "cursor_rest (cursor_new bs) = bs"
  by (simp add: cursor_rest_def cursor_new_def)

definition cursor_ok :: "cursor \<Rightarrow> bool" where
  "cursor_ok c \<longleftrightarrow> cur_at c \<le> length (cur_bytes c)"

lemma drop_split: "take n (drop k xs) @ drop (k + n) xs = drop k xs"
  by (metis append_take_drop_id drop_drop add.commute)

lemma cursor_take_ok:
  "cursor_take n ctx c = Inr (s, c') \<longleftrightarrow>
     length s = n \<and> reads c s c' \<and> cur_at c + n \<le> length (cur_bytes c)"
proof -
  have c': "c\<lparr>cur_at := cur_at c + n\<rparr> = c' \<longleftrightarrow> cur_bytes c' = cur_bytes c \<and> cur_at c' = cur_at c + n"
    by (cases c, cases c') auto
  have "take n (drop (cur_at c) (cur_bytes c)) = s \<longleftrightarrow>
        length s = n \<and> drop (cur_at c) (cur_bytes c) = s @ drop (cur_at c + n) (cur_bytes c)"
    if "cur_at c + n \<le> length (cur_bytes c)"
    using that drop_split [of n "cur_at c" "cur_bytes c"] by auto
  then show ?thesis
    by (auto simp: cursor_take_def bindE_eq_Inr slice_get_Some_iff reads_def cursor_rest_def c')
qed

lemma cursor_take_append:
  assumes "cursor_rest c = s @ r" and "length s = n" and "cursor_ok c"
  shows "\<exists>c'. cursor_take n ctx c = Inr (s, c') \<and> reads c s c'"
proof -
  have "length (cursor_rest c) \<ge> n"
    using assms by simp
  then have n: "cur_at c + n \<le> length (cur_bytes c)"
    using assms(3) by (simp add: cursor_rest_def cursor_ok_def)
  moreover have "reads c s (c\<lparr>cur_at := cur_at c + n\<rparr>)"
    using n assms(1,2) drop_split [of n "cur_at c" "cur_bytes c"]
    by (simp add: reads_def cursor_rest_def)
  ultimately show ?thesis
    using assms(2) unfolding cursor_take_ok by blast
qed

lemma cursor_take_error:
  "cursor_take n ctx c = Inl e \<longleftrightarrow> \<not> cur_at c + n \<le> length (cur_bytes c) \<and> e = Truncated ctx"
  by (auto simp: cursor_take_def bindE_eq_Inl slice_get_None_iff)

lemma cursor_ok_new [simp]: "cursor_ok (cursor_new bs)"
  by (simp add: cursor_ok_def cursor_new_def)

lemma reads_ok: "reads c s c' \<Longrightarrow> cursor_ok c \<Longrightarrow> cursor_ok c'"
proof -
  assume r: "reads c s c'" and ok: "cursor_ok c"
  then have "length (cursor_rest c) = length s + length (cursor_rest c')"
    by (simp add: reads_def)
  with r ok show "cursor_ok c'"
    by (cases "cur_at c + length s \<le> length (cur_bytes c)")
      (auto simp: reads_def cursor_rest_def cursor_ok_def)
qed

lemma reads_next:
  "reads c s c' \<Longrightarrow> cursor_ok c \<Longrightarrow> cursor_rest c = s @ r \<Longrightarrow> cursor_ok c' \<and> cursor_rest c' = r"
  using reads_ok [of c s c'] by (simp add: reads_def)

section \<open>The interface of a field\<close>

text \<open>
  A \<open>stream_decoder\<close> reads back what its encoder wrote, whatever follows. A
  \<open>stream_codec\<close> moreover reads nothing but encodings of well-formed values.
\<close>

locale stream_decoder =
  fixes enc :: "'a \<Rightarrow> bytes"
    and dec :: "cursor \<Rightarrow> error + 'a \<times> cursor"
    and wf :: "'a \<Rightarrow> bool"
  assumes dec_enc:
    "wf a \<Longrightarrow> cursor_ok c \<Longrightarrow> cursor_rest c = enc a @ r \<Longrightarrow>
       \<exists>c'. dec c = Inr (a, c') \<and> reads c (enc a) c'"
begin

lemma dec_encE:
  assumes "wf a" "cursor_ok c" "cursor_rest c = enc a @ r"
  obtains c' where "dec c = Inr (a, c')" "reads c (enc a) c'" "cursor_ok c'" "cursor_rest c' = r"
  using dec_enc [OF assms] assms reads_ok by (auto simp: reads_def)

lemma read_many_enc:
  assumes "\<forall>a \<in> set as. wf a" and "cursor_ok c" and "cursor_rest c = concat (map enc as) @ r"
  shows "\<exists>c'. read_many dec (length as) c = Inr (as, c') \<and> reads c (concat (map enc as)) c'"
  using assms
proof (induction as arbitrary: c)
  case (Cons a as)
  obtain c1 where c1: "dec c = Inr (a, c1)" "reads c (enc a) c1" "cursor_ok c1"
      "cursor_rest c1 = concat (map enc as) @ r"
    using dec_encE [of a c "concat (map enc as) @ r"] Cons.prems by auto
  with Cons.IH [of c1] Cons.prems(1) obtain c2
    where "read_many dec (length as) c1 = Inr (as, c2)" "reads c1 (concat (map enc as)) c2"
    by auto
  with c1 show ?case
    by (auto intro: reads_trans)
qed simp

lemma read_many_encE:
  assumes "\<forall>a \<in> set as. wf a" "cursor_ok c" "cursor_rest c = concat (map enc as) @ r"
  obtains c' where "read_many dec (length as) c = Inr (as, c')" "cursor_ok c'" "cursor_rest c' = r"
proof -
  obtain c' where c': "read_many dec (length as) c = Inr (as, c')" "reads c (concat (map enc as)) c'"
    using read_many_enc [OF assms] by blast
  moreover have "cursor_ok c'" "cursor_rest c' = r"
    using reads_ok [OF c'(2) assms(2)] c'(2) assms(3) by (simp_all add: reads_def)
  ultimately show ?thesis using that by blast
qed

end

locale stream_codec = stream_decoder +
  assumes dec_only: "dec c = Inr (a, c') \<Longrightarrow> wf a \<and> reads c (enc a) c'"
begin

lemma read_many_only:
  "read_many dec n c = Inr (as, c') \<Longrightarrow>
     length as = n \<and> (\<forall>a \<in> set as. wf a) \<and> reads c (concat (map enc as)) c'"
proof (induction n arbitrary: c as c')
  case (Suc n)
  then obtain a c1 as' where d: "dec c = Inr (a, c1)" "read_many dec n c1 = Inr (as', c')" "as = a # as'"
    by (auto simp: bindE_eq_Inr split: prod.splits)
  from Suc.IH [OF d(2)] dec_only [OF d(1)]
  have "length as' = n" "\<forall>x \<in> set as'. wf x" "wf a"
    "reads c (enc a @ concat (map enc as')) c'"
    by (auto intro: reads_trans)
  with d(3) show ?case by simp
qed simp

end

interpretation u32_field: stream_codec be32 "cursor_u32 ctx" "\<lambda>_. True" for ctx
proof
  fix a c r
  assume "cursor_ok c" "cursor_rest c = be32 a @ r"
  then obtain c' where "cursor_take 4 ctx c = Inr (be32 a, c')" "reads c (be32 a) c'"
    using cursor_take_append [of c "be32 a" r 4 ctx] by auto
  then show "\<exists>c'. cursor_u32 ctx c = Inr (a, c') \<and> reads c (be32 a) c'"
    by (simp add: cursor_u32_def)
next
  fix a c c'
  assume "cursor_u32 ctx c = Inr (a, c')"
  then show "True \<and> reads c (be32 a) c'"
    by (auto simp: cursor_u32_def bindE_eq_Inr cursor_take_ok be32_from_be32)
qed

interpretation sid_field: stream_codec sid_bytes cursor_session_id "\<lambda>s. length (sid_bytes s) = SID_LEN"
proof
  fix a c r
  assume "length (sid_bytes a) = SID_LEN" "cursor_ok c" "cursor_rest c = sid_bytes a @ r"
  then obtain c' where "cursor_take SID_LEN ''an acked session id'' c = Inr (sid_bytes a, c')"
      "reads c (sid_bytes a) c'"
    using cursor_take_append [of c "sid_bytes a" r SID_LEN "''an acked session id''"] by auto
  then show "\<exists>c'. cursor_session_id c = Inr (a, c') \<and> reads c (sid_bytes a) c'"
    by (simp add: cursor_session_id_def)
next
  fix a c c'
  assume "cursor_session_id c = Inr (a, c')"
  then show "length (sid_bytes a) = SID_LEN \<and> reads c (sid_bytes a) c'"
    by (auto simp: cursor_session_id_def bindE_eq_Inr cursor_take_ok)
qed

end
