(* ===== verification/Packet.thy ===== *)
theory Packet
  imports Cursor
begin

text \<open>
  Control-channel packet framing (\<open>packet.rs\<close>): opcodes, key generations, acknowledgement
  blocks, and the encoder and decoder of a control packet. The lemmas show that the decoder
  inverts the encoder, that it accepts only canonical encodings, and how key ids cycle.
\<close>

section \<open>Opcodes and key generations\<close>

definition opcode_from_u8 :: "u8 \<Rightarrow> error + opcode" where
  "opcode_from_u8 v =
     (if v = 3 then Inr ControlSoftResetV1
      else if v = 4 then Inr ControlV1
      else if v = 5 then Inr AckV1
      else if v = 6 then Inr DataV1
      else if v = 7 then Inr ControlHardResetClientV2
      else if v = 8 then Inr ControlHardResetServerV2
      else if v = 9 then Inr DataV2
      else Inl (UnknownOpcode v))"

definition carries_packet_id :: "opcode \<Rightarrow> bool" where
  "carries_packet_id op \<longleftrightarrow> op \<noteq> AckV1"

definition KEY_ID_MASK :: u8 where
  "KEY_ID_MASK = 7"

definition OPCODE_SHIFT :: nat where
  "OPCODE_SHIFT = 3"

definition key_id_first :: key_id where
  "key_id_first = KeyId 0"

definition key_id_new :: "u8 \<Rightarrow> key_id option" where
  "key_id_new v = (if v \<le> KEY_ID_MASK then Some (KeyId v) else None)"

definition key_id_next :: "key_id \<Rightarrow> key_id" where
  "key_id_next k =
     (let next = (key_id_get k + 1) AND KEY_ID_MASK in if next = 0 then KeyId 1 else KeyId next)"

definition key_id_ok :: "key_id \<Rightarrow> bool" where
  "key_id_ok k \<longleftrightarrow> key_id_get k \<le> KEY_ID_MASK"

text \<open>The \<open>expect\<close> on three masked bits: \<open>key_id_masked\<close> never meets \<open>None\<close>.\<close>

definition key_id_masked :: "u8 \<Rightarrow> key_id" where
  "key_id_masked header = the (key_id_new (header AND KEY_ID_MASK))"

lemma mask_le: "(v :: u8) AND KEY_ID_MASK \<le> KEY_ID_MASK"
  by (simp add: word_and_le1)

lemma key_id_masked_expect: "key_id_new (header AND KEY_ID_MASK) \<noteq> None"
  by (simp add: key_id_new_def mask_le)

lemma key_id_masked_eq: "key_id_masked header = KeyId (header AND KEY_ID_MASK)"
  by (simp add: key_id_masked_def key_id_new_def mask_le)

lemma key_id_masked_ok [simp]: "key_id_ok (key_id_masked header)"
  by (simp add: key_id_masked_eq key_id_ok_def mask_le)

lemma opcode_from_u8_u8 [simp]: "opcode_from_u8 (opcode_u8 op) = Inr op"
  by (cases op) (simp_all add: opcode_from_u8_def)

lemma opcode_from_u8_Inr: "opcode_from_u8 v = Inr op \<longleftrightarrow> v = opcode_u8 op"
  by (cases op) (auto simp: opcode_from_u8_def)

text \<open>The first byte of a packet: opcode in the high five bits, key id in the low three.\<close>

definition header_byte :: "opcode \<Rightarrow> key_id \<Rightarrow> u8" where
  "header_byte op k = push_bit OPCODE_SHIFT (opcode_u8 op) OR key_id_get k"

lemma KEY_ID_MASK_mask: "KEY_ID_MASK = mask 3"
  by (simp add: KEY_ID_MASK_def mask_eq_exp_minus_1)

lemma bit_mask: "bit KEY_ID_MASK n \<longleftrightarrow> n < 3"
  unfolding KEY_ID_MASK_mask by (auto simp: bit_simps)

lemma three_bits:
  assumes "k \<le> KEY_ID_MASK"
  shows "k \<in> {0, 1, 2, 3, 4, 5, 6, 7}"
proof -
  have "unat k \<le> 7"
    using assms by (simp add: KEY_ID_MASK_def word_le_nat_alt)
  then have "unat k \<in> {0, 1, 2, 3, 4, 5, 6, 7}"
    by auto
  then have "(of_nat (unat k) :: u8) \<in> of_nat ` {0, 1, 2, 3, 4, 5, 6, 7}"
    by (rule imageI)
  then show ?thesis by simp
qed

lemma small_bits: "k \<le> KEY_ID_MASK \<Longrightarrow> k AND KEY_ID_MASK = k"
  by (drule three_bits) (auto simp: KEY_ID_MASK_def)

lemma small_shift: "k \<le> KEY_ID_MASK \<Longrightarrow> drop_bit OPCODE_SHIFT k = 0"
  by (drule three_bits) (auto simp: OPCODE_SHIFT_def)

lemma opcode_shift_bits: "drop_bit OPCODE_SHIFT (push_bit OPCODE_SHIFT (opcode_u8 op)) = opcode_u8 op"
  by (cases op) (simp_all add: OPCODE_SHIFT_def)

lemma header_byte_opcode:
  assumes "key_id_ok k"
  shows "drop_bit OPCODE_SHIFT (header_byte op k) = opcode_u8 op"
  using assms by (simp add: header_byte_def opcode_shift_bits drop_bit_or small_shift key_id_ok_def)

lemma header_byte_key:
  assumes "key_id_ok k"
  shows "header_byte op k AND KEY_ID_MASK = key_id_get k"
proof -
  have "push_bit OPCODE_SHIFT (opcode_u8 op) AND KEY_ID_MASK = 0"
    by (rule bit_word_eqI) (auto simp: OPCODE_SHIFT_def bit_mask bit_simps)
  then show ?thesis
    using assms by (simp add: header_byte_def bit.conj_disj_distrib2 small_bits key_id_ok_def)
qed

lemma header_byte_split:
  "push_bit OPCODE_SHIFT (drop_bit OPCODE_SHIFT h) OR (h AND KEY_ID_MASK) = h" for h :: u8
  by (rule bit_word_eqI) (auto simp: OPCODE_SHIFT_def bit_mask bit_simps)

section \<open>Packets\<close>

record acks =
  ack_ids :: "u32 list"
  ack_session :: session_id

definition ACKS_MAX :: nat where
  "ACKS_MAX = 8"

definition acks_new :: "u32 list \<Rightarrow> session_id \<Rightarrow> error + acks" where
  "acks_new ids sid =
     (if length ids > ACKS_MAX then Inl (TooManyAcks (length ids))
      else Inr \<lparr>ack_ids = ids, ack_session = sid\<rparr>)"

record control_packet =
  cp_opcode :: opcode
  cp_key_id :: key_id
  cp_session_id :: session_id
  cp_acks :: "acks option"
  cp_packet_id :: "u32 option"
  cp_payload :: bytes

definition encode_prefix :: "control_packet \<Rightarrow> bytes" where
  "encode_prefix p = header_byte (cp_opcode p) (cp_key_id p) # sid_bytes (cp_session_id p)"

definition encode_acks :: "acks option \<Rightarrow> bytes" where
  "encode_acks a =
     (case a of
        Some acks \<Rightarrow>
          of_nat (length (ack_ids acks)) # concat (map be32 (ack_ids acks)) @
          sid_bytes (ack_session acks)
      | None \<Rightarrow> [0])"

definition encode_tail :: "control_packet \<Rightarrow> bytes" where
  "encode_tail p =
     encode_acks (cp_acks p) @ (case cp_packet_id p of Some i \<Rightarrow> be32 i | None \<Rightarrow> []) @ cp_payload p"

definition decode_acks :: "cursor \<Rightarrow> error + acks option \<times> cursor" where
  "decode_acks c =
     bindE (cursor_u8 ''an ack count'' c) (\<lambda>(count, c).
     if unat count > 0 then
       bindE (read_many (cursor_u32 ''an acknowledged packet id'') (unat count) c) (\<lambda>(ids, c).
       bindE (cursor_session_id c) (\<lambda>(sid, c).
       bindE (acks_new ids sid) (\<lambda>acks. Inr (Some acks, c))))
     else Inr (None, c))"

definition decode_packet_id :: "opcode \<Rightarrow> cursor \<Rightarrow> error + u32 option \<times> cursor" where
  "decode_packet_id op c =
     (if carries_packet_id op then
        bindE (cursor_u32 ''a packet id'' c) (\<lambda>(i, c). Inr (Some i, c))
      else Inr (None, c))"

definition packet_decode :: "bytes \<Rightarrow> bytes \<Rightarrow> error + control_packet" where
  "packet_decode prefix tail =
     bindE (ok_or (if prefix = [] then None else Some (prefix ! 0)) (Truncated ''an opcode''))
       (\<lambda>header.
     bindE (opcode_from_u8 (drop_bit OPCODE_SHIFT header)) (\<lambda>op.
     let key_id = key_id_masked header in
     bindE (ok_or (slice_get 1 (1 + SID_LEN) prefix) (Truncated ''a session id'')) (\<lambda>sid.
     bindE (decode_acks (cursor_new tail)) (\<lambda>(acks, c).
     bindE (decode_packet_id op c) (\<lambda>(packet_id, c).
     Inr \<lparr>cp_opcode = op, cp_key_id = key_id, cp_session_id = SessionId sid, cp_acks = acks,
          cp_packet_id = packet_id, cp_payload = cursor_rest c\<rparr>)))))"

section \<open>Well-formed packets\<close>

text \<open>
  What the types of the source guarantee of a packet (a three-bit key id, eight-byte session
  ids, at most eight acknowledgements) and what the code only ever builds: an acknowledgement
  block is never empty, and every packet but a bare ack has a message id.
\<close>

definition acks_ok :: "acks \<Rightarrow> bool" where
  "acks_ok a \<longleftrightarrow> ack_ids a \<noteq> [] \<and> length (ack_ids a) \<le> ACKS_MAX \<and>
     length (sid_bytes (ack_session a)) = SID_LEN"

definition packet_ok :: "control_packet \<Rightarrow> bool" where
  "packet_ok p \<longleftrightarrow> key_id_ok (cp_key_id p) \<and> length (sid_bytes (cp_session_id p)) = SID_LEN \<and>
     (\<forall>a. cp_acks p = Some a \<longrightarrow> acks_ok a) \<and>
     (cp_packet_id p \<noteq> None \<longleftrightarrow> carries_packet_id (cp_opcode p))"

lemma cursor_u8_read:
  assumes "cursor_ok c" "cursor_rest c = b # r"
  obtains c' where "cursor_u8 ctx c = Inr (b, c')" "cursor_ok c'" "cursor_rest c' = r"
proof -
  obtain c' where "cursor_take 1 ctx c = Inr ([b], c')" "reads c [b] c'"
    using cursor_take_append [of c "[b]" r 1 ctx] assms by auto
  moreover from this have "cursor_ok c'" "cursor_rest c' = r"
    using reads_next [of c "[b]" c' r] assms by auto
  ultimately show ?thesis
    using that by (simp add: cursor_u8_def)
qed

lemma cursor_u8_only: "cursor_u8 ctx c = Inr (b, c') \<Longrightarrow> reads c [b] c'"
  by (auto simp: cursor_u8_def bindE_eq_Inr cursor_take_ok length_Suc_conv)

lemma decode_encode_acks:
  assumes "\<forall>a. acks = Some a \<longrightarrow> acks_ok a"
    and "cursor_ok c" and "cursor_rest c = encode_acks acks @ r"
  obtains c' where "decode_acks c = Inr (acks, c')" "cursor_ok c'" "cursor_rest c' = r"
proof (cases acks)
  case None
  obtain c' where "cursor_u8 ''an ack count'' c = Inr (0, c')" "cursor_ok c'" "cursor_rest c' = r"
    using cursor_u8_read [of c 0 r] assms(2,3) None by (auto simp: encode_acks_def)
  with None that show ?thesis by (simp add: decode_acks_def)
next
  case (Some a)
  let ?ids = "ack_ids a" and ?sid = "ack_session a"
  have ok: "acks_ok a" using assms(1) Some by simp
  then have n: "unat (of_nat (length ?ids) :: u8) = length ?ids" "?ids \<noteq> []"
    by (auto simp: acks_ok_def ACKS_MAX_def unat_of_nat)
  obtain c1 where c1: "cursor_u8 ''an ack count'' c = Inr (of_nat (length ?ids), c1)" "cursor_ok c1"
      "cursor_rest c1 = concat (map be32 ?ids) @ sid_bytes ?sid @ r"
    using cursor_u8_read [of c "of_nat (length ?ids)" "concat (map be32 ?ids) @ sid_bytes ?sid @ r"]
      assms(2,3) Some by (auto simp: encode_acks_def)
  obtain c2 where c2: "read_many (cursor_u32 ''an acknowledged packet id'') (length ?ids) c1 = Inr (?ids, c2)"
      "cursor_ok c2" "cursor_rest c2 = sid_bytes ?sid @ r"
    using u32_field.read_many_encE [OF _ c1(2,3)] by auto
  obtain c3 where c3: "cursor_session_id c2 = Inr (?sid, c3)" "cursor_ok c3" "cursor_rest c3 = r"
    using sid_field.dec_encE [OF _ c2(2,3)] ok by (auto simp: acks_ok_def)
  have "acks_new ?ids ?sid = Inr a"
    using ok by (cases a) (simp add: acks_new_def acks_ok_def)
  with c1 c2 c3 n Some have "decode_acks c = Inr (acks, c3)"
    by (simp add: decode_acks_def)
  with c3 that show ?thesis by blast
qed

lemma decode_acks_only:
  assumes "decode_acks c = Inr (acks, c')"
  shows "(\<forall>a. acks = Some a \<longrightarrow> acks_ok a) \<and> reads c (encode_acks acks) c'"
proof -
  obtain count c1 where u: "cursor_u8 ''an ack count'' c = Inr (count, c1)"
    using assms by (auto simp: decode_acks_def bindE_eq_Inr)
  note r1 = cursor_u8_only [OF u]
  show ?thesis
  proof (cases "unat count > 0")
    case False
    then have "count = 0" by (simp add: unat_eq_0)
    with u assms r1 show ?thesis
      by (auto simp: decode_acks_def encode_acks_def)
  next
    case True
    then obtain ids c2 sid c3 a where
        m: "read_many (cursor_u32 ''an acknowledged packet id'') (unat count) c1 = Inr (ids, c2)"
      and s: "cursor_session_id c2 = Inr (sid, c')" and a: "acks_new ids sid = Inr a" "acks = Some a"
      using u assms by (auto simp: decode_acks_def bindE_eq_Inr)
    from u32_field.read_many_only [OF m] have n: "length ids = unat count"
      and r2: "reads c1 (concat (map be32 ids)) c2" by simp_all
    from sid_field.dec_only [OF s] have l: "length (sid_bytes sid) = SID_LEN"
      and r3: "reads c2 (sid_bytes sid) c'" by simp_all
    have aa: "a = \<lparr>ack_ids = ids, ack_session = sid\<rparr>" "length ids \<le> ACKS_MAX"
      using a(1) by (auto simp: acks_new_def split: if_splits)
    have "of_nat (length ids) = count"
      by (simp add: n)
    then have "reads c (encode_acks acks) c'"
      using reads_trans [OF r1 reads_trans [OF r2 r3]] a(2) aa(1)
      by (simp add: encode_acks_def)
    moreover have "acks_ok a"
      using aa l n True by (auto simp: acks_ok_def)
    ultimately show ?thesis using a(2) by simp
  qed
qed

lemma decode_encode_packet_id:
  assumes "i \<noteq> None \<longleftrightarrow> carries_packet_id op"
    and "cursor_ok c" and "cursor_rest c = (case i of Some i \<Rightarrow> be32 i | None \<Rightarrow> []) @ r"
  obtains c' where "decode_packet_id op c = Inr (i, c')" "cursor_rest c' = r"
proof (cases i)
  case None
  with assms that show ?thesis by (auto simp: decode_packet_id_def)
next
  case (Some v)
  with assms obtain c' where "cursor_u32 ''a packet id'' c = Inr (v, c')" "cursor_rest c' = r"
    using u32_field.dec_encE [where a = v and c = c and r = r and ctx = "''a packet id''"] by auto
  with Some assms(1) that show ?thesis by (simp add: decode_packet_id_def)
qed

lemma decode_packet_id_only:
  assumes "decode_packet_id op c = Inr (i, c')"
  shows "(i \<noteq> None \<longleftrightarrow> carries_packet_id op) \<and>
         reads c (case i of Some i \<Rightarrow> be32 i | None \<Rightarrow> []) c'"
  using assms u32_field.dec_only [of "''a packet id''" c]
  by (auto simp: decode_packet_id_def bindE_eq_Inr split: if_splits)

lemma packet_decode_encode:
  assumes "packet_ok p"
  shows "packet_decode (encode_prefix p) (encode_tail p) = Inr p"
proof -
  note ok = assms [unfolded packet_ok_def]
  obtain c1 where c1: "decode_acks (cursor_new (encode_tail p)) = Inr (cp_acks p, c1)" "cursor_ok c1"
      "cursor_rest c1 = (case cp_packet_id p of Some i \<Rightarrow> be32 i | None \<Rightarrow> []) @ cp_payload p"
    using decode_encode_acks [of "cp_acks p" "cursor_new (encode_tail p)"] ok
    by (auto simp: encode_tail_def)
  obtain c2 where c2: "decode_packet_id (cp_opcode p) c1 = Inr (cp_packet_id p, c2)"
      "cursor_rest c2 = cp_payload p"
    using decode_encode_packet_id [OF _ c1(2,3)] ok by auto
  show ?thesis
    using ok c1(1) c2
    by (simp add: packet_decode_def encode_prefix_def header_byte_opcode header_byte_key
        key_id_masked_eq slice_get_def bindE_def [of "decode_acks _"])
qed

lemma packet_decode_only:
  assumes "packet_decode prefix tail = Inr p"
  shows "packet_ok p \<and> encode_prefix p = take (1 + SID_LEN) prefix \<and> encode_tail p = tail"
proof -
  obtain h pre where pre: "prefix = h # pre"
    using assms by (cases prefix) (auto simp: packet_decode_def)
  obtain op acks c1 i c2 where op: "opcode_from_u8 (drop_bit OPCODE_SHIFT h) = Inr op"
    and len: "SID_LEN \<le> length pre"
    and da: "decode_acks (cursor_new tail) = Inr (acks, c1)"
    and di: "decode_packet_id op c1 = Inr (i, c2)"
    and p: "p = \<lparr>cp_opcode = op, cp_key_id = key_id_masked h,
              cp_session_id = SessionId (take SID_LEN pre), cp_acks = acks, cp_packet_id = i,
              cp_payload = cursor_rest c2\<rparr>"
    using assms unfolding pre packet_decode_def
    by (auto simp: bindE_eq_Inr slice_get_Some_iff Let_def split: prod.splits)
  have "reads (cursor_new tail) (encode_acks acks @ (case i of Some i \<Rightarrow> be32 i | None \<Rightarrow> [])) c2"
    using decode_acks_only [OF da] decode_packet_id_only [OF di] by (blast intro: reads_trans)
  then have "encode_tail p = tail"
    by (simp add: p encode_tail_def reads_def)
  moreover have "encode_prefix p = take (1 + SID_LEN) prefix"
    using header_byte_split [of h] op [unfolded opcode_from_u8_Inr]
    by (simp add: p pre encode_prefix_def header_byte_def key_id_masked_eq)
  moreover have "packet_ok p"
    using decode_acks_only [OF da] decode_packet_id_only [OF di] len by (auto simp: p packet_ok_def)
  ultimately show ?thesis by blast
qed

lemma key_id_next_ok: "key_id_ok (key_id_next k)"
  by (auto simp: key_id_next_def key_id_ok_def Let_def mask_le) (simp add: KEY_ID_MASK_def)

lemma key_id_next_steps:
  "key_id_next (KeyId 0) = KeyId 1" "key_id_next (KeyId 1) = KeyId 2"
  "key_id_next (KeyId 2) = KeyId 3" "key_id_next (KeyId 3) = KeyId 4"
  "key_id_next (KeyId 4) = KeyId 5" "key_id_next (KeyId 5) = KeyId 6"
  "key_id_next (KeyId 6) = KeyId 7" "key_id_next (KeyId 7) = KeyId 1"
  by (simp_all add: key_id_next_def KEY_ID_MASK_def Let_def)

lemma key_id_cases:
  "key_id_ok k \<Longrightarrow> k \<in> {KeyId 0, KeyId 1, KeyId 2, KeyId 3, KeyId 4, KeyId 5, KeyId 6, KeyId 7}"
  by (cases k) (auto simp: key_id_ok_def dest: three_bits)

text \<open>The later generations, counted from zero: \<open>next\<close> adds one modulo seven.\<close>

definition later_key :: "nat \<Rightarrow> key_id" where
  "later_key m = KeyId (of_nat (m + 1))"

lemma later_key_inject: "m < 7 \<Longrightarrow> n < 7 \<Longrightarrow> later_key m = later_key n \<longleftrightarrow> m = n"
proof -
  assume "m < 7" "n < 7"
  then have "unat (of_nat (m + 1) :: u8) = m + 1" "unat (of_nat (n + 1) :: u8) = n + 1"
    by (auto simp: unat_of_nat simp del: of_nat_add of_nat_Suc)
  then show ?thesis
    unfolding later_key_def by (metis add_right_cancel key_id.inject)
qed

lemma key_id_next_later: "m < 7 \<Longrightarrow> key_id_next (later_key m) = later_key ((m + 1) mod 7)"
proof -
  assume "m < 7"
  then have "m \<in> {0, 1, 2, 3, 4, 5, 6}" by auto
  then show ?thesis
    by (auto simp: later_key_def key_id_next_steps)
qed

lemma key_id_next_power: "m < 7 \<Longrightarrow> (key_id_next ^^ n) (later_key m) = later_key ((m + n) mod 7)"
  by (induction n) (simp_all add: key_id_next_later mod_Suc_eq)

lemma later_keyE:
  assumes "key_id_ok k" "k \<noteq> key_id_first"
  obtains m where "m < 7" "k = later_key m"
proof -
  have "k \<in> later_key ` {0, 1, 2, 3, 4, 5, 6}"
    using key_id_cases [OF assms(1)] assms(2) by (auto simp: later_key_def key_id_first_def)
  then obtain m where "m \<in> {0, 1, 2, 3, 4, 5, 6}" "k = later_key m" by (rule imageE)
  then show ?thesis using that [of m] by auto
qed

section \<open>Properties\<close>

text \<open>
  A well-formed control packet survives the wire: decoding the two parts the encoder
  writes gives the packet back, whatever its opcode, acknowledgements and payload.
\<close>

theorem control_packet_roundtrip:
  assumes "packet_ok p"
  shows "packet_decode (encode_prefix p) (encode_tail p) = Inr p"
  using assms by (rule packet_decode_encode)

definition sample_packet :: control_packet where
  "sample_packet =
     \<lparr>cp_opcode = ControlV1, cp_key_id = KeyId 3, cp_session_id = SessionId [1, 2, 3, 4, 5, 6, 7, 8],
      cp_acks = Some \<lparr>ack_ids = [5, 4], ack_session = SessionId [9, 9, 9, 9, 9, 9, 9, 9]\<rparr>,
      cp_packet_id = Some 7, cp_payload = [22, 3, 1]\<rparr>"

lemma sample_packet_ok: "packet_ok sample_packet"
  by (simp add: sample_packet_def packet_ok_def acks_ok_def key_id_ok_def KEY_ID_MASK_def
      SID_LEN_def ACKS_MAX_def carries_packet_id_def)

theorem control_packet_roundtrip_witness:
  "packet_decode (encode_prefix sample_packet) (encode_tail sample_packet) = Inr sample_packet"
  by (rule control_packet_roundtrip [OF sample_packet_ok])

text \<open>
  The decoder accepts canonical encodings only: whatever attacker-chosen bytes it accepts,
  the packet is well formed (at most eight acknowledgements, a message id exactly when the
  opcode has one) and encodes to those very bytes.
\<close>

theorem control_packet_decode_canonical:
  assumes "packet_decode prefix tail = Inr p"
  shows "packet_ok p \<and> encode_prefix p = take (1 + SID_LEN) prefix \<and> encode_tail p = tail"
  using assms by (rule packet_decode_only)

theorem control_packet_decode_canonical_witness:
  "packet_ok sample_packet \<and>
   encode_prefix sample_packet = take (1 + SID_LEN) (encode_prefix sample_packet) \<and>
   encode_tail sample_packet = encode_tail sample_packet"
  by (rule control_packet_decode_canonical [OF packet_decode_encode [OF sample_packet_ok]])

text \<open>
  An acknowledgement block without ids has no wire form of its own: the encoder writes a
  count of zero and then the session id, and no decoder run on it gives the packet back. The
  documentation says the session id is written only when there is an id to acknowledge;
  \<open>Acks::new\<close> accepts the empty list, and only the caller keeps the encoder from meeting one.
\<close>

theorem empty_ack_block_is_not_decodable:
  assumes "cp_acks p = Some a" and "ack_ids a = []"
  shows "encode_tail p = 0 # sid_bytes (ack_session a) @
           (case cp_packet_id p of Some i \<Rightarrow> be32 i | None \<Rightarrow> []) @ cp_payload p \<and>
         packet_decode (encode_prefix p) (encode_tail p) \<noteq> Inr p \<and>
         acks_new [] (ack_session a) = Inr a"
proof -
  have "\<not> packet_ok p"
    using assms by (auto simp: packet_ok_def acks_ok_def)
  moreover have "acks_new [] (ack_session a) = Inr a"
    using assms(2) by (cases a) (simp add: acks_new_def)
  ultimately show ?thesis
    using packet_decode_only assms by (auto simp: encode_tail_def encode_acks_def)
qed

definition empty_ack_packet :: control_packet where
  "empty_ack_packet =
     sample_packet\<lparr>cp_acks := Some \<lparr>ack_ids = [], ack_session = SessionId [9, 9, 9, 9, 9, 9, 9, 9]\<rparr>\<rparr>"

theorem empty_ack_block_is_not_decodable_witness:
  "packet_decode (encode_prefix empty_ack_packet) (encode_tail empty_ack_packet) \<noteq> Inr empty_ack_packet"
proof -
  have a: "cp_acks empty_ack_packet =
      Some \<lparr>ack_ids = [], ack_session = SessionId [9, 9, 9, 9, 9, 9, 9, 9]\<rparr>"
    by (simp add: empty_ack_packet_def)
  show ?thesis
    by (rule empty_ack_block_is_not_decodable [OF a, THEN conjunct2, THEN conjunct1]) simp
qed

text \<open>
  Renegotiation numbers generations 1 to 7 for ever: the next id is always a three-bit id
  other than that of the first key, and starting from any later generation the same id comes
  round exactly every seven renegotiations.
\<close>

theorem key_id_cycle:
  assumes "key_id_ok k"
  shows "key_id_ok (key_id_next k) \<and> key_id_next k \<noteq> key_id_first \<and>
         (k \<noteq> key_id_first \<longrightarrow> (\<forall>n. (key_id_next ^^ n) k = k \<longleftrightarrow> n mod 7 = 0))"
proof (intro conjI impI allI)
  show "key_id_ok (key_id_next k)"
    by (rule key_id_next_ok)
  show "key_id_next k \<noteq> key_id_first"
    using key_id_cases [OF assms] by (auto simp: key_id_first_def key_id_next_steps)
  fix n :: nat
  assume "k \<noteq> key_id_first"
  then obtain m where m: "m < 7" "k = later_key m"
    using later_keyE [OF assms] by blast
  then have "(key_id_next ^^ n) k = k \<longleftrightarrow> (m + n) mod 7 = m"
    by (simp add: key_id_next_power later_key_inject)
  also have "\<dots> \<longleftrightarrow> n mod 7 = 0"
    using m(1) by presburger
  finally show "(key_id_next ^^ n) k = k \<longleftrightarrow> n mod 7 = 0" .
qed

theorem key_id_cycle_witness:
  "key_id_next (KeyId 7) \<noteq> key_id_first \<and> (key_id_next ^^ 14) (KeyId 7) = KeyId 7"
  using key_id_cycle [of "KeyId 7"]
  by (simp add: key_id_ok_def KEY_ID_MASK_def key_id_first_def)

end
