(* ===== verification/Ordered_Map.thy ===== *)
theory Ordered_Map
  imports Prelude
begin

text \<open>
  The part of \<open>std::collections::BTreeMap\<close> the client uses: insert, remove, get, iteration in
  key order and in-place mutation of the values. A map is its list of entries in key order. The
  interface \<open>ordered_map\<close> states what the windows rely on, and is interpreted here.
\<close>

type_synonym ('k, 'v) btree = "('k \<times> 'v) list"

definition bt_get :: "'k \<Rightarrow> ('k, 'v) btree \<Rightarrow> 'v option" where
  "bt_get k m = map_of m k"

fun bt_insert :: "'k::linorder \<Rightarrow> 'v \<Rightarrow> ('k, 'v) btree \<Rightarrow> ('k, 'v) btree" where
  "bt_insert k v [] = [(k, v)]"
| "bt_insert k v ((j, u) # m) =
     (if k < j then (k, v) # (j, u) # m
      else if k = j then (k, v) # m
      else (j, u) # bt_insert k v m)"

definition bt_remove :: "'k \<Rightarrow> ('k, 'v) btree \<Rightarrow> ('k, 'v) btree" where
  "bt_remove k m = filter (\<lambda>(j, _). j \<noteq> k) m"

text \<open>\<open>for (k, v) in map.iter_mut()\<close>: every value may change, no key does.\<close>

definition bt_map :: "('k \<Rightarrow> 'v \<Rightarrow> 'v) \<Rightarrow> ('k, 'v) btree \<Rightarrow> ('k, 'v) btree" where
  "bt_map f m = map (\<lambda>(k, v). (k, f k v)) m"

definition bt_keys :: "('k, 'v) btree \<Rightarrow> 'k list" where
  "bt_keys m = map fst m"

definition bt_ok :: "('k::linorder, 'v) btree \<Rightarrow> bool" where
  "bt_ok m \<longleftrightarrow> sorted_wrt (<) (bt_keys m)"

section \<open>The interface\<close>

locale ordered_map =
  fixes empty :: 'm
    and get :: "'k::linorder \<Rightarrow> 'm \<Rightarrow> 'v option"
    and insert :: "'k \<Rightarrow> 'v \<Rightarrow> 'm \<Rightarrow> 'm"
    and remove :: "'k \<Rightarrow> 'm \<Rightarrow> 'm"
    and update :: "('k \<Rightarrow> 'v \<Rightarrow> 'v) \<Rightarrow> 'm \<Rightarrow> 'm"
    and keys :: "'m \<Rightarrow> 'k list"
    and ok :: "'m \<Rightarrow> bool"
  assumes ok_empty: "ok empty"
    and ok_insert: "ok m \<Longrightarrow> ok (insert k v m)"
    and ok_remove: "ok m \<Longrightarrow> ok (remove k m)"
    and ok_update: "ok m \<Longrightarrow> ok (update f m)"
    and get_empty: "get k empty = None"
    and get_insert: "ok m \<Longrightarrow> get j (insert k v m) = (if j = k then Some v else get j m)"
    and get_remove: "ok m \<Longrightarrow> get j (remove k m) = (if j = k then None else get j m)"
    and get_update: "ok m \<Longrightarrow> get k (update f m) = map_option (f k) (get k m)"
    and keys_get: "ok m \<Longrightarrow> k \<in> set (keys m) \<longleftrightarrow> get k m \<noteq> None"
    and keys_sorted: "ok m \<Longrightarrow> sorted_wrt (<) (keys m)"
begin

lemma keys_distinct: "ok m \<Longrightarrow> distinct (keys m)"
  using keys_sorted strict_sorted_iff by blast

lemma first_key_least: "ok m \<Longrightarrow> keys m = k # ks \<Longrightarrow> get j m \<noteq> None \<Longrightarrow> k \<le> j"
  using keys_sorted [of m] keys_get [of m j] by auto

lemma keys_empty_iff: "ok m \<Longrightarrow> keys m = [] \<longleftrightarrow> (\<forall>k. get k m = None)"
  using keys_get [of m] by (cases "keys m") force+

lemma length_keys: "ok m \<Longrightarrow> length (keys m) = card {k. get k m \<noteq> None}"
proof -
  assume m: "ok m"
  then have "{k. get k m \<noteq> None} = set (keys m)"
    using keys_get by blast
  then show ?thesis
    using distinct_card [OF keys_distinct [OF m]] by simp
qed

lemma length_keys_insert:
  "ok m \<Longrightarrow> length (keys (insert k v m)) = (if get k m = None then Suc (length (keys m)) else length (keys m))"
proof -
  assume m: "ok m"
  have "{j. get j (insert k v m) \<noteq> None} = Set.insert k {j. get j m \<noteq> None}"
    using m by (auto simp: get_insert)
  moreover have "finite {j. get j m \<noteq> None}"
    using keys_get [OF m] by (metis (mono_tags, lifting) List.finite_set mem_Collect_eq rev_finite_subset subsetI)
  ultimately show ?thesis
    using m by (simp add: length_keys ok_insert card_insert_if)
qed

lemma length_keys_remove_le: "ok m \<Longrightarrow> length (keys (remove k m)) \<le> length (keys m)"
proof -
  assume m: "ok m"
  have "finite {j. get j m \<noteq> None}"
    using keys_get [OF m] by (metis (mono_tags, lifting) List.finite_set mem_Collect_eq rev_finite_subset subsetI)
  then show ?thesis
    using m by (auto simp: length_keys ok_remove get_remove intro!: card_mono)
qed

end

section \<open>The interpretation\<close>

lemma bt_keys_insert: "set (bt_keys (bt_insert k v m)) = insert k (set (bt_keys m))"
  by (induction k v m rule: bt_insert.induct) (auto simp: bt_keys_def)

lemma bt_get_keys: "bt_get k m = None \<longleftrightarrow> k \<notin> set (bt_keys m)"
  by (auto simp: bt_get_def bt_keys_def map_of_eq_None_iff image_iff)

interpretation bt: ordered_map "[]" bt_get bt_insert bt_remove bt_map bt_keys bt_ok
proof
  show "bt_ok []"
    by (simp add: bt_ok_def bt_keys_def)
  show "bt_ok (bt_insert k v m)" if "bt_ok m" for k v and m :: "('a::linorder, 'b) btree"
    using that
  proof (induction k v m rule: bt_insert.induct)
    case (2 k v j u m)
    then show ?case
      using bt_keys_insert [of k v m] by (auto simp: bt_ok_def bt_keys_def)
  qed (simp add: bt_ok_def bt_keys_def)
  show "bt_ok (bt_remove k m)" if "bt_ok m" for k and m :: "('a::linorder, 'b) btree"
    using that by (induction m) (auto simp: bt_ok_def bt_keys_def bt_remove_def)
  show "bt_ok (bt_map f m)" if "bt_ok m" for f and m :: "('a::linorder, 'b) btree"
    using that by (simp add: bt_ok_def bt_keys_def bt_map_def comp_def split_beta)
  show "bt_get k [] = None" for k :: 'a
    by (simp add: bt_get_def)
  show "bt_get j (bt_insert k v m) = (if j = k then Some v else bt_get j m)"
    if "bt_ok m" for j k v and m :: "('a::linorder, 'b) btree"
    using that by (induction k v m rule: bt_insert.induct) (auto simp: bt_get_def bt_ok_def bt_keys_def)
  show "bt_get j (bt_remove k m) = (if j = k then None else bt_get j m)"
    if "bt_ok m" for j k and m :: "('a::linorder, 'b) btree"
    using that by (induction m) (auto simp: bt_get_def bt_remove_def bt_ok_def bt_keys_def)
  show "bt_get k (bt_map f m) = map_option (f k) (bt_get k m)"
    if "bt_ok m" for k f and m :: "('a::linorder, 'b) btree"
    by (induction m) (auto simp: bt_get_def bt_map_def)
  show "k \<in> set (bt_keys m) \<longleftrightarrow> bt_get k m \<noteq> None"
    if "bt_ok m" for k and m :: "('a::linorder, 'b) btree"
    by (simp add: bt_get_keys)
  show "sorted_wrt (<) (bt_keys m)" if "bt_ok m" for m :: "('a::linorder, 'b) btree"
    using that by (simp add: bt_ok_def)
qed

lemmas bt_simps [simp] =
  bt.ok_empty bt.ok_insert bt.ok_remove bt.ok_update bt.get_empty bt.get_insert bt.get_remove
  bt.get_update

lemma bt_keys_map [simp]: "bt_keys (bt_map f m) = bt_keys m"
  by (simp add: bt_keys_def bt_map_def comp_def split_beta)

lemma length_bt_keys [simp]: "length (bt_keys m) = length m"
  by (simp add: bt_keys_def)

lemma bt_get_in: "bt_ok m \<Longrightarrow> (k, v) \<in> set m \<longleftrightarrow> bt_get k m = Some v"
  using bt.keys_distinct [of m] by (simp add: bt_get_def bt_keys_def map_of_eq_Some_iff)

end
