(* ===== verification/Reliable.thy ===== *)
theory Reliable
  imports Packet Ordered_Map
begin

text \<open>
  The retransmission layer of \<open>reliable.rs\<close>: \<open>SendWindow\<close>, which keeps outgoing control
  messages until they are acknowledged and decides when each goes out again, and
  \<open>RecvWindow\<close>, which puts incoming ones back in order and remembers what to acknowledge.
  Each operation keeps the window's invariant. The protocol of the two windows over a lossy
  network is in the theory \<open>Reliable_Link\<close>.
\<close>

section \<open>The send window\<close>

record outgoing =
  out_opcode :: opcode
  out_packet_id :: u32
  out_payload :: bytes

record in_flight =
  if_opcode :: opcode
  if_payload :: bytes
  if_next_try :: "instant option"
  if_timeout :: duration
  if_later_acks :: u8

record send_window =
  sw_in_flight :: "(u32, in_flight) btree"
  sw_next_id :: u32
  sw_initial_timeout :: duration

definition SEND_CAPACITY :: nat where
  "SEND_CAPACITY = 6"

definition FAST_RETRANSMIT_AFTER :: u8 where
  "FAST_RETRANSMIT_AFTER = 3"

definition sw_new :: "duration \<Rightarrow> send_window" where
  "sw_new t = \<lparr>sw_in_flight = [], sw_next_id = 0, sw_initial_timeout = t\<rparr>"

definition sw_is_full :: "send_window \<Rightarrow> bool" where
  "sw_is_full w =
     (if length (sw_in_flight w) \<ge> SEND_CAPACITY then True
      else case bt_keys (sw_in_flight w) of
             oldest # _ \<Rightarrow> sw_next_id w - oldest \<ge> of_nat SEND_CAPACITY
           | [] \<Rightarrow> False)"

definition sw_queue :: "opcode \<Rightarrow> bytes \<Rightarrow> send_window \<Rightarrow> u32 option \<times> send_window" where
  "sw_queue op payload w =
     (if sw_is_full w then (None, w)
      else
        let i = sw_next_id w in
        (Some i,
         w\<lparr>sw_next_id := sw_next_id w + 1,
           sw_in_flight := bt_insert i
             \<lparr>if_opcode = op, if_payload = payload, if_next_try = None,
              if_timeout = sw_initial_timeout w, if_later_acks = 0\<rparr> (sw_in_flight w)\<rparr>))"

definition is_due :: "instant \<Rightarrow> u8 \<Rightarrow> in_flight \<Rightarrow> bool" where
  "is_due now fast_retransmit_after e =
     (case if_next_try e of
        None \<Rightarrow> True
      | Some at \<Rightarrow> now \<ge> at \<or> if_later_acks e \<ge> fast_retransmit_after)"

definition sent_again :: "instant \<Rightarrow> in_flight \<Rightarrow> in_flight" where
  "sent_again now e =
     e\<lparr>if_next_try := Some (now + if_timeout e), if_timeout := if_timeout e * 2, if_later_acks := 0\<rparr>"

definition sw_next_due :: "instant \<Rightarrow> send_window \<Rightarrow> outgoing option \<times> send_window" where
  "sw_next_due now w =
     (case find (\<lambda>(_, e). is_due now FAST_RETRANSMIT_AFTER e) (sw_in_flight w) of
        None \<Rightarrow> (None, w)
      | Some (i, e) \<Rightarrow>
          (Some \<lparr>out_opcode = if_opcode e, out_packet_id = i, out_payload = if_payload e\<rparr>,
           w\<lparr>sw_in_flight := bt_map (\<lambda>k v. if k = i then sent_again now v else v) (sw_in_flight w)\<rparr>))"

definition wake_at :: "instant \<Rightarrow> in_flight \<Rightarrow> instant" where
  "wake_at now e =
     (if is_due now FAST_RETRANSMIT_AFTER e then now
      else case if_next_try e of Some at \<Rightarrow> at | None \<Rightarrow> now)"

definition min_option :: "nat list \<Rightarrow> nat option" where
  "min_option ts = (case ts of [] \<Rightarrow> None | t # ts' \<Rightarrow> Some (fold min ts' t))"

definition sw_next_wakeup :: "instant \<Rightarrow> send_window \<Rightarrow> instant option" where
  "sw_next_wakeup now w = min_option (map (\<lambda>(_, e). wake_at now e) (sw_in_flight w))"

definition saturating_inc :: "u8 \<Rightarrow> u8" where
  "saturating_inc v = (if v = 255 then 255 else v + 1)"

definition sw_acknowledge_one :: "u32 \<Rightarrow> send_window \<Rightarrow> send_window" where
  "sw_acknowledge_one i w =
     (case bt_get i (sw_in_flight w) of
        None \<Rightarrow> w
      | Some _ \<Rightarrow>
          w\<lparr>sw_in_flight :=
              bt_map (\<lambda>pending e. if pending < i
                                  then e\<lparr>if_later_acks := saturating_inc (if_later_acks e)\<rparr> else e)
                (bt_remove i (sw_in_flight w))\<rparr>)"

definition sw_acknowledge :: "u32 list \<Rightarrow> send_window \<Rightarrow> send_window" where
  "sw_acknowledge ids w = fold sw_acknowledge_one ids w"

section \<open>The receive window\<close>

datatype delivery = Buffered | Duplicate | OutOfWindow

fun should_acknowledge :: "delivery \<Rightarrow> bool" where
  "should_acknowledge Buffered = True"
| "should_acknowledge Duplicate = True"
| "should_acknowledge OutOfWindow = False"

record recv_window =
  rv_buffered :: "(u32, opcode \<times> bytes) btree"
  rv_next_expected :: u32
  rv_pending_acks :: "u32 list"
  rv_recent_acks :: "u32 list"

definition RECV_CAPACITY :: nat where
  "RECV_CAPACITY = 12"

definition RECENT_ACKS :: nat where
  "RECENT_ACKS = 8"

definition rv_new :: recv_window where
  "rv_new = \<lparr>rv_buffered = [], rv_next_expected = 0, rv_pending_acks = [], rv_recent_acks = []\<rparr>"

definition rv_in_window :: "u32 \<Rightarrow> recv_window \<Rightarrow> bool" where
  "rv_in_window i w \<longleftrightarrow> i < rv_next_expected w + of_nat RECV_CAPACITY"

definition rv_accept :: "u32 \<Rightarrow> opcode \<Rightarrow> bytes \<Rightarrow> recv_window \<Rightarrow> delivery \<times> recv_window" where
  "rv_accept i op payload w =
     (if \<not> rv_in_window i w then (OutOfWindow, w)
      else
        let (verdict, w') =
          (if i < rv_next_expected w \<or> bt_get i (rv_buffered w) \<noteq> None then (Duplicate, w)
           else (Buffered, w\<lparr>rv_buffered := bt_insert i (op, payload) (rv_buffered w)\<rparr>))
        in (verdict,
            if should_acknowledge verdict \<and> i \<notin> set (rv_pending_acks w')
            then w'\<lparr>rv_pending_acks := rv_pending_acks w' @ [i]\<rparr> else w'))"

definition rv_next_in_order :: "recv_window \<Rightarrow> (opcode \<times> bytes) option \<times> recv_window" where
  "rv_next_in_order w =
     (case bt_get (rv_next_expected w) (rv_buffered w) of
        None \<Rightarrow> (None, w)
      | Some message \<Rightarrow>
          (Some message,
           w\<lparr>rv_buffered := bt_remove (rv_next_expected w) (rv_buffered w),
             rv_next_expected := rv_next_expected w + 1\<rparr>))"

definition rv_owes_acks :: "recv_window \<Rightarrow> bool" where
  "rv_owes_acks w \<longleftrightarrow> rv_pending_acks w \<noteq> []"

definition promote_ack :: "u32 \<Rightarrow> u32 list \<Rightarrow> u32 list" where
  "promote_ack i recent = i # filter (\<lambda>r. r \<noteq> i) recent"

definition rv_take_acks :: "nat \<Rightarrow> recv_window \<Rightarrow> u32 list \<times> recv_window" where
  "rv_take_acks mx w =
     (let room = min mx RECENT_ACKS;
          taking = min (length (rv_pending_acks w)) room;
          promoting = take taking (rv_pending_acks w);
          recent = take RECENT_ACKS (fold promote_ack (rev promoting) (rv_recent_acks w))
      in (take room recent,
          w\<lparr>rv_pending_acks := drop taking (rv_pending_acks w), rv_recent_acks := recent\<rparr>))"

section \<open>Invariants\<close>

text \<open>
  The window the peer counts on: nothing in flight is more than \<open>SEND_CAPACITY\<close> behind the next
  id. Ids are compared as numbers, as the code does; the counter reaches \<open>2^32\<close> only after four
  billion messages, and every result below that depends on it says so.
\<close>

definition sw_ok :: "send_window \<Rightarrow> bool" where
  "sw_ok w \<longleftrightarrow> bt_ok (sw_in_flight w) \<and> length (sw_in_flight w) \<le> SEND_CAPACITY \<and>
     (\<forall>i. bt_get i (sw_in_flight w) \<noteq> None \<longrightarrow>
        unat i < unat (sw_next_id w) \<and> unat (sw_next_id w) \<le> unat i + SEND_CAPACITY)"

lemma sw_ok_new: "sw_ok (sw_new t)"
  by (simp add: sw_ok_def sw_new_def)

lemma sw_not_full_span:
  assumes "sw_ok w" "\<not> sw_is_full w" "bt_get i (sw_in_flight w) \<noteq> None"
  shows "unat (sw_next_id w) < unat i + SEND_CAPACITY"
proof -
  have ok: "bt_ok (sw_in_flight w)" using assms(1) by (simp add: sw_ok_def)
  obtain oldest ks where ks: "bt_keys (sw_in_flight w) = oldest # ks"
    using assms(3) bt.keys_empty_iff [OF ok] by (cases "bt_keys (sw_in_flight w)") auto
  then have o: "bt_get oldest (sw_in_flight w) \<noteq> None"
    using bt.keys_get [OF ok, of oldest] by simp
  have lt: "unat oldest < unat (sw_next_id w)"
    using assms(1) o by (simp add: sw_ok_def)
  have "\<not> of_nat SEND_CAPACITY \<le> sw_next_id w - oldest"
    using assms(2) ks by (auto simp: sw_is_full_def split: if_splits)
  then have "unat (sw_next_id w) - unat oldest < SEND_CAPACITY"
    using lt by (simp add: word_le_nat_alt unat_sub SEND_CAPACITY_def)
  moreover have "unat oldest \<le> unat i"
    using bt.first_key_least [OF ok ks assms(3)] by (simp add: word_le_nat_alt)
  ultimately show ?thesis by arith
qed

lemma sw_queue_id: "sw_queue op pl w = (Some i, w') \<Longrightarrow> i = sw_next_id w \<and> \<not> sw_is_full w"
  by (auto simp: sw_queue_def Let_def split: if_splits)

lemma sw_ok_queue:
  assumes ok: "sw_ok w" and wrap: "unat (sw_next_id w) + 1 < 2 ^ 32"
    and q: "sw_queue op pl w = (r, w')"
  shows "sw_ok w'"
proof (cases "sw_is_full w")
  case True
  with q ok show ?thesis by (simp add: sw_queue_def)
next
  case False
  have bt: "bt_ok (sw_in_flight w)" using ok by (simp add: sw_ok_def)
  have fresh: "bt_get (sw_next_id w) (sw_in_flight w) = None"
    using ok by (auto simp: sw_ok_def)
  have n: "unat (sw_next_id w + 1) = unat (sw_next_id w) + 1"
    using wrap by (simp add: unat_word_add_1)
  have len: "length (sw_in_flight w) < SEND_CAPACITY"
    using False by (auto simp: sw_is_full_def split: if_splits)
  have "unat i < unat (sw_next_id w) + 1 \<and> unat (sw_next_id w) + 1 \<le> unat i + SEND_CAPACITY"
    if "bt_get i (sw_in_flight w) \<noteq> None" for i
    using sw_not_full_span [OF ok False that] ok that by (auto simp: sw_ok_def)
  with False q bt fresh len n show ?thesis
    using bt.length_keys_insert [OF bt, of "sw_next_id w"]
    by (auto simp: sw_queue_def sw_ok_def Let_def SEND_CAPACITY_def split: if_splits)
qed

lemma bt_map_id: "bt_map (\<lambda>k e. e) m = m"
  by (simp add: bt_map_def split_beta)

lemma sw_next_due_shape:
  assumes "sw_next_due now w = (r, w')"
  shows "\<exists>f. sw_in_flight w' = bt_map f (sw_in_flight w) \<and> sw_next_id w' = sw_next_id w \<and>
           sw_initial_timeout w' = sw_initial_timeout w \<and>
           (\<forall>k e. if_opcode (f k e) = if_opcode e \<and> if_payload (f k e) = if_payload e)"
proof (cases "find (\<lambda>(_, e). is_due now FAST_RETRANSMIT_AFTER e) (sw_in_flight w)")
  case None
  with assms show ?thesis
    by (intro exI [of _ "\<lambda>k e. e"]) (simp add: sw_next_due_def bt_map_id)
next
  case (Some p)
  with assms show ?thesis
    by (intro exI [of _ "\<lambda>k v. if k = fst p then sent_again now v else v"])
      (auto simp: sw_next_due_def sent_again_def split_beta)
qed

lemma sw_ok_map:
  "sw_ok w \<Longrightarrow> sw_in_flight w' = bt_map f (sw_in_flight w) \<Longrightarrow> sw_next_id w' = sw_next_id w \<Longrightarrow> sw_ok w'"
  by (auto simp: sw_ok_def) (simp add: bt_map_def)

lemma sw_ok_next_due: "sw_ok w \<Longrightarrow> sw_next_due now w = (r, w') \<Longrightarrow> sw_ok w'"
  using sw_next_due_shape sw_ok_map by blast

lemma sw_ok_acknowledge_one: "sw_ok w \<Longrightarrow> sw_ok (sw_acknowledge_one i w)"
proof (cases "bt_get i (sw_in_flight w)")
  case (Some e)
  assume ok: "sw_ok w"
  then have "length (bt_remove i (sw_in_flight w)) \<le> SEND_CAPACITY"
    using bt.length_keys_remove_le [of "sw_in_flight w" i] by (auto simp: sw_ok_def)
  with Some ok show ?thesis
    by (auto simp: sw_acknowledge_one_def sw_ok_def split: if_splits) (simp add: bt_map_def)
qed (simp add: sw_acknowledge_one_def)

lemma sw_ok_acknowledge: "sw_ok w \<Longrightarrow> sw_ok (sw_acknowledge ids w)"
  unfolding sw_acknowledge_def by (induction ids arbitrary: w) (auto simp: sw_ok_acknowledge_one)

section \<open>When a message goes out\<close>

lemma min_option_None [simp]: "min_option ts = None \<longleftrightarrow> ts = []"
  by (cases ts) (simp_all add: min_option_def)

lemma min_option_Some: "min_option ts = Some m \<longleftrightarrow> ts \<noteq> [] \<and> m = Min (set ts)"
  by (cases ts) (auto simp: min_option_def Min.set_eq_fold [symmetric])

lemma is_due_mono: "is_due now f e \<Longrightarrow> now \<le> u \<Longrightarrow> is_due u f e"
  by (auto simp: is_due_def split: option.splits)

lemma wake_at_ge: "now \<le> wake_at now e"
  by (auto simp: wake_at_def is_due_def split: option.splits)

lemma wake_at_due: "is_due (wake_at now e) FAST_RETRANSMIT_AFTER e"
  by (auto simp: wake_at_def is_due_def split: option.splits)

lemma not_due_before_wake_at: "now \<le> u \<Longrightarrow> u < wake_at now e \<Longrightarrow> \<not> is_due u FAST_RETRANSMIT_AFTER e"
  by (auto simp: wake_at_def is_due_def split: option.splits if_splits)

lemma sw_next_due_None:
  "fst (sw_next_due now w) = None \<longleftrightarrow>
     (\<forall>(k, e) \<in> set (sw_in_flight w). \<not> is_due now FAST_RETRANSMIT_AFTER e)"
proof -
  have "fst (sw_next_due now w) = None \<longleftrightarrow>
        find (\<lambda>(_, e). is_due now FAST_RETRANSMIT_AFTER e) (sw_in_flight w) = None"
    by (auto simp: sw_next_due_def split: option.splits)
  then show ?thesis by (auto simp: find_None_iff)
qed

lemma find_first_key:
  assumes "bt_ok m" "find P m = Some (i, e)"
  shows "bt_get i m = Some e \<and> P (i, e) \<and> (\<forall>j v. j < i \<longrightarrow> bt_get j m = Some v \<longrightarrow> \<not> P (j, v))"
  using assms
proof (induction m)
  case (Cons p m)
  have ok: "bt_ok m" and hd: "\<forall>j \<in> set (bt_keys m). fst p < j"
    using Cons.prems(1) by (auto simp: bt_ok_def bt_keys_def)
  show ?case
  proof (cases "P p")
    case True
    then have "p = (i, e)" using Cons.prems(2) by simp
    with True hd show ?thesis
      by (force simp: bt_get_def bt_keys_def dest: map_of_SomeD)
  next
    case False
    then have f: "find P m = Some (i, e)" using Cons.prems(2) by simp
    note ih = Cons.IH [OF ok f]
    then have "i \<in> set (bt_keys m)"
      using bt.keys_get [OF ok] by auto
    with hd have "fst p < i" by blast
    with ih False show ?thesis
      by (cases p) (auto simp: bt_get_def)
  qed
qed simp

lemma sw_next_due_Some:
  assumes "bt_ok (sw_in_flight w)" "sw_next_due now w = (Some out, w')"
  obtains e where "bt_get (out_packet_id out) (sw_in_flight w) = Some e"
    "out_opcode out = if_opcode e" "out_payload out = if_payload e"
    "is_due now FAST_RETRANSMIT_AFTER e"
    "\<And>j v. j < out_packet_id out \<Longrightarrow> bt_get j (sw_in_flight w) = Some v \<Longrightarrow>
       \<not> is_due now FAST_RETRANSMIT_AFTER v"
    "sw_in_flight w' =
       bt_map (\<lambda>k v. if k = out_packet_id out then sent_again now v else v) (sw_in_flight w)"
proof -
  obtain i e where f: "find (\<lambda>(_, e). is_due now FAST_RETRANSMIT_AFTER e) (sw_in_flight w) = Some (i, e)"
    and out: "out = \<lparr>out_opcode = if_opcode e, out_packet_id = i, out_payload = if_payload e\<rparr>"
    and w': "sw_in_flight w' = bt_map (\<lambda>k v. if k = i then sent_again now v else v) (sw_in_flight w)"
    using assms(2) by (auto simp: sw_next_due_def split: option.splits)
  show ?thesis
    using find_first_key [OF assms(1) f] out w' by (intro that [of e]) auto
qed

section \<open>Acknowledgements\<close>

lemma sw_acknowledge_one_get:
  assumes "bt_ok (sw_in_flight w)"
  shows "map_option (\<lambda>e. (if_opcode e, if_payload e)) (bt_get j (sw_in_flight (sw_acknowledge_one i w))) =
         (if j = i then None
          else map_option (\<lambda>e. (if_opcode e, if_payload e)) (bt_get j (sw_in_flight w)))"
  using assms
  by (cases "bt_get j (sw_in_flight w)") (auto simp: sw_acknowledge_one_def split: option.splits)

lemma sw_acknowledge_one_ok: "bt_ok (sw_in_flight w) \<Longrightarrow> bt_ok (sw_in_flight (sw_acknowledge_one i w))"
  by (auto simp: sw_acknowledge_one_def split: option.splits)

lemma sw_acknowledge_get:
  "bt_ok (sw_in_flight w) \<Longrightarrow>
   map_option (\<lambda>e. (if_opcode e, if_payload e)) (bt_get j (sw_in_flight (sw_acknowledge ids w))) =
     (if j \<in> set ids then None
      else map_option (\<lambda>e. (if_opcode e, if_payload e)) (bt_get j (sw_in_flight w)))"
  unfolding sw_acknowledge_def
proof (induction ids arbitrary: w)
  case (Cons i ids)
  then show ?case
    using Cons.IH [OF sw_acknowledge_one_ok [OF Cons.prems, of i]]
      sw_acknowledge_one_get [OF Cons.prems, of j i] by auto
qed simp

lemma sw_acknowledge_next_id [simp]: "sw_next_id (sw_acknowledge ids w) = sw_next_id w"
  unfolding sw_acknowledge_def
  by (induction ids arbitrary: w) (auto simp: sw_acknowledge_one_def split: option.splits)

lemma promote_acks_eq:
  "distinct new \<Longrightarrow> fold promote_ack (rev new) recent = new @ filter (\<lambda>r. r \<notin> set new) recent"
proof (induction new)
  case (Cons i new)
  have "filter (\<lambda>r. r \<noteq> i) (new @ filter (\<lambda>r. r \<notin> set new) recent) =
        new @ filter (\<lambda>r. r \<notin> set (i # new)) recent"
    using Cons.prems by (auto simp: filter_id_conv conj_commute intro: filter_cong)
  with Cons show ?case
    by (simp add: promote_ack_def)
qed simp

section \<open>The receive window's invariant\<close>

definition rv_ok :: "recv_window \<Rightarrow> bool" where
  "rv_ok w \<longleftrightarrow> bt_ok (rv_buffered w) \<and>
     (\<forall>i. bt_get i (rv_buffered w) \<noteq> None \<longrightarrow>
        unat (rv_next_expected w) \<le> unat i \<and> unat i < unat (rv_next_expected w) + RECV_CAPACITY) \<and>
     distinct (rv_pending_acks w) \<and> distinct (rv_recent_acks w) \<and>
     length (rv_recent_acks w) \<le> RECENT_ACKS"

lemma rv_ok_new: "rv_ok rv_new"
  by (simp add: rv_ok_def rv_new_def)

lemma rv_in_window_nat:
  assumes "unat (rv_next_expected w) + RECV_CAPACITY < 2 ^ 32"
  shows "rv_in_window i w \<longleftrightarrow> unat i < unat (rv_next_expected w) + RECV_CAPACITY"
proof -
  have "unat (rv_next_expected w + of_nat RECV_CAPACITY) = unat (rv_next_expected w) + RECV_CAPACITY"
    using assms by (simp add: RECV_CAPACITY_def unat_word_ariths(1))
  then show ?thesis
    by (simp add: rv_in_window_def word_less_nat_alt)
qed

lemma rv_ok_accept:
  assumes "rv_ok w" "unat (rv_next_expected w) + RECV_CAPACITY < 2 ^ 32"
    and "rv_accept i op pl w = (d, w')"
  shows "rv_ok w'"
  using assms
  by (auto simp: rv_accept_def rv_ok_def rv_in_window_nat Let_def word_less_nat_alt split: if_splits)

lemma rv_accept_effect:
  assumes "rv_accept i op pl w = (d, w')"
  shows "rv_next_expected w' = rv_next_expected w" "rv_recent_acks w' = rv_recent_acks w"
    and "set (rv_pending_acks w') =
           (if d = OutOfWindow then {} else {i}) \<union> set (rv_pending_acks w)"
    and "rv_buffered w' =
           (if d = Buffered then bt_insert i (op, pl) (rv_buffered w) else rv_buffered w)"
    and "d = OutOfWindow \<longleftrightarrow> \<not> rv_in_window i w"
    and "d = Duplicate \<Longrightarrow> i < rv_next_expected w \<or> bt_get i (rv_buffered w) \<noteq> None"
    and "d = Buffered \<Longrightarrow> \<not> i < rv_next_expected w \<and> bt_get i (rv_buffered w) = None"
  using assms by (auto simp: rv_accept_def Let_def split: if_splits simp del: split_paired_Ex split_paired_All)

lemma rv_next_in_order_effect:
  assumes "rv_next_in_order w = (Some m, w')"
  shows "bt_get (rv_next_expected w) (rv_buffered w) = Some m"
    and "rv_next_expected w' = rv_next_expected w + 1"
    and "rv_buffered w' = bt_remove (rv_next_expected w) (rv_buffered w)"
    and "rv_pending_acks w' = rv_pending_acks w" "rv_recent_acks w' = rv_recent_acks w"
  using assms by (auto simp: rv_next_in_order_def split: option.splits)

lemma rv_ok_next_in_order:
  assumes "rv_ok w" "unat (rv_next_expected w) + 1 < 2 ^ 32"
    and "rv_next_in_order w = (m, w')"
  shows "rv_ok w'"
proof (cases "bt_get (rv_next_expected w) (rv_buffered w)")
  case None
  with assms show ?thesis by (simp add: rv_next_in_order_def)
next
  case (Some x)
  have n: "unat (rv_next_expected w + 1) = unat (rv_next_expected w) + 1"
    using assms(2) by (simp add: unat_word_add_1)
  have later: "unat (rv_next_expected w) < unat i"
    if "bt_get i (rv_buffered w) \<noteq> None" "i \<noteq> rv_next_expected w" for i
  proof -
    have "unat i \<noteq> unat (rv_next_expected w)"
      using that(2) unsigned_word_eqI by metis
    moreover have "unat (rv_next_expected w) \<le> unat i"
      using assms(1) that(1) by (auto simp: rv_ok_def)
    ultimately show ?thesis by simp
  qed
  have w': "w' = w\<lparr>rv_buffered := bt_remove (rv_next_expected w) (rv_buffered w),
              rv_next_expected := rv_next_expected w + 1\<rparr>"
    using Some assms(3) by (simp add: rv_next_in_order_def)
  have "unat (rv_next_expected w') \<le> unat i \<and> unat i < unat (rv_next_expected w') + RECV_CAPACITY"
    if "bt_get i (rv_buffered w') \<noteq> None" for i
  proof -
    have i: "bt_get i (rv_buffered w) \<noteq> None" "i \<noteq> rv_next_expected w"
      using that assms(1) by (auto simp: w' rv_ok_def split: if_splits)
    then have "unat i < unat (rv_next_expected w) + RECV_CAPACITY"
      using assms(1) by (auto simp: rv_ok_def)
    with later [OF i] n show ?thesis by (simp add: w')
  qed
  with assms(1) show ?thesis by (simp add: w' rv_ok_def)
qed

lemma rv_take_acks_eq:
  assumes "rv_ok w" "rv_take_acks mx w = (ids, w')"
  defines "n \<equiv> min (length (rv_pending_acks w)) (min mx RECENT_ACKS)"
  shows "rv_pending_acks w' = drop n (rv_pending_acks w)"
    and "rv_recent_acks w' = take RECENT_ACKS (take n (rv_pending_acks w) @
           filter (\<lambda>r. r \<notin> set (take n (rv_pending_acks w))) (rv_recent_acks w))"
    and "ids = take (min mx RECENT_ACKS) (rv_recent_acks w')"
    and "rv_buffered w' = rv_buffered w" and "rv_next_expected w' = rv_next_expected w"
  using assms by (auto simp: rv_take_acks_def rv_ok_def Let_def promote_acks_eq)

lemma rv_ok_take_acks:
  assumes "rv_ok w" "rv_take_acks mx w = (ids, w')"
  shows "rv_ok w'"
proof -
  define new where "new = take (min (length (rv_pending_acks w)) (min mx RECENT_ACKS)) (rv_pending_acks w)"
  have "distinct (new @ filter (\<lambda>r. r \<notin> set new) (rv_recent_acks w))"
    using assms(1) by (auto simp: rv_ok_def new_def)
  moreover have "rv_recent_acks w' =
      take RECENT_ACKS (new @ filter (\<lambda>r. r \<notin> set new) (rv_recent_acks w))"
    using rv_take_acks_eq(2) [OF assms] by (simp only: new_def)
  ultimately have "distinct (rv_recent_acks w')" "length (rv_recent_acks w') \<le> RECENT_ACKS"
    by (simp_all del: take_append filter_append)
  then show ?thesis
    using assms(1) rv_take_acks_eq(1,4,5) [OF assms] by (simp add: rv_ok_def)
qed

section \<open>Properties\<close>

text \<open>What a caller may do to a send window, one call at a time.\<close>

datatype send_op = CallQueue opcode bytes | CallNextDue instant | CallAcknowledge "u32 list"

fun send_call :: "send_op \<Rightarrow> send_window \<Rightarrow> send_window" where
  "send_call (CallQueue op payload) w = snd (sw_queue op payload w)"
| "send_call (CallNextDue now) w = snd (sw_next_due now w)"
| "send_call (CallAcknowledge ids) w = sw_acknowledge ids w"

lemma send_call_next_id:
  assumes "unat (sw_next_id w) + 1 < 2 ^ 32"
  shows "unat (sw_next_id (send_call c w)) \<le> unat (sw_next_id w) + 1"
proof (cases c)
  case (CallQueue op pl)
  then show ?thesis
    using assms by (simp add: sw_queue_def Let_def unat_word_add_1)
next
  case (CallNextDue now)
  then show ?thesis
    using sw_next_due_shape [of now w] by (metis add.commute le_add2 prod.collapse send_call.simps(2))
qed simp

lemma send_call_ok: "sw_ok w \<Longrightarrow> unat (sw_next_id w) + 1 < 2 ^ 32 \<Longrightarrow> sw_ok (send_call c w)"
  by (cases c)
    (auto intro: sw_ok_queue sw_ok_next_due sw_ok_acknowledge prod.collapse [symmetric])

lemma send_calls_ok:
  "sw_ok w \<Longrightarrow> unat (sw_next_id w) + length cs < 2 ^ 32 \<Longrightarrow> sw_ok (fold send_call cs w)"
proof (induction cs arbitrary: w)
  case (Cons c cs)
  then have n: "unat (sw_next_id w) + 1 < 2 ^ 32" by simp
  have "sw_ok (send_call c w)"
    using send_call_ok [OF Cons.prems(1) n] .
  moreover have "unat (sw_next_id (send_call c w)) + length cs < 2 ^ 32"
    using send_call_next_id [OF n, of c] Cons.prems(2) by simp
  ultimately show ?case using Cons.IH by simp
qed simp

text \<open>
  The window is a promise, and it is kept: after any sequence of calls on a new send window
  (short of four billion of them) at most six messages are in flight, and every one of them is
  among the last six ids given out, however acknowledgements arrived.
\<close>

theorem send_window_promise:
  assumes "length cs < 2 ^ 32" and "fold send_call cs (sw_new t) = w"
  shows "length (sw_in_flight w) \<le> SEND_CAPACITY \<and>
         (\<forall>i. bt_get i (sw_in_flight w) \<noteq> None \<longrightarrow>
            unat i < unat (sw_next_id w) \<and> unat (sw_next_id w) \<le> unat i + SEND_CAPACITY)"
  using send_calls_ok [OF sw_ok_new [of t], of cs] assms
  by (simp add: sw_ok_def sw_new_def)

theorem send_window_promise_witness:
  "length (sw_in_flight (fold send_call
     [CallQueue ControlV1 [], CallQueue ControlV1 [], CallAcknowledge [1], CallNextDue 5] (sw_new 2)))
   \<le> SEND_CAPACITY"
  using send_window_promise
    [of "[CallQueue ControlV1 [], CallQueue ControlV1 [], CallAcknowledge [1], CallNextDue 5]" 2]
  by simp

lemma sw_wakeup_spec:
  "case sw_next_wakeup now w of
     None \<Rightarrow> sw_in_flight w = [] \<and> (\<forall>t. fst (sw_next_due t w) = None)
   | Some t \<Rightarrow> now \<le> t \<and> fst (sw_next_due t w) \<noteq> None \<and>
       (\<forall>u. now \<le> u \<and> u < t \<longrightarrow> fst (sw_next_due u w) = None)"
proof (cases "sw_next_wakeup now w")
  case None
  then have "sw_in_flight w = []" by (simp add: sw_next_wakeup_def)
  with None show ?thesis by (simp add: sw_next_due_None)
next
  case (Some t)
  let ?ws = "map (\<lambda>(_, e). wake_at now e) (sw_in_flight w)"
  have ne: "?ws \<noteq> []" and t: "t = Min (set ?ws)"
    using Some unfolding sw_next_wakeup_def min_option_Some by blast+
  then have "t \<in> set ?ws" by (metis List.finite_set Min_in set_empty)
  then obtain k e where e: "(k, e) \<in> set (sw_in_flight w)" "t = wake_at now e" by auto
  have le: "t \<le> wake_at now e'" if "(k', e') \<in> set (sw_in_flight w)" for k' e'
    unfolding t using that by (intro Min_le) force+
  have "fst (sw_next_due t w) \<noteq> None"
    using e wake_at_due [of now e] by (auto simp: sw_next_due_None)
  moreover have "fst (sw_next_due u w) = None" if "now \<le> u" "u < t" for u
    unfolding sw_next_due_None using not_due_before_wake_at [OF that(1)] le that(2)
    by (fastforce dest: less_le_trans)
  ultimately show ?thesis using Some e(2) wake_at_ge by simp
qed

text \<open>
  Sleeping on the window is exact. With nothing in flight there is no wakeup; otherwise the
  wakeup is not in the past, \<open>next_due\<close> has a message at that moment, and it has none at any
  moment before it: fast retransmit included, nothing is slept through and no wakeup is idle.
\<close>

theorem next_wakeup_exact:
  "case sw_next_wakeup now w of
     None \<Rightarrow> sw_in_flight w = [] \<and> (\<forall>t. fst (sw_next_due t w) = None)
   | Some t \<Rightarrow> now \<le> t \<and> fst (sw_next_due t w) \<noteq> None \<and>
       (\<forall>u. now \<le> u \<and> u < t \<longrightarrow> fst (sw_next_due u w) = None)"
  by (rule sw_wakeup_spec)

theorem next_wakeup_exact_witness:
  "sw_next_wakeup 4 (send_call (CallNextDue 0) (send_call (CallQueue ControlV1 []) (sw_new 9))) = Some 9 \<and>
   fst (sw_next_due 8 (send_call (CallNextDue 0) (send_call (CallQueue ControlV1 []) (sw_new 9)))) = None"
proof -
  let ?w = "send_call (CallNextDue 0) (send_call (CallQueue ControlV1 []) (sw_new 9))"
  have w: "sw_next_wakeup 4 ?w = Some 9"
    by code_simp
  show ?thesis
    using next_wakeup_exact [where now = 4 and w = ?w] w by simp
qed

text \<open>
  Taking acknowledgements loses none: what \<open>take_acks\<close> returns fits the packet and has no
  repetition, every id that was waiting is either returned now or still waiting, and nothing is
  acknowledged that was not waiting or acknowledged recently.
\<close>

theorem take_acks_loses_nothing:
  assumes "rv_ok w" and "rv_take_acks mx w = (ids, w')"
  shows "length ids \<le> min mx RECENT_ACKS \<and> distinct ids \<and>
         set (rv_pending_acks w) \<subseteq> set ids \<union> set (rv_pending_acks w') \<and>
         set ids \<subseteq> set (rv_pending_acks w) \<union> set (rv_recent_acks w)"
proof -
  let ?n = "min (length (rv_pending_acks w)) (min mx RECENT_ACKS)"
  define new where "new = take ?n (rv_pending_acks w)"
  note eq = rv_take_acks_eq [OF assms, folded new_def]
  have "ids = take (min mx RECENT_ACKS) (new @ filter (\<lambda>r. r \<notin> set new) (rv_recent_acks w))"
    unfolding eq(2,3) take_take by simp
  moreover have "length new \<le> min mx RECENT_ACKS"
    unfolding new_def by (simp; linarith)
  ultimately have "ids = new @ take (min mx RECENT_ACKS - length new)
      (filter (\<lambda>r. r \<notin> set new) (rv_recent_acks w))"
    by simp
  then have "set new \<subseteq> set ids" "set ids \<subseteq> set new \<union> set (rv_recent_acks w)"
    by (auto dest: in_set_takeD)
  moreover have "set (rv_pending_acks w) = set new \<union> set (rv_pending_acks w')"
    unfolding new_def eq(1) by (metis append_take_drop_id set_append)
  moreover have "distinct ids" "length ids \<le> min mx RECENT_ACKS"
    using rv_ok_take_acks [OF assms] eq(3) by (auto simp: rv_ok_def)
  ultimately show ?thesis by blast
qed

theorem take_acks_loses_nothing_witness:
  "set (fst (rv_take_acks 8 (snd (rv_accept 0 ControlV1 [] rv_new)))) \<supseteq> {0}"
proof -
  let ?w = "snd (rv_accept 0 ControlV1 [] rv_new)"
  have ok: "rv_ok ?w"
    by (rule rv_ok_accept [OF rv_ok_new _ prod.collapse [symmetric]])
      (simp add: rv_new_def RECV_CAPACITY_def)
  have "rv_pending_acks ?w = [0]" "rv_pending_acks (snd (rv_take_acks 8 ?w)) = []"
    by code_simp+
  then show ?thesis
    using take_acks_loses_nothing [OF ok prod.collapse [symmetric], of 8] by simp
qed

end
