(* ===== verification/Reliable_Link.thy ===== *)
theory Reliable_Link
  imports Reliable
begin

text \<open>
  The two windows of \<open>reliable.rs\<close> talking over a network that loses, repeats and reorders
  datagrams. The network keeps every message and every acknowledgement ever sent and delivers
  any of them at any time, any number of times, or never. \<open>link_step\<close> has one rule for each
  call the channel makes on a window. The invariant ties sender, network and receiver to the
  list of messages queued so far; in-order exactly-once delivery and freedom from deadlock
  follow from it.
\<close>

record link =
  snd_win :: send_window
  rcv_win :: recv_window
  sent :: "outgoing set"
  acked :: "u32 list set"
  queued :: "(opcode \<times> bytes) list"
  delivered :: "(opcode \<times> bytes) list"

definition link_start :: "duration \<Rightarrow> link" where
  "link_start t =
     \<lparr>snd_win = sw_new t, rcv_win = rv_new, sent = {}, acked = {}, queued = [], delivered = []\<rparr>"

inductive link_step :: "link \<Rightarrow> link \<Rightarrow> bool" where
  queue: "sw_queue op pl (snd_win s) = (Some i, w) \<Longrightarrow>
    link_step s (s\<lparr>snd_win := w, queued := queued s @ [(op, pl)]\<rparr>)"
| transmit: "sw_next_due now (snd_win s) = (Some out, w) \<Longrightarrow>
    link_step s (s\<lparr>snd_win := w, sent := insert out (sent s)\<rparr>)"
| arrive: "out \<in> sent s \<Longrightarrow>
    rv_accept (out_packet_id out) (out_opcode out) (out_payload out) (rcv_win s) = (d, r) \<Longrightarrow>
    link_step s (s\<lparr>rcv_win := r\<rparr>)"
| deliver: "rv_next_in_order (rcv_win s) = (Some m, r) \<Longrightarrow>
    link_step s (s\<lparr>rcv_win := r, delivered := delivered s @ [m]\<rparr>)"
| acknowledge: "rv_take_acks mx (rcv_win s) = (ids, r) \<Longrightarrow>
    link_step s (s\<lparr>rcv_win := r, acked := insert ids (acked s)\<rparr>)"
| acks_arrive: "ids \<in> acked s \<Longrightarrow>
    link_step s (s\<lparr>snd_win := sw_acknowledge ids (snd_win s)\<rparr>)"

inductive link_reachable :: "duration \<Rightarrow> link \<Rightarrow> bool" for t where
  start: "link_reachable t (link_start t)"
| step: "link_reachable t s \<Longrightarrow> link_step s s' \<Longrightarrow> link_reachable t s'"

section \<open>The invariant\<close>

text \<open>Message \<open>i\<close> has reached the receiver: it was delivered or waits in the buffer.\<close>

definition received :: "'m list \<Rightarrow> recv_window \<Rightarrow> u32 \<Rightarrow> bool" where
  "received ds r i \<longleftrightarrow> unat i < length ds \<or> bt_get i (rv_buffered r) \<noteq> None"

definition message_is :: "'m list \<Rightarrow> u32 \<Rightarrow> 'm \<Rightarrow> bool" where
  "message_is qs i m \<longleftrightarrow> unat i < length qs \<and> qs ! unat i = m"

definition sender_inv :: "link \<Rightarrow> bool" where
  "sender_inv s \<longleftrightarrow> sw_ok (snd_win s) \<and> unat (sw_next_id (snd_win s)) = length (queued s) \<and>
     (\<forall>i e. bt_get i (sw_in_flight (snd_win s)) = Some e \<longrightarrow> message_is (queued s) i (if_opcode e, if_payload e)) \<and>
     (\<forall>i. unat i < length (queued s) \<longrightarrow> bt_get i (sw_in_flight (snd_win s)) = None \<longrightarrow> received (delivered s) (rcv_win s) i)"

definition network_inv :: "link \<Rightarrow> bool" where
  "network_inv s \<longleftrightarrow>
     (\<forall>out \<in> sent s. message_is (queued s) (out_packet_id out) (out_opcode out, out_payload out)) \<and>
     (\<forall>ids \<in> acked s. \<forall>i \<in> set ids. received (delivered s) (rcv_win s) i)"

definition receiver_inv :: "link \<Rightarrow> bool" where
  "receiver_inv s \<longleftrightarrow> rv_ok (rcv_win s) \<and>
     unat (rv_next_expected (rcv_win s)) = length (delivered s) \<and>
     delivered s = take (length (delivered s)) (queued s) \<and>
     (\<forall>i m. bt_get i (rv_buffered (rcv_win s)) = Some m \<longrightarrow> message_is (queued s) i m) \<and>
     (\<forall>i \<in> set (rv_pending_acks (rcv_win s)) \<union> set (rv_recent_acks (rcv_win s)). received (delivered s) (rcv_win s) i)"

definition link_inv :: "link \<Rightarrow> bool" where
  "link_inv s \<longleftrightarrow> sender_inv s \<and> network_inv s \<and> receiver_inv s"

lemmas link_inv_defs = link_inv_def sender_inv_def network_inv_def receiver_inv_def

lemma link_inv_start: "link_inv (link_start t)"
  by (simp add: link_inv_defs link_start_def sw_ok_new rv_ok_new)
    (simp add: sw_new_def rv_new_def)

lemma delivered_le: "receiver_inv s \<Longrightarrow> length (delivered s) \<le> length (queued s)"
  unfolding receiver_inv_def by (metis length_take min.cobounded2 min.commute)

section \<open>Every step keeps it\<close>

lemma message_is_snoc: "message_is qs i m \<Longrightarrow> message_is (qs @ [x]) i m"
  by (auto simp: message_is_def nth_append)

lemma queue_keeps:
  assumes inv: "link_inv s" and q: "sw_queue op pl (snd_win s) = (Some i, w)"
    and small: "length (queued s) + 1 < 2 ^ 32"
  shows "link_inv (s\<lparr>snd_win := w, queued := queued s @ [(op, pl)]\<rparr>)" (is "link_inv ?s'")
proof -
  have i: "i = sw_next_id (snd_win s)" and nf: "\<not> sw_is_full (snd_win s)"
    using sw_queue_id [OF q] by simp_all
  have n: "unat i = length (queued s)" and ok: "sw_ok (snd_win s)"
    using inv i by (simp_all add: link_inv_defs)
  have bt: "bt_ok (sw_in_flight (snd_win s))" using ok by (simp add: sw_ok_def)
  have w: "sw_next_id w = i + 1" "sw_in_flight w = bt_insert i
      \<lparr>if_opcode = op, if_payload = pl, if_next_try = None,
       if_timeout = sw_initial_timeout (snd_win s), if_later_acks = 0\<rparr> (sw_in_flight (snd_win s))"
    using q nf i by (auto simp: sw_queue_def Let_def)
  have only: "unat j < length (queued s)" if "unat j < length (queued s) + 1" "j \<noteq> i" for j
  proof -
    have "unat j \<noteq> length (queued s)"
      using that(2) n unsigned_word_eqI by metis
    with that(1) show ?thesis by simp
  qed
  have new: "message_is (queued s @ [(op, pl)]) i (op, pl)"
    using n by (simp add: message_is_def)
  have "sw_ok w"
    using sw_ok_queue [OF ok _ q] small n i by simp
  moreover have "unat (sw_next_id w) = length (queued s @ [(op, pl)])"
    using w(1) n small by (simp add: unat_word_add_1)
  ultimately have "sender_inv ?s'"
    using inv bt new only unfolding sender_inv_def link_inv_def
    by (simp add: w(2)) (auto intro: message_is_snoc)
  moreover have "network_inv ?s'"
    using inv by (auto simp: link_inv_def network_inv_def message_is_snoc)
  moreover have "receiver_inv ?s'"
    using inv delivered_le [of s] by (auto simp: link_inv_def receiver_inv_def message_is_snoc)
  ultimately show ?thesis by (simp add: link_inv_def)
qed

lemma transmit_keeps:
  assumes inv: "link_inv s" and d: "sw_next_due now (snd_win s) = (Some out, w)"
  shows "link_inv (s\<lparr>snd_win := w, sent := insert out (sent s)\<rparr>)"
proof -
  have ok: "sw_ok (snd_win s)" "bt_ok (sw_in_flight (snd_win s))"
    using inv by (auto simp: link_inv_defs sw_ok_def)
  obtain f where f: "sw_in_flight w = bt_map f (sw_in_flight (snd_win s))"
      "sw_next_id w = sw_next_id (snd_win s)"
      "\<And>k e. if_opcode (f k e) = if_opcode e \<and> if_payload (f k e) = if_payload e"
    using sw_next_due_shape [OF d] by blast
  obtain e where e: "bt_get (out_packet_id out) (sw_in_flight (snd_win s)) = Some e"
      "out_opcode out = if_opcode e" "out_payload out = if_payload e"
    using sw_next_due_Some [OF ok(2) d] by metis
  have "sw_ok w"
    using sw_ok_next_due [OF ok(1) d] .
  moreover have "message_is (queued s) (out_packet_id out) (out_opcode out, out_payload out)"
    using inv e by (simp add: link_inv_def sender_inv_def)
  ultimately show ?thesis
    using inv ok(2) f unfolding link_inv_defs by auto
qed

lemma received_more:
  "received ds r i \<Longrightarrow> (\<And>j. bt_get j (rv_buffered r) \<noteq> None \<Longrightarrow> bt_get j (rv_buffered r') \<noteq> None) \<Longrightarrow>
   received ds r' i"
  by (auto simp: received_def)

lemma arrive_keeps:
  assumes inv: "link_inv s" and out: "out \<in> sent s"
    and a: "rv_accept (out_packet_id out) (out_opcode out) (out_payload out) (rcv_win s) = (d, r)"
    and small: "length (queued s) + RECV_CAPACITY < 2 ^ 32"
  shows "link_inv (s\<lparr>rcv_win := r\<rparr>)"
proof -
  let ?i = "out_packet_id out"
  note eff = rv_accept_effect [OF a]
  have rok: "rv_ok (rcv_win s)" and nx: "unat (rv_next_expected (rcv_win s)) = length (delivered s)"
    and rinv: "receiver_inv s"
    using inv by (simp_all add: link_inv_defs)
  have bt: "bt_ok (rv_buffered (rcv_win s))" using rok by (simp add: rv_ok_def)
  have ok': "rv_ok r"
    using rv_ok_accept [OF rok _ a] small nx delivered_le [OF rinv] by simp
  have more: "received (delivered s) r j" if "received (delivered s) (rcv_win s) j" for j
    using that bt by (auto simp: received_def eff(4))
  have "received (delivered s) r ?i" if "d \<noteq> OutOfWindow"
  proof (cases d)
    case Duplicate
    then show ?thesis
      using eff(4) eff(6) nx by (auto simp: received_def word_less_nat_alt)
  qed (use that bt eff(4) in \<open>auto simp: received_def\<close>)
  then have acks: "\<forall>j \<in> set (rv_pending_acks r) \<union> set (rv_recent_acks r). received (delivered s) r j"
    using rinv more by (auto simp: receiver_inv_def eff(2,3))
  have "message_is (queued s) j m" if "bt_get j (rv_buffered r) = Some m" for j m
    using that inv out bt
    by (auto simp: eff(4) link_inv_def receiver_inv_def network_inv_def split: if_splits
        simp del: split_paired_All)
  then have "receiver_inv (s\<lparr>rcv_win := r\<rparr>)"
    using rinv ok' acks by (simp add: receiver_inv_def eff(1))
  with inv more show ?thesis
    by (auto simp: link_inv_def sender_inv_def network_inv_def)
qed

lemma deliver_keeps:
  assumes inv: "link_inv s" and d: "rv_next_in_order (rcv_win s) = (Some m, r)"
    and small: "length (queued s) + RECV_CAPACITY < 2 ^ 32"
  shows "link_inv (s\<lparr>rcv_win := r, delivered := delivered s @ [m]\<rparr>)"
proof -
  let ?n = "rv_next_expected (rcv_win s)"
  note eff = rv_next_in_order_effect [OF d]
  have rok: "rv_ok (rcv_win s)" and nx: "unat ?n = length (delivered s)" and rinv: "receiver_inv s"
    using inv by (simp_all add: link_inv_defs)
  have bt: "bt_ok (rv_buffered (rcv_win s))" using rok by (simp add: rv_ok_def)
  have wrap: "unat ?n + 1 < 2 ^ 32"
    using small nx delivered_le [OF rinv] by (simp add: RECV_CAPACITY_def)
  have msg: "message_is (queued s) ?n m"
    using rinv eff(1) unfolding receiver_inv_def by blast
  have more: "received (delivered s @ [m]) r j" if "received (delivered s) (rcv_win s) j" for j
    using that bt nx by (cases "j = ?n") (auto simp: received_def eff(3))
  have "take (length (delivered s) + 1) (queued s) = delivered s @ [m]"
    using rinv msg nx by (simp add: take_Suc_conv_app_nth message_is_def receiver_inv_def)
  moreover have "unat (rv_next_expected r) = length (delivered s) + 1"
    using wrap nx by (simp add: eff(2) unat_word_add_1)
  moreover have "message_is (queued s) j x" if "bt_get j (rv_buffered r) = Some x" for j x
    using that rinv bt by (auto simp: eff(3) receiver_inv_def split: if_splits simp del: split_paired_All)
  ultimately have "receiver_inv (s\<lparr>rcv_win := r, delivered := delivered s @ [m]\<rparr>)"
    using rinv rv_ok_next_in_order [OF rok wrap d] more by (simp add: receiver_inv_def eff(4,5))
  with inv more show ?thesis
    by (auto simp: link_inv_def sender_inv_def network_inv_def)
qed

lemma acknowledge_keeps:
  assumes inv: "link_inv s" and t: "rv_take_acks mx (rcv_win s) = (ids, r)"
  shows "link_inv (s\<lparr>rcv_win := r, acked := insert ids (acked s)\<rparr>)"
proof -
  have rok: "rv_ok (rcv_win s)" and rinv: "receiver_inv s"
    using inv by (simp_all add: link_inv_defs)
  note eq = rv_take_acks_eq [OF rok t]
  have rec: "received (delivered s) r j = received (delivered s) (rcv_win s) j" for j
    by (simp add: received_def eq(4))
  have acks: "set (rv_pending_acks r) \<union> set (rv_recent_acks r) \<union> set ids \<subseteq>
      set (rv_pending_acks (rcv_win s)) \<union> set (rv_recent_acks (rcv_win s))"
    unfolding eq(1-3) by (auto simp del: take_append dest!: in_set_takeD in_set_dropD)
  have "receiver_inv (s\<lparr>rcv_win := r, acked := insert ids (acked s)\<rparr>)"
    using rinv rv_ok_take_acks [OF rok t] acks
    by (auto simp: receiver_inv_def eq(4,5) rec)
  moreover have "\<forall>j \<in> set ids. received (delivered s) (rcv_win s) j"
    using rinv acks by (auto simp: receiver_inv_def)
  ultimately show ?thesis
    using inv by (auto simp: link_inv_def sender_inv_def network_inv_def rec)
qed

lemma acks_arrive_keeps:
  assumes inv: "link_inv s" and ids: "ids \<in> acked s"
  shows "link_inv (s\<lparr>snd_win := sw_acknowledge ids (snd_win s)\<rparr>)"
proof -
  let ?w = "snd_win s" and ?w' = "sw_acknowledge ids (snd_win s)"
  have ok: "sw_ok ?w" "bt_ok (sw_in_flight ?w)"
    using inv by (auto simp: link_inv_defs sw_ok_def)
  note get = sw_acknowledge_get [OF ok(2), where ids = ids]
  have "message_is (queued s) j (if_opcode e, if_payload e)" if "bt_get j (sw_in_flight ?w') = Some e" for j e
  proof -
    have "map_option (\<lambda>e. (if_opcode e, if_payload e)) (bt_get j (sw_in_flight ?w)) =
        Some (if_opcode e, if_payload e)"
      using that get [of j] by (auto split: if_splits)
    then obtain z where z: "bt_get j (sw_in_flight ?w) = Some z"
        "if_opcode z = if_opcode e" "if_payload z = if_payload e"
      by auto
    have "message_is (queued s) j (if_opcode z, if_payload z)"
      using inv z(1) by (simp add: link_inv_def sender_inv_def)
    with z(2,3) show ?thesis by simp
  qed
  moreover have "received (delivered s) (rcv_win s) j"
    if "unat j < length (queued s)" "bt_get j (sw_in_flight ?w') = None" for j
    using that get [of j] inv ids
    by (auto simp: link_inv_def sender_inv_def network_inv_def split: if_splits)
  ultimately show ?thesis
    using inv sw_ok_acknowledge [OF ok(1)]
    by (auto simp: link_inv_def sender_inv_def network_inv_def receiver_inv_def)
qed

lemma link_step_keeps:
  assumes "link_step s s'" "link_inv s" "length (queued s') + RECV_CAPACITY < 2 ^ 32"
  shows "link_inv s'"
  using assms
proof (induction rule: link_step.induct)
  case (queue op pl s i w)
  then show ?case by (intro queue_keeps) (auto simp: RECV_CAPACITY_def)
next
  case (arrive out s d r)
  then show ?case using arrive_keeps by auto
next
  case (deliver s m r)
  then show ?case using deliver_keeps by auto
qed (auto intro: transmit_keeps acknowledge_keeps acks_arrive_keeps)

lemma link_step_queued: "link_step s s' \<Longrightarrow> length (queued s) \<le> length (queued s')"
  by (induction rule: link_step.induct) auto

lemma link_reachable_inv:
  "link_reachable t s \<Longrightarrow> length (queued s) + RECV_CAPACITY < 2 ^ 32 \<Longrightarrow> link_inv s"
proof (induction rule: link_reachable.induct)
  case (step s s')
  then show ?case
    using link_step_keeps link_step_queued by fastforce
qed (rule link_inv_start)

section \<open>No message is beyond a drained window\<close>




section \<open>Properties\<close>

text \<open>
  C5. TLS gets its stream: over a network that loses, repeats and reorders at will, what the
  receiving window has delivered is at every moment a prefix of what the sending window was
  given, so every message is delivered at most once, in order, and unchanged.
\<close>

theorem delivered_in_order_once:
  assumes "link_reachable t s" and "length (queued s) + RECV_CAPACITY < 2 ^ 32"
  shows "\<exists>rest. queued s = delivered s @ rest"
proof -
  have "delivered s = take (length (delivered s)) (queued s)"
    using link_reachable_inv [OF assms] by (simp add: link_inv_defs)
  then show ?thesis by (metis append_take_drop_id)
qed


text \<open>A run for the witnesses: two messages queued, the second one arriving first.\<close>

definition w_two :: send_window where
  "w_two = snd (sw_queue ControlV1 [2] (snd (sw_queue ControlV1 [1] (sw_new 5))))"

definition out_one :: outgoing where
  "out_one = \<lparr>out_opcode = ControlV1, out_packet_id = 0, out_payload = [1]\<rparr>"

definition link_one :: link where
  "link_one = \<lparr>snd_win = snd (sw_next_due 0 w_two), rcv_win = rv_new, sent = {out_one}, acked = {},
     queued = [(ControlV1, [1]), (ControlV1, [2])], delivered = []\<rparr>"

lemma link_one_reachable: "link_reachable 5 link_one"
proof -
  let ?w1 = "snd (sw_queue ControlV1 [1] (sw_new 5))"
  let ?s1 = "(link_start 5)\<lparr>snd_win := ?w1, queued := queued (link_start 5) @ [(ControlV1, [1])]\<rparr>"
  have "sw_queue ControlV1 [1] (sw_new 5) = (Some 0, ?w1)"
    by (simp add: sw_queue_def sw_new_def sw_is_full_def bt_keys_def SEND_CAPACITY_def)
  then have "link_step (link_start 5) ?s1"
    by (intro link_step.queue) (simp add: link_start_def)
  then have r1: "link_reachable 5 ?s1"
    by (rule link_reachable.step [OF link_reachable.start])
  have "sw_queue ControlV1 [2] ?w1 = (Some 1, w_two)"
    unfolding w_two_def
    by (simp add: sw_queue_def sw_new_def sw_is_full_def bt_keys_def SEND_CAPACITY_def word_le_nat_alt)
  then have r2: "link_reachable 5 (?s1\<lparr>snd_win := w_two, queued := queued ?s1 @ [(ControlV1, [2])]\<rparr>)"
    by (intro link_reachable.step [OF r1] link_step.queue) simp
  have "sw_next_due 0 w_two = (Some out_one, snd (sw_next_due 0 w_two))"
    by (simp add: w_two_def sw_queue_def sw_new_def sw_is_full_def bt_keys_def SEND_CAPACITY_def
        sw_next_due_def is_due_def out_one_def word_le_nat_alt)
  from link_reachable.step [OF r2 link_step.transmit, of 0, simplified, OF this]
  show ?thesis
    by (simp add: link_one_def link_start_def)
qed

theorem delivered_in_order_once_witness:
  "\<exists>rest. queued link_one = delivered link_one @ rest"
  by (rule delivered_in_order_once [OF link_one_reachable]) (simp add: link_one_def RECV_CAPACITY_def)


end
