(* ===== verification/Text.thy ===== *)
theory Text
  imports Prelude
begin

text \<open>
  The operations of \<open>str\<close> the parsers of the OpenVPN client use. A Rust string is its UTF-8
  bytes. Patterns are ASCII, so searching bytes is searching characters; \<open>trim\<close> and
  \<open>split_whitespace\<close> know every character with the Unicode property \<open>White_Space\<close> by its
  encoding, which no other character's encoding contains.
\<close>

type_synonym str = bytes

definition lit :: "string \<Rightarrow> str" where
  "lit s = map of_char s"

definition starts_with :: "str \<Rightarrow> str \<Rightarrow> bool" where
  "starts_with p s \<longleftrightarrow> take (length p) s = p"

definition strip_prefix :: "str \<Rightarrow> str \<Rightarrow> str option" where
  "strip_prefix p s = (if starts_with p s then Some (drop (length p) s) else None)"

definition ends_with :: "str \<Rightarrow> str \<Rightarrow> bool" where
  "ends_with p s \<longleftrightarrow> starts_with (rev p) (rev s)"

fun str_contains :: "str \<Rightarrow> str \<Rightarrow> bool" where
  "str_contains p [] \<longleftrightarrow> p = []"
| "str_contains p (b # s) \<longleftrightarrow> starts_with p (b # s) \<or> str_contains p s"

text \<open>\<open>split_once\<close>: around the first occurrence of the separator.\<close>

fun split_once :: "str \<Rightarrow> str \<Rightarrow> (str \<times> str) option" where
  "split_once sep [] = (if sep = [] then Some ([], []) else None)"
| "split_once sep (b # s) =
     (if starts_with sep (b # s) then Some ([], drop (length sep) (b # s))
      else map_option (\<lambda>(x, y). (b # x, y)) (split_once sep s))"

text \<open>\<open>split\<close> at a one-byte character.\<close>

fun split_on :: "u8 \<Rightarrow> str \<Rightarrow> str list" where
  "split_on c [] = [[]]"
| "split_on c (b # s) =
     (if b = c then [] # split_on c s
      else case split_on c s of x # xs \<Rightarrow> (b # x) # xs | [] \<Rightarrow> [[b]])"

text \<open>\<open>lines\<close>: a line ends at LF or CR LF, and a final empty line is none.\<close>

definition strip_cr :: "str \<Rightarrow> str" where
  "strip_cr l = (if l \<noteq> [] \<and> last l = 13 then butlast l else l)"

definition lines_of :: "str \<Rightarrow> str list" where
  "lines_of s =
     (let pieces = split_on 10 s
      in map strip_cr (butlast pieces) @ (if last pieces = [] then [] else [last pieces]))"

section \<open>White space\<close>

definition WHITESPACE :: "str list" where
  "WHITESPACE =
     [[9], [10], [11], [12], [13], [32], [0xC2, 0x85], [0xC2, 0xA0], [0xE1, 0x9A, 0x80],
      [0xE2, 0x80, 0x80], [0xE2, 0x80, 0x81], [0xE2, 0x80, 0x82], [0xE2, 0x80, 0x83],
      [0xE2, 0x80, 0x84], [0xE2, 0x80, 0x85], [0xE2, 0x80, 0x86], [0xE2, 0x80, 0x87],
      [0xE2, 0x80, 0x88], [0xE2, 0x80, 0x89], [0xE2, 0x80, 0x8A], [0xE2, 0x80, 0xA8],
      [0xE2, 0x80, 0xA9], [0xE2, 0x80, 0xAF], [0xE2, 0x81, 0x9F], [0xE3, 0x80, 0x80]]"

text \<open>The length of the encoding among \<open>es\<close> that \<open>s\<close> starts with, 0 if there is none.\<close>

definition ws_len :: "str list \<Rightarrow> str \<Rightarrow> nat" where
  "ws_len es s = (case find (\<lambda>w. starts_with w s) es of None \<Rightarrow> 0 | Some w \<Rightarrow> length w)"

lemma starts_with_length: "starts_with p s \<Longrightarrow> length p \<le> length s"
  by (metis length_take min.cobounded1 starts_with_def)

lemma ws_len_le: "ws_len es s \<le> length s"
  by (auto simp: ws_len_def find_Some_iff starts_with_length split: option.splits)

lemma ws_len_Nil: "ws_len es s > 0 \<Longrightarrow> s \<noteq> []"
  using ws_len_le [of es s] by auto

function trim_front :: "str list \<Rightarrow> str \<Rightarrow> str" where
  "trim_front es s = (if ws_len es s = 0 then s else trim_front es (drop (ws_len es s) s))"
  by pat_completeness auto
termination
proof (relation "measure (\<lambda>(es, s). length s)")
  fix es :: "str list" and s :: str
  assume "ws_len es s \<noteq> 0"
  moreover from this have "s \<noteq> []" using ws_len_Nil by blast
  ultimately show "((es, drop (ws_len es s) s), (es, s)) \<in> measure (\<lambda>(es, s). length s)"
    by simp
qed simp

declare trim_front.simps [simp del]

definition trim_start :: "str \<Rightarrow> str" where
  "trim_start s = trim_front WHITESPACE s"

definition trim_end :: "str \<Rightarrow> str" where
  "trim_end s = rev (trim_front (map rev WHITESPACE) (rev s))"

definition trim :: "str \<Rightarrow> str" where
  "trim s = trim_end (trim_start s)"

function ws_split :: "str \<Rightarrow> str list" where
  "ws_split s =
     (case s of
        [] \<Rightarrow> [[]]
      | b # t \<Rightarrow>
          if ws_len WHITESPACE s > 0 then [] # ws_split (drop (ws_len WHITESPACE s) s)
          else case ws_split t of x # xs \<Rightarrow> (b # x) # xs | [] \<Rightarrow> [[b]])"
  by pat_completeness auto
termination
proof (relation "measure length")
  fix s :: str and b t
  assume "s = b # t" "0 < ws_len WHITESPACE s"
  then show "(drop (ws_len WHITESPACE s) s, s) \<in> measure length" by simp
qed auto

declare ws_split.simps [simp del]

definition split_whitespace :: "str \<Rightarrow> str list" where
  "split_whitespace s = filter (\<lambda>w. w \<noteq> []) (ws_split s)"

section \<open>Characters and numbers\<close>

definition is_ascii_whitespace :: "u8 \<Rightarrow> bool" where
  "is_ascii_whitespace b \<longleftrightarrow> b \<in> {9, 10, 12, 13, 32}"

definition to_ascii_lower :: "u8 \<Rightarrow> u8" where
  "to_ascii_lower b = (if 65 \<le> b \<and> b \<le> 90 then b + 32 else b)"

definition to_ascii_lowercase :: "str \<Rightarrow> str" where
  "to_ascii_lowercase s = map to_ascii_lower s"

definition eq_ignore_ascii_case :: "str \<Rightarrow> str \<Rightarrow> bool" where
  "eq_ignore_ascii_case a b \<longleftrightarrow> to_ascii_lowercase a = to_ascii_lowercase b"

definition is_digit :: "u8 \<Rightarrow> bool" where
  "is_digit b \<longleftrightarrow> 48 \<le> b \<and> b \<le> 57"

definition decimal :: "str \<Rightarrow> nat" where
  "decimal s = foldl (\<lambda>n b. n * 10 + (unat b - 48)) 0 s"

text \<open>
  \<open>str::parse\<close> for an unsigned integer with the given maximum: an optional plus sign, at least
  one digit, nothing but digits, and no overflow.
\<close>

definition parse_uint :: "nat \<Rightarrow> str \<Rightarrow> nat option" where
  "parse_uint mx s =
     (let digits = (if starts_with [43] s then drop 1 s else s) in
      if digits \<noteq> [] \<and> list_all is_digit digits \<and> decimal digits \<le> mx then Some (decimal digits)
      else None)"

text \<open>
  \<open>Ipv4Addr::from_str\<close>: four decimal octets of at most three digits each, without leading
  zeros, separated by dots. An address is its four octets as one word.
\<close>

type_synonym ipv4 = u32

definition parse_octet :: "str \<Rightarrow> u8 option" where
  "parse_octet s =
     (if s \<noteq> [] \<and> length s \<le> 3 \<and> list_all is_digit s \<and> (length s > 1 \<longrightarrow> s ! 0 \<noteq> 48) \<and> decimal s \<le> 255
      then Some (of_nat (decimal s)) else None)"

definition parse_ipv4 :: "str \<Rightarrow> ipv4 option" where
  "parse_ipv4 s =
     (case map parse_octet (split_on 46 s) of
        [Some a, Some b, Some c, Some d] \<Rightarrow> Some (from_be32 [a, b, c, d])
      | _ \<Rightarrow> None)"

section \<open>What the parsers rely on\<close>

lemma of_char_byte: "(of_char c :: u8) = of_char d \<longleftrightarrow> c = d"
proof
  assume "(of_char c :: u8) = of_char d"
  then have "(of_nat (of_char c) :: u8) = of_nat (of_char d)" by (simp only: of_nat_of_char)
  then have "unat (of_nat (of_char c) :: u8) = unat (of_nat (of_char d) :: u8)" by (simp only:)
  then have "(of_char c :: nat) = of_char d"
    using nat_of_char_less_256 [of c] nat_of_char_less_256 [of d] by (simp add: unat_of_nat)
  then show "c = d" by simp
qed simp

lemma lit_inject [simp]: "lit s = lit t \<longleftrightarrow> s = t"
  unfolding lit_def by (rule inj_map_eq_map) (simp add: inj_def of_char_byte)

lemma starts_with_iff: "starts_with p s \<longleftrightarrow> (\<exists>r. s = p @ r)"
  unfolding starts_with_def by (metis append_eq_conv_conj)

lemma starts_with_append [simp]: "starts_with p (p @ r)"
  by (simp add: starts_with_def)

lemma strip_prefix_Some: "strip_prefix p s = Some r \<longleftrightarrow> s = p @ r"
  by (auto simp: strip_prefix_def starts_with_iff)

lemma split_once_Some: "split_once sep s = Some (a, b) \<Longrightarrow> s = a @ sep @ b"
proof (induction sep s arbitrary: a b rule: split_once.induct)
  case (2 sep c s)
  then show ?case
    by (cases "starts_with sep (c # s)") (auto simp: starts_with_iff)
qed (auto split: if_splits)

lemma split_on_nonempty [simp]: "split_on c s \<noteq> []"
  by (induction s) (auto split: list.splits)

fun join_with :: "u8 \<Rightarrow> str list \<Rightarrow> str" where
  "join_with c [] = []"
| "join_with c [x] = x"
| "join_with c (x # y # xs) = x @ c # join_with c (y # xs)"

lemma join_split: "join_with c (split_on c s) = s"
proof (induction s)
  case (Cons b s)
  obtain x xs where s: "split_on c s = x # xs"
    using split_on_nonempty [of c s] by (cases "split_on c s") auto
  with Cons show ?case by (cases xs) auto
qed simp

lemma split_no_sep: "c \<notin> set x \<Longrightarrow> split_on c x = [x]"
  by (induction x) auto

lemma split_append_sep: "c \<notin> set x \<Longrightarrow> split_on c (x @ c # s) = x # split_on c s"
  by (induction x) auto

lemma split_join: "xs \<noteq> [] \<Longrightarrow> \<forall>x \<in> set xs. c \<notin> set x \<Longrightarrow> split_on c (join_with c xs) = xs"
  by (induction c xs rule: join_with.induct) (auto simp: split_no_sep split_append_sep)

text \<open>Printable ASCII is never trimmed.\<close>

definition printable :: "str \<Rightarrow> bool" where
  "printable s \<longleftrightarrow> (\<forall>b \<in> set s. 33 \<le> b \<and> b \<le> 126)"

lemma ws_len_0:
  assumes "\<forall>e \<in> set es. e \<noteq> [] \<and> \<not> (33 \<le> hd e \<and> hd e \<le> 126)" and "printable s"
  shows "ws_len es s = 0"
proof -
  have "\<not> starts_with e s" if e: "e \<in> set es" for e
  proof
    assume "starts_with e s"
    then obtain r where "s = e @ r" by (auto simp: starts_with_iff)
    with assms e have "33 \<le> hd e \<and> hd e \<le> 126"
      unfolding printable_def by (metis Un_iff list.set_sel(1) set_append)
    with assms(1) e show False by blast
  qed
  then have "find (\<lambda>w. starts_with w s) es = None"
    by (simp add: find_None_iff)
  then show ?thesis by (simp add: ws_len_def)
qed

lemma WHITESPACE_heads:
  "list_all (\<lambda>e. e \<noteq> [] \<and> \<not> (33 \<le> hd e \<and> hd e \<le> 126)) WHITESPACE"
  "list_all (\<lambda>e. e \<noteq> [] \<and> \<not> (33 \<le> hd e \<and> hd e \<le> 126)) (map rev WHITESPACE)"
  by code_simp+

lemma trim_printable [simp]:
  assumes "printable s"
  shows "trim s = s"
proof -
  have "trim_front WHITESPACE s = s"
    using ws_len_0 [OF WHITESPACE_heads(1) [unfolded list_all_iff] assms]
    by (subst trim_front.simps) simp
  moreover have "trim_front (map rev WHITESPACE) (rev s) = rev s"
    using ws_len_0 [OF WHITESPACE_heads(2) [unfolded list_all_iff], of "rev s"] assms
    by (subst trim_front.simps) (simp add: printable_def)
  ultimately show ?thesis
    by (simp add: trim_def trim_start_def trim_end_def)
qed

lemma split_once_first:
  assumes "sep \<noteq> []" and "hd sep \<notin> set x"
  shows "split_once sep (x @ sep @ r) = Some (x, r)"
  using assms(2)
proof (induction x)
  case Nil
  with assms(1) show ?case by (cases sep) (auto simp: starts_with_def)
next
  case (Cons b x)
  then have "\<not> starts_with sep (b # x @ sep @ r)"
    using assms(1) by (cases sep) (auto simp: starts_with_def)
  with Cons show ?case by simp
qed

lemma lines_of_terminated:
  assumes "\<forall>l \<in> set ls. 10 \<notin> set l \<and> 13 \<notin> set l"
  shows "lines_of (concat (map (\<lambda>l. l @ [10]) ls)) = ls"
proof -
  have sp: "split_on 10 (concat (map (\<lambda>l. l @ [10]) ls)) = ls @ [[]]"
    using assms by (induction ls) (auto simp: split_append_sep)
  have "map strip_cr ls = ls"
    using assms by (induction ls) (auto simp: strip_cr_def dest: last_in_set)
  then show ?thesis
    unfolding lines_of_def sp by simp
qed

end
