(* ===== verification/Static_Key.thy ===== *)
theory Static_Key
  imports Text Packet
begin

text \<open>
  The \<open>tls-auth\<close> key of \<open>static_key.rs\<close>: decoding it from hexadecimal and from the key file,
  and which half of it each end signs and verifies with.
\<close>

section \<open>The key\<close>

definition STATIC_KEY_LEN :: nat where
  "STATIC_KEY_LEN = 256"

definition SLOT_CIPHER_LEN :: nat where
  "SLOT_CIPHER_LEN = 64"

definition SLOT_HMAC_LEN :: nat where
  "SLOT_HMAC_LEN = 64"

definition SLOT_LEN :: nat where
  "SLOT_LEN = SLOT_CIPHER_LEN + SLOT_HMAC_LEN"

definition KEY_BEGIN :: str where
  "KEY_BEGIN = lit ''-----BEGIN OpenVPN Static key V1-----''"

definition KEY_END :: str where
  "KEY_END = lit ''-----END OpenVPN Static key V1-----''"

datatype static_key = StaticKey (key_bytes: bytes)

definition hex_digit :: "u8 \<Rightarrow> error + u8" where
  "hex_digit b =
     (if 48 \<le> b \<and> b \<le> 57 then Inr (b - 48)
      else if 97 \<le> b \<and> b \<le> 102 then Inr (b - 97 + 10)
      else if 65 \<le> b \<and> b \<le> 70 then Inr (b - 65 + 10)
      else Inl KeyNotHex)"

fun hex_pairs :: "bytes \<Rightarrow> error + bytes" where
  "hex_pairs (h # l # rest) =
     bindE (hex_digit h) (\<lambda>hi.
     bindE (hex_digit l) (\<lambda>lo.
     bindE (hex_pairs rest) (\<lambda>out. Inr ((push_bit 4 hi OR lo) # out))))"
| "hex_pairs _ = Inr []"

definition static_key_from_hex :: "str \<Rightarrow> error + static_key" where
  "static_key_from_hex hex =
     (let digits = filter (\<lambda>b. \<not> is_ascii_whitespace b) hex in
      if length digits mod 2 \<noteq> 0 then Inl KeyNotHex
      else if length digits div 2 \<noteq> STATIC_KEY_LEN then Inl (KeyLength (length digits div 2))
      else bindE (hex_pairs digits) (\<lambda>out. Inr (StaticKey out)))"

definition static_key_parse :: "str \<Rightarrow> error + static_key" where
  "static_key_parse text =
     bindE (ok_or (case split_once KEY_BEGIN text of
                     None \<Rightarrow> None
                   | Some (_, rest) \<Rightarrow> map_option fst (split_once KEY_END rest)) KeyMissing)
       (\<lambda>body. static_key_from_hex
          (concat (filter (\<lambda>line. line \<noteq> [] \<and> \<not> starts_with (lit ''#'') line)
                     (map trim (lines_of body)))))"

section \<open>Directions\<close>

datatype key_direction = Normal | Inverse | Bidirectional

fun out_slot :: "key_direction \<Rightarrow> nat" where
  "out_slot Normal = 0"
| "out_slot Bidirectional = 0"
| "out_slot Inverse = 1"

fun in_slot :: "key_direction \<Rightarrow> nat" where
  "in_slot Normal = 1"
| "in_slot Inverse = 0"
| "in_slot Bidirectional = 0"

definition hmac_slot :: "static_key \<Rightarrow> nat \<Rightarrow> bytes" where
  "hmac_slot k slot =
     take SLOT_HMAC_LEN (drop (slot * SLOT_LEN + SLOT_CIPHER_LEN) (key_bytes k))"

definition out_hmac :: "static_key \<Rightarrow> key_direction \<Rightarrow> bytes" where
  "out_hmac k d = hmac_slot k (out_slot d)"

definition in_hmac :: "static_key \<Rightarrow> key_direction \<Rightarrow> bytes" where
  "in_hmac k d = hmac_slot k (in_slot d)"

section \<open>The writer the parser answers to\<close>

text \<open>Lower-case hexadecimal, as \<open>openvpn --genkey\<close> writes it.\<close>

definition to_hex_digit :: "u8 \<Rightarrow> u8" where
  "to_hex_digit v = (if v < 10 then v + 48 else v + 87)"

definition to_hex :: "bytes \<Rightarrow> str" where
  "to_hex bs = concat (map (\<lambda>b. [to_hex_digit (drop_bit 4 b), to_hex_digit (b AND 15)]) bs)"

definition hex_chars :: "u8 set" where
  "hex_chars = {b. 48 \<le> b \<and> b \<le> 57 \<or> 97 \<le> b \<and> b \<le> 102}"

lemma nibble_lt: "v AND 15 < 16" "drop_bit 4 v < 16" for v :: u8
proof -
  have "v AND 15 \<le> 15" by (rule word_and_le1)
  then show "v AND 15 < 16" by (simp add: word_le_nat_alt word_less_nat_alt)
  have "unat (drop_bit 4 v) = unat v div 16"
    by (simp add: drop_bit_eq_div unat_div)
  moreover have "unat v < 2 ^ LENGTH(8)" by (rule unsigned_less)
  ultimately have "unat (drop_bit 4 v) < 16" by simp
  then show "drop_bit 4 v < 16" by (simp add: word_less_nat_alt)
qed

lemma nibble_cases:
  assumes "v < (16 :: u8)"
  shows "v \<in> {0, 1, 2, 3, 4, 5, 6, 7, 8, 9, 10, 11, 12, 13, 14, 15}"
proof -
  have "unat v < 16" using assms by (simp add: word_less_nat_alt)
  then have "unat v \<in> {0, 1, 2, 3, 4, 5, 6, 7, 8, 9, 10, 11, 12, 13, 14, 15}"
    by (simp; arith)
  then have "(of_nat (unat v) :: u8) \<in> of_nat ` {0, 1, 2, 3, 4, 5, 6, 7, 8, 9, 10, 11, 12, 13, 14, 15}"
    by (rule imageI)
  then show ?thesis by simp
qed

lemma hex_digits_all:
  "list_all (\<lambda>v. hex_digit (to_hex_digit v) = Inr v \<and>
      (48 \<le> to_hex_digit v \<and> to_hex_digit v \<le> 57 \<or> 97 \<le> to_hex_digit v \<and> to_hex_digit v \<le> 102))
     [0, 1, 2, 3, 4, 5, 6, 7, 8, 9, 10, 11, 12, 13, 14, 15]"
  by code_simp

lemma hex_digit_to_hex: "v < 16 \<Longrightarrow> hex_digit (to_hex_digit v) = Inr v"
  using hex_digits_all nibble_cases [of v] unfolding list_all_iff list.set by blast

lemma to_hex_digit_char: "v < 16 \<Longrightarrow> to_hex_digit v \<in> hex_chars"
  using hex_digits_all nibble_cases [of v] unfolding list_all_iff list.set hex_chars_def by blast

lemma nibbles_join: "push_bit 4 (drop_bit 4 v) OR (v AND 15) = v" for v :: u8
proof -
  have m: "(15 :: u8) = mask 4" by (simp add: mask_eq_exp_minus_1)
  show ?thesis unfolding m by (rule bit_word_eqI) (auto simp: bit_simps)
qed

lemma to_hex_Cons: "to_hex (b # bs) = to_hex_digit (drop_bit 4 b) # to_hex_digit (b AND 15) # to_hex bs"
  by (simp add: to_hex_def)

lemma to_hex_append: "to_hex (as @ bs) = to_hex as @ to_hex bs"
  by (simp add: to_hex_def)

lemma to_hex_concat: "concat (map to_hex bss) = to_hex (concat bss)"
  by (induction bss) (simp_all add: to_hex_append, simp add: to_hex_def)

lemma length_to_hex: "length (to_hex bs) = 2 * length bs"
  by (induction bs) (simp_all add: to_hex_Cons, simp add: to_hex_def)

lemma to_hex_chars: "set (to_hex bs) \<subseteq> hex_chars"
  by (induction bs) (auto simp: to_hex_Cons to_hex_digit_char nibble_lt, simp add: to_hex_def)

lemma hex_pairs_to_hex: "hex_pairs (to_hex bs) = Inr bs"
  by (induction bs)
    (simp_all add: to_hex_Cons hex_digit_to_hex nibble_lt nibbles_join, simp add: to_hex_def)

lemma hex_char_not_space: "b \<in> hex_chars \<Longrightarrow> \<not> is_ascii_whitespace b"
  by (auto simp: hex_chars_def is_ascii_whitespace_def word_le_nat_alt)

lemma from_hex_to_hex:
  assumes "length bs = STATIC_KEY_LEN"
  shows "static_key_from_hex (to_hex bs) = Inr (StaticKey bs)"
proof -
  have "filter (\<lambda>b. \<not> is_ascii_whitespace b) (to_hex bs) = to_hex bs"
    using to_hex_chars hex_char_not_space by (fastforce simp: filter_id_conv)
  then show ?thesis
    using assms by (simp add: static_key_from_hex_def length_to_hex hex_pairs_to_hex)
qed

lemma hex_chars_printable: "printable (to_hex bs)"
  using to_hex_chars [of bs] by (auto simp: printable_def hex_chars_def word_le_nat_alt)

lemma not_in_to_hex:
  "10 \<notin> set (to_hex bs)" "13 \<notin> set (to_hex bs)" "35 \<notin> set (to_hex bs)" "45 \<notin> set (to_hex bs)"
  using to_hex_chars [of bs] by (auto simp: hex_chars_def word_le_nat_alt)

text \<open>A key file: anything without a dash, then the armour around lines of hexadecimal.\<close>

definition key_file :: "str \<Rightarrow> bytes list \<Rightarrow> str \<Rightarrow> str" where
  "key_file pre rows post =
     pre @ KEY_BEGIN @ concat (map (\<lambda>l. l @ [10]) ([] # map to_hex rows)) @ KEY_END @ post"

lemma armour_head: "KEY_BEGIN \<noteq> []" "KEY_END \<noteq> []" "hd KEY_BEGIN = 45" "hd KEY_END = 45"
  by code_simp+

lemma key_file_body:
  assumes "45 \<notin> set pre"
  shows "split_once KEY_BEGIN (key_file pre rows post) =
     Some (pre, concat (map (\<lambda>l. l @ [10]) ([] # map to_hex rows)) @ KEY_END @ post)"
    and "split_once KEY_END (concat (map (\<lambda>l. l @ [10]) ([] # map to_hex rows)) @ KEY_END @ post) =
     Some (concat (map (\<lambda>l. l @ [10]) ([] # map to_hex rows)), post)"
proof -
  show "split_once KEY_BEGIN (key_file pre rows post) =
     Some (pre, concat (map (\<lambda>l. l @ [10]) ([] # map to_hex rows)) @ KEY_END @ post)"
    unfolding key_file_def using armour_head assms by (intro split_once_first) simp_all
  show "split_once KEY_END (concat (map (\<lambda>l. l @ [10]) ([] # map to_hex rows)) @ KEY_END @ post) =
     Some (concat (map (\<lambda>l. l @ [10]) ([] # map to_hex rows)), post)"
    using armour_head not_in_to_hex by (intro split_once_first) auto
qed

lemma hash_lit: "lit ''#'' = [35]"
  by code_simp

lemma key_lines:
  "concat (filter (\<lambda>line. line \<noteq> [] \<and> \<not> starts_with (lit ''#'') line)
     (map trim (lines_of (concat (map (\<lambda>l. l @ [10]) ([] # map to_hex rows)))))) = to_hex (concat rows)"
proof -
  have lines: "lines_of (concat (map (\<lambda>l. l @ [10]) ([] # map to_hex rows))) = [] # map to_hex rows"
    using not_in_to_hex by (intro lines_of_terminated) auto
  have trims: "map trim ([] # map to_hex rows) = [] # map to_hex rows"
    using hex_chars_printable by (simp add: printable_def)
  have hash: "\<not> starts_with [35] (to_hex l)" for l
    using not_in_to_hex(3) [of l] by (cases "to_hex l") (auto simp: starts_with_def)
  have "concat (filter (\<lambda>line. line \<noteq> [] \<and> \<not> starts_with [35] line) (map to_hex rows)) =
        to_hex (concat rows)"
    by (induction rows) (auto simp: hash to_hex_append, simp add: to_hex_def)
  then show ?thesis unfolding lines trims hash_lit by simp
qed

lemma static_key_parse_file:
  assumes "45 \<notin> set pre" and "length (concat rows) = STATIC_KEY_LEN"
  shows "static_key_parse (key_file pre rows post) = Inr (StaticKey (concat rows))"
  unfolding static_key_parse_def
  using key_file_body [OF assms(1)] key_lines from_hex_to_hex [OF assms(2)] by simp

text \<open>
  A key file parses to exactly its key, in \<open>StaticKey::parse\<close>: 256 bytes, written as
  hexadecimal over lines of any lengths between the armour lines, with any text without a dash
  before and any text after.
\<close>

theorem key_file_parses_to_its_key:
  assumes "45 \<notin> set pre" and "length (concat rows) = STATIC_KEY_LEN"
  shows "static_key_parse (key_file pre rows post) = Inr (StaticKey (concat rows))"
  using assms by (rule static_key_parse_file)

theorem key_file_parses_to_its_key_witness:
  "static_key_parse (key_file (lit ''# 2048 bit'') (replicate 16 (map of_nat [16..<32])) [10]) =
     Inr (StaticKey (concat (replicate 16 (map of_nat [16..<32]))))"
  by (rule key_file_parses_to_its_key) code_simp+

end
