(* ===== verification/Session_Config.thy ===== *)
theory Session_Config
  imports Static_Key
begin

text \<open>
  How to reach the peer and how to be sure it is the peer: the configuration of a session
  (\<open>session.rs\<close>: \<open>SessionConfig\<close>, \<open>Credentials\<close>, \<open>ClientAuth\<close>).
\<close>

record credentials =
  cred_username :: str
  cred_password :: str

record client_auth =
  ca_cert_chain_pem :: str
  ca_private_key_pem :: str

record session_config =
  cfg_ca_pem :: str
  cfg_server_name :: str
  cfg_static_key :: static_key
  cfg_key_direction :: key_direction
  cfg_session_id :: session_id
  cfg_tls_timeout :: duration
  cfg_peer_timeout :: "duration option"
  cfg_credentials :: "credentials option"
  cfg_client_auth :: "client_auth option"

text \<open>\<open>SessionConfig::new\<close>; the random session id is an argument.\<close>

definition session_config_new :: "session_id \<Rightarrow> str \<Rightarrow> str \<Rightarrow> static_key \<Rightarrow> session_config" where
  "session_config_new sid ca_pem server_name static_key =
     \<lparr>cfg_ca_pem = ca_pem, cfg_server_name = server_name, cfg_static_key = static_key,
      cfg_key_direction = Inverse, cfg_session_id = sid, cfg_tls_timeout = secs 2,
      cfg_peer_timeout = None, cfg_credentials = None, cfg_client_auth = None\<rparr>"

end
