(* ===== verification/Replay.thy ===== *)
theory Replay
  imports Errors
begin

text \<open>
  The sliding replay window of \<open>replay.rs\<close>: one operation, \<open>ReplayWindow::accept\<close>, that
  tests a packet's \<open>(packet_id, net_time)\<close> and records it. The state keeps the 64-bit mask of
  the source; the specification keeps the set of ids seen at the current time. The locale
  \<open>replay_guard\<close> states what the layers above rely on.
\<close>

section \<open>The window\<close>

definition WINDOW :: u32 where
  "WINDOW = 64"

record replay_window =
  rw_time :: u32
  rw_highest :: u32
  rw_seen :: u64

definition rw_new :: replay_window where
  "rw_new = \<lparr>rw_time = 0, rw_highest = 0, rw_seen = 0\<rparr>"

text \<open>\<open>u64::BITS\<close> is 64; \<open><<\<close> shifts a \<open>u64\<close> by less than 64 here.\<close>

definition rw_accept :: "u32 \<Rightarrow> u32 \<Rightarrow> replay_window \<Rightarrow> bool \<times> replay_window" where
  "rw_accept packet_id net_time w =
     (if packet_id = 0 then (False, w)
      else if net_time > rw_time w then
        (True, w\<lparr>rw_time := net_time, rw_highest := packet_id, rw_seen := 1\<rparr>)
      else if net_time < rw_time w then (False, w)
      else if packet_id > rw_highest w then
        let advance = packet_id - rw_highest w in
        (True, w\<lparr>rw_seen := (if advance \<ge> 64 then 1
                             else push_bit (unat advance) (rw_seen w) OR 1),
                 rw_highest := packet_id\<rparr>)
      else
        let behind = rw_highest w - packet_id in
        if behind \<ge> WINDOW then (False, w)
        else
          let bt = push_bit (unat behind) (1 :: u64) in
          if rw_seen w AND bt \<noteq> 0 then (False, w)
          else (True, w\<lparr>rw_seen := rw_seen w OR bt\<rparr>))"

section \<open>The specification: a set of ids\<close>

text \<open>
  \<open>spec_seen\<close> is the set of ids accepted at \<open>spec_time\<close> that the mask can still answer for.
\<close>

record replay_spec =
  spec_time :: nat
  spec_highest :: nat
  spec_seen :: "nat set"

definition spec_accept :: "nat \<Rightarrow> nat \<Rightarrow> replay_spec \<Rightarrow> bool \<times> replay_spec" where
  "spec_accept i t s =
     (if i = 0 \<or> t < spec_time s then (False, s)
      else if t > spec_time s then
        (True, \<lparr>spec_time = t, spec_highest = i, spec_seen = {i}\<rparr>)
      else if i > spec_highest s then
        (True, s\<lparr>spec_highest := i, spec_seen := {j \<in> insert i (spec_seen s). i < j + 64}\<rparr>)
      else if spec_highest s \<ge> i + 64 \<or> i \<in> spec_seen s then (False, s)
      else (True, s\<lparr>spec_seen := insert i (spec_seen s)\<rparr>))"

text \<open>The ids a mask stands for: bit \<open>b\<close> is the id \<open>highest - b\<close>.\<close>

definition rw_ids :: "replay_window \<Rightarrow> nat set" where
  "rw_ids w = {i. i \<le> unat (rw_highest w) \<and> bit (rw_seen w) (unat (rw_highest w) - i)}"

definition rw_abs :: "replay_window \<Rightarrow> replay_spec" where
  "rw_abs w = \<lparr>spec_time = unat (rw_time w), spec_highest = unat (rw_highest w),
               spec_seen = rw_ids w\<rparr>"

lemma bit_AND_push_1: "(w :: u64) AND push_bit n 1 \<noteq> 0 \<longleftrightarrow> n < 64 \<and> bit w n"
  by (auto simp: bit_eq_iff [where ?'a = "64 word"] bit_simps)

lemma bit_AND_exp: "(w :: u64) AND 2 ^ n = 0 \<longleftrightarrow> \<not> bit w n"
  using bit_AND_push_1 [of w n] bit_imp_le_length [of w n] by (auto simp: push_bit_of_1)

lemma rw_seen_small: "bit (rw_seen w) n \<Longrightarrow> n < 64"
  using bit_imp_le_length by fastforce

lemma rw_ids_recent: "i \<in> rw_ids w \<Longrightarrow> unat (rw_highest w) < i + 64"
  by (auto simp: rw_ids_def dest: rw_seen_small)

lemma rw_ids_fresh: "rw_ids (w\<lparr>rw_time := t, rw_highest := i, rw_seen := 1\<rparr>) = {unat i}"
  by (auto simp: rw_ids_def bit_simps)

lemma rw_ids_advance:
  assumes "rw_highest w < i"
  shows "rw_ids (w\<lparr>rw_seen := (if i - rw_highest w \<ge> 64 then 1
                             else push_bit (unat (i - rw_highest w)) (rw_seen w) OR 1),
                 rw_highest := i\<rparr>) =
         {j \<in> insert (unat i) (rw_ids w). unat i < j + 64}"
proof -
  have lt: "unat (rw_highest w) < unat i"
    using assms by (simp add: word_less_unat)
  have adv: "unat (i - rw_highest w) = unat i - unat (rw_highest w)"
    using assms by (simp add: unat_sub word_less_nat_alt word_le_nat_alt)
  have big: "i - rw_highest w \<ge> 64 \<longleftrightarrow> unat i - unat (rw_highest w) \<ge> 64"
    by (simp add: word_le_nat_alt adv)
  show ?thesis
  proof (cases "i - rw_highest w \<ge> 64")
    case True
    then show ?thesis
      using lt big by (auto simp: rw_ids_def bit_simps dest: rw_seen_small)
  next
    case False
    then show ?thesis
      using lt big by (auto simp: rw_ids_def bit_simps adv dest: rw_seen_small)
  qed
qed

lemma rw_ids_record:
  assumes "i \<le> rw_highest w" and "unat (rw_highest w) < unat i + 64"
  shows "rw_ids (w\<lparr>rw_seen := rw_seen w OR push_bit (unat (rw_highest w - i)) 1\<rparr>) =
         insert (unat i) (rw_ids w)"
  using assms
  by (auto simp: rw_ids_def bit_simps unat_sub word_le_nat_alt)

lemma WINDOW_unat: "(h - i \<ge> WINDOW) \<longleftrightarrow> unat h \<ge> unat i + 64" if "i \<le> h" for h i :: u32
  using that by (auto simp: WINDOW_def word_le_nat_alt unat_sub)

text \<open>The mask implements the set: acceptance and the new state agree at every input.\<close>

lemma rw_accept_refines:
  "spec_accept (unat i) (unat t) (rw_abs w) =
     (fst (rw_accept i t w), rw_abs (snd (rw_accept i t w)))"
proof -
  consider "i = 0" | "i \<noteq> 0" "t > rw_time w" | "i \<noteq> 0" "t < rw_time w"
    | "i \<noteq> 0" "t = rw_time w" "i > rw_highest w"
    | "i \<noteq> 0" "t = rw_time w" "i \<le> rw_highest w"
    by fastforce
  then show ?thesis
  proof cases
    case 1
    then show ?thesis by (simp add: rw_accept_def spec_accept_def)
  next
    case 2
    then show ?thesis
      using rw_ids_fresh [where w = w and t = t and i = i]
      by (simp add: rw_accept_def spec_accept_def rw_abs_def word_less_unat unat_eq_0)
  next
    case 3
    then show ?thesis
      by (simp add: rw_accept_def spec_accept_def rw_abs_def word_less_unat unat_eq_0)
  next
    case 4
    then show ?thesis
      using rw_ids_advance [of w i]
      by (simp add: rw_accept_def spec_accept_def rw_abs_def word_less_unat unat_eq_0 Let_def)
  next
    case 5
    then have ge: "\<not> rw_highest w < i" by simp
    from 5 have sub: "unat (rw_highest w - i) = unat (rw_highest w) - unat i"
      by (simp add: unat_sub)
    show ?thesis
    proof (cases "rw_highest w - i \<ge> WINDOW")
      case True
      with 5 ge show ?thesis
        using WINDOW_unat [of i "rw_highest w"]
        by (simp add: rw_accept_def spec_accept_def rw_abs_def word_less_unat unat_eq_0 Let_def)
    next
      case False
      have seen: "unat i \<in> rw_ids w \<longleftrightarrow> bit (rw_seen w) (unat (rw_highest w - i))"
        using 5 by (simp add: rw_ids_def sub word_le_nat_alt)
      have small: "unat (rw_highest w - i) < 64"
        using False by (simp add: WINDOW_def word_le_nat_alt not_le)
      have near: "unat (rw_highest w) < unat i + 64"
        using False WINDOW_unat [of i "rw_highest w"] 5 by simp
      show ?thesis
        using 5 ge False seen small near rw_ids_record [of i w]
        by (simp add: rw_accept_def spec_accept_def rw_abs_def word_less_unat unat_eq_0 Let_def
            bit_AND_exp)
    qed
  qed
qed

section \<open>The interface the layers above use\<close>

text \<open>
  \<open>offers\<close> feeds a list of packets to a guard: what it accepted, in order, and the guard
  afterwards. A guard is a state with one operation. Its contract: \<open>seen g i t\<close> says the guard will
  refuse \<open>(i, t)\<close>; an accepted packet is refused from then on, a refused one changes nothing,
  and nothing is ever forgotten.
\<close>

fun offers :: "('i \<Rightarrow> 't \<Rightarrow> 'g \<Rightarrow> bool \<times> 'g) \<Rightarrow> 'g \<Rightarrow> ('i \<times> 't) list \<Rightarrow> ('i \<times> 't) list \<times> 'g"
where
  "offers accept g [] = ([], g)"
| "offers accept g (p # ps) =
     (let r = accept (fst p) (snd p) g; rest = offers accept (snd r) ps
      in (if fst r then p # fst rest else fst rest, snd rest))"

locale replay_guard =
  fixes accept :: "'i \<Rightarrow> 't \<Rightarrow> 'g \<Rightarrow> bool \<times> 'g"
    and refuses :: "'g \<Rightarrow> 'i \<Rightarrow> 't \<Rightarrow> bool"
  assumes accept_iff: "fst (accept i t g) \<longleftrightarrow> \<not> refuses g i t"
    and refused_unchanged: "\<not> fst (accept i t g) \<Longrightarrow> snd (accept i t g) = g"
    and accepted_refused: "fst (accept i t g) \<Longrightarrow> refuses (snd (accept i t g)) i t"
    and refuses_mono: "refuses g j u \<Longrightarrow> refuses (snd (accept i t g)) j u"
begin

lemma offers_refuses: "refuses g j u \<Longrightarrow> refuses (snd (offers accept g ps)) j u"
  by (induction ps arbitrary: g) (auto simp: Let_def dest: refuses_mono)

lemma offers_not_accepted:
  "refuses g j u \<Longrightarrow> (j, u) \<notin> set (fst (offers accept g ps))"
proof (induction ps arbitrary: g)
  case (Cons p ps)
  then have "(j, u) \<notin> set (fst (offers accept (snd (accept (fst p) (snd p) g)) ps))"
    by (blast dest: refuses_mono)
  with Cons.prems show ?case
    by (auto simp: Let_def accept_iff)
qed simp

lemma accepted_at_most_once: "distinct (fst (offers accept g ps))"
proof (induction ps arbitrary: g)
  case (Cons p ps)
  then show ?case
    using offers_not_accepted [OF accepted_refused, of "fst p" "snd p" g ps]
    by (auto simp: Let_def)
qed simp

end

text \<open>What the window refuses: the negation of its acceptance, as a predicate.\<close>

definition rw_refuses :: "replay_window \<Rightarrow> u32 \<Rightarrow> u32 \<Rightarrow> bool" where
  "rw_refuses w i t \<longleftrightarrow>
     i = 0 \<or> t < rw_time w \<or>
     t = rw_time w \<and> i \<le> rw_highest w \<and>
       (unat i + 64 \<le> unat (rw_highest w) \<or> unat i \<in> rw_ids w)"

lemma rw_refuses_spec:
  "rw_refuses w i t \<longleftrightarrow> \<not> fst (spec_accept (unat i) (unat t) (rw_abs w))"
proof -
  have e: "t = rw_time w \<longleftrightarrow> unat t = unat (rw_time w)" "i = 0 \<longleftrightarrow> unat i = 0"
    by (simp_all add: word_unat_eq_iff)
  show ?thesis
    unfolding rw_refuses_def spec_accept_def rw_abs_def e word_less_nat_alt word_le_nat_alt
    by auto
qed

lemma spec_accept_keeps:
  assumes "\<not> fst (spec_accept j u s)"
  shows "\<not> fst (spec_accept j u (snd (spec_accept i t s)))"
  using assms by (auto simp: spec_accept_def split: if_splits)

lemma spec_accept_once: "fst (spec_accept i t s) \<Longrightarrow> \<not> fst (spec_accept i t (snd (spec_accept i t s)))"
  by (auto simp: spec_accept_def split: if_splits)

interpretation window: replay_guard rw_accept rw_refuses
proof
  show "fst (rw_accept i t g) \<longleftrightarrow> \<not> rw_refuses g i t" for i t g
    by (simp add: rw_refuses_spec rw_accept_refines)
  show "snd (rw_accept i t g) = g" if "\<not> fst (rw_accept i t g)" for i t g
    using that by (auto simp: rw_accept_def Let_def split: if_splits)
  show "rw_refuses (snd (rw_accept i t g)) i t" if "fst (rw_accept i t g)" for i t g
    using that spec_accept_once [of "unat i" "unat t" "rw_abs g"]
    by (simp add: rw_refuses_spec rw_accept_refines)
  show "rw_refuses (snd (rw_accept i t g)) j u" if "rw_refuses g j u" for i t g j u
    using that spec_accept_keeps [of "unat j" "unat u" "rw_abs g" "unat i" "unat t"]
    by (simp add: rw_refuses_spec rw_accept_refines)
qed

section \<open>Properties\<close>

lemma offers_simulation:
  assumes "\<And>i t g. spec (ai i) (at t) (ab g) = (fst (impl i t g), ab (snd (impl i t g)))"
  shows "offers spec (ab g) (map (\<lambda>(i, t). (ai i, at t)) ps) =
         (map (\<lambda>(i, t). (ai i, at t)) (fst (offers impl g ps)), ab (snd (offers impl g ps)))"
  by (induction ps arbitrary: g) (auto simp: Let_def assms split_beta)

definition spec_new :: replay_spec where
  "spec_new = \<lparr>spec_time = 0, spec_highest = 0, spec_seen = {}\<rparr>"

lemma rw_abs_new: "rw_abs rw_new = spec_new"
  by (simp add: rw_abs_def rw_new_def spec_new_def rw_ids_def)

text \<open>
  A window started afresh accepts, over any sequence of packets, exactly what the set-based
  specification accepts, in the same order: the 64-bit mask with its shifts loses nothing.
\<close>

theorem replay_window_refines_set:
  "map (\<lambda>(i, t). (unat i, unat t)) (fst (offers rw_accept rw_new ps)) =
   fst (offers spec_accept spec_new (map (\<lambda>(i, t). (unat i, unat t)) ps))"
  using offers_simulation
    [where spec = spec_accept and ai = unat and at = unat and ab = rw_abs and impl = rw_accept
      and g = rw_new and ps = ps]
  by (simp add: rw_accept_refines rw_abs_new)

text \<open>
  C30. No packet is accepted twice: whatever sequence of packets a window is offered, and
  whatever it saw before, the packets it accepts are pairwise different.
\<close>

theorem replay_never_accepts_twice: "distinct (fst (offers rw_accept w ps))"
  by (rule window.accepted_at_most_once)

lemma spec_offers_reordered:
  assumes "spec_time s \<le> t"
    and "spec_time s = t \<longrightarrow> spec_seen s \<subseteq> A \<and> (spec_highest s = 0 \<or> spec_highest s \<in> A)"
    and "spec_time s < t \<longrightarrow> A = {}"
    and "distinct is" and "set is \<inter> A = {}" and "0 \<notin> set is"
    and "\<And>i a. i \<in> set is \<Longrightarrow> a \<in> A \<union> set is \<Longrightarrow> a < i + 64"
  shows "fst (offers spec_accept s (map (\<lambda>i. (i, t)) is)) = map (\<lambda>i. (i, t)) is"
  using assms
proof (induction "is" arbitrary: s A)
  case (Cons i "is")
  have ok: "fst (spec_accept i t s)"
    using Cons.prems by (fastforce simp: spec_accept_def)
  have "fst (offers spec_accept (snd (spec_accept i t s)) (map (\<lambda>i. (i, t)) is)) =
        map (\<lambda>i. (i, t)) is"
  proof (rule Cons.IH [where A = "insert i A"])
    show "spec_time (snd (spec_accept i t s)) \<le> t"
      using Cons.prems(1) by (auto simp: spec_accept_def)
    show "spec_time (snd (spec_accept i t s)) = t \<longrightarrow>
        spec_seen (snd (spec_accept i t s)) \<subseteq> insert i A \<and>
        (spec_highest (snd (spec_accept i t s)) = 0 \<or>
         spec_highest (snd (spec_accept i t s)) \<in> insert i A)"
      using Cons.prems(1,2) by (auto simp: spec_accept_def)
    show "spec_time (snd (spec_accept i t s)) < t \<longrightarrow> insert i A = {}"
      using ok Cons.prems(1) by (auto simp: spec_accept_def split: if_splits)
  qed (use Cons.prems in auto)
  with ok show ?case by (simp add: Let_def)
qed simp

lemma reordered_accepted:
  assumes "distinct is" and "0 \<notin> set is"
    and "\<forall>i \<in> set is. \<forall>j \<in> set is. unat j < unat i + 64"
  shows "fst (offers rw_accept rw_new (map (\<lambda>i. (i, t)) is)) = map (\<lambda>i. (i, t)) is"
proof -
  have "fst (offers spec_accept spec_new (map (\<lambda>i. (i, unat t)) (map unat is))) =
        map (\<lambda>i. (i, unat t)) (map unat is)"
  proof (rule spec_offers_reordered [where A = "{}"])
    show "distinct (map unat is)"
      using assms(1) by (auto simp: distinct_map intro!: inj_onI unsigned_word_eqI)
    show "0 \<notin> set (map unat is)"
      using assms(2) by (auto simp: unat_eq_0)
    show "a < i + 64" if "i \<in> set (map unat is)" "a \<in> {} \<union> set (map unat is)" for i a
      using assms(3) that by auto
  qed (simp_all add: spec_new_def)
  then have "map (\<lambda>(i, t). (unat i, unat t)) (fst (offers rw_accept rw_new (map (\<lambda>i. (i, t)) is))) =
        map (\<lambda>(i, t). (unat i, unat t)) (map (\<lambda>i. (i, t)) is)"
    using offers_simulation
      [where spec = spec_accept and ai = unat and at = unat and ab = rw_abs and impl = rw_accept
        and g = rw_new and ps = "map (\<lambda>i. (i, t)) is"]
    by (simp add: rw_accept_refines rw_abs_new comp_def)
  moreover have "inj (\<lambda>(i :: u32, t :: u32). (unat i, unat t))"
    by (auto intro!: injI unsigned_word_eqI)
  ultimately show ?thesis
    using inj_map_eq_map by blast
qed

text \<open>
  Reordering is tolerated: packets with one timestamp and pairwise different non-zero ids
  are all accepted by a fresh window, in any order of arrival in which none lags 64 or more
  behind another.
\<close>

theorem replay_accepts_reordered_packets:
  assumes "distinct is" and "0 \<notin> set is"
    and "\<forall>i \<in> set is. \<forall>j \<in> set is. unat j < unat i + 64"
  shows "fst (offers rw_accept rw_new (map (\<lambda>i. (i, t)) is)) = map (\<lambda>i. (i, t)) is"
  using assms by (rule reordered_accepted)

theorem replay_accepts_reordered_packets_witness:
  "fst (offers rw_accept rw_new (map (\<lambda>i. (i, 9)) [3, 1, 64, 2])) =
   map (\<lambda>i. (i, 9)) [3, 1, 64, 2 :: u32]"
  by (rule replay_accepts_reordered_packets) auto

end
