(* ===== verification/Data.thy ===== *)
theory Data
  imports Replay Packet
begin

text \<open>
  The data channel, \<open>data.rs\<close>: payloads sealed into datagrams and opened again. AES-256-CBC and
  HMAC-SHA512 are code of other crates, the parameters of a \<open>suite\<close>; the laws of \<open>suite_ok\<close> are
  that decryption undoes encryption (with its padding), that a padded ciphertext is not empty,
  and the length of a tag. The IV, random in the code, is an argument.
\<close>

section \<open>Keys and identifiers\<close>

record suite =
  su_encrypt :: "bytes \<Rightarrow> bytes \<Rightarrow> bytes \<Rightarrow> bytes"
  su_decrypt :: "bytes \<Rightarrow> bytes \<Rightarrow> bytes \<Rightarrow> bytes option"
  su_mac :: "bytes \<Rightarrow> bytes \<Rightarrow> bytes"

definition CIPHER_KEY_LEN :: nat where
  "CIPHER_KEY_LEN = 32"

definition HMAC_KEY_LEN :: nat where
  "HMAC_KEY_LEN = 64"

definition IV_LEN :: nat where
  "IV_LEN = 16"

definition HEADER_V2_LEN :: nat where
  "HEADER_V2_LEN = 4"

definition HEADER_V1_LEN :: nat where
  "HEADER_V1_LEN = 1"

record data_keys =
  encrypt_cipher :: bytes
  encrypt_hmac :: bytes
  decrypt_cipher :: bytes
  decrypt_hmac :: bytes

definition data_keys_split :: "bytes \<Rightarrow> nat \<Rightarrow> nat \<Rightarrow> error + data_keys" where
  "data_keys_split expansion out_s in_s =
     (if length expansion < 256 then Inl (Truncated ''a key expansion'')
      else
        let cipher_at = (\<lambda>slot. slot * 128);
            hmac_at = (\<lambda>slot. slot * 128 + 64)
        in Inr \<lparr>encrypt_cipher = take CIPHER_KEY_LEN (drop (cipher_at out_s) expansion),
                encrypt_hmac = take HMAC_KEY_LEN (drop (hmac_at out_s) expansion),
                decrypt_cipher = take CIPHER_KEY_LEN (drop (cipher_at in_s) expansion),
                decrypt_hmac = take HMAC_KEY_LEN (drop (hmac_at in_s) expansion)\<rparr>)"

definition data_keys_for_client :: "bytes \<Rightarrow> error + data_keys" where
  "data_keys_for_client expansion = data_keys_split expansion 0 1"

definition data_keys_for_server :: "bytes \<Rightarrow> error + data_keys" where
  "data_keys_for_server expansion = data_keys_split expansion 1 0"

datatype peer_id = PeerId (peer_id_get: u32)

definition PEER_ID_MAX :: u32 where
  "PEER_ID_MAX = 0x00ffffff"

definition peer_id_new :: "u32 \<Rightarrow> peer_id option" where
  "peer_id_new v = (if v \<le> PEER_ID_MAX then Some (PeerId v) else None)"

section \<open>The channel\<close>

record data_channel =
  dc_keys :: data_keys
  dc_peer_id :: "peer_id option"
  dc_key_id :: key_id
  dc_next_packet_id :: u32
  dc_replay :: replay_window

definition data_channel_new :: "data_keys \<Rightarrow> peer_id option \<Rightarrow> key_id \<Rightarrow> data_channel" where
  "data_channel_new keys pid kid =
     \<lparr>dc_keys = keys, dc_peer_id = pid, dc_key_id = kid, dc_next_packet_id = 1, dc_replay = rw_new\<rparr>"

text \<open>The datagram that carries a payload under a packet id.\<close>

definition data_wire :: "suite \<Rightarrow> data_channel \<Rightarrow> u32 \<Rightarrow> bytes \<Rightarrow> bytes \<Rightarrow> bytes" where
  "data_wire su ch packet_id iv payload =
     (let ciphertext = su_encrypt su (encrypt_cipher (dc_keys ch)) iv (be32 packet_id @ payload);
          tag = su_mac su (encrypt_hmac (dc_keys ch)) (iv @ ciphertext);
          header = (case dc_peer_id ch of
                      Some p \<Rightarrow> header_byte DataV2 (dc_key_id ch) # drop 1 (be32 (peer_id_get p))
                    | None \<Rightarrow> [header_byte DataV1 (dc_key_id ch)])
      in header @ tag @ iv @ ciphertext)"

definition encrypt_with_iv ::
  "suite \<Rightarrow> bytes \<Rightarrow> bytes \<Rightarrow> data_channel \<Rightarrow> (error + bytes) \<times> data_channel" where
  "encrypt_with_iv su payload iv ch =
     (let packet_id = dc_next_packet_id ch in
      if unat packet_id + 1 < 2 ^ 32 then
        (Inr (data_wire su ch packet_id iv payload), ch\<lparr>dc_next_packet_id := packet_id + 1\<rparr>)
      else (Inl PacketIdExhausted, ch))"

text \<open>What a datagram says before the replay window is asked: its packet id and payload.\<close>

definition data_open :: "suite \<Rightarrow> data_channel \<Rightarrow> bytes \<Rightarrow> error + u32 \<times> bytes" where
  "data_open su ch d =
     (case d of
        [] \<Rightarrow> Inl (Truncated ''a data packet'')
      | first # _ \<Rightarrow>
          bindE (opcode_from_u8 (drop_bit 3 first)) (\<lambda>op.
          bindE (case op of DataV2 \<Rightarrow> Inr HEADER_V2_LEN | DataV1 \<Rightarrow> Inr HEADER_V1_LEN
                 | other \<Rightarrow> Inl (UnexpectedDataOpcode other)) (\<lambda>header_end.
          let tag_end = header_end + HMAC_KEY_LEN; iv_end = tag_end + IV_LEN in
          if length d \<le> iv_end then Inl (Truncated ''a data packet'')
          else
            let kid = key_id_masked first in
            if kid \<noteq> dc_key_id ch then Inl (OtherKeyId kid (dc_key_id ch))
            else if su_mac su (decrypt_hmac (dc_keys ch)) (drop tag_end d) \<noteq>
                    take HMAC_KEY_LEN (drop header_end d) then Inl BadHmac
            else
              bindE (ok_or (su_decrypt su (decrypt_cipher (dc_keys ch))
                              (take IV_LEN (drop tag_end d)) (drop iv_end d)) BadPadding) (\<lambda>plaintext.
              if length plaintext < 4 then Inl (Truncated ''a packet id'')
              else Inr (from_be32 (take 4 plaintext), drop 4 plaintext)))))"

definition decrypt :: "suite \<Rightarrow> bytes \<Rightarrow> data_channel \<Rightarrow> (error + bytes) \<times> data_channel" where
  "decrypt su d ch =
     (case data_open su ch d of
        Inl e \<Rightarrow> (Inl e, ch)
      | Inr (packet_id, payload) \<Rightarrow>
          let (fresh, replay) = rw_accept packet_id 0 (dc_replay ch) in
          (if fresh then Inr payload else Inl Replayed, ch\<lparr>dc_replay := replay\<rparr>))"

definition PING :: bytes where
  "PING = [0x2a, 0x18, 0x7b, 0xf3, 0x64, 0x1e, 0xb4, 0xcb, 0x07, 0xed, 0x2d, 0x0a, 0x98, 0x1f, 0xc7, 0x48]"

section \<open>Sealing and opening\<close>

definition suite_ok :: "suite \<Rightarrow> bool" where
  "suite_ok su \<longleftrightarrow>
     (\<forall>k m. length (su_mac su k m) = HMAC_KEY_LEN) \<and>
     (\<forall>k iv p. su_decrypt su k iv (su_encrypt su k iv p) = Some p \<and> su_encrypt su k iv p \<noteq> [])"

text \<open>Two ends of one key: each decrypts with what the other encrypts with.\<close>

definition data_paired :: "data_channel \<Rightarrow> data_channel \<Rightarrow> bool" where
  "data_paired a b \<longleftrightarrow> decrypt_cipher (dc_keys b) = encrypt_cipher (dc_keys a) \<and>
     decrypt_hmac (dc_keys b) = encrypt_hmac (dc_keys a) \<and> dc_key_id b = dc_key_id a"

lemma data_open_wire:
  assumes su: "suite_ok su" and pair: "data_paired a b" and kid: "key_id_ok (dc_key_id a)"
    and iv: "length iv = IV_LEN"
  shows "data_open su b (data_wire su a i iv payload) = Inr (i, payload)"
proof -
  let ?c = "su_encrypt su (encrypt_cipher (dc_keys a)) iv (be32 i @ payload)"
  let ?t = "su_mac su (encrypt_hmac (dc_keys a)) (iv @ ?c)"
  have t: "length ?t = HMAC_KEY_LEN" and c: "?c \<noteq> []"
    "su_decrypt su (encrypt_cipher (dc_keys a)) iv ?c = Some (be32 i @ payload)"
    using su by (auto simp: suite_ok_def)
  have open_: "data_open su b (h # hs @ ?t @ iv @ ?c) = Inr (i, payload)"
    if h: "h = header_byte op (dc_key_id a)"
      and op: "op = DataV2 \<and> length hs + 1 = HEADER_V2_LEN \<or> op = DataV1 \<and> length hs + 1 = HEADER_V1_LEN"
    for h hs op
  proof -
    let ?d = "h # hs @ ?t @ iv @ ?c" and ?n = "length hs + 1"
    have hb: "opcode_from_u8 (drop_bit 3 h) = Inr op" "key_id_masked h = dc_key_id a"
      using header_byte_opcode [OF kid, of op] header_byte_key [OF kid, of op] h
      by (simp_all add: OPCODE_SHIFT_def key_id_masked_eq)
    have cut: "drop (?n + HMAC_KEY_LEN) ?d = iv @ ?c" "take HMAC_KEY_LEN (drop ?n ?d) = ?t"
      "drop (?n + HMAC_KEY_LEN + IV_LEN) ?d = ?c" "\<not> length ?d \<le> ?n + HMAC_KEY_LEN + IV_LEN"
      using t iv c(1) by simp_all
    have "data_open su b ?d =
        bindE (Inr ?n) (\<lambda>header_end.
          let tag_end = header_end + HMAC_KEY_LEN; iv_end = tag_end + IV_LEN in
          if length ?d \<le> iv_end then Inl (Truncated ''a data packet'')
          else
            let kid = key_id_masked h in
            if kid \<noteq> dc_key_id b then Inl (OtherKeyId kid (dc_key_id b))
            else if su_mac su (decrypt_hmac (dc_keys b)) (drop tag_end ?d) \<noteq>
                    take HMAC_KEY_LEN (drop header_end ?d) then Inl BadHmac
            else
              bindE (ok_or (su_decrypt su (decrypt_cipher (dc_keys b))
                              (take IV_LEN (drop tag_end ?d)) (drop iv_end ?d)) BadPadding) (\<lambda>plaintext.
              if length plaintext < 4 then Inl (Truncated ''a packet id'')
              else Inr (from_be32 (take 4 plaintext), drop 4 plaintext)))"
      unfolding data_open_def list.case hb(1) using op by (auto simp only: opcode.case bindE_simps)
    also have "\<dots> = Inr (i, payload)"
      unfolding bindE_simps Let_def cut hb using pair c(2) iv cut(4) by (simp add: data_paired_def)
    finally show ?thesis .
  qed
  show ?thesis
  proof (cases "dc_peer_id a")
    case None
    with open_ [of _ DataV1 "[]"] show ?thesis by (simp add: data_wire_def Let_def HEADER_V1_LEN_def)
  next
    case (Some p)
    with open_ [of _ DataV2 "drop 1 (be32 (peer_id_get p))"] show ?thesis
      by (simp add: data_wire_def Let_def HEADER_V2_LEN_def)
  qed
qed

lemma decrypt_refused_unchanged: "fst (decrypt su d ch) = Inl e \<Longrightarrow> snd (decrypt su d ch) = ch"
proof -
  assume e: "fst (decrypt su d ch) = Inl e"
  show ?thesis
  proof (cases "data_open su ch d")
    case (Inl x)
    then show ?thesis by (simp add: decrypt_def)
  next
    case (Inr p)
    obtain i payload where p: "p = (i, payload)" by (cases p)
    have "\<not> fst (rw_accept i 0 (dc_replay ch))"
      using e Inr p by (auto simp: decrypt_def split: prod.splits if_splits)
    then show ?thesis
      using window.refused_unchanged [of i 0 "dc_replay ch"] Inr p
      by (simp add: decrypt_def split_beta)
  qed
qed

text \<open>What an accepted datagram is: sealed with our keys for this generation.\<close>

lemma data_open_sealed:
  assumes "data_open su ch d = Inr (i, payload)"
  obtains op header iv ct where
    "op = DataV2 \<and> length header = HEADER_V2_LEN \<or> op = DataV1 \<and> length header = HEADER_V1_LEN"
    "d = header @ su_mac su (decrypt_hmac (dc_keys ch)) (iv @ ct) @ iv @ ct"
    "hd header = header_byte op (dc_key_id ch)" "length iv = IV_LEN"
    "su_decrypt su (decrypt_cipher (dc_keys ch)) iv ct = Some (be32 i @ payload)"
proof -
  obtain first rest where d: "d = first # rest"
    using assms by (cases d) (auto simp: data_open_def)
  obtain op where op: "opcode_from_u8 (drop_bit 3 first) = Inr op"
    using assms d by (auto simp: data_open_def bindE_eq_Inr)
  define n where "n = (if op = DataV2 then HEADER_V2_LEN else HEADER_V1_LEN)"
  have v: "op = DataV2 \<or> op = DataV1"
    using assms d op by (cases op) (auto simp: data_open_def)
  define tag iv ct where
    "tag = take HMAC_KEY_LEN (drop n d)" and "iv = take IV_LEN (drop (n + HMAC_KEY_LEN) d)" and
    "ct = drop (n + HMAC_KEY_LEN + IV_LEN) d"
  have body: "drop (n + HMAC_KEY_LEN) d = iv @ ct"
    unfolding iv_def ct_def by (simp add: drop_split)
  have parts: "\<not> length d \<le> n + HMAC_KEY_LEN + IV_LEN" "key_id_masked first = dc_key_id ch"
    "su_mac su (decrypt_hmac (dc_keys ch)) (iv @ ct) = tag"
    "\<exists>pl. su_decrypt su (decrypt_cipher (dc_keys ch)) iv ct = Some pl \<and> \<not> length pl < 4 \<and>
       i = from_be32 (take 4 pl) \<and> payload = drop 4 pl"
    using assms v op unfolding body [symmetric]
    by (auto simp: d data_open_def n_def tag_def iv_def ct_def Let_def bindE_eq_Inr split: if_splits)
  have "d = take n d @ tag @ iv @ ct"
    unfolding tag_def body [symmetric] by (simp add: drop_split)
  moreover have "hd (take n d) = header_byte op (dc_key_id ch)"
  proof -
    have "opcode_u8 op = drop_bit OPCODE_SHIFT first"
      using op by (simp add: opcode_from_u8_Inr OPCODE_SHIFT_def)
    moreover have "key_id_get (dc_key_id ch) = first AND KEY_ID_MASK"
      using parts(2) key_id_masked_eq [of first] by (metis key_id.sel)
    ultimately have "header_byte op (dc_key_id ch) = first"
      unfolding header_byte_def by (simp only: header_byte_split)
    then show ?thesis by (simp add: d n_def HEADER_V1_LEN_def HEADER_V2_LEN_def)
  qed
  moreover have "length iv = IV_LEN" "length (take n d) = n"
    using parts(1) by (auto simp: iv_def)
  moreover obtain pl where pl: "su_decrypt su (decrypt_cipher (dc_keys ch)) iv ct = Some pl"
      "\<not> length pl < 4" "i = from_be32 (take 4 pl)" "payload = drop 4 pl"
    using parts(4) by blast
  moreover have "be32 i @ payload = pl"
    using pl(2) unfolding pl(3,4) by (simp add: be32_from_be32)
  ultimately show ?thesis
    using that [of op "take n d" iv ct] v parts(3) by (auto simp: n_def)
qed

section \<open>Whole streams\<close>

fun encrypts :: "suite \<Rightarrow> (bytes \<times> bytes) list \<Rightarrow> data_channel \<Rightarrow> (error + bytes) list \<times> data_channel"
where
  "encrypts su [] ch = ([], ch)"
| "encrypts su ((payload, iv) # ps) ch =
     (let (r, ch') = encrypt_with_iv su payload iv ch; (rs, ch'') = encrypts su ps ch' in (r # rs, ch''))"

fun decrypts :: "suite \<Rightarrow> bytes list \<Rightarrow> data_channel \<Rightarrow> (error + bytes) list \<times> data_channel" where
  "decrypts su [] ch = ([], ch)"
| "decrypts su (d # ds) ch =
     (let (r, ch') = decrypt su d ch; (rs, ch'') = decrypts su ds ch' in (r # rs, ch''))"

text \<open>The verdicts behind \<open>offers\<close>, one per packet.\<close>

fun verdicts :: "('i \<Rightarrow> 't \<Rightarrow> 'g \<Rightarrow> bool \<times> 'g) \<Rightarrow> 'g \<Rightarrow> ('i \<times> 't) list \<Rightarrow> bool list" where
  "verdicts accept g [] = []"
| "verdicts accept g (p # ps) =
     (let r = accept (fst p) (snd p) g in fst r # verdicts accept (snd r) ps)"

lemma length_verdicts [simp]: "length (verdicts accept g ps) = length ps"
  by (induction ps arbitrary: g) (simp_all add: Let_def)

lemma offers_verdicts: "fst (offers accept g ps) = map snd (filter fst (zip (verdicts accept g ps) ps))"
  by (induction ps arbitrary: g) (auto simp: Let_def)

lemma data_wire_cong:
  "dc_keys a = dc_keys b \<Longrightarrow> dc_peer_id a = dc_peer_id b \<Longrightarrow> dc_key_id a = dc_key_id b \<Longrightarrow>
     data_wire su a i iv p = data_wire su b i iv p"
  by (cases "dc_peer_id b") (simp_all add: data_wire_def Let_def)

lemma encrypts_numbered:
  assumes "k < 2 ^ 32 - 1" and "dc_next_packet_id ch = of_nat (k + 1)"
  shows "fst (encrypts su ps ch) =
    map (\<lambda>i. if k + i + 2 < 2 ^ 32
             then Inr (data_wire su ch (of_nat (k + i + 1)) (snd (ps ! i)) (fst (ps ! i)))
             else Inl PacketIdExhausted) [0..<length ps]"
  using assms
proof (induction ps arbitrary: k ch)
  case (Cons p ps)
  obtain payload iv where p: "p = (payload, iv)" by (cases p)
  have n: "unat (dc_next_packet_id ch) = k + 1"
    using Cons.prems by (simp add: unat_of_nat del: of_nat_add of_nat_Suc)
  have upt: "[0..<length (p # ps)] = 0 # map Suc [0..<length ps]"
    by (simp add: upt_conv_Cons map_Suc_upt del: upt_Suc)
  show ?case
  proof (cases "k + 2 < 2 ^ 32")
    case True
    let ?ch = "ch\<lparr>dc_next_packet_id := dc_next_packet_id ch + 1\<rparr>"
    have "dc_next_packet_id ?ch = of_nat (Suc k + 1)"
      using Cons.prems(2) by simp
    with Cons.IH [of "Suc k" ?ch] True
    have "fst (encrypts su ps ?ch) =
      map (\<lambda>i. if Suc k + i + 2 < 2 ^ 32
               then Inr (data_wire su ?ch (of_nat (Suc k + i + 1)) (snd (ps ! i)) (fst (ps ! i)))
               else Inl PacketIdExhausted) [0..<length ps]" by simp
    moreover have "data_wire su ?ch i iv p = data_wire su ch i iv p" for i iv p
      by (rule data_wire_cong) simp_all
    ultimately show ?thesis
      unfolding upt using True n Cons.prems(2)
      by (simp add: p encrypt_with_iv_def Let_def split_beta comp_def)
  next
    case False
    with Cons.IH [OF Cons.prems] Cons.prems(1) show ?thesis
      unfolding upt using n by (simp add: p encrypt_with_iv_def Let_def split_beta comp_def)
  qed
qed simp

lemma decrypts_wires:
  assumes su: "suite_ok su" and kid: "key_id_ok (dc_key_id a)"
    and ivs: "\<And>i. i \<in> set is \<Longrightarrow> length (iv i) = IV_LEN" and pair: "data_paired a b"
  shows "fst (decrypts su (map (\<lambda>i. data_wire su a (pid i) (iv i) (payload i)) is) b) =
    map2 (\<lambda>fresh i. if fresh then Inr (payload i) else Inl Replayed)
      (verdicts rw_accept (dc_replay b) (map (\<lambda>i. (pid i, 0)) is)) is"
  using ivs pair
proof (induction "is" arbitrary: b)
  case (Cons i "is")
  obtain fresh w where w: "rw_accept (pid i) 0 (dc_replay b) = (fresh, w)" by fastforce
  have d: "decrypt su (data_wire su a (pid i) (iv i) (payload i)) b =
      (if fresh then Inr (payload i) else Inl Replayed, b\<lparr>dc_replay := w\<rparr>)"
    using data_open_wire [OF su Cons.prems(2) kid] Cons.prems(1) w by (simp add: decrypt_def)
  have "data_paired a (b\<lparr>dc_replay := w\<rparr>)"
    using Cons.prems(2) by (simp add: data_paired_def)
  from Cons.IH [OF _ this] Cons.prems(1) d w show ?case
    by (simp add: Let_def split_beta)
qed simp

lemma all_kept:
  "length bs = length xs \<Longrightarrow> length (filter fst (zip bs xs)) = length xs \<Longrightarrow> list_all (\<lambda>ok. ok) bs"
proof (induction bs xs rule: list_induct2)
  case (Cons b bs x xs)
  have "length (filter fst (zip bs xs)) \<le> length xs"
    using length_filter_le [of fst "zip bs xs"] Cons.hyps by simp
  with Cons show ?case by (cases b) auto
qed simp

lemma client_server_paired:
  assumes "data_keys_for_client expansion = Inr ck" "data_keys_for_server expansion = Inr sk"
    and "(ka, kb) = (ck, sk) \<or> (ka, kb) = (sk, ck)"
  shows "data_paired (data_channel_new ka p k) (data_channel_new kb q k)"
  using assms by (auto simp: data_paired_def data_channel_new_def data_keys_for_client_def
      data_keys_for_server_def data_keys_split_def Let_def split: if_splits)

section \<open>Properties\<close>

text \<open>
  A packet id is never used twice under one key: the datagrams a new channel seals carry the
  ids 1, 2, 3 and so on, and after id 4294967294 every payload is refused with
  \<open>PacketIdExhausted\<close>, for ever, instead of starting again.
\<close>

theorem data_packet_ids_never_repeat:
  "fst (encrypts su ps (data_channel_new keys peer kid)) =
     map (\<lambda>i. if i + 2 < 2 ^ 32
              then Inr (data_wire su (data_channel_new keys peer kid) (of_nat (i + 1))
                          (snd (ps ! i)) (fst (ps ! i)))
              else Inl PacketIdExhausted) [0..<length ps]"
  using encrypts_numbered [of 0 "data_channel_new keys peer kid" su ps]
  by (simp add: data_channel_new_def)

text \<open>
  C29. The tunnel delivers: for either direction between a client and a server that derived their
  keys from the same material, and for datagrams lost, repeated and reordered at will, what the
  receiver opens is for each arrival the payload that was sealed in it or the error \<open>Replayed\<close>, no
  payload is delivered twice, and if no arrival is repeated or lags 64 or more behind another,
  all that arrive are delivered.
\<close>

theorem data_channel_delivers:
  assumes "suite_ok su" and "key_id_ok kid"
    and "data_keys_for_client expansion = Inr ck" and "data_keys_for_server expansion = Inr sk"
    and "(ka, kb) = (ck, sk) \<or> (ka, kb) = (sk, ck)"
    and "length ps + 2 \<le> 2 ^ 32" and "\<forall>p \<in> set ps. length (snd p) = IV_LEN"
    and "wires = map projr (fst (encrypts su ps (data_channel_new ka pa kid)))"
    and "\<forall>i \<in> set arrivals. i < length ps"
  shows "\<exists>fresh. length fresh = length arrivals \<and>
    fst (decrypts su (map (\<lambda>i. wires ! i) arrivals) (data_channel_new kb pb kid)) =
      map2 (\<lambda>ok i. if ok then Inr (fst (ps ! i)) else Inl Replayed) fresh arrivals \<and>
    distinct (map snd (filter fst (zip fresh arrivals))) \<and>
    (distinct arrivals \<and> (\<forall>i \<in> set arrivals. \<forall>j \<in> set arrivals. j < i + 64) \<longrightarrow> list_all (\<lambda>ok. ok) fresh)"
proof -
  let ?a = "data_channel_new ka pa kid" and ?b = "data_channel_new kb pb kid"
  let ?pid = "\<lambda>i. of_nat (i + 1) :: u32" and ?ps = "map (\<lambda>i. (of_nat (i + 1) :: u32, 0 :: u32)) arrivals"
  let ?fresh = "verdicts rw_accept rw_new ?ps"
  have wire: "wires ! i = data_wire su ?a (?pid i) (snd (ps ! i)) (fst (ps ! i))" if "i < length ps" for i
  proof -
    have "fst (encrypts su ps ?a) ! i = Inr (data_wire su ?a (?pid i) (snd (ps ! i)) (fst (ps ! i)))"
      using that assms(6) by (subst encrypts_numbered [of 0]) (auto simp: data_channel_new_def)
    moreover have "length (fst (encrypts su ps ?a)) = length ps"
      by (subst encrypts_numbered [of 0]) (simp_all add: data_channel_new_def)
    ultimately show ?thesis using that unfolding assms(8) by simp
  qed
  have wires: "map (\<lambda>i. wires ! i) arrivals =
      map (\<lambda>i. data_wire su ?a (?pid i) (snd (ps ! i)) (fst (ps ! i))) arrivals"
    using wire assms(9) by (intro map_cong) auto
  have "fst (decrypts su (map (\<lambda>i. wires ! i) arrivals) ?b) =
      map2 (\<lambda>ok i. if ok then Inr (fst (ps ! i)) else Inl Replayed)
        (verdicts rw_accept (dc_replay ?b) ?ps) arrivals"
    unfolding wires
  proof (rule decrypts_wires [OF assms(1)])
    show "data_paired ?a ?b" by (rule client_server_paired [OF assms(3-5)])
    show "key_id_ok (dc_key_id ?a)" using assms(2) by (simp add: data_channel_new_def)
    show "length (snd (ps ! i)) = IV_LEN" if "i \<in> set arrivals" for i
      using that assms(7,9) by auto
  qed
  then have out: "fst (decrypts su (map (\<lambda>i. wires ! i) arrivals) ?b) =
      map2 (\<lambda>ok i. if ok then Inr (fst (ps ! i)) else Inl Replayed) ?fresh arrivals"
    by (simp add: data_channel_new_def)
  have offered: "map (\<lambda>i. (?pid i, 0)) (map snd (filter fst (zip ?fresh arrivals))) =
      fst (offers rw_accept rw_new ?ps)"
    by (simp add: offers_verdicts zip_map2 filter_map comp_def split_beta)
  then have "distinct (map (\<lambda>i. (?pid i, 0 :: u32)) (map snd (filter fst (zip ?fresh arrivals))))"
    using window.accepted_at_most_once by metis
  then have once: "distinct (map snd (filter fst (zip ?fresh arrivals)))"
    by (simp only: distinct_map)
  have all: "list_all (\<lambda>ok. ok) ?fresh"
    if d: "distinct arrivals" and lag: "\<forall>i \<in> set arrivals. \<forall>j \<in> set arrivals. j < i + 64"
  proof -
    have u: "unat (?pid i) = i + 1" if "i \<in> set arrivals" for i
      using that assms(6,9) by (auto simp: unat_of_nat simp del: of_nat_add of_nat_Suc)
    have "inj_on ?pid (set arrivals)"
    proof (rule inj_onI)
      fix x y assume m: "x \<in> set arrivals" "y \<in> set arrivals" and "?pid x = ?pid y"
      then have "unat (?pid x) = unat (?pid y)" by (simp only:)
      then show "x = y" unfolding u [OF m(1)] u [OF m(2)] by simp
    qed
    with d have "distinct (map ?pid arrivals)" unfolding distinct_map by blast
    moreover have "0 \<notin> set (map ?pid arrivals)"
    proof
      assume "0 \<in> set (map ?pid arrivals)"
      then obtain i where "i \<in> set arrivals" "?pid i = 0" by auto
      with u [of i] show False by (metis add_is_0 one_neq_zero unat_0)
    qed
    moreover have "\<forall>i \<in> set (map ?pid arrivals). \<forall>j \<in> set (map ?pid arrivals). unat j < unat i + 64"
    proof (intro ballI)
      fix a b assume "a \<in> set (map ?pid arrivals)" "b \<in> set (map ?pid arrivals)"
      then obtain i j where m: "i \<in> set arrivals" "j \<in> set arrivals" and ab: "a = ?pid i" "b = ?pid j"
        by auto
      show "unat b < unat a + 64"
        unfolding ab u [OF m(1)] u [OF m(2)] using bspec [OF bspec [OF lag m(1)] m(2)] by simp
    qed
    ultimately have ids: "fst (offers rw_accept rw_new (map (\<lambda>i. (i, 0)) (map ?pid arrivals))) =
        map (\<lambda>i. (i, 0)) (map ?pid arrivals)"
      by (rule reordered_accepted)
    have "length (fst (offers rw_accept rw_new ?ps)) = length arrivals"
      using ids unfolding map_map comp_def by simp
    then have "length (filter fst (zip ?fresh arrivals)) = length arrivals"
      unfolding offered [symmetric] by simp
    then show ?thesis
      by (intro all_kept [of _ arrivals]) simp_all
  qed
  show ?thesis
    using out once all by (intro exI [of _ ?fresh] conjI impI) auto
qed

text \<open>A suite with the laws of \<open>suite_ok\<close>, to evaluate with; it hides nothing.\<close>

definition sample_suite :: suite where
  "sample_suite =
     \<lparr>su_encrypt = \<lambda>k iv p. p @ [1],
      su_decrypt = \<lambda>k iv c. if c = [] then None else Some (butlast c),
      su_mac = \<lambda>k m. replicate 64 (fold (+) (k @ m) 0)\<rparr>"

lemma sample_suite_ok: "suite_ok sample_suite"
  by (simp add: suite_ok_def sample_suite_def HMAC_KEY_LEN_def)

definition sample_expansion :: bytes where
  "sample_expansion = replicate 128 3 @ replicate 128 5"

definition sample_payloads :: "(bytes \<times> bytes) list" where
  "sample_payloads = [([7, 7], replicate 16 1), ([8], replicate 16 2)]"

theorem data_channel_delivers_witness:
  "\<exists>ck sk fresh. data_keys_for_client sample_expansion = Inr ck \<and>
     data_keys_for_server sample_expansion = Inr sk \<and> length fresh = length [1, 0, 1 :: nat] \<and>
     fst (decrypts sample_suite
       (map (\<lambda>i. map projr (fst (encrypts sample_suite sample_payloads
          (data_channel_new ck (Some (PeerId 3)) (KeyId 0)))) ! i) [1, 0, 1])
       (data_channel_new sk None (KeyId 0))) =
     map2 (\<lambda>ok i. if ok then Inr (fst (sample_payloads ! i)) else Inl Replayed) fresh [1, 0, 1]"
proof -
  have "length sample_expansion = 256" by (simp add: sample_expansion_def)
  then obtain ck sk where k: "data_keys_for_client sample_expansion = Inr ck"
      "data_keys_for_server sample_expansion = Inr sk"
    by (simp add: data_keys_for_client_def data_keys_for_server_def data_keys_split_def Let_def)
  have kid: "key_id_ok (KeyId 0)" by (simp add: key_id_ok_def)
  have len: "length sample_payloads + 2 \<le> 2 ^ 32" "\<forall>p \<in> set sample_payloads. length (snd p) = IV_LEN"
    "\<forall>i \<in> set [1, 0, 1]. i < length sample_payloads"
    by (simp_all add: sample_payloads_def IV_LEN_def)
  show ?thesis
    using data_channel_delivers [OF sample_suite_ok kid k disjI1 [OF refl] len(1,2) refl len(3),
        of "Some (PeerId 3)" None] k by blast
qed

text \<open>
  Nothing from outside changes the channel: a datagram that is refused, for whatever reason,
  leaves it as it was, and one that is accepted is byte for byte a header of this generation, a
  tag made with our receiving key over the IV and ciphertext, and those two, which decrypt to a
  packet id the window had not seen and the payload.
\<close>

theorem data_channel_accepts_only_sealed:
  "case fst (decrypt su d ch) of
     Inl e \<Rightarrow> snd (decrypt su d ch) = ch
   | Inr payload \<Rightarrow>
       \<exists>op header iv ct i.
         (op = DataV2 \<and> length header = HEADER_V2_LEN \<or> op = DataV1 \<and> length header = HEADER_V1_LEN) \<and>
         hd header = header_byte op (dc_key_id ch) \<and> length iv = IV_LEN \<and>
         d = header @ su_mac su (decrypt_hmac (dc_keys ch)) (iv @ ct) @ iv @ ct \<and>
         su_decrypt su (decrypt_cipher (dc_keys ch)) iv ct = Some (be32 i @ payload) \<and>
         fst (rw_accept i 0 (dc_replay ch)) \<and>
         snd (decrypt su d ch) = ch\<lparr>dc_replay := snd (rw_accept i 0 (dc_replay ch))\<rparr>"
proof (cases "fst (decrypt su d ch)")
  case (Inl e)
  with decrypt_refused_unchanged [of su d ch e] show ?thesis by simp
next
  case (Inr payload)
  then obtain i where o: "data_open su ch d = Inr (i, payload)" "fst (rw_accept i 0 (dc_replay ch))"
    "snd (decrypt su d ch) = ch\<lparr>dc_replay := snd (rw_accept i 0 (dc_replay ch))\<rparr>"
    by (auto simp: decrypt_def split_beta split: sum.splits if_splits)
  from data_open_sealed [OF o(1)] obtain op header iv ct where
    "op = DataV2 \<and> length header = HEADER_V2_LEN \<or> op = DataV1 \<and> length header = HEADER_V1_LEN"
    "d = header @ su_mac su (decrypt_hmac (dc_keys ch)) (iv @ ct) @ iv @ ct"
    "hd header = header_byte op (dc_key_id ch)" "length iv = IV_LEN"
    "su_decrypt su (decrypt_cipher (dc_keys ch)) iv ct = Some (be32 i @ payload)" by blast
  with o(2,3) show ?thesis unfolding Inr sum.case by blast
qed

end
