(* ===== verification/Decimal.thy ===== *)
theory Decimal
  imports Text
begin

text \<open>
  Writers for what the parsers of \<open>Text\<close> read: decimal numbers, dotted addresses and words
  separated by spaces, with the lemma that each is read back as it was written.
\<close>

section \<open>Numbers\<close>

fun show_nat :: "nat \<Rightarrow> str" where
  "show_nat n = (if n < 10 then [48 + of_nat n] else show_nat (n div 10) @ [48 + of_nat (n mod 10)])"

declare show_nat.simps [simp del]

lemma digit_byte:
  assumes "n < 10"
  shows "unat (48 + of_nat n :: u8) = 48 + n" "is_digit (48 + of_nat n)"
proof -
  show u: "unat (48 + of_nat n :: u8) = 48 + n"
    using assms by (simp add: unat_word_ariths unat_of_nat)
  then show "is_digit (48 + of_nat n)"
    using assms by (simp add: is_digit_def word_le_nat_alt)
qed

lemma decimal_snoc: "decimal (s @ [b]) = decimal s * 10 + (unat b - 48)"
  by (simp add: decimal_def)

lemma show_nat_digits: "list_all is_digit (show_nat n) \<and> show_nat n \<noteq> [] \<and> decimal (show_nat n) = n"
proof (induction n rule: show_nat.induct)
  case (1 n)
  show ?case
  proof (cases "n < 10")
    case True
    then show ?thesis
      using digit_byte [of n] by (subst (1 2 3) show_nat.simps) (simp add: decimal_def)
  next
    case False
    with 1 digit_byte [of "n mod 10"] show ?thesis
      by (subst (1 2 3) show_nat.simps) (simp add: decimal_snoc)
  qed
qed

lemma show_nat_head: "0 < n \<Longrightarrow> show_nat n ! 0 \<noteq> 48"
proof (induction n rule: show_nat.induct)
  case (1 n)
  show ?case
  proof (cases "n < 10")
    case True
    have "(48 + of_nat n :: u8) \<noteq> 48"
    proof
      assume "(48 + of_nat n :: u8) = 48"
      then have "unat (48 + of_nat n :: u8) = 48" by simp
      with digit_byte(1) [OF True] 1(2) show False by simp
    qed
    with True show ?thesis by (subst show_nat.simps) simp
  next
    case False
    then have "show_nat (n div 10) ! 0 \<noteq> 48" using 1 by simp
    moreover have "show_nat (n div 10) \<noteq> []" using show_nat_digits by blast
    ultimately show ?thesis
      using False by (subst show_nat.simps) (simp add: nth_append)
  qed
qed

lemma length_show_nat: "n < 10 ^ Suc k \<Longrightarrow> length (show_nat n) \<le> Suc k"
proof (induction k arbitrary: n)
  case 0
  then show ?case by (simp add: show_nat.simps [of n])
next
  case (Suc k)
  show ?case
  proof (cases "n < 10")
    case False
    have "n div 10 < 10 ^ Suc k" using Suc.prems by (simp add: less_mult_imp_div_less mult.commute)
    from Suc.IH [OF this] False show ?thesis by (simp add: show_nat.simps [of n])
  qed (simp add: show_nat.simps [of n])
qed

lemma digit_printable: "list_all is_digit s \<Longrightarrow> printable s"
  by (auto simp: list_all_iff is_digit_def printable_def word_le_nat_alt)

lemma show_nat_printable [simp]: "printable (show_nat n)"
  using show_nat_digits digit_printable by blast

lemma show_nat_not_in:
  "44 \<notin> set (show_nat n)" "46 \<notin> set (show_nat n)" "43 \<notin> set (show_nat n)"
  using show_nat_digits [of n] by (auto simp: list_all_iff is_digit_def word_le_nat_alt)

lemma show_nat_Nil [simp]: "show_nat n \<noteq> []"
  using show_nat_digits by blast

lemma parse_show_nat [simp]: "n \<le> mx \<Longrightarrow> parse_uint mx (show_nat n) = Some n"
proof -
  assume n: "n \<le> mx"
  have "\<not> starts_with [43] (show_nat n)"
    using show_nat_not_in(3) [of n] by (cases "show_nat n") (auto simp: starts_with_def)
  then show ?thesis
    using n show_nat_digits [of n] by (simp add: parse_uint_def Let_def)
qed

section \<open>Addresses\<close>

definition show_octet :: "u8 \<Rightarrow> str" where
  "show_octet b = show_nat (unat b)"

definition show_ipv4 :: "ipv4 \<Rightarrow> str" where
  "show_ipv4 a = join_with 46 (map show_octet (be32 a))"

lemma parse_show_octet: "parse_octet (show_octet b) = Some b"
proof -
  have b: "unat b < 2 ^ LENGTH(8)" by (rule unsigned_less)
  have "length (show_nat (unat b)) \<le> Suc 2" by (rule length_show_nat) (use b in simp)
  moreover have "length (show_nat (unat b)) > 1 \<longrightarrow> show_nat (unat b) ! 0 \<noteq> 48"
    using show_nat_head [of "unat b"] by (cases "unat b = 0") (simp_all add: show_nat.simps [of 0])
  ultimately show ?thesis
    using show_nat_digits [of "unat b"] b by (simp add: parse_octet_def show_octet_def)
qed

lemma show_octet_no_dot: "46 \<notin> set (show_octet b)"
  by (simp add: show_octet_def show_nat_not_in)

lemma be32_octets: "\<exists>a b c d. be32 w = [a, b, c, d]"
  by (simp add: be32_def)

lemma parse_show_ipv4 [simp]: "parse_ipv4 (show_ipv4 w) = Some w"
proof -
  obtain a b c d where w: "be32 w = [a, b, c, d]" using be32_octets by blast
  then have "split_on 46 (show_ipv4 w) = map show_octet (be32 w)"
    unfolding show_ipv4_def by (intro split_join) (auto simp: show_octet_no_dot)
  then show ?thesis
    using from_be32_be32 [of w] unfolding parse_ipv4_def w by (simp add: parse_show_octet)
qed

lemma join_with_set: "b \<in> set (join_with c xs) \<Longrightarrow> b = c \<or> (\<exists>x \<in> set xs. b \<in> set x)"
  by (induction c xs rule: join_with.induct) auto

lemma join_with_printable:
  assumes "33 \<le> c" "c \<le> 126" "\<forall>x \<in> set xs. printable x"
  shows "printable (join_with c xs)"
  unfolding printable_def
proof
  fix b assume "b \<in> set (join_with c xs)"
  then consider "b = c" | x where "x \<in> set xs" "b \<in> set x" using join_with_set by blast
  then show "33 \<le> b \<and> b \<le> 126"
    using assms by cases (blast, simp add: printable_def)
qed

lemma show_ipv4_printable [simp]: "printable (show_ipv4 a)"
  unfolding show_ipv4_def
  by (rule join_with_printable) (simp_all add: show_octet_def word_le_nat_alt)

lemma show_ipv4_no_comma: "44 \<notin> set (show_ipv4 a)"
  unfolding show_ipv4_def
  by (auto dest!: join_with_set simp: show_octet_def show_nat_not_in)

lemma show_ipv4_Nil [simp]: "show_ipv4 a \<noteq> []"
  by (simp add: show_ipv4_def be32_def show_octet_def)

section \<open>Words\<close>

lemma printable_Cons: "printable (b # s) \<longleftrightarrow> 33 \<le> b \<and> b \<le> 126 \<and> printable s"
  by (auto simp: printable_def)

lemma ws_len_printable_head:
  assumes "33 \<le> b" "b \<le> 126"
  shows "ws_len WHITESPACE (b # s) = 0"
proof -
  have "\<not> starts_with e (b # s)" if e: "e \<in> set WHITESPACE" for e
  proof
    assume "starts_with e (b # s)"
    moreover have "e \<noteq> [] \<and> \<not> (33 \<le> hd e \<and> hd e \<le> 126)"
      using WHITESPACE_heads(1) e unfolding list_all_iff by blast
    ultimately show False using assms by (cases e) (auto simp: starts_with_def)
  qed
  then have "find (\<lambda>w. starts_with w (b # s)) WHITESPACE = None" by (simp add: find_None_iff)
  then show ?thesis by (simp add: ws_len_def)
qed

lemma ws_split_Nil: "ws_split [] = [[]]"
  by (simp add: ws_split.simps)

lemma ws_split_nonempty: "ws_split s \<noteq> []"
  by (subst ws_split.simps) (auto split: list.splits)

lemma ws_split_printable: "printable w \<Longrightarrow> ws_split w = [w]"
proof (induction w)
  case (Cons b w)
  then have "ws_len WHITESPACE (b # w) = 0" by (simp add: printable_Cons ws_len_printable_head)
  with Cons show ?case by (subst ws_split.simps) (simp add: printable_Cons)
qed (simp add: ws_split_Nil)

lemma ws_len_space: "ws_len WHITESPACE (32 # s) = 1"
  by (simp add: ws_len_def WHITESPACE_def starts_with_def)

lemma ws_split_word: "printable w \<Longrightarrow> ws_split (w @ 32 # s) = w # ws_split s"
proof (induction w)
  case Nil
  then show ?case by (subst ws_split.simps) (simp add: ws_len_space)
next
  case (Cons b w)
  then have "ws_len WHITESPACE (b # w @ 32 # s) = 0" by (simp add: printable_Cons ws_len_printable_head)
  with Cons show ?case by (subst ws_split.simps) (simp add: printable_Cons)
qed

lemma split_words:
  "ws \<noteq> [] \<Longrightarrow> \<forall>w \<in> set ws. printable w \<and> w \<noteq> [] \<Longrightarrow> split_whitespace (join_with 32 ws) = ws"
proof -
  assume "ws \<noteq> []" and p: "\<forall>w \<in> set ws. printable w \<and> w \<noteq> []"
  then have "ws_split (join_with 32 ws) = ws"
    by (induction "32 :: u8" ws rule: join_with.induct) (simp_all add: ws_split_printable ws_split_word)
  with p show ?thesis by (simp add: split_whitespace_def filter_id_conv)
qed

text \<open>A line that begins and ends with a printable character is not trimmed.\<close>

lemma ws_len_printable_hd: "s \<noteq> [] \<Longrightarrow> 33 \<le> hd s \<Longrightarrow> hd s \<le> 126 \<Longrightarrow> ws_len WHITESPACE s = 0"
  by (cases s) (simp_all add: ws_len_printable_head)

lemma ws_len_rev_printable_hd:
  assumes "s \<noteq> []" "33 \<le> hd s" "hd s \<le> 126"
  shows "ws_len (map rev WHITESPACE) s = 0"
proof -
  have "\<not> starts_with e s" if e: "e \<in> set (map rev WHITESPACE)" for e
  proof
    assume "starts_with e s"
    moreover have "e \<noteq> [] \<and> \<not> (33 \<le> hd e \<and> hd e \<le> 126)"
      using WHITESPACE_heads(2) e unfolding list_all_iff by blast
    ultimately show False using assms by (cases e; cases s) (auto simp: starts_with_def)
  qed
  then have "find (\<lambda>w. starts_with w s) (map rev WHITESPACE) = None" by (simp add: find_None_iff)
  then show ?thesis by (simp add: ws_len_def)
qed

lemma trim_line:
  assumes "s \<noteq> []" "33 \<le> hd s" "hd s \<le> 126" "33 \<le> last s" "last s \<le> 126"
  shows "trim s = s"
proof -
  have "trim_front WHITESPACE s = s"
    using ws_len_printable_hd [OF assms(1-3)] by (subst trim_front.simps) simp
  moreover have "trim_front (map rev WHITESPACE) (rev s) = rev s"
    using ws_len_rev_printable_hd [of "rev s"] assms
    by (subst trim_front.simps) (simp add: hd_rev)
  ultimately show ?thesis by (simp add: trim_def trim_start_def trim_end_def)
qed

end
