(* ===== verification/Push.thy ===== *)
theory Push
  imports Data Decimal
begin

text \<open>
  The server's push reply, \<open>push.rs\<close>: a comma-separated list of directives, of which the client
  acts on a few and keeps all.
\<close>

definition PUSH_REQUEST :: str where
  "PUSH_REQUEST = lit ''PUSH_REQUEST''"

definition SUPPORTED_CIPHER :: str where
  "SUPPORTED_CIPHER = lit ''AES-256-CBC''"

record push_reply =
  pr_peer_id :: "peer_id option"
  pr_cipher :: "str option"
  pr_ifconfig :: "(ipv4 \<times> ipv4) option"
  pr_ping :: "duration option"
  pr_ping_restart :: "duration option"
  pr_ping_restart_disabled :: bool
  pr_compression :: "str option"
  pr_directives :: "str list"

definition push_reply_default :: push_reply where
  "push_reply_default =
     \<lparr>pr_peer_id = None, pr_cipher = None, pr_ifconfig = None, pr_ping = None, pr_ping_restart = None,
      pr_ping_restart_disabled = False, pr_compression = None, pr_directives = []\<rparr>"

definition U64_MAX :: nat where
  "U64_MAX = 2 ^ 64 - 1"

definition U32_MAX :: nat where
  "U32_MAX = 2 ^ 32 - 1"

definition seconds_from :: "str \<Rightarrow> str \<Rightarrow> error + duration" where
  "seconds_from value directive =
     bindE (ok_or (parse_uint U64_MAX value) (BadPushDirective directive)) (\<lambda>n. Inr (secs n))"

text \<open>The arms of the \<open>match\<close> on a directive's words, in their order.\<close>

definition match_directive :: "str \<Rightarrow> str \<Rightarrow> str list \<Rightarrow> push_reply \<Rightarrow> error + push_reply" where
  "match_directive directive name rest p =
     (if name = lit ''peer-id'' \<and> length rest = 1 then
        bindE (ok_or (parse_uint U32_MAX (rest ! 0)) (BadPushDirective directive)) (\<lambda>value.
        bindE (ok_or (peer_id_new (of_nat value)) (BadPushDirective directive)) (\<lambda>pid.
          Inr (p\<lparr>pr_peer_id := Some pid\<rparr>)))
      else if name = lit ''cipher'' \<and> length rest = 1 then
        Inr (p\<lparr>pr_cipher := Some (rest ! 0)\<rparr>)
      else if name = lit ''ifconfig'' \<and> length rest = 2 then
        bindE (ok_or (parse_ipv4 (rest ! 0)) (BadPushDirective directive)) (\<lambda>address.
        bindE (ok_or (parse_ipv4 (rest ! 1)) (BadPushDirective directive)) (\<lambda>mask.
          Inr (p\<lparr>pr_ifconfig := Some (address, mask)\<rparr>)))
      else if name = lit ''comp-lzo'' \<and> rest = [lit ''no''] then Inr p
      else if name = lit ''comp-lzo'' \<or> name = lit ''compress'' then
        Inr (p\<lparr>pr_compression := Some directive\<rparr>)
      else if name = lit ''ping'' \<and> length rest = 1 then
        bindE (seconds_from (rest ! 0) directive) (\<lambda>interval.
          Inr (p\<lparr>pr_ping := (if interval = 0 then None else Some interval)\<rparr>))
      else if name = lit ''ping-restart'' \<and> length rest = 1 then
        bindE (seconds_from (rest ! 0) directive) (\<lambda>limit.
          Inr (if limit = 0 then p\<lparr>pr_ping_restart_disabled := True\<rparr>
               else p\<lparr>pr_ping_restart := Some limit\<rparr>))
      else Inr p)"

definition apply_directive :: "str \<Rightarrow> push_reply \<Rightarrow> error + push_reply" where
  "apply_directive directive p =
     (let p = p\<lparr>pr_directives := pr_directives p @ [directive]\<rparr> in
      case split_whitespace directive of
        [] \<Rightarrow> Inr p
      | name # rest \<Rightarrow> match_directive directive name rest p)"

fun apply_directives :: "str list \<Rightarrow> push_reply \<Rightarrow> error + push_reply" where
  "apply_directives [] p = Inr p"
| "apply_directives (d # ds) p = bindE (apply_directive d p) (apply_directives ds)"

text \<open>The pieces of the body the loop runs over.\<close>

definition directives_of :: "str \<Rightarrow> str list" where
  "directives_of body = filter (\<lambda>d. d \<noteq> []) (map trim (split_on 44 body))"

definition push_reply_parse :: "str \<Rightarrow> error + push_reply" where
  "push_reply_parse reply =
     bindE (ok_or (strip_prefix (lit ''PUSH_REPLY'') reply) (UnexpectedControlMessage reply)) (\<lambda>after.
       let body = (case strip_prefix [44] after of Some b \<Rightarrow> b | None \<Rightarrow> [])
       in apply_directives (directives_of body) push_reply_default)"

definition compression_is_supported :: "push_reply \<Rightarrow> bool" where
  "compression_is_supported p \<longleftrightarrow> pr_compression p = None"

definition cipher_is_supported :: "push_reply \<Rightarrow> bool" where
  "cipher_is_supported p \<longleftrightarrow>
     (case pr_cipher p of None \<Rightarrow> True | Some c \<Rightarrow> eq_ignore_ascii_case c SUPPORTED_CIPHER)"

section \<open>What a parsed reply can be\<close>

text \<open>No zero interval, no peer id wider than its field.\<close>

definition push_ok :: "push_reply \<Rightarrow> bool" where
  "push_ok p \<longleftrightarrow> pr_ping p \<noteq> Some 0 \<and> pr_ping_restart p \<noteq> Some 0 \<and>
     (\<forall>i. pr_peer_id p = Some i \<longrightarrow> peer_id_get i \<le> PEER_ID_MAX)"

lemma match_directive_ok:
  assumes "match_directive directive name rest p = Inr q" "push_ok p"
  shows "push_ok q \<and> pr_directives q = pr_directives p"
  using assms unfolding match_directive_def
  by (auto simp: push_ok_def bindE_eq_Inr peer_id_new_def split: if_splits)

lemma apply_directive_ok:
  assumes "apply_directive d p = Inr q" "push_ok p"
  shows "push_ok q \<and> pr_directives q = pr_directives p @ [d]"
proof -
  let ?p = "p\<lparr>pr_directives := pr_directives p @ [d]\<rparr>"
  have ok: "push_ok ?p" using assms(2) by (simp add: push_ok_def)
  show ?thesis
  proof (cases "split_whitespace d")
    case Nil
    with assms(1) ok show ?thesis by (auto simp: apply_directive_def Let_def)
  next
    case (Cons name rest)
    with assms(1) have "match_directive d name rest ?p = Inr q" by (simp add: apply_directive_def)
    from match_directive_ok [OF this ok] show ?thesis by simp
  qed
qed

lemma apply_directives_ok:
  "apply_directives ds p = Inr q \<Longrightarrow> push_ok p \<Longrightarrow> push_ok q \<and> pr_directives q = pr_directives p @ ds"
proof (induction ds arbitrary: p)
  case (Cons d ds)
  then obtain p' where p': "apply_directive d p = Inr p'" "apply_directives ds p' = Inr q"
    by (auto simp: bindE_eq_Inr)
  with apply_directive_ok [OF p'(1) Cons.prems(2)] Cons.IH [of p'] show ?case by simp
qed simp

lemma apply_directives_error:
  "apply_directives ds p = Inl e \<Longrightarrow> \<exists>d \<in> set ds. e = BadPushDirective d"
proof (induction ds arbitrary: p)
  case (Cons d ds)
  consider "apply_directive d p = Inl e" | p' where "apply_directives ds p' = Inl e"
    using Cons.prems by (auto simp: bindE_eq_Inl)
  then show ?case
  proof cases
    case 1
    then obtain name rest p' where "match_directive d name rest p' = Inl e"
      by (auto simp: apply_directive_def Let_def split: list.splits)
    then have "e = BadPushDirective d"
      unfolding match_directive_def seconds_from_def
      by (auto simp: bindE_eq_Inl bindE_eq_Inr split: if_splits)
    then show ?thesis by simp
  next
    case 2
    with Cons.IH show ?thesis by auto
  qed
qed simp

section \<open>What a server writes\<close>

text \<open>The directives a server sends, and what each is to change. \<open>PushOther\<close> is any other.\<close>

datatype push_directive =
    PushPeerId nat
  | PushCipher str
  | PushIfconfig ipv4 ipv4
  | PushPing nat
  | PushPingRestart nat
  | PushNoCompression
  | PushCompress "str list"
  | PushOther str "str list"

fun directive_words :: "push_directive \<Rightarrow> str list" where
  "directive_words (PushPeerId n) = [lit ''peer-id'', show_nat n]"
| "directive_words (PushCipher c) = [lit ''cipher'', c]"
| "directive_words (PushIfconfig a m) = [lit ''ifconfig'', show_ipv4 a, show_ipv4 m]"
| "directive_words (PushPing n) = [lit ''ping'', show_nat n]"
| "directive_words (PushPingRestart n) = [lit ''ping-restart'', show_nat n]"
| "directive_words PushNoCompression = [lit ''comp-lzo'', lit ''no'']"
| "directive_words (PushCompress ws) = lit ''compress'' # ws"
| "directive_words (PushOther name ws) = name # ws"

definition directive_text :: "push_directive \<Rightarrow> str" where
  "directive_text d = join_with 32 (directive_words d)"

definition known_names :: "str list" where
  "known_names = [lit ''peer-id'', lit ''cipher'', lit ''ifconfig'', lit ''comp-lzo'', lit ''compress'',
     lit ''ping'', lit ''ping-restart'']"

definition word_ok :: "str \<Rightarrow> bool" where
  "word_ok w \<longleftrightarrow> printable w \<and> w \<noteq> [] \<and> 44 \<notin> set w"

fun directive_ok :: "push_directive \<Rightarrow> bool" where
  "directive_ok (PushPeerId n) = (n \<le> 0xffffff)"
| "directive_ok (PushCipher c) = word_ok c"
| "directive_ok (PushPing n) = (n \<le> U64_MAX)"
| "directive_ok (PushPingRestart n) = (n \<le> U64_MAX)"
| "directive_ok (PushCompress ws) = list_all word_ok ws"
| "directive_ok (PushOther name ws) = (list_all word_ok (name # ws) \<and> name \<notin> set known_names)"
| "directive_ok _ = True"

fun directive_effect :: "push_directive \<Rightarrow> push_reply \<Rightarrow> push_reply" where
  "directive_effect (PushPeerId n) p = p\<lparr>pr_peer_id := Some (PeerId (of_nat n))\<rparr>"
| "directive_effect (PushCipher c) p = p\<lparr>pr_cipher := Some c\<rparr>"
| "directive_effect (PushIfconfig a m) p = p\<lparr>pr_ifconfig := Some (a, m)\<rparr>"
| "directive_effect (PushPing n) p = p\<lparr>pr_ping := (if n = 0 then None else Some (secs n))\<rparr>"
| "directive_effect (PushPingRestart n) p =
     (if n = 0 then p\<lparr>pr_ping_restart_disabled := True\<rparr> else p\<lparr>pr_ping_restart := Some (secs n)\<rparr>)"
| "directive_effect PushNoCompression p = p"
| "directive_effect (PushCompress ws) p = p\<lparr>pr_compression := Some (directive_text (PushCompress ws))\<rparr>"
| "directive_effect (PushOther name ws) p = p"

definition push_text :: "push_directive list \<Rightarrow> str" where
  "push_text ds = lit ''PUSH_REPLY'' @ concat (map (\<lambda>d. 44 # directive_text d) ds)"

lemma names_ok: "list_all word_ok known_names" "word_ok (lit ''no'')"
  unfolding word_ok_def printable_def list_all_iff by code_simp+

lemma names_distinct: "distinct known_names"
  by code_simp

lemma name_word_ok: "n \<in> set known_names \<Longrightarrow> word_ok n"
  using names_ok(1) by (simp add: list_all_iff)

lemma show_words_ok: "word_ok (show_nat n)" "word_ok (show_ipv4 a)"
  by (simp_all add: word_ok_def show_nat_not_in show_ipv4_no_comma)

lemma directive_words_ok: "directive_ok d \<Longrightarrow> directive_words d \<noteq> [] \<and> list_all word_ok (directive_words d)"
  by (cases d) (auto simp: show_words_ok names_ok(2) name_word_ok known_names_def)

lemma words_line:
  assumes "ws \<noteq> []" "list_all word_ok ws"
  shows "join_with 32 ws \<noteq> []" "44 \<notin> set (join_with 32 ws)" "trim (join_with 32 ws) = join_with 32 ws"
    "split_whitespace (join_with 32 ws) = ws"
proof -
  have w: "\<forall>w \<in> set ws. printable w \<and> w \<noteq> []" "\<forall>w \<in> set ws. 44 \<notin> set w"
    using assms(2) by (auto simp: list_all_iff word_ok_def)
  have hl: "join_with 32 ws \<noteq> [] \<and> hd (join_with 32 ws) = hd (hd ws) \<and>
      last (join_with 32 ws) = last (last ws)"
    using assms(1) w(1) by (induction "32 :: u8" ws rule: join_with.induct) auto
  then show "join_with 32 ws \<noteq> []" by simp
  show "44 \<notin> set (join_with 32 ws)" using w(2) by (auto dest: join_with_set)
  have ends: "\<And>s. s \<noteq> [] \<Longrightarrow> printable s \<Longrightarrow> 33 \<le> hd s \<and> hd s \<le> 126 \<and> 33 \<le> last s \<and> last s \<le> 126"
    by (simp add: printable_def)
  show "trim (join_with 32 ws) = join_with 32 ws"
    by (rule trim_line) (use hl ends w(1) assms(1) in auto)
  show "split_whitespace (join_with 32 ws) = ws"
    by (rule split_words [OF assms(1) w(1)])
qed

lemma parse_peer_number: "n \<le> 0xffffff \<Longrightarrow> peer_id_new (of_nat n) = Some (PeerId (of_nat n))"
  by (simp add: peer_id_new_def PEER_ID_MAX_def word_le_nat_alt unat_of_nat)

lemma match_directive_words:
  assumes "directive_ok d"
  shows "match_directive (directive_text d) (hd (directive_words d)) (tl (directive_words d)) p =
     Inr (directive_effect d p)"
  using assms
  by (cases d) (simp_all add: match_directive_def seconds_from_def parse_peer_number known_names_def
      U32_MAX_def secs_def)

lemma directive_effect_directives [simp]:
  "pr_directives (directive_effect d p) = pr_directives p"
  "directive_effect d (p\<lparr>pr_directives := ds\<rparr>) = (directive_effect d p)\<lparr>pr_directives := ds\<rparr>"
  by (cases d; simp)+

lemma apply_directive_text:
  assumes "directive_ok d"
  shows "apply_directive (directive_text d) p =
     Inr ((directive_effect d p)\<lparr>pr_directives := pr_directives p @ [directive_text d]\<rparr>)"
proof -
  have words: "split_whitespace (directive_text d) = hd (directive_words d) # tl (directive_words d)"
    unfolding directive_text_def using words_line(4) directive_words_ok [OF assms] by simp
  show ?thesis
    unfolding apply_directive_def words
    by (simp add: match_directive_words [OF assms] Let_def del: directive_words.simps)
qed

lemma apply_directive_texts:
  "list_all directive_ok ds \<Longrightarrow>
   apply_directives (map directive_text ds) p =
     Inr ((fold directive_effect ds p)\<lparr>pr_directives := pr_directives p @ map directive_text ds\<rparr>)"
proof (induction ds arbitrary: p)
  case Nil
  show ?case by (cases p) simp
next
  case (Cons d ds)
  have e: "fold directive_effect ds (q\<lparr>pr_directives := x\<rparr>) = (fold directive_effect ds q)\<lparr>pr_directives := x\<rparr>"
    for q x by (induction ds arbitrary: q) simp_all
  from Cons show ?case by (simp add: apply_directive_text e)
qed

lemma comma_join: "ls \<noteq> [] \<Longrightarrow> concat (map (\<lambda>l. 44 # l) ls) = 44 # join_with 44 ls"
  by (induction "44 :: u8" ls rule: join_with.induct) auto

lemma directives_of_text:
  assumes "list_all directive_ok ds" "ds \<noteq> []"
  shows "directives_of (join_with 44 (map directive_text ds)) = map directive_text ds"
proof -
  have l: "directive_text d \<noteq> []" "44 \<notin> set (directive_text d)" "trim (directive_text d) = directive_text d"
    if "d \<in> set ds" for d
  proof -
    have "directive_ok d" using assms(1) that by (simp add: list_all_iff)
    note w = directive_words_ok [OF this, THEN conjunct1] directive_words_ok [OF this, THEN conjunct2]
    show "directive_text d \<noteq> []" "44 \<notin> set (directive_text d)" "trim (directive_text d) = directive_text d"
      unfolding directive_text_def by (rule words_line(1,2,3) [OF w])+
  qed
  then have "split_on 44 (join_with 44 (map directive_text ds)) = map directive_text ds"
    using assms(2) by (intro split_join) auto
  moreover have "map trim (map directive_text ds) = map directive_text ds"
    unfolding map_map comp_def by (rule map_cong [OF refl l(3)])
  moreover have "filter (\<lambda>d. d \<noteq> []) (map directive_text ds) = map directive_text ds"
    unfolding filter_id_conv using l(1) by simp
  ultimately show ?thesis by (simp only: directives_of_def)
qed

lemma push_reply_parse_text:
  assumes "list_all directive_ok ds"
  shows "push_reply_parse (push_text ds) =
     Inr ((fold directive_effect ds push_reply_default)\<lparr>pr_directives := map directive_text ds\<rparr>)"
proof (cases "ds = []")
  case True
  have "directives_of [] = []" by code_simp
  with True show ?thesis
    by (simp add: push_reply_parse_def push_text_def strip_prefix_def starts_with_def push_reply_default_def)
next
  case False
  have "concat (map (\<lambda>d. 44 # directive_text d) ds) = 44 # join_with 44 (map directive_text ds)"
    using comma_join [of "map directive_text ds"] False by (simp add: comp_def)
  then show ?thesis
    using directives_of_text [OF assms False] apply_directive_texts [OF assms, of push_reply_default]
    by (simp add: push_reply_parse_def push_text_def strip_prefix_def starts_with_def push_reply_default_def)
qed

section \<open>Properties\<close>

text \<open>
  A push reply means what it says: for every list of well-formed directives, in any order
  and with repetitions, the parsed reply is the effect of each in turn (the last one wins, zero
  intervals are off, \<open>ping-restart 0\<close> is remembered as such), and the directives are kept.
\<close>

theorem push_reply_roundtrip:
  assumes "list_all directive_ok ds"
  shows "push_reply_parse (push_text ds) =
     Inr ((fold directive_effect ds push_reply_default)\<lparr>pr_directives := map directive_text ds\<rparr>)"
  using assms by (rule push_reply_parse_text)

theorem push_reply_roundtrip_witness:
  "push_reply_parse (push_text [PushPeerId 3, PushPing 10, PushPing 0, PushPingRestart 60]) =
     Inr (push_reply_default\<lparr>pr_peer_id := Some (PeerId 3), pr_ping_restart := Some (secs 60),
       pr_directives := map directive_text [PushPeerId 3, PushPing 10, PushPing 0, PushPingRestart 60]\<rparr>)"
  using push_reply_roundtrip [of "[PushPeerId 3, PushPing 10, PushPing 0, PushPingRestart 60]"]
  by (simp add: U64_MAX_def push_reply_default_def)

text \<open>
  Whatever text arrives, an accepted reply is usable: its intervals are not zero, its peer
  id fits 24 bits, and its directives are the non-empty pieces between the commas, in order; a
  refused one either lacks the \<open>PUSH_REPLY\<close> prefix or the error names one of its directives.
\<close>

theorem push_reply_sound:
  "case push_reply_parse reply of
     Inr p \<Rightarrow> push_ok p \<and> (\<exists>after. reply = lit ''PUSH_REPLY'' @ after \<and>
        pr_directives p = directives_of (case after of [] \<Rightarrow> [] | b # body \<Rightarrow> if b = 44 then body else []))
   | Inl e \<Rightarrow> e = UnexpectedControlMessage reply \<and> \<not> starts_with (lit ''PUSH_REPLY'') reply \<or>
       (\<exists>after. reply = lit ''PUSH_REPLY'' @ 44 # after \<and>
         (\<exists>d \<in> set (directives_of after). e = BadPushDirective d))"
proof (cases "strip_prefix (lit ''PUSH_REPLY'') reply")
  case None
  then show ?thesis by (simp add: push_reply_parse_def strip_prefix_def split: if_splits)
next
  case (Some after)
  then have reply: "reply = lit ''PUSH_REPLY'' @ after" by (simp add: strip_prefix_Some)
  let ?body = "case after of [] \<Rightarrow> [] | b # body \<Rightarrow> if b = 44 then body else []"
  have body: "(case strip_prefix [44] after of Some b \<Rightarrow> b | None \<Rightarrow> []) = ?body"
    by (cases after) (auto simp: strip_prefix_def starts_with_def)
  have parse: "push_reply_parse reply = apply_directives (directives_of ?body) push_reply_default"
    using Some body by (simp add: push_reply_parse_def)
  have ok: "push_ok push_reply_default" by (simp add: push_ok_def push_reply_default_def)
  have none: "directives_of [] = []" by code_simp
  show ?thesis
  proof (cases "push_reply_parse reply")
    case (Inl e)
    then obtain d where d: "d \<in> set (directives_of ?body)" "e = BadPushDirective d"
      using apply_directives_error parse by metis
    then have "?body \<noteq> []" using none by auto
    then have "after = 44 # ?body" by (cases after) (auto split: if_splits)
    with d reply Inl show ?thesis by auto
  next
    case (Inr p)
    with parse have "apply_directives (directives_of ?body) push_reply_default = Inr p" by simp
    from apply_directives_ok [OF this ok] have "push_ok p \<and> pr_directives p = directives_of ?body"
      by (simp add: push_reply_default_def)
    with reply Inr show ?thesis by auto
  qed
qed

end
