(* ===== verification/Profile.thy ===== *)
theory Profile
  imports Session_Config Push
begin

text \<open>
  Reading the \<open>.ovpn\<close> profile (\<open>synology-filestation-openvpn/src/profile.rs\<close>): directives with
  comments and inline blocks left out, what each means, and the session configuration it gives.
\<close>

section \<open>Lines and blocks\<close>

text \<open>\<open>directives\<close>, with the flag of its closure: whether the line is inside a block.\<close>

fun directives_in :: "bool \<Rightarrow> str list \<Rightarrow> str list" where
  "directives_in inside [] = []"
| "directives_in inside (l # ls) =
     (let line = trim l in
      if starts_with (lit ''<'') line then directives_in (\<not> starts_with (lit ''</'') line) ls
      else if inside \<or> line = [] \<or> starts_with (lit ''#'') line \<or> starts_with (lit '';'') line then
        directives_in inside ls
      else line # directives_in inside ls)"

definition profile_directives :: "str \<Rightarrow> str list" where
  "profile_directives text = directives_in False (lines_of text)"

definition block :: "str \<Rightarrow> str \<Rightarrow> str option" where
  "block text name =
     (case split_once (lit ''<'' @ name @ lit ''>'') text of
        None \<Rightarrow> None
      | Some (_, rest) \<Rightarrow>
          (case split_once (lit ''</'' @ name @ lit ''>'') rest of
             None \<Rightarrow> None
           | Some (body, _) \<Rightarrow> Some (dropWhile (\<lambda>c. c = 13 \<or> c = 10) body)))"

definition require_udp :: "str \<Rightarrow> str \<Rightarrow> error + unit" where
  "require_udp protocol line =
     (if to_ascii_lowercase protocol \<in> {lit ''udp'', lit ''udp4'', lit ''udp6''} then Inr ()
      else Inl (UnsupportedProfileOption line))"

section \<open>Directives\<close>

record profile =
  pf_remote :: str
  pf_port :: u16
  pf_ca_pem :: str
  pf_static_key :: "static_key option"
  pf_key_direction :: key_direction
  pf_server_name :: str
  pf_wants_credentials :: bool

text \<open>The variables of the loop of \<open>parse\<close>.\<close>

record profile_vars =
  pv_remote :: "str option"
  pv_port :: u16
  pv_key_direction :: key_direction
  pv_verify_name :: "str option"

definition profile_vars_start :: profile_vars where
  "profile_vars_start =
     \<lparr>pv_remote = None, pv_port = 1194, pv_key_direction = Bidirectional, pv_verify_name = None\<rparr>"

definition remote_directive :: "str \<Rightarrow> str list \<Rightarrow> profile_vars \<Rightarrow> error + profile_vars" where
  "remote_directive line words v =
     (case words of
        [] \<Rightarrow> Inr v
      | host # rest \<Rightarrow>
          let v = v\<lparr>pv_remote := Some host\<rparr> in
          bindE (case rest of
                   [] \<Rightarrow> Inr v
                 | given # _ \<Rightarrow>
                     bindE (ok_or (parse_uint 65535 given) (BadProfile line))
                       (\<lambda>port. Inr (v\<lparr>pv_port := of_nat port\<rparr>))) (\<lambda>v.
          case rest of
            _ # protocol # _ \<Rightarrow> bindE (require_udp protocol line) (\<lambda>_. Inr v)
          | _ \<Rightarrow> Inr v))"

definition apply_profile_directive :: "str \<Rightarrow> profile_vars \<Rightarrow> error + profile_vars" where
  "apply_profile_directive line v =
     (case split_whitespace line of
        [] \<Rightarrow> Inr v
      | name # rest \<Rightarrow>
          if name = lit ''remote'' \<and> rest \<noteq> [] then remote_directive line rest v
          else if name = lit ''proto'' \<and> length rest = 1 then
            bindE (require_udp (hd rest) line) (\<lambda>_. Inr v)
          else if name = lit ''key-direction'' \<and> length rest = 1 then
            (if hd rest = lit ''0'' then Inr (v\<lparr>pv_key_direction := Normal\<rparr>)
             else if hd rest = lit ''1'' then Inr (v\<lparr>pv_key_direction := Inverse\<rparr>)
             else Inl (BadProfile line))
          else if name = lit ''verify-x509-name'' \<and> rest \<noteq> [] then
            Inr (v\<lparr>pv_verify_name := Some (hd rest)\<rparr>)
          else if name = lit ''cipher'' \<and> rest \<noteq> [] then
            (if \<not> eq_ignore_ascii_case (hd rest) SUPPORTED_CIPHER then Inl (UnsupportedCipher (hd rest))
             else Inr v)
          else if name = lit ''data-ciphers'' \<and> rest \<noteq> [] then
            (if \<not> list_ex (\<lambda>c. eq_ignore_ascii_case c SUPPORTED_CIPHER) (split_on 58 (hd rest)) then
               Inl (UnsupportedCipher (hd rest))
             else Inr v)
          else if name = lit ''comp-lzo'' \<and> rest = [lit ''no''] then Inr v
          else if name = lit ''comp-lzo'' \<or> name = lit ''compress'' then Inl (UnsupportedCompression line)
          else if name = lit ''cert'' \<or> name = lit ''pkcs12'' then Inl (UnsupportedProfileOption line)
          else Inr v)"

fun apply_profile_directives :: "str list \<Rightarrow> profile_vars \<Rightarrow> error + profile_vars" where
  "apply_profile_directives [] v = Inr v"
| "apply_profile_directives (l # ls) v =
     bindE (apply_profile_directive l v) (\<lambda>v. apply_profile_directives ls v)"

definition asks_credentials :: "str \<Rightarrow> bool" where
  "asks_credentials text =
     list_ex (\<lambda>line. line = lit ''auth-user-pass'' \<or> starts_with (lit ''auth-user-pass '') line)
       (profile_directives text)"

definition profile_parse :: "str \<Rightarrow> error + profile" where
  "profile_parse text =
     bindE (apply_profile_directives (profile_directives text) profile_vars_start) (\<lambda>v.
     bindE (ok_or (pv_remote v) (BadProfile (lit ''no remote''))) (\<lambda>remote.
     bindE (ok_or (block text (lit ''ca'')) (BadProfile (lit ''no <ca> block''))) (\<lambda>ca_pem.
     bindE (case block text (lit ''tls-auth'') of
              Some key \<Rightarrow> bindE (static_key_parse key) (\<lambda>k. Inr (Some k))
            | None \<Rightarrow> Inr None) (\<lambda>static_key.
     Inr \<lparr>pf_remote = remote, pf_port = pv_port v, pf_ca_pem = ca_pem, pf_static_key = static_key,
          pf_key_direction = pv_key_direction v,
          pf_server_name = (case pv_verify_name v of Some n \<Rightarrow> n | None \<Rightarrow> remote),
          pf_wants_credentials = asks_credentials text\<rparr>))))"

text \<open>\<open>into_config\<close>; the random session id is an argument.\<close>

definition into_config :: "session_id \<Rightarrow> credentials option \<Rightarrow> profile \<Rightarrow> error + session_config" where
  "into_config sid cred p =
     bindE (ok_or (pf_static_key p) (BadProfile (lit ''no <tls-auth> block''))) (\<lambda>static_key.
     Inr ((session_config_new sid (pf_ca_pem p) (pf_server_name p) static_key)
        \<lparr>cfg_key_direction := pf_key_direction p, cfg_credentials := cred, cfg_tls_timeout := secs 2\<rparr>))"

definition profile_credentials :: "str \<Rightarrow> str \<Rightarrow> credentials" where
  "profile_credentials username password = \<lparr>cred_username = username, cred_password = password\<rparr>"

section \<open>What an accepted profile cannot say\<close>

text \<open>
  A directive that would change how the wire looks in a way the client does not speak: UDP,
  AES-256-CBC and no compression, with a key in one of two directions.
\<close>

definition wire_ok :: "str list \<Rightarrow> bool" where
  "wire_ok words \<longleftrightarrow>
     (let udp = (\<lambda>p. to_ascii_lowercase p \<in> {lit ''udp'', lit ''udp4'', lit ''udp6''});
          cipher = (\<lambda>c. eq_ignore_ascii_case c (lit ''AES-256-CBC'')) in
      case words of
        [] \<Rightarrow> True
      | name # rest \<Rightarrow>
          name \<notin> {lit ''compress'', lit ''cert'', lit ''pkcs12''} \<and>
          (name = lit ''comp-lzo'' \<longrightarrow> rest = [lit ''no'']) \<and>
          (name = lit ''proto'' \<and> length rest = 1 \<longrightarrow> udp (hd rest)) \<and>
          (name = lit ''remote'' \<and> 3 \<le> length rest \<longrightarrow> udp (rest ! 2)) \<and>
          (name = lit ''cipher'' \<and> rest \<noteq> [] \<longrightarrow> cipher (hd rest)) \<and>
          (name = lit ''data-ciphers'' \<and> rest \<noteq> [] \<longrightarrow> (\<exists>c \<in> set (split_on 58 (hd rest)). cipher c)) \<and>
          (name = lit ''key-direction'' \<and> length rest = 1 \<longrightarrow> hd rest \<in> {lit ''0'', lit ''1''}))"

lemma directive_wire_ok:
  "apply_profile_directive line v = Inr v' \<Longrightarrow> wire_ok (split_whitespace line)"
  by (cases "split_whitespace line")
    (auto simp: apply_profile_directive_def wire_ok_def remote_directive_def require_udp_def Let_def bindE_def
      SUPPORTED_CIPHER_def list_ex_iff length_Suc_conv split: list.splits if_splits sum.splits)

text \<open>
  What a line says of the host, the port, the direction of the key and the name to verify; of several
  lines that say it the last one counts.
\<close>

definition says_host :: "str list \<Rightarrow> str option" where
  "says_host words =
     (case words of name # host # _ \<Rightarrow> if name = lit ''remote'' then Some host else None | _ \<Rightarrow> None)"

definition says_port :: "str list \<Rightarrow> u16 option" where
  "says_port words =
     (case words of
        name # _ # given # _ \<Rightarrow> if name = lit ''remote'' then map_option of_nat (parse_uint 65535 given) else None
      | _ \<Rightarrow> None)"

definition says_direction :: "str list \<Rightarrow> key_direction option" where
  "says_direction words =
     (if words = [lit ''key-direction'', lit ''0''] then Some Normal
      else if words = [lit ''key-direction'', lit ''1''] then Some Inverse else None)"

definition says_name :: "str list \<Rightarrow> str option" where
  "says_name words =
     (case words of name # given # _ \<Rightarrow> if name = lit ''verify-x509-name'' then Some given else None | _ \<Rightarrow> None)"

fun last_said :: "(str list \<Rightarrow> 'a option) \<Rightarrow> str list \<Rightarrow> 'a option" where
  "last_said says [] = None"
| "last_said says (l # ls) =
     (case last_said says ls of Some x \<Rightarrow> Some x | None \<Rightarrow> says (split_whitespace l))"

definition else_before :: "'a option \<Rightarrow> 'a \<Rightarrow> 'a" where
  "else_before said before = (case said of Some x \<Rightarrow> x | None \<Rightarrow> before)"

lemma lit_names:
  "lit ''remote'' \<noteq> lit ''key-direction''" "lit ''remote'' \<noteq> lit ''verify-x509-name''"
  "lit ''remote'' \<noteq> lit ''proto''" "lit ''key-direction'' \<noteq> lit ''verify-x509-name''"
  "lit ''key-direction'' \<noteq> lit ''proto''" "lit ''verify-x509-name'' \<noteq> lit ''proto''"
  "lit ''0'' \<noteq> lit ''1''"
  by code_simp+

lemma directive_says:
  assumes "apply_profile_directive line v = Inr v'"
  shows "pv_remote v' = (case says_host (split_whitespace line) of Some h \<Rightarrow> Some h | None \<Rightarrow> pv_remote v) \<and>
    pv_port v' = else_before (says_port (split_whitespace line)) (pv_port v) \<and>
    pv_key_direction v' = else_before (says_direction (split_whitespace line)) (pv_key_direction v) \<and>
    pv_verify_name v' = (case says_name (split_whitespace line) of Some n \<Rightarrow> Some n | None \<Rightarrow> pv_verify_name v)"
proof (cases "split_whitespace line")
  case Nil
  with assms show ?thesis
    by (simp add: apply_profile_directive_def says_host_def says_port_def says_direction_def says_name_def else_before_def)
next
  case (Cons name rest)
  note w = assms [unfolded apply_profile_directive_def Cons list.case]
  note said = says_host_def says_port_def says_direction_def says_name_def else_before_def
  consider "name = lit ''remote''" | "name = lit ''key-direction''" | "name = lit ''verify-x509-name''"
    | "name \<noteq> lit ''remote''" "name \<noteq> lit ''key-direction''" "name \<noteq> lit ''verify-x509-name''" by blast
  then show ?thesis
  proof cases
    case 1
    with w show ?thesis
      by (auto simp: Cons said lit_names remote_directive_def require_udp_def Let_def bindE_def ok_or_def
          split: list.splits if_splits sum.splits option.splits)
  next
    case 2
    with w show ?thesis
      by (cases rest) (auto simp: Cons said lit_names lit_names [symmetric] split: list.splits if_splits)
  next
    case 3
    with w show ?thesis
      by (cases rest) (auto simp: Cons said lit_names lit_names [symmetric] split: list.splits if_splits)
  next
    case 4
    then have "v' = v" using w by (auto simp: require_udp_def bindE_def split: if_splits sum.splits)
    with 4 show ?thesis by (auto simp: Cons said split: list.splits)
  qed
qed

lemma directives_say:
  "apply_profile_directives ls v = Inr v' \<Longrightarrow>
    list_all (\<lambda>l. wire_ok (split_whitespace l)) ls \<and>
    pv_remote v' = (case last_said says_host ls of Some h \<Rightarrow> Some h | None \<Rightarrow> pv_remote v) \<and>
    pv_port v' = else_before (last_said says_port ls) (pv_port v) \<and>
    pv_key_direction v' = else_before (last_said says_direction ls) (pv_key_direction v) \<and>
    pv_verify_name v' = (case last_said says_name ls of Some n \<Rightarrow> Some n | None \<Rightarrow> pv_verify_name v)"
proof (induction ls v rule: apply_profile_directives.induct)
  case (2 l ls v)
  from 2(2) obtain v1 where 1: "apply_profile_directive l v = Inr v1" "apply_profile_directives ls v1 = Inr v'"
    by (auto simp: bindE_eq_Inr)
  from 2(1) [OF 1] directive_wire_ok [OF 1(1)] directive_says [OF 1(1)] show ?case
    by (simp add: else_before_def split: option.split)
qed (simp add: else_before_def)

lemma directive_error_fatal: "apply_profile_directive line v = Inl e \<Longrightarrow> is_fatal e"
  by (cases "split_whitespace line")
    (auto simp: apply_profile_directive_def remote_directive_def require_udp_def Let_def bindE_def ok_or_def
      split: list.splits if_splits sum.splits option.splits)

lemma directives_error_fatal: "apply_profile_directives ls v = Inl e \<Longrightarrow> is_fatal e"
  by (induction ls v rule: apply_profile_directives.induct)
    (auto simp: bindE_def split: sum.splits dest: directive_error_fatal)

lemma hex_error_fatal: "hex_pairs s = Inl e \<Longrightarrow> is_fatal e"
  by (induction s rule: hex_pairs.induct)
    (auto simp: bindE_def hex_digit_def split: sum.splits if_splits)

lemma key_error_fatal: "static_key_parse text = Inl e \<Longrightarrow> is_fatal e"
  by (auto simp: static_key_parse_def static_key_from_hex_def Let_def bindE_def ok_or_def
      split: sum.splits option.splits if_splits dest: hex_error_fatal)

text \<open>
  C40. An accepted profile is one this client can connect with, and what is made of it is what it
  says: none of its directives asks for a transport, a cipher (in \<open>cipher\<close> or among
  \<open>data-ciphers\<close>), a compression or a client certificate the client does not have; the host and
  port to dial are those of its last \<open>remote\<close> lines, port 1194 if none names one; the certificates to
  trust are its \<open>ca\<close> block and the static key its \<open>tls-auth\<close> block; \<open>key-direction 0\<close> is the
  normal direction, \<open>1\<close> the inverse, and with neither the key is used in both; the name to verify is that of
  \<open>verify-x509-name\<close>, or else the host; and the configuration carries all of this over. A
  refused profile is refused with an error that ends the session.
\<close>

theorem profile_is_connectable:
  "case profile_parse text of
     Inr p \<Rightarrow> list_all (\<lambda>l. wire_ok (split_whitespace l)) (profile_directives text) \<and>
       last_said says_host (profile_directives text) = Some (pf_remote p) \<and>
       pf_port p = else_before (last_said says_port (profile_directives text)) 1194 \<and>
       pf_key_direction p = else_before (last_said says_direction (profile_directives text)) Bidirectional \<and>
       pf_server_name p = else_before (last_said says_name (profile_directives text)) (pf_remote p) \<and>
       block text (lit ''ca'') = Some (pf_ca_pem p) \<and>
       (case block text (lit ''tls-auth'') of
          Some key \<Rightarrow> (\<exists>k. static_key_parse key = Inr k \<and> pf_static_key p = Some k)
        | None \<Rightarrow> pf_static_key p = None) \<and>
       (case into_config sid cred p of
          Inr c \<Rightarrow> pf_static_key p = Some (cfg_static_key c) \<and> cfg_key_direction c = pf_key_direction p \<and>
            cfg_server_name c = pf_server_name p \<and> cfg_ca_pem c = pf_ca_pem p \<and> cfg_credentials c = cred
        | Inl e \<Rightarrow> pf_static_key p = None \<and> is_fatal e)
   | Inl e \<Rightarrow> is_fatal e"
proof (cases "profile_parse text")
  case (Inr p)
  then obtain v where v: "apply_profile_directives (profile_directives text) profile_vars_start = Inr v"
    "pv_remote v = Some (pf_remote p)" "block text (lit ''ca'') = Some (pf_ca_pem p)"
    "pf_port p = pv_port v" "pf_key_direction p = pv_key_direction v"
    "pf_server_name p = else_before (pv_verify_name v) (pf_remote p)"
    and k: "case block text (lit ''tls-auth'') of
          Some key \<Rightarrow> (\<exists>k. static_key_parse key = Inr k \<and> pf_static_key p = Some k)
        | None \<Rightarrow> pf_static_key p = None"
    by (auto simp: profile_parse_def bindE_def ok_or_def else_before_def split: sum.splits option.splits)
  have "case into_config sid cred p of
      Inr c \<Rightarrow> pf_static_key p = Some (cfg_static_key c) \<and> cfg_key_direction c = pf_key_direction p \<and>
        cfg_server_name c = pf_server_name p \<and> cfg_ca_pem c = pf_ca_pem p \<and> cfg_credentials c = cred
    | Inl e \<Rightarrow> pf_static_key p = None \<and> is_fatal e"
    by (cases "pf_static_key p") (simp_all add: into_config_def session_config_new_def)
  moreover have "last_said says_host (profile_directives text) = Some (pf_remote p)"
    using directives_say [OF v(1)] v(2) by (simp add: profile_vars_start_def split: option.splits)
  moreover have "pv_verify_name v = last_said says_name (profile_directives text)"
    using directives_say [OF v(1)] by (simp add: profile_vars_start_def split: option.splits)
  ultimately show ?thesis
    using Inr v k directives_say [OF v(1)] by (simp add: profile_vars_start_def)
next
  case (Inl e)
  then have "is_fatal e"
    by (auto simp: profile_parse_def bindE_def ok_or_def split: sum.splits option.splits
        dest: directives_error_fatal key_error_fatal)
  with Inl show ?thesis by simp
qed

text \<open>A tab between \<open>auth-user-pass\<close> and its file hides that the server will ask.\<close>

lemma tab_hides_auth_user_pass:
  "asks_credentials (lit ''auth-user-pass'' @ [9] @ lit ''login.txt'') = False"
  "asks_credentials (lit ''auth-user-pass login.txt'') = True"
  "split_whitespace (lit ''auth-user-pass'' @ [9] @ lit ''login.txt'') =
     split_whitespace (lit ''auth-user-pass login.txt'')"
  by code_simp+

end
