(* ===== verification/Tls_Auth.thy ===== *)
theory Tls_Auth
  imports Static_Key
begin

text \<open>
  The \<open>tls-auth\<close> envelope of \<open>tls_auth.rs\<close>. HMAC-SHA512 is code of another crate: it is the
  parameter \<open>mac\<close>, a function of key and message, and \<open>verify_slice\<close> is its comparison with the
  whole tag. The only law the code relies on is \<open>mac_len\<close>, the type of the tag.
\<close>

section \<open>The envelope\<close>

type_synonym mac = "bytes \<Rightarrow> bytes \<Rightarrow> bytes"

definition AUTH_HMAC_LEN :: nat where
  "AUTH_HMAC_LEN = 64"

definition PREFIX_LEN :: nat where
  "PREFIX_LEN = 1 + SID_LEN"

definition REPLAY_LEN :: nat where
  "REPLAY_LEN = 8"

record tls_auth_header =
  ah_packet_id :: u32
  ah_net_time :: u32

record tls_auth =
  ta_out_key :: bytes
  ta_in_key :: bytes

definition tls_auth_new :: "static_key \<Rightarrow> key_direction \<Rightarrow> tls_auth" where
  "tls_auth_new key direction =
     \<lparr>ta_out_key = out_hmac key direction, ta_in_key = in_hmac key direction\<rparr>"

definition tls_wrap :: "mac \<Rightarrow> tls_auth \<Rightarrow> control_packet \<Rightarrow> u32 \<Rightarrow> u32 \<Rightarrow> bytes" where
  "tls_wrap mac ta packet packet_id net_time =
     (let prefix = encode_prefix packet;
          tail = encode_tail packet;
          signed = be32 packet_id @ be32 net_time @ prefix @ tail
      in prefix @ mac (ta_out_key ta) signed @ be32 packet_id @ be32 net_time @ tail)"

definition tls_verify :: "mac \<Rightarrow> bytes \<Rightarrow> bytes \<Rightarrow> bytes \<Rightarrow> error + unit" where
  "tls_verify mac key message expected = (if mac key message = expected then Inr () else Inl BadHmac)"

definition tls_unwrap :: "mac \<Rightarrow> tls_auth \<Rightarrow> bytes \<Rightarrow> error + control_packet \<times> tls_auth_header" where
  "tls_unwrap mac ta datagram =
     bindE (ok_or (slice_get 0 PREFIX_LEN datagram) (Truncated ''an opcode and session id''))
       (\<lambda>prefix.
     bindE (ok_or (slice_get PREFIX_LEN (PREFIX_LEN + AUTH_HMAC_LEN) datagram)
              (Truncated ''a tls-auth HMAC'')) (\<lambda>tag.
     bindE (ok_or (slice_get (PREFIX_LEN + AUTH_HMAC_LEN) (PREFIX_LEN + AUTH_HMAC_LEN + REPLAY_LEN)
              datagram) (Truncated ''a tls-auth packet id'')) (\<lambda>replay.
     let tail = drop (PREFIX_LEN + AUTH_HMAC_LEN + REPLAY_LEN) datagram in
     bindE (tls_verify mac (ta_in_key ta) (replay @ prefix @ tail) tag) (\<lambda>_.
     let header = \<lparr>ah_packet_id = from_be32 (take 4 replay), ah_net_time = from_be32 (drop 4 replay)\<rparr> in
     bindE (packet_decode prefix tail) (\<lambda>packet. Inr (packet, header))))))"

section \<open>Datagrams by their parts\<close>

definition mac_len :: "mac \<Rightarrow> bool" where
  "mac_len mac \<longleftrightarrow> (\<forall>k m. length (mac k m) = AUTH_HMAC_LEN)"

text \<open>The end that signs with the key this end verifies with.\<close>

definition tls_peer :: "tls_auth \<Rightarrow> tls_auth" where
  "tls_peer ta = \<lparr>ta_out_key = ta_in_key ta, ta_in_key = ta_out_key ta\<rparr>"

lemma datagram_parts:
  assumes "length prefix = PREFIX_LEN" "length tag = AUTH_HMAC_LEN" "length replay = REPLAY_LEN"
    and d: "d = prefix @ tag @ replay @ tail"
  shows "slice_get 0 PREFIX_LEN d = Some prefix"
    "slice_get PREFIX_LEN (PREFIX_LEN + AUTH_HMAC_LEN) d = Some tag"
    "slice_get (PREFIX_LEN + AUTH_HMAC_LEN) (PREFIX_LEN + AUTH_HMAC_LEN + REPLAY_LEN) d = Some replay"
    "drop (PREFIX_LEN + AUTH_HMAC_LEN + REPLAY_LEN) d = tail"
  unfolding d using assms(1-3) by (simp_all add: slice_get_def)

lemma datagram_split:
  assumes "slice_get (PREFIX_LEN + AUTH_HMAC_LEN) (PREFIX_LEN + AUTH_HMAC_LEN + REPLAY_LEN) d = Some replay"
  obtains prefix tag tail where "d = prefix @ tag @ replay @ tail" "length prefix = PREFIX_LEN"
    "length tag = AUTH_HMAC_LEN" "length replay = REPLAY_LEN"
proof -
  let ?n = "PREFIX_LEN + AUTH_HMAC_LEN"
  have len: "?n + REPLAY_LEN \<le> length d" and r: "replay = take REPLAY_LEN (drop ?n d)"
    using assms by (auto simp: slice_get_Some_iff)
  have "d = take PREFIX_LEN d @ take AUTH_HMAC_LEN (drop PREFIX_LEN d) @ replay @ drop (?n + REPLAY_LEN) d"
    unfolding r by (metis (no_types) append_take_drop_id drop_drop add.commute)
  moreover have "length (take PREFIX_LEN d) = PREFIX_LEN"
    "length (take AUTH_HMAC_LEN (drop PREFIX_LEN d)) = AUTH_HMAC_LEN" "length replay = REPLAY_LEN"
    using len r by auto
  ultimately show ?thesis using that by blast
qed

lemma tls_unwrap_parts:
  assumes "length prefix = PREFIX_LEN" "length tag = AUTH_HMAC_LEN" "length replay = REPLAY_LEN"
  shows "tls_unwrap mac ta (prefix @ tag @ replay @ tail) =
     (if mac (ta_in_key ta) (replay @ prefix @ tail) \<noteq> tag then Inl BadHmac
      else bindE (packet_decode prefix tail) (\<lambda>p.
        Inr (p, \<lparr>ah_packet_id = from_be32 (take 4 replay), ah_net_time = from_be32 (drop 4 replay)\<rparr>)))"
  using datagram_parts [OF assms refl] by (simp add: tls_unwrap_def tls_verify_def Let_def)

lemma length_encode_prefix: "packet_ok p \<Longrightarrow> length (encode_prefix p) = PREFIX_LEN"
  by (simp add: encode_prefix_def packet_ok_def PREFIX_LEN_def)

lemma tls_unwrap_wrap:
  assumes "mac_len mac" and "packet_ok p" and "ta_in_key b = ta_out_key a"
  shows "tls_unwrap mac b (tls_wrap mac a p i t) = Inr (p, \<lparr>ah_packet_id = i, ah_net_time = t\<rparr>)"
proof -
  let ?signed = "be32 i @ be32 t @ encode_prefix p @ encode_tail p"
  have "tls_unwrap mac b (encode_prefix p @ mac (ta_out_key a) ?signed @ (be32 i @ be32 t) @ encode_tail p) =
      Inr (p, \<lparr>ah_packet_id = i, ah_net_time = t\<rparr>)"
    using assms(1,3) length_encode_prefix [OF assms(2)] packet_decode_encode [OF assms(2)]
    by (subst tls_unwrap_parts) (simp_all add: mac_len_def REPLAY_LEN_def)
  then show ?thesis by (simp add: tls_wrap_def Let_def)
qed

lemma tls_unwrap_only:
  assumes "tls_unwrap mac ta d = Inr (p, h)"
  shows "packet_ok p \<and> d = tls_wrap mac (tls_peer ta) p (ah_packet_id h) (ah_net_time h)"
proof -
  obtain replay where
    "slice_get (PREFIX_LEN + AUTH_HMAC_LEN) (PREFIX_LEN + AUTH_HMAC_LEN + REPLAY_LEN) d = Some replay"
    using assms by (auto simp: tls_unwrap_def bindE_eq_Inr)
  then obtain prefix tag tail where d: "d = prefix @ tag @ replay @ tail"
    and len: "length prefix = PREFIX_LEN" "length tag = AUTH_HMAC_LEN" "length replay = REPLAY_LEN"
    by (rule datagram_split)
  have tag: "mac (ta_in_key ta) (replay @ prefix @ tail) = tag"
    and p: "packet_decode prefix tail = Inr p"
    and h: "h = \<lparr>ah_packet_id = from_be32 (take 4 replay), ah_net_time = from_be32 (drop 4 replay)\<rparr>"
    using assms unfolding d tls_unwrap_parts [OF len] by (auto simp: bindE_eq_Inr split: if_splits)
  have pre: "packet_ok p" "encode_prefix p = prefix" "encode_tail p = tail"
    using packet_decode_only [OF p] len(1) by (auto simp: PREFIX_LEN_def)
  have "be32 (ah_packet_id h) @ be32 (ah_net_time h) = take 4 replay @ drop 4 replay"
    using len(3) unfolding h by (simp add: be32_from_be32 REPLAY_LEN_def)
  then have r: "be32 (ah_packet_id h) @ be32 (ah_net_time h) = replay" by simp
  have "tls_wrap mac (tls_peer ta) p (ah_packet_id h) (ah_net_time h) = prefix @ tag @ replay @ tail"
    unfolding tls_wrap_def Let_def pre tls_peer_def tag [symmetric] r [symmetric] by simp
  with d pre show ?thesis by simp
qed

text \<open>Which directions fit together.\<close>

fun paired :: "key_direction \<Rightarrow> key_direction \<Rightarrow> bool" where
  "paired Normal d = (d = Inverse)"
| "paired Inverse d = (d = Normal)"
| "paired Bidirectional d = (d = Bidirectional)"

lemma paired_keys: "paired d d' \<Longrightarrow> tls_auth_new key d' = tls_peer (tls_auth_new key d)"
  by (cases d; cases d') (simp_all add: tls_auth_new_def tls_peer_def out_hmac_def in_hmac_def)

section \<open>Properties\<close>

text \<open>
  Ends configured with the same key file and opposite directions (or both with none)
  understand each other: what one wraps the other unwraps to the same packet, with the replay
  counter and clock it was sent with.
\<close>

theorem tls_auth_directions_pair:
  assumes "mac_len mac" and "packet_ok p" and "paired d d'"
  shows "tls_unwrap mac (tls_auth_new key d') (tls_wrap mac (tls_auth_new key d) p i t) =
         Inr (p, \<lparr>ah_packet_id = i, ah_net_time = t\<rparr>)"
  using tls_unwrap_wrap [OF assms(1,2)] paired_keys [OF assms(3)] by (simp add: tls_peer_def)

text \<open>A function with the law of \<open>mac\<close>, to evaluate with; it authenticates nothing.\<close>

definition sample_mac :: mac where
  "sample_mac k m = replicate 63 0 @ [fold (+) (k @ m) 0]"

lemma sample_mac_len: "mac_len sample_mac"
  by (simp add: mac_len_def sample_mac_def AUTH_HMAC_LEN_def)

definition sample_static_key :: static_key where
  "sample_static_key = StaticKey (map of_nat [0..<256])"

theorem tls_auth_directions_pair_witness:
  "tls_unwrap sample_mac (tls_auth_new sample_static_key Normal)
     (tls_wrap sample_mac (tls_auth_new sample_static_key Inverse) sample_packet 1 1700000000) =
   Inr (sample_packet, \<lparr>ah_packet_id = 1, ah_net_time = 1700000000\<rparr>)"
  by (rule tls_auth_directions_pair [OF sample_mac_len sample_packet_ok]) simp

text \<open>
  C37. Nothing unsigned gets through: a datagram is accepted exactly if it is, byte for byte,
  what the holder of the key this end verifies with sends for that well-formed packet, counter
  and clock. Every other datagram, of whatever length, is an error.
\<close>

theorem tls_auth_accepts_only_signed:
  assumes "mac_len mac"
  shows "tls_unwrap mac ta d = Inr (p, h) \<longleftrightarrow>
         packet_ok p \<and> d = tls_wrap mac (tls_peer ta) p (ah_packet_id h) (ah_net_time h)"
  using tls_unwrap_only tls_unwrap_wrap [OF assms, of p ta "tls_peer ta"]
  by (auto simp: tls_peer_def)

theorem tls_auth_accepts_only_signed_witness:
  "tls_unwrap sample_mac (tls_auth_new sample_static_key Normal) [1, 2, 3] \<noteq>
   Inr (sample_packet, \<lparr>ah_packet_id = 1, ah_net_time = 2\<rparr>)"
proof -
  have "length (encode_prefix sample_packet) = PREFIX_LEN"
    by (rule length_encode_prefix [OF sample_packet_ok])
  then show ?thesis
    unfolding tls_auth_accepts_only_signed [OF sample_mac_len]
    by (auto simp: tls_wrap_def Let_def PREFIX_LEN_def SID_LEN_def dest: arg_cong [of _ _ length])
qed

end
