(* ===== verification/Channel.thy ===== *)
theory Channel
  imports Tls_Auth Reliable Replay
begin

text \<open>
  The control channel of \<open>channel.rs\<close>: datagrams in and out, messages up in order, and the two key
  generations that share a session while one is negotiated. \<open>now\<close> and \<open>net_time\<close> are arguments,
  as in the code.
\<close>

section \<open>State\<close>

record key_state =
  ks_key_id :: key_id
  ks_send :: send_window
  ks_recv :: recv_window
  ks_opened :: bool

definition key_state_new :: "key_id \<Rightarrow> duration \<Rightarrow> key_state" where
  "key_state_new k tls_timeout =
     \<lparr>ks_key_id = k, ks_send = sw_new tls_timeout, ks_recv = rv_new, ks_opened = False\<rparr>"

record control_channel =
  cc_auth :: tls_auth
  cc_local_session :: session_id
  cc_remote_session :: "session_id option"
  cc_next_replay_id :: u32
  cc_replay :: replay_window
  cc_tls_timeout :: duration
  cc_primary :: key_state
  cc_superseded :: "key_id list"
  cc_pending :: "key_state option"

definition OPENING_MESSAGE_ID :: u32 where
  "OPENING_MESSAGE_ID = 0"

definition channel_new :: "tls_auth \<Rightarrow> session_id \<Rightarrow> duration \<Rightarrow> control_channel" where
  "channel_new auth local_session tls_timeout =
     \<lparr>cc_auth = auth, cc_local_session = local_session, cc_remote_session = None,
      cc_next_replay_id = 1, cc_replay = rw_new, cc_tls_timeout = tls_timeout,
      cc_primary = key_state_new key_id_first tls_timeout, cc_superseded = [], cc_pending = None\<rparr>"

section \<open>The generations\<close>

text \<open>\<open>state_mut\<close> lends the state of a key id: \<open>state_of\<close> reads it, \<open>state_put\<close> writes it back.\<close>

definition state_of :: "key_id \<Rightarrow> control_channel \<Rightarrow> key_state option" where
  "state_of k cc =
     (if ks_key_id (cc_primary cc) = k then Some (cc_primary cc)
      else case cc_pending cc of
             Some pending \<Rightarrow> if ks_key_id pending = k then Some pending else None
           | None \<Rightarrow> None)"

definition state_put :: "key_id \<Rightarrow> key_state \<Rightarrow> control_channel \<Rightarrow> control_channel" where
  "state_put k s cc =
     (if ks_key_id (cc_primary cc) = k then cc\<lparr>cc_primary := s\<rparr>
      else case cc_pending cc of
             Some pending \<Rightarrow> if ks_key_id pending = k then cc\<lparr>cc_pending := Some s\<rparr> else cc
           | None \<Rightarrow> cc)"

definition states :: "control_channel \<Rightarrow> key_state list" where
  "states cc = cc_primary cc # (case cc_pending cc of Some p \<Rightarrow> [p] | None \<Rightarrow> [])"

definition key_ids :: "control_channel \<Rightarrow> key_id list" where
  "key_ids cc =
     (case cc_pending cc of
        Some p \<Rightarrow> [ks_key_id p, ks_key_id (cc_primary cc)]
      | None \<Rightarrow> [ks_key_id (cc_primary cc)])"

definition pending_key_id :: "control_channel \<Rightarrow> key_id option" where
  "pending_key_id cc = map_option ks_key_id (cc_pending cc)"

definition channel_key_id :: "control_channel \<Rightarrow> key_id" where
  "channel_key_id cc = ks_key_id (cc_primary cc)"

section \<open>Sending\<close>

definition channel_open :: "control_channel \<Rightarrow> control_channel" where
  "channel_open cc =
     cc\<lparr>cc_primary := (cc_primary cc)
          \<lparr>ks_opened := True,
           ks_send := snd (sw_queue ControlHardResetClientV2 [] (ks_send (cc_primary cc)))\<rparr>\<rparr>"

definition send_control :: "key_id \<Rightarrow> bytes \<Rightarrow> control_channel \<Rightarrow> bool \<times> control_channel" where
  "send_control k payload cc =
     (case state_of k cc of
        Some state \<Rightarrow>
          let (queued, send) = sw_queue ControlV1 payload (ks_send state)
          in (queued \<noteq> None, state_put k (state\<lparr>ks_send := send\<rparr>) cc)
      | None \<Rightarrow> (False, cc))"

definition promote :: "control_channel \<Rightarrow> control_channel" where
  "promote cc =
     (case cc_pending cc of
        Some pending \<Rightarrow> cc\<lparr>cc_pending := None, cc_primary := pending, cc_superseded := []\<rparr>
      | None \<Rightarrow> cc)"

definition can_send_for :: "key_id \<Rightarrow> control_channel \<Rightarrow> bool" where
  "can_send_for k cc =
     (case find (\<lambda>s. ks_key_id s = k) (states cc) of
        Some s \<Rightarrow> \<not> sw_is_full (ks_send s)
      | None \<Rightarrow> False)"

definition can_send :: "control_channel \<Rightarrow> bool" where
  "can_send cc = can_send_for (ks_key_id (cc_primary cc)) cc"

definition next_packet ::
  "key_id \<Rightarrow> instant \<Rightarrow> control_channel \<Rightarrow> control_packet option \<times> control_channel" where
  "next_packet k now cc =
     (case state_of k cc of
        None \<Rightarrow> (None, cc)
      | Some state \<Rightarrow>
          let (due, send) = sw_next_due now (ks_send state);
              state = state\<lparr>ks_send := send\<rparr>
          in if due = None \<and> \<not> rv_owes_acks (ks_recv state) then (None, state_put k state cc)
             else
               let (acks, recv) =
                 (case cc_remote_session cc of
                    None \<Rightarrow> (None, ks_recv state)
                  | Some sid \<Rightarrow>
                      let (ids, recv) = rv_take_acks ACKS_MAX (ks_recv state)
                      in (if ids = [] then None else Some (projr (acks_new ids sid)), recv))
               in (Some (case due of
                     Some out \<Rightarrow>
                       \<lparr>cp_opcode = out_opcode out, cp_key_id = k, cp_session_id = cc_local_session cc,
                        cp_acks = acks, cp_packet_id = Some (out_packet_id out),
                        cp_payload = out_payload out\<rparr>
                   | None \<Rightarrow>
                       \<lparr>cp_opcode = AckV1, cp_key_id = k, cp_session_id = cc_local_session cc,
                        cp_acks = acks, cp_packet_id = None, cp_payload = []\<rparr>),
                   state_put k (state\<lparr>ks_recv := recv\<rparr>) cc))"

fun poll_keys ::
  "mac \<Rightarrow> key_id list \<Rightarrow> instant \<Rightarrow> u32 \<Rightarrow> control_channel \<Rightarrow> bytes option \<times> control_channel" where
  "poll_keys mac [] now net_time cc = (None, cc)"
| "poll_keys mac (k # ks) now net_time cc =
     (case next_packet k now cc of
        (Some packet, cc) \<Rightarrow>
          (Some (tls_wrap mac (cc_auth cc) packet (cc_next_replay_id cc) net_time),
           cc\<lparr>cc_next_replay_id := cc_next_replay_id cc + 1\<rparr>)
      | (None, cc) \<Rightarrow> poll_keys mac ks now net_time cc)"

definition poll_transmit ::
  "mac \<Rightarrow> instant \<Rightarrow> u32 \<Rightarrow> control_channel \<Rightarrow> bytes option \<times> control_channel" where
  "poll_transmit mac now net_time cc = poll_keys mac (key_ids cc) now net_time cc"

text \<open>The sooner of two optional moments, as the \<open>match\<close> of \<open>next_wakeup\<close> has it.\<close>

fun sooner :: "instant option \<Rightarrow> instant option \<Rightarrow> instant option" where
  "sooner None due = due"
| "sooner (Some a) (Some b) = Some (min a b)"
| "sooner (Some a) None = Some a"

definition state_due :: "instant \<Rightarrow> key_state \<Rightarrow> instant option" where
  "state_due now s = (if rv_owes_acks (ks_recv s) then Some now else sw_next_wakeup now (ks_send s))"

definition channel_next_wakeup :: "instant \<Rightarrow> control_channel \<Rightarrow> instant option" where
  "channel_next_wakeup now cc = foldl (\<lambda>soonest s. sooner soonest (state_due now s)) None (states cc)"

section \<open>Receiving\<close>

definition answers_our_open :: "control_packet \<Rightarrow> bool" where
  "answers_our_open p \<longleftrightarrow>
     cp_opcode p = ControlHardResetServerV2 \<and> cp_packet_id p = Some OPENING_MESSAGE_ID \<and>
     (case cp_acks p of Some a \<Rightarrow> OPENING_MESSAGE_ID \<in> set (ack_ids a) | None \<Rightarrow> False)"

text \<open>The checks on who sent a packet, in their order.\<close>

definition check_sender :: "control_packet \<Rightarrow> control_channel \<Rightarrow> error + unit" where
  "check_sender p cc =
     bindE (case cc_remote_session cc of
              Some known \<Rightarrow> if known \<noteq> cp_session_id p then Inl WrongSession else Inr ()
            | None \<Rightarrow>
                if ks_opened (cc_primary cc) then
                  (if answers_our_open p then Inr () else Inl UnexpectedFirstPacket)
                else Inr ()) (\<lambda>_.
     case cp_acks p of
       Some a \<Rightarrow> if ack_session a \<noteq> cc_local_session cc then Inl AckForAnotherSession else Inr ()
     | None \<Rightarrow> Inr ())"

definition soft_reset :: "control_packet \<Rightarrow> control_channel \<Rightarrow> control_channel" where
  "soft_reset p cc =
     (if cp_opcode p = ControlSoftResetV1 \<and> cp_key_id p \<noteq> ks_key_id (cc_primary cc) then
        let already = (case cc_pending cc of Some s \<Rightarrow> ks_key_id s = cp_key_id p | None \<Rightarrow> False);
            abandoned = cp_key_id p \<in> set (cc_superseded cc)
        in if \<not> already \<and> \<not> abandoned then
             cc\<lparr>cc_pending := Some (key_state_new (cp_key_id p) (cc_tls_timeout cc)),
                cc_superseded := cc_superseded cc @
                  (case cc_pending cc of Some previous \<Rightarrow> [ks_key_id previous] | None \<Rightarrow> [])\<rparr>
           else cc
      else cc)"

definition deliver :: "control_packet \<Rightarrow> key_state \<Rightarrow> key_state" where
  "deliver p s =
     (let s = (case cp_acks p of
                 Some a \<Rightarrow> s\<lparr>ks_send := sw_acknowledge (ack_ids a) (ks_send s)\<rparr> | None \<Rightarrow> s)
      in case cp_packet_id p of
           Some i \<Rightarrow> s\<lparr>ks_recv := snd (rv_accept i (cp_opcode p) (cp_payload p) (ks_recv s))\<rparr>
         | None \<Rightarrow> s)"

definition channel_handle :: "mac \<Rightarrow> bytes \<Rightarrow> control_channel \<Rightarrow> (error + unit) \<times> control_channel" where
  "channel_handle mac datagram cc =
     (case tls_unwrap mac (cc_auth cc) datagram of
        Inl e \<Rightarrow> (Inl e, cc)
      | Inr (packet, header) \<Rightarrow>
          let (fresh, replay) = rw_accept (ah_packet_id header) (ah_net_time header) (cc_replay cc);
              cc = cc\<lparr>cc_replay := replay\<rparr>
          in if \<not> fresh then (Inl Replayed, cc)
             else case check_sender packet cc of
               Inl e \<Rightarrow> (Inl e, cc)
             | Inr _ \<Rightarrow>
                 let cc = soft_reset packet cc;
                     cc = cc\<lparr>cc_remote_session := (case cc_remote_session cc of
                                Some s \<Rightarrow> Some s | None \<Rightarrow> Some (cp_session_id packet))\<rparr>
                 in case state_of (cp_key_id packet) cc of
                      None \<Rightarrow> (Inl (OtherKeyId (cp_key_id packet) (ks_key_id (cc_primary cc))), cc)
                    | Some state \<Rightarrow> (Inr (), state_put (cp_key_id packet) (deliver packet state) cc))"

lemma rv_next_in_order_shrinks:
  "rv_next_in_order w = (Some m, w') \<Longrightarrow> length (rv_buffered w') < length (rv_buffered w)"
proof -
  assume r: "rv_next_in_order w = (Some m, w')"
  note e = rv_next_in_order_effect [OF r]
  from e(1) have "(rv_next_expected w, m) \<in> set (rv_buffered w)"
    by (simp add: bt_get_def map_of_SomeD)
  then show ?thesis
    unfolding e(3) bt_remove_def by (intro length_filter_less) auto
qed

text \<open>The inner loop of \<open>poll_control\<close>: resets are stepped over.\<close>

function next_record :: "recv_window \<Rightarrow> bytes option \<times> recv_window" where
  "next_record w =
     (case rv_next_in_order w of
        (None, w') \<Rightarrow> (None, w')
      | (Some (op, payload), w') \<Rightarrow> if op = ControlV1 then (Some payload, w') else next_record w')"
  by pat_completeness auto
termination
  by (relation "measure (\<lambda>w. length (rv_buffered w))") (auto dest: rv_next_in_order_shrinks [OF sym])

declare next_record.simps [simp del]

fun poll_records :: "key_id list \<Rightarrow> control_channel \<Rightarrow> (key_id \<times> bytes) option \<times> control_channel" where
  "poll_records [] cc = (None, cc)"
| "poll_records (k # ks) cc =
     (case state_of k cc of
        None \<Rightarrow> (None, cc)
      | Some state \<Rightarrow>
          let (rec, recv) = next_record (ks_recv state);
              cc = state_put k (state\<lparr>ks_recv := recv\<rparr>) cc
          in case rec of Some payload \<Rightarrow> (Some (k, payload), cc) | None \<Rightarrow> poll_records ks cc)"

definition poll_control :: "control_channel \<Rightarrow> (key_id \<times> bytes) option \<times> control_channel" where
  "poll_control cc = poll_records (key_ids cc) cc"

section \<open>Invariants\<close>

definition sends_ok :: "send_window \<Rightarrow> bool" where
  "sends_ok w \<longleftrightarrow> (\<forall>(i, e) \<in> set (sw_in_flight w). carries_packet_id (if_opcode e))"

definition state_ok :: "key_state \<Rightarrow> bool" where
  "state_ok s \<longleftrightarrow> key_id_ok (ks_key_id s) \<and> sends_ok (ks_send s)"

definition sid_ok :: "session_id \<Rightarrow> bool" where
  "sid_ok s \<longleftrightarrow> length (sid_bytes s) = SID_LEN"

text \<open>
  Two generations never share a key id, the one being negotiated is none that was given up,
  nothing is owed to a peer that is not known, and all that is queued can be encoded.
\<close>

definition channel_ok :: "control_channel \<Rightarrow> bool" where
  "channel_ok cc \<longleftrightarrow>
     (\<forall>p. cc_pending cc = Some p \<longrightarrow>
        ks_key_id p \<noteq> ks_key_id (cc_primary cc) \<and> ks_key_id p \<notin> set (cc_superseded cc)) \<and>
     (\<forall>s \<in> set (states cc). state_ok s) \<and>
     (cc_remote_session cc = None \<longrightarrow>
        cc_pending cc = None \<and> \<not> rv_owes_acks (ks_recv (cc_primary cc))) \<and>
     sid_ok (cc_local_session cc) \<and> (\<forall>s. cc_remote_session cc = Some s \<longrightarrow> sid_ok s)"

lemma sends_ok_new: "sends_ok (sw_new t)"
  by (simp add: sends_ok_def sw_new_def)

lemma bt_insert_set: "set (bt_insert k v m) \<subseteq> insert (k, v) (set m)"
  by (induction k v m rule: bt_insert.induct) auto

lemma sends_ok_queue:
  "sends_ok w \<Longrightarrow> carries_packet_id op \<Longrightarrow> sends_ok (snd (sw_queue op payload w))"
  using bt_insert_set by (fastforce simp: sends_ok_def sw_queue_def Let_def)

lemma sends_ok_next_due: "sends_ok w \<Longrightarrow> sends_ok (snd (sw_next_due now w))"
  by (auto simp: sends_ok_def sw_next_due_def bt_map_def sent_again_def split: option.splits)

lemma sends_ok_acknowledge: "sends_ok w \<Longrightarrow> sends_ok (sw_acknowledge ids w)"
  unfolding sw_acknowledge_def
proof (induction ids arbitrary: w)
  case (Cons i ids)
  from Cons.prems have "sends_ok (sw_acknowledge_one i w)"
    by (auto simp: sends_ok_def sw_acknowledge_one_def bt_map_def bt_remove_def split: option.splits)
  with Cons.IH show ?case by simp
qed simp

lemma next_due_out:
  "sends_ok w \<Longrightarrow> fst (sw_next_due now w) = Some out \<Longrightarrow> carries_packet_id (out_opcode out)"
  by (auto simp: sends_ok_def sw_next_due_def find_Some_iff split: option.splits) (metis case_prodD nth_mem)

lemma key_id_first_ok: "key_id_ok key_id_first"
  by (simp add: key_id_ok_def key_id_first_def)

lemma channel_ok_new: "sid_ok local \<Longrightarrow> channel_ok (channel_new auth local t)"
  by (simp add: channel_ok_def channel_new_def states_def state_ok_def key_state_new_def sends_ok_new
      key_id_first_ok rv_owes_acks_def rv_new_def)

lemma state_of_in: "state_of k cc = Some s \<Longrightarrow> s \<in> set (states cc) \<and> ks_key_id s = k"
  by (auto simp: state_of_def states_def split: if_splits option.splits)

lemma state_put_same: "state_of k cc = Some s \<Longrightarrow> state_put k s cc = cc"
  by (cases cc) (auto simp: state_of_def state_put_def split: if_splits option.splits)

lemma state_put_fields [simp]:
  "cc_auth (state_put k s cc) = cc_auth cc" "cc_local_session (state_put k s cc) = cc_local_session cc"
  "cc_remote_session (state_put k s cc) = cc_remote_session cc"
  "cc_next_replay_id (state_put k s cc) = cc_next_replay_id cc"
  "cc_superseded (state_put k s cc) = cc_superseded cc"
  "cc_replay (state_put k s cc) = cc_replay cc"
  "cc_tls_timeout (state_put k s cc) = cc_tls_timeout cc"
  by (auto simp: state_put_def split: option.splits)

lemma state_put_keys:
  assumes "state_of k cc = Some s" "ks_key_id t = k"
  shows "pending_key_id (state_put k t cc) = pending_key_id cc"
    and "channel_key_id (state_put k t cc) = channel_key_id cc"
  using assms by (auto simp: state_of_def state_put_def pending_key_id_def channel_key_id_def
      split: if_splits option.splits)

lemma channel_ok_put:
  assumes ok: "channel_ok cc" and s: "state_of k cc = Some s"
    and t: "ks_key_id t = k" "state_ok t"
    and owed: "cc_remote_session cc = None \<Longrightarrow> rv_owes_acks (ks_recv t) \<Longrightarrow> rv_owes_acks (ks_recv s)"
  shows "channel_ok (state_put k t cc)"
  using assms unfolding channel_ok_def
  by (auto simp: state_of_def state_put_def states_def split: if_splits option.splits)

section \<open>Every operation keeps the invariant\<close>

lemma carries_queue_opcodes: "carries_packet_id ControlV1" "carries_packet_id ControlHardResetClientV2"
  by (simp_all add: carries_packet_id_def)

lemma channel_ok_open: "channel_ok cc \<Longrightarrow> channel_ok (channel_open cc)"
  by (auto simp: channel_ok_def channel_open_def states_def state_ok_def sends_ok_queue carries_queue_opcodes)

lemma channel_ok_send_control: "channel_ok cc \<Longrightarrow> channel_ok (snd (send_control k payload cc))"
proof (cases "state_of k cc")
  case (Some s)
  assume ok: "channel_ok cc"
  then have "state_ok s" "ks_key_id s = k"
    using state_of_in [OF Some] by (auto simp: channel_ok_def)
  then have "channel_ok (state_put k (s\<lparr>ks_send := snd (sw_queue ControlV1 payload (ks_send s))\<rparr>) cc)"
    by (intro channel_ok_put [OF ok Some]) (auto simp: state_ok_def sends_ok_queue carries_queue_opcodes)
  with Some show ?thesis by (simp add: send_control_def split_beta)
qed (simp add: send_control_def)

lemma channel_ok_promote: "channel_ok cc \<Longrightarrow> channel_ok (promote cc)"
  by (auto simp: channel_ok_def promote_def states_def split: option.splits)

lemma next_record_pending: "rv_pending_acks (snd (next_record w)) = rv_pending_acks w"
proof (induction w rule: next_record.induct)
  case (1 w)
  obtain r w' where r: "rv_next_in_order w = (r, w')" by fastforce
  have p: "rv_pending_acks w' = rv_pending_acks w"
    using r by (auto simp: rv_next_in_order_def split: option.splits)
  show ?case
  proof (cases r)
    case None
    with r p show ?thesis by (subst next_record.simps) simp
  next
    case (Some m)
    obtain op pl where m: "m = (op, pl)" by (cases m)
    with 1 [OF r [symmetric]] r p Some show ?thesis by (subst next_record.simps) auto
  qed
qed

lemma channel_ok_poll_records: "channel_ok cc \<Longrightarrow> channel_ok (snd (poll_records ks cc))"
proof (induction ks arbitrary: cc)
  case (Cons k ks)
  show ?case
  proof (cases "state_of k cc")
    case (Some s)
    let ?cc = "state_put k (s\<lparr>ks_recv := snd (next_record (ks_recv s))\<rparr>) cc"
    have s: "state_ok s" "ks_key_id s = k"
      using state_of_in [OF Some] Cons.prems by (auto simp: channel_ok_def)
    then have "channel_ok ?cc"
      by (intro channel_ok_put [OF Cons.prems Some])
        (auto simp: state_ok_def rv_owes_acks_def next_record_pending)
    with Cons.IH Some show ?thesis by (auto simp: split_beta Let_def split: option.splits)
  qed (use Cons.prems in simp)
qed simp

lemma channel_ok_poll_control: "channel_ok cc \<Longrightarrow> channel_ok (snd (poll_control cc))"
  by (simp add: poll_control_def channel_ok_poll_records)

lemma next_packet_keeps:
  assumes "channel_ok cc"
  shows "channel_ok (snd (next_packet k now cc))"
    and "cc_auth (snd (next_packet k now cc)) = cc_auth cc"
proof -
  show "cc_auth (snd (next_packet k now cc)) = cc_auth cc"
    by (auto simp: next_packet_def Let_def split_beta split: option.splits)
  show "channel_ok (snd (next_packet k now cc))"
  proof (cases "state_of k cc")
    case (Some s)
    have s: "state_ok s" "ks_key_id s = k"
      using state_of_in [OF Some] assms by (auto simp: channel_ok_def)
    let ?send = "snd (sw_next_due now (ks_send s))"
    let ?recv = "case cc_remote_session cc of None \<Rightarrow> ks_recv s
        | Some sid \<Rightarrow> snd (rv_take_acks ACKS_MAX (ks_recv s))"
    have 1: "channel_ok (state_put k (s\<lparr>ks_send := ?send\<rparr>) cc)"
      using s by (intro channel_ok_put [OF assms Some]) (auto simp: state_ok_def sends_ok_next_due)
    have 2: "channel_ok (state_put k (s\<lparr>ks_send := ?send, ks_recv := ?recv\<rparr>) cc)"
      using s by (intro channel_ok_put [OF assms Some]) (auto simp: state_ok_def sends_ok_next_due)
    have "snd (next_packet k now cc) = state_put k (s\<lparr>ks_send := ?send\<rparr>) cc \<or>
          snd (next_packet k now cc) = state_put k (s\<lparr>ks_send := ?send, ks_recv := ?recv\<rparr>) cc"
      using Some by (auto simp: next_packet_def Let_def split_beta split: option.splits)
    with 1 2 show ?thesis by metis
  qed (use assms in \<open>simp add: next_packet_def\<close>)
qed

lemma channel_ok_replay_id: "channel_ok cc \<Longrightarrow> channel_ok (cc\<lparr>cc_next_replay_id := n\<rparr>)"
  by (simp add: channel_ok_def states_def)

lemma channel_ok_poll_keys: "channel_ok cc \<Longrightarrow> channel_ok (snd (poll_keys mac ks now nt cc))"
proof (induction ks arbitrary: cc)
  case (Cons k ks)
  obtain r cc' where r: "next_packet k now cc = (r, cc')" by fastforce
  then have "channel_ok cc'" using next_packet_keeps(1) [OF Cons.prems, of k now] by simp
  with Cons.IH r channel_ok_replay_id show ?case by (cases r) simp_all
qed simp

lemma channel_ok_poll_transmit: "channel_ok cc \<Longrightarrow> channel_ok (snd (poll_transmit mac now nt cc))"
  by (simp add: poll_transmit_def channel_ok_poll_keys)

lemma channel_ok_soft_reset:
  assumes "channel_ok cc" "packet_ok p"
  shows "channel_ok ((soft_reset p cc)\<lparr>cc_remote_session :=
           (case cc_remote_session cc of Some s \<Rightarrow> Some s | None \<Rightarrow> Some (cp_session_id p))\<rparr>)"
proof -
  have p: "key_id_ok (cp_key_id p)" "sid_ok (cp_session_id p)"
    using assms(2) by (auto simp: packet_ok_def sid_ok_def)
  then have new: "state_ok (key_state_new (cp_key_id p) t)" for t
    by (simp add: state_ok_def key_state_new_def sends_ok_new)
  have key: "ks_key_id (key_state_new (cp_key_id p) t) = cp_key_id p" for t
    by (simp add: key_state_new_def)
  show ?thesis
    using assms(1) p new key
    by (cases "cc_remote_session cc"; cases "cc_pending cc")
      (auto simp: channel_ok_def soft_reset_def states_def Let_def)
qed

lemma deliver_ok: "state_ok s \<Longrightarrow> state_ok (deliver p s) \<and> ks_key_id (deliver p s) = ks_key_id s"
  by (auto simp: deliver_def state_ok_def sends_ok_acknowledge Let_def split: option.splits)

lemma channel_ok_replay: "channel_ok cc \<Longrightarrow> channel_ok (cc\<lparr>cc_replay := r\<rparr>)"
  by (simp add: channel_ok_def states_def)

text \<open>What a call of \<open>handle\<close> can be.\<close>

definition admitted :: "control_packet \<Rightarrow> control_channel \<Rightarrow> control_channel" where
  "admitted p cc = (soft_reset p cc)\<lparr>cc_remote_session :=
     (case cc_remote_session cc of Some s \<Rightarrow> Some s | None \<Rightarrow> Some (cp_session_id p))\<rparr>"

lemma channel_handle_eq:
  "channel_handle mac d cc =
     (case tls_unwrap mac (cc_auth cc) d of
        Inl e \<Rightarrow> (Inl e, cc)
      | Inr (p, h) \<Rightarrow>
          let fresh = rw_accept (ah_packet_id h) (ah_net_time h) (cc_replay cc);
              cc1 = cc\<lparr>cc_replay := snd fresh\<rparr>
          in if \<not> fst fresh then (Inl Replayed, cc1)
             else case check_sender p cc of
               Inl e \<Rightarrow> (Inl e, cc1)
             | Inr _ \<Rightarrow>
                 case state_of (cp_key_id p) (admitted p cc1) of
                   None \<Rightarrow> (Inl (OtherKeyId (cp_key_id p) (ks_key_id (cc_primary cc))), admitted p cc1)
                 | Some s \<Rightarrow> (Inr (), state_put (cp_key_id p) (deliver p s) (admitted p cc1)))"
proof -
  have s: "check_sender p (cc\<lparr>cc_replay := r\<rparr>) = check_sender p cc" for p r
    by (simp add: check_sender_def cong: option.case_cong)
  have a: "(soft_reset p c)\<lparr>cc_remote_session := (case cc_remote_session (soft_reset p c) of
      Some s \<Rightarrow> Some s | None \<Rightarrow> Some (cp_session_id p))\<rparr> = admitted p c" for p c
    by (simp add: admitted_def soft_reset_def Let_def)
  have k: "ks_key_id (cc_primary (admitted p (cc\<lparr>cc_replay := r\<rparr>))) = ks_key_id (cc_primary cc)" for p r
    by (simp add: admitted_def soft_reset_def Let_def)
  show ?thesis
  proof (cases "tls_unwrap mac (cc_auth cc) d")
    case (Inr ph)
    obtain p h where ph: "ph = (p, h)" by (cases ph)
    obtain fresh r where r: "rw_accept (ah_packet_id h) (ah_net_time h) (cc_replay cc) = (fresh, r)"
      by fastforce
    show ?thesis
      unfolding channel_handle_def Inr ph sum.case prod.case Let_def r fst_conv snd_conv s a k by (rule refl)
  qed (simp add: channel_handle_def)
qed

lemma admitted_no_state:
  "state_of (cp_key_id p) (admitted p cc) = None \<Longrightarrow> soft_reset p cc = cc"
  by (auto simp: admitted_def soft_reset_def state_of_def Let_def key_state_new_def split: if_splits option.splits)

lemma handle_ok:
  assumes "channel_ok cc"
  shows "channel_ok (snd (channel_handle mac d cc))"
proof (cases "tls_unwrap mac (cc_auth cc) d")
  case (Inl e)
  with assms show ?thesis by (simp add: channel_handle_eq)
next
  case (Inr ph)
  obtain p h where ph: "ph = (p, h)" by (cases ph)
  let ?cc = "cc\<lparr>cc_replay := snd (rw_accept (ah_packet_id h) (ah_net_time h) (cc_replay cc))\<rparr>"
  have 1: "channel_ok ?cc" by (rule channel_ok_replay [OF assms])
  have "packet_ok p" using tls_unwrap_only Inr ph by blast
  then have 2: "channel_ok (admitted p ?cc)"
    unfolding admitted_def by (rule channel_ok_soft_reset [OF 1])
  have 3: "channel_ok (state_put (cp_key_id p) (deliver p s) (admitted p ?cc))"
    if s: "state_of (cp_key_id p) (admitted p ?cc) = Some s" for s
  proof (rule channel_ok_put [OF 2 s])
    have "state_ok s" "ks_key_id s = cp_key_id p"
      using state_of_in [OF s] 2 by (auto simp: channel_ok_def)
    then show "ks_key_id (deliver p s) = cp_key_id p" "state_ok (deliver p s)"
      using deliver_ok by auto
    show "rv_owes_acks (ks_recv s)" if "cc_remote_session (admitted p ?cc) = None"
      using that by (simp add: admitted_def split: option.splits)
  qed
  show ?thesis
    unfolding channel_handle_eq Inr ph
    using 1 2 3 by (auto simp: Let_def split: sum.split option.split)
qed

lemma handle_rejected:
  assumes "channel_handle mac d cc = (Inl e, cc')"
  shows "cc' = cc\<lparr>cc_replay := cc_replay cc'\<rparr> \<or>
     cc_remote_session cc = None \<and> (\<exists>k k'. e = OtherKeyId k k') \<and>
     (\<exists>sid. cc' = cc\<lparr>cc_replay := cc_replay cc', cc_remote_session := Some sid\<rparr>)"
proof -
  have same: "cc = cc\<lparr>cc_replay := cc_replay cc\<rparr>" by simp
  consider "cc' = cc" | r where "cc' = cc\<lparr>cc_replay := r\<rparr>"
    | p r k k' where "cc' = admitted p (cc\<lparr>cc_replay := r\<rparr>)" "e = OtherKeyId k k'"
        "state_of (cp_key_id p) (admitted p (cc\<lparr>cc_replay := r\<rparr>)) = None"
    using assms unfolding channel_handle_eq
    by (auto simp: Let_def split: sum.splits if_splits option.splits)
  then show ?thesis
  proof cases
    case 1
    with same show ?thesis by simp
  next
    case 2
    then show ?thesis by simp
  next
    case 3
    then have cc': "cc' = cc\<lparr>cc_replay := r, cc_remote_session :=
        (case cc_remote_session cc of Some s \<Rightarrow> Some s | None \<Rightarrow> Some (cp_session_id p))\<rparr>"
      using admitted_no_state [OF 3(3)] by (simp add: admitted_def)
    show ?thesis
    proof (cases "cc_remote_session cc")
      case None
      with cc' 3(2) show ?thesis by (intro disjI2) auto
    next
      case (Some s)
      then have "cc' = cc\<lparr>cc_replay := r\<rparr>" using cc' by (cases cc) simp
      then show ?thesis by simp
    qed
  qed
qed

lemma handle_accepted:
  assumes "channel_handle mac d cc = (Inr u, cc')"
  obtains p h where "tls_unwrap mac (cc_auth cc) d = Inr (p, h)"
    "fst (rw_accept (ah_packet_id h) (ah_net_time h) (cc_replay cc))"
    "check_sender p cc = Inr ()" "cc_remote_session cc' =
       (case cc_remote_session cc of Some s \<Rightarrow> Some s | None \<Rightarrow> Some (cp_session_id p))"
  using assms unfolding channel_handle_eq
  by (auto simp: Let_def admitted_def split: sum.splits if_splits option.splits)

section \<open>What goes out\<close>

lemma take_acks_nonempty:
  assumes "rv_owes_acks w" "0 < mx"
  shows "fst (rv_take_acks mx w) \<noteq> []"
proof -
  obtain a as where "rv_pending_acks w = a # as"
    using assms(1) by (cases "rv_pending_acks w") (auto simp: rv_owes_acks_def)
  moreover have "fold promote_ack (rev (x # xs)) r \<noteq> []" for x xs r
    by (simp add: promote_ack_def)
  ultimately show ?thesis
    using assms(2) by (cases mx) (simp_all add: rv_take_acks_def Let_def RECENT_ACKS_def del: rev.simps)
qed

lemma take_acks_bound: "length (fst (rv_take_acks mx w)) \<le> mx"
  by (simp add: rv_take_acks_def Let_def)

lemma next_packet_sendable:
  assumes ok: "channel_ok cc" and p: "fst (next_packet k now cc) = Some p"
  shows "packet_ok p \<and> cp_session_id p = cc_local_session cc \<and> cp_key_id p = k \<and>
     (\<forall>a. cp_acks p = Some a \<longrightarrow> cc_remote_session cc = Some (ack_session a)) \<and>
     (cp_opcode p = AckV1 \<longrightarrow> cp_acks p \<noteq> None)"
proof -
  obtain s where s: "state_of k cc = Some s"
    using p by (auto simp: next_packet_def split: option.splits)
  have st: "state_ok s" "ks_key_id s = k" "s \<in> set (states cc)"
    using state_of_in [OF s] ok by (auto simp: channel_ok_def)
  obtain due send where due: "sw_next_due now (ks_send s) = (due, send)" by fastforce
  define acks where "acks = (case cc_remote_session cc of None \<Rightarrow> None
    | Some sid \<Rightarrow> if fst (rv_take_acks ACKS_MAX (ks_recv s)) = [] then None
        else Some (projr (acks_new (fst (rv_take_acks ACKS_MAX (ks_recv s))) sid)))"
  have work: "due \<noteq> None \<or> rv_owes_acks (ks_recv s)"
    using p s due by (cases due) (auto simp: next_packet_def Let_def split: if_splits)
  have shape: "cp_acks p = acks" "cp_session_id p = cc_local_session cc" "cp_key_id p = k"
    "(case due of Some out \<Rightarrow> cp_opcode p = out_opcode out \<and> cp_packet_id p = Some (out_packet_id out)
      | None \<Rightarrow> cp_opcode p = AckV1 \<and> cp_packet_id p = None)"
    using p s due by (auto simp: next_packet_def acks_def Let_def split_beta split: option.splits if_splits)
  have acks: "acks_ok a \<and> cc_remote_session cc = Some (ack_session a)" if "acks = Some a" for a
  proof -
    obtain sid where sid: "cc_remote_session cc = Some sid" "fst (rv_take_acks ACKS_MAX (ks_recv s)) \<noteq> []"
      "a = projr (acks_new (fst (rv_take_acks ACKS_MAX (ks_recv s))) sid)"
      using \<open>acks = Some a\<close> by (auto simp: acks_def split: option.splits if_splits)
    then have "a = \<lparr>ack_ids = fst (rv_take_acks ACKS_MAX (ks_recv s)), ack_session = sid\<rparr>"
      using take_acks_bound [of ACKS_MAX "ks_recv s"] by (simp add: acks_new_def)
    then show ?thesis
      using sid ok take_acks_bound [of ACKS_MAX "ks_recv s"]
      by (simp add: acks_ok_def channel_ok_def sid_ok_def)
  qed
  have carries: "cp_packet_id p \<noteq> None \<longleftrightarrow> carries_packet_id (cp_opcode p)"
  proof (cases due)
    case None
    with shape(4) show ?thesis by (simp add: carries_packet_id_def)
  next
    case (Some out)
    then have "carries_packet_id (out_opcode out)"
      using next_due_out [of "ks_send s" now out] st(1) due by (simp add: state_ok_def)
    with Some shape(4) show ?thesis by simp
  qed
  have "acks \<noteq> None" if "due = None"
  proof -
    have o: "rv_owes_acks (ks_recv s)" using that work by simp
    have "cc_remote_session cc \<noteq> None"
      using ok st(3) o by (auto simp: channel_ok_def states_def split: option.splits)
    with take_acks_nonempty [OF o, of ACKS_MAX] show ?thesis
      by (auto simp: acks_def ACKS_MAX_def)
  qed
  moreover have "cp_opcode p = AckV1 \<Longrightarrow> due = None"
    using shape(4) carries by (cases due) (auto simp: carries_packet_id_def)
  ultimately have ack: "cp_opcode p = AckV1 \<longrightarrow> acks \<noteq> None" by blast
  have "packet_ok p"
    using acks carries shape(1-3) st ok
    by (auto simp: packet_ok_def state_ok_def channel_ok_def sid_ok_def)
  with acks ack shape(1-3) show ?thesis by auto
qed

lemma next_packet_None:
  assumes "fst (next_packet k now cc) = None"
  shows "snd (next_packet k now cc) = cc"
proof (cases "state_of k cc")
  case (Some s)
  then have "fst (sw_next_due now (ks_send s)) = None"
    using assms by (auto simp: next_packet_def Let_def split_beta split: if_splits)
  then have "sw_next_due now (ks_send s) = (None, ks_send s)"
    by (auto simp: sw_next_due_def split: option.splits)
  with Some assms show ?thesis
    by (auto simp: next_packet_def Let_def split_beta state_put_same split: if_splits)
qed (simp add: next_packet_def)

lemma poll_keys_cases:
  "poll_keys mac ks now nt cc =
     (case find (\<lambda>k. fst (next_packet k now cc) \<noteq> None) ks of
        None \<Rightarrow> (None, cc)
      | Some k \<Rightarrow>
          (Some (tls_wrap mac (cc_auth cc) (the (fst (next_packet k now cc))) (cc_next_replay_id cc) nt),
           (snd (next_packet k now cc))\<lparr>cc_next_replay_id := cc_next_replay_id cc + 1\<rparr>))"
proof (induction ks)
  case (Cons k ks)
  have same: "cc_auth (snd (next_packet k now cc)) = cc_auth cc"
    "cc_next_replay_id (snd (next_packet k now cc)) = cc_next_replay_id cc"
    by (auto simp: next_packet_def Let_def split_beta split: option.splits)
  show ?case
  proof (cases "fst (next_packet k now cc)")
    case None
    then have "next_packet k now cc = (None, cc)"
      using next_packet_None [OF None] by (cases "next_packet k now cc") simp
    with Cons show ?thesis by simp
  next
    case (Some p)
    then show ?thesis using same by (cases "next_packet k now cc") simp
  qed
qed simp

text \<open>Whether a generation has something to send at a moment.\<close>

definition has_work :: "instant \<Rightarrow> key_state \<Rightarrow> bool" where
  "has_work t s \<longleftrightarrow> rv_owes_acks (ks_recv s) \<or> fst (sw_next_due t (ks_send s)) \<noteq> None"

lemma next_packet_work:
  "fst (next_packet k now cc) \<noteq> None \<longleftrightarrow> (\<exists>s. state_of k cc = Some s \<and> has_work now s)"
  by (auto simp: next_packet_def has_work_def Let_def split_beta split: option.splits)

lemma poll_transmit_work:
  assumes "channel_ok cc"
  shows "fst (poll_transmit mac now nt cc) \<noteq> None \<longleftrightarrow> (\<exists>s \<in> set (states cc). has_work now s)"
proof -
  have d: "\<forall>p. cc_pending cc = Some p \<longrightarrow> ks_key_id p \<noteq> ks_key_id (cc_primary cc)"
    using assms by (simp add: channel_ok_def)
  have "fst (poll_transmit mac now nt cc) \<noteq> None \<longleftrightarrow>
      (\<exists>k \<in> set (key_ids cc). fst (next_packet k now cc) \<noteq> None)"
    by (auto simp: poll_transmit_def poll_keys_cases find_None_iff find_Some_iff split: option.splits
        dest: nth_mem)
  also have "\<dots> \<longleftrightarrow> (\<exists>s \<in> set (states cc). has_work now s)"
    using d unfolding next_packet_work key_ids_def states_def
    by (cases "cc_pending cc") (auto simp: state_of_def)
  finally show ?thesis .
qed

section \<open>Histories of a channel\<close>

text \<open>Every call a session can make, in any order, with whatever datagrams the network brings.\<close>

inductive channel_step :: "mac \<Rightarrow> control_channel \<Rightarrow> control_channel \<Rightarrow> bool" for mac where
  StepOpen: "channel_step mac cc (channel_open cc)"
| StepSend: "channel_step mac cc (snd (send_control k payload cc))"
| StepHandle: "channel_step mac cc (snd (channel_handle mac d cc))"
| StepTransmit: "channel_step mac cc (snd (poll_transmit mac now nt cc))"
| StepControl: "channel_step mac cc (snd (poll_control cc))"
| StepPromote: "channel_step mac cc (promote cc)"

inductive_cases channel_stepE: "channel_step mac cc cc'"

inductive channel_reachable :: "mac \<Rightarrow> tls_auth \<Rightarrow> session_id \<Rightarrow> duration \<Rightarrow> control_channel \<Rightarrow> bool"
  for mac auth local t where
  ReachNew: "channel_reachable mac auth local t (channel_new auth local t)"
| ReachStep: "channel_reachable mac auth local t cc \<Longrightarrow> channel_step mac cc cc' \<Longrightarrow>
    channel_reachable mac auth local t cc'"

lemma channel_step_ok: "channel_step mac cc cc' \<Longrightarrow> channel_ok cc \<Longrightarrow> channel_ok cc'"
  by (erule channel_stepE)
    (simp_all add: channel_ok_open channel_ok_send_control handle_ok channel_ok_poll_transmit
      channel_ok_poll_control channel_ok_promote)

lemma channel_reachable_ok:
  "channel_reachable mac auth local t cc \<Longrightarrow> sid_ok local \<Longrightarrow> channel_ok cc"
  by (induction rule: channel_reachable.induct) (auto intro: channel_ok_new channel_step_ok)

text \<open>The datagrams of a whole flight, one after the other.\<close>

definition handles :: "mac \<Rightarrow> bytes list \<Rightarrow> control_channel \<Rightarrow> control_channel" where
  "handles mac ds cc = fold (\<lambda>d cc. snd (channel_handle mac d cc)) ds cc"

lemma handles_ok: "channel_ok cc \<Longrightarrow> channel_ok (handles mac ds cc)"
  unfolding handles_def by (induction ds arbitrary: cc) (simp_all add: handle_ok)

text \<open>What handling a datagram may do to the generations.\<close>

definition generations_grow :: "control_channel \<Rightarrow> control_channel \<Rightarrow> bool" where
  "generations_grow cc cc' \<longleftrightarrow> channel_key_id cc' = channel_key_id cc \<and>
     set (cc_superseded cc) \<subseteq> set (cc_superseded cc') \<and>
     (\<forall>k. pending_key_id cc = Some k \<and> pending_key_id cc' \<noteq> Some k \<longrightarrow> k \<in> set (cc_superseded cc'))"

lemma admitted_generations:
  "generations_grow cc (admitted p cc)"
  by (auto simp: generations_grow_def admitted_def soft_reset_def channel_key_id_def pending_key_id_def Let_def
      split: option.splits)

lemma handle_generations:
  "generations_grow cc (snd (channel_handle mac d cc))"
proof (cases "tls_unwrap mac (cc_auth cc) d")
  case (Inr ph)
  obtain p h where ph: "ph = (p, h)" by (cases ph)
  let ?cc = "cc\<lparr>cc_replay := snd (rw_accept (ah_packet_id h) (ah_net_time h) (cc_replay cc))\<rparr>"
  have 1: "generations_grow cc ?cc"
    by (auto simp: generations_grow_def channel_key_id_def pending_key_id_def)
  have 2: "generations_grow cc (admitted p ?cc)"
    using admitted_generations [of ?cc p]
    by (simp add: generations_grow_def channel_key_id_def pending_key_id_def)
  have 3: "generations_grow cc (state_put (cp_key_id p) (deliver p s) (admitted p ?cc))"
    if s: "state_of (cp_key_id p) (admitted p ?cc) = Some s" for s
  proof -
    have k: "ks_key_id (deliver p s) = cp_key_id p"
      using state_of_in [OF s] by (simp add: deliver_def Let_def split: option.splits)
    from 2 show ?thesis
      unfolding generations_grow_def by (simp add: state_put_keys [OF s k])
  qed
  show ?thesis
    unfolding channel_handle_eq Inr ph using 1 2 3
    by (auto simp: Let_def split: sum.split option.split)
qed (simp add: channel_handle_eq generations_grow_def)

lemma generations_grow_trans:
  "generations_grow a b \<Longrightarrow> generations_grow b c \<Longrightarrow> generations_grow a c"
  unfolding generations_grow_def by (metis subset_iff)

lemma handles_generations: "generations_grow cc (handles mac ds cc)"
proof (induction ds arbitrary: cc)
  case Nil
  show ?case by (simp add: handles_def generations_grow_def)
next
  case (Cons d ds)
  from generations_grow_trans [OF handle_generations Cons.IH] show ?case
    by (simp add: handles_def)
qed

section \<open>Properties\<close>

text \<open>
  C4. Only the peer is heard. If handling a datagram succeeds, its bytes are exactly those the
  holder of the peer's \<open>tls-auth\<close> key sends for a well-formed packet, with a replay id not seen
  before; its session id is the one the session settled on; any acknowledgements in it are for
  our session; and if nothing was settled yet on a channel that had opened, it is the server's
  reset, numbered zero, that acknowledges our opening message.
\<close>

theorem channel_hears_only_the_peer:
  assumes "channel_handle mac d cc = (Inr u, cc')"
  shows "\<exists>p i t. packet_ok p \<and> d = tls_wrap mac (tls_peer (cc_auth cc)) p i t \<and>
     fst (rw_accept i t (cc_replay cc)) \<and>
     cc_remote_session cc' = Some (cp_session_id p) \<and>
     (\<forall>s. cc_remote_session cc = Some s \<longrightarrow> s = cp_session_id p) \<and>
     (\<forall>a. cp_acks p = Some a \<longrightarrow> ack_session a = cc_local_session cc) \<and>
     (cc_remote_session cc = None \<and> ks_opened (cc_primary cc) \<longrightarrow> answers_our_open p)"
proof -
  obtain p h where h: "tls_unwrap mac (cc_auth cc) d = Inr (p, h)"
    "fst (rw_accept (ah_packet_id h) (ah_net_time h) (cc_replay cc))" "check_sender p cc = Inr ()"
    "cc_remote_session cc' =
       (case cc_remote_session cc of Some s \<Rightarrow> Some s | None \<Rightarrow> Some (cp_session_id p))"
    by (rule handle_accepted [OF assms])
  have w: "packet_ok p" "d = tls_wrap mac (tls_peer (cc_auth cc)) p (ah_packet_id h) (ah_net_time h)"
    using tls_unwrap_only [OF h(1)] by auto
  have c: "\<forall>s. cc_remote_session cc = Some s \<longrightarrow> s = cp_session_id p"
    "\<forall>a. cp_acks p = Some a \<longrightarrow> ack_session a = cc_local_session cc"
    "cc_remote_session cc = None \<and> ks_opened (cc_primary cc) \<longrightarrow> answers_our_open p"
    using h(3) by (auto simp: check_sender_def bindE_eq_Inr split: option.splits if_splits)
  have "cc_remote_session cc' = Some (cp_session_id p)"
    using h(4) c(1) by (auto split: option.splits)
  with w h(2) c show ?thesis by blast
qed

definition sample_sid :: "u8 \<Rightarrow> session_id" where
  "sample_sid b = SessionId (replicate 8 b)"

lemma sample_sid_ok: "sid_ok (sample_sid b)"
  by (simp add: sid_ok_def sample_sid_def SID_LEN_def)

definition sample_auth :: tls_auth where
  "sample_auth = tls_auth_new sample_static_key Inverse"

text \<open>The server's reset answering a session of ours, under a key id.\<close>

definition server_reset :: "key_id \<Rightarrow> session_id \<Rightarrow> session_id \<Rightarrow> control_packet" where
  "server_reset k sid local =
     \<lparr>cp_opcode = ControlHardResetServerV2, cp_key_id = k, cp_session_id = sid,
      cp_acks = Some \<lparr>ack_ids = [0], ack_session = local\<rparr>, cp_packet_id = Some 0, cp_payload = []\<rparr>"

lemma server_reset_ok: "key_id_ok k \<Longrightarrow> sid_ok sid \<Longrightarrow> sid_ok local \<Longrightarrow> packet_ok (server_reset k sid local)"
  by (simp add: packet_ok_def server_reset_def acks_ok_def sid_ok_def ACKS_MAX_def carries_packet_id_def)

lemma open_handles_reset:
  assumes "mac_len mac" "key_id_ok k" "sid_ok sid" "sid_ok local"
  shows "channel_handle mac (tls_wrap mac (tls_peer auth) (server_reset k sid local) 1 nt)
           (channel_open (channel_new auth local t)) =
     (let cc = (channel_open (channel_new auth local t))
            \<lparr>cc_replay := snd (rw_accept 1 nt rw_new), cc_remote_session := Some sid\<rparr>
      in case state_of k cc of
           None \<Rightarrow> (Inl (OtherKeyId k key_id_first), cc)
         | Some s \<Rightarrow> (Inr (), state_put k (deliver (server_reset k sid local) s) cc))"
proof -
  let ?p = "server_reset k sid local" and ?cc = "channel_open (channel_new auth local t)"
  have fields: "cc_auth ?cc = auth" "cc_replay ?cc = rw_new" "cc_remote_session ?cc = None"
    "cc_local_session ?cc = local" "ks_key_id (cc_primary ?cc) = key_id_first" "cp_key_id ?p = k"
    by (simp_all add: channel_open_def channel_new_def key_state_new_def server_reset_def)
  have u: "tls_unwrap mac auth (tls_wrap mac (tls_peer auth) ?p 1 nt) =
      Inr (?p, \<lparr>ah_packet_id = 1, ah_net_time = nt\<rparr>)"
    by (rule tls_unwrap_wrap [OF assms(1) server_reset_ok [OF assms(2-4)]]) (simp add: tls_peer_def)
  have f: "fst (rw_accept 1 nt rw_new)"
    by (auto simp: rw_accept_def rw_new_def Let_def)
  have c: "check_sender ?p ?cc = Inr ()"
    by (simp add: check_sender_def channel_open_def channel_new_def key_state_new_def answers_our_open_def
        server_reset_def OPENING_MESSAGE_ID_def)
  have a: "admitted ?p (?cc\<lparr>cc_replay := r\<rparr>) = ?cc\<lparr>cc_replay := r, cc_remote_session := Some sid\<rparr>" for r
    using fields by (simp add: admitted_def soft_reset_def server_reset_def)
  show ?thesis
    unfolding channel_handle_eq fields u using f c a by (simp add: Let_def fields cong: option.case_cong)
qed

theorem channel_hears_only_the_peer_witness:
  "\<exists>p i t. packet_ok p \<and>
     tls_wrap sample_mac (tls_peer sample_auth) (server_reset (KeyId 0) (sample_sid 9) (sample_sid 1)) 1 7 =
       tls_wrap sample_mac (tls_peer sample_auth) p i t \<and> answers_our_open p"
proof -
  let ?cc = "channel_open (channel_new sample_auth (sample_sid 1) 2)"
  let ?d = "tls_wrap sample_mac (tls_peer sample_auth) (server_reset (KeyId 0) (sample_sid 9) (sample_sid 1)) 1 7"
  have k: "key_id_ok (KeyId 0)" by (simp add: key_id_ok_def)
  have "fst (channel_handle sample_mac ?d ?cc) = Inr ()"
    unfolding open_handles_reset [OF sample_mac_len k sample_sid_ok sample_sid_ok]
    by (simp add: state_of_def channel_open_def channel_new_def key_state_new_def key_id_first_def Let_def)
  then obtain cc' where h: "channel_handle sample_mac ?d ?cc = (Inr (), cc')"
    by (metis prod.collapse)
  have "cc_remote_session ?cc = None \<and> ks_opened (cc_primary ?cc)" "cc_auth ?cc = sample_auth"
    by (simp_all add: channel_open_def channel_new_def)
  with channel_hears_only_the_peer [OF h] show ?thesis by auto
qed

text \<open>
  A refused datagram leaves the channel as it was but for the replay window, which may have
  recorded its id, with one exception: a packet refused as \<open>OtherKeyId\<close> on a channel that knew no
  peer has by then settled the peer's session id.
\<close>

theorem channel_refusal_changes_nothing_else:
  "case channel_handle mac d cc of
     (Inr _, _) \<Rightarrow> True
   | (Inl e, cc') \<Rightarrow>
       cc' = cc\<lparr>cc_replay := cc_replay cc'\<rparr> \<or>
       cc_remote_session cc = None \<and> (\<exists>k k'. e = OtherKeyId k k') \<and>
       (\<exists>sid. cc' = cc\<lparr>cc_replay := cc_replay cc', cc_remote_session := Some sid\<rparr>)"
proof (cases "channel_handle mac d cc")
  case (Pair r cc')
  then show ?thesis
    using handle_rejected [of mac d cc] by (cases r) simp_all
qed

text \<open>
  The exception happens: the server's reset answering our opening, but under a key id other
  than the first, is refused as \<open>OtherKeyId\<close> and yet settles the session, after which the reset
  under the right key id from any other session is refused as \<open>WrongSession\<close>. The comments say
  that everything is checked before anything is changed.
\<close>

theorem refused_reset_settles_session:
  assumes "mac_len mac" and "key_id_ok k" and "k \<noteq> key_id_first"
    and "sid_ok sid" and "sid_ok other" and "sid_ok local" and "other \<noteq> sid"
  shows "let (r, cc) = channel_handle mac (tls_wrap mac (tls_peer auth) (server_reset k sid local) 1 nt)
                         (channel_open (channel_new auth local t)) in
     r = Inl (OtherKeyId k key_id_first) \<and> cc_remote_session cc = Some sid \<and>
     fst (channel_handle mac (tls_wrap mac (tls_peer auth) (server_reset key_id_first other local) 2 nt) cc) =
       Inl WrongSession"
proof -
  define cc where "cc = (channel_open (channel_new auth local t))
    \<lparr>cc_replay := snd (rw_accept 1 nt rw_new), cc_remote_session := Some sid\<rparr>"
  have st: "state_of k cc = None"
    using assms(3) by (auto simp: cc_def state_of_def channel_open_def channel_new_def key_state_new_def)
  have h: "channel_handle mac (tls_wrap mac (tls_peer auth) (server_reset k sid local) 1 nt)
      (channel_open (channel_new auth local t)) = (Inl (OtherKeyId k key_id_first), cc)"
    using open_handles_reset [OF assms(1,2,4,6)] st by (simp add: cc_def Let_def)
  have fields: "cc_auth cc = auth" "cc_replay cc = snd (rw_accept 1 nt rw_new)"
    "cc_remote_session cc = Some sid"
    by (simp_all add: cc_def channel_open_def channel_new_def)
  have u: "tls_unwrap mac auth (tls_wrap mac (tls_peer auth) (server_reset key_id_first other local) 2 nt) =
      Inr (server_reset key_id_first other local, \<lparr>ah_packet_id = 2, ah_net_time = nt\<rparr>)"
    by (rule tls_unwrap_wrap [OF assms(1) server_reset_ok [OF key_id_first_ok assms(5,6)]])
      (simp add: tls_peer_def)
  have f: "fst (rw_accept 2 nt (snd (rw_accept 1 nt rw_new)))"
    by (auto simp: rw_accept_def rw_new_def Let_def word_less_nat_alt word_le_nat_alt)
  have c: "check_sender (server_reset key_id_first other local) cc = Inl WrongSession"
    using assms(7) by (auto simp: check_sender_def fields server_reset_def)
  have "fst (channel_handle mac (tls_wrap mac (tls_peer auth) (server_reset key_id_first other local) 2 nt) cc) =
      Inl WrongSession"
    unfolding channel_handle_eq fields u using f c by (simp add: Let_def)
  with h fields show ?thesis by simp
qed

theorem refused_reset_settles_session_witness:
  "cc_remote_session (snd (channel_handle sample_mac
      (tls_wrap sample_mac (tls_peer sample_auth) (server_reset (KeyId 3) (sample_sid 9) (sample_sid 1)) 1 7)
      (channel_open (channel_new sample_auth (sample_sid 1) 2)))) = Some (sample_sid 9)"
proof -
  have "key_id_ok (KeyId 3)" "KeyId 3 \<noteq> key_id_first" "sample_sid 8 \<noteq> sample_sid 9"
    by (simp_all add: key_id_ok_def KEY_ID_MASK_def key_id_first_def sample_sid_def word_le_nat_alt)
  from refused_reset_settles_session [OF sample_mac_len this(1,2) sample_sid_ok sample_sid_ok sample_sid_ok this(3),
      of sample_auth 1 7 2]
  show ?thesis by (simp add: split_beta)
qed

text \<open>
  A renegotiation is not defeated by its own predecessors: however many datagrams are
  handled, the generation that carries traffic stays, every generation that was being negotiated
  and no longer is has been recorded as given up, and no generation recorded as given up is ever
  the one being negotiated, until the caller promotes.
\<close>

theorem superseded_generation_stays_dead:
  assumes "channel_reachable mac auth local t cc" and "sid_ok local"
  shows "let cc' = handles mac ds cc in
     channel_key_id cc' = channel_key_id cc \<and>
     set (cc_superseded cc) \<subseteq> set (cc_superseded cc') \<and>
     (\<forall>k. pending_key_id cc = Some k \<and> pending_key_id cc' \<noteq> Some k \<longrightarrow> k \<in> set (cc_superseded cc')) \<and>
     (\<forall>k \<in> set (cc_superseded cc). pending_key_id cc' \<noteq> Some k) \<and>
     pending_key_id cc' \<noteq> Some (channel_key_id cc')"
proof -
  have ok: "channel_ok (handles mac ds cc)"
    by (rule handles_ok [OF channel_reachable_ok [OF assms]])
  have g: "generations_grow cc (handles mac ds cc)" by (rule handles_generations)
  have "\<forall>k \<in> set (cc_superseded cc). pending_key_id (handles mac ds cc) \<noteq> Some k"
    using ok g by (auto simp: channel_ok_def generations_grow_def pending_key_id_def)
  moreover have "pending_key_id (handles mac ds cc) \<noteq> Some (channel_key_id (handles mac ds cc))"
    using ok by (auto simp: channel_ok_def pending_key_id_def channel_key_id_def)
  ultimately show ?thesis
    using g unfolding generations_grow_def Let_def by blast
qed

theorem superseded_generation_stays_dead_witness:
  "pending_key_id (handles sample_mac [[1], [2, 3]] (channel_open (channel_new sample_auth (sample_sid 1) 2))) \<noteq>
   Some (channel_key_id (handles sample_mac [[1], [2, 3]]
     (channel_open (channel_new sample_auth (sample_sid 1) 2))))"
proof -
  have "channel_reachable sample_mac sample_auth (sample_sid 1) 2
      (channel_open (channel_new sample_auth (sample_sid 1) 2))"
    by (rule ReachStep [OF ReachNew StepOpen])
  from superseded_generation_stays_dead [OF this sample_sid_ok, of "[[1], [2, 3]]"] show ?thesis
    unfolding Let_def by blast
qed

text \<open>
  Whatever a channel sends, its peer can read: after any history, a datagram it puts on the
  wire unwraps at the other end to a well-formed packet of this session, of one of its two
  generations, whose acknowledgements are for the peer's session; a bare acknowledgement is never
  empty. The replay counter moves on by one.
\<close>

theorem channel_sends_readable_packets:
  assumes "channel_reachable mac auth local t cc" and "sid_ok local" and "mac_len mac"
    and "poll_transmit mac now nt cc = (Some d, cc')"
  shows "\<exists>p. tls_unwrap mac (tls_peer (cc_auth cc)) d =
        Inr (p, \<lparr>ah_packet_id = cc_next_replay_id cc, ah_net_time = nt\<rparr>) \<and>
     packet_ok p \<and> cp_session_id p = cc_local_session cc \<and> cp_key_id p \<in> set (key_ids cc) \<and>
     (\<forall>a. cp_acks p = Some a \<longrightarrow> cc_remote_session cc = Some (ack_session a)) \<and>
     (cp_opcode p = AckV1 \<longrightarrow> cp_acks p \<noteq> None) \<and>
     cc_next_replay_id cc' = cc_next_replay_id cc + 1"
proof -
  have ok: "channel_ok cc" by (rule channel_reachable_ok [OF assms(1,2)])
  obtain k where k: "find (\<lambda>k. fst (next_packet k now cc) \<noteq> None) (key_ids cc) = Some k"
    and d: "d = tls_wrap mac (cc_auth cc) (the (fst (next_packet k now cc))) (cc_next_replay_id cc) nt"
    and n: "cc_next_replay_id cc' = cc_next_replay_id cc + 1"
    using assms(4) unfolding poll_transmit_def poll_keys_cases by (auto split: option.splits)
  from k have mem: "k \<in> set (key_ids cc)" and w: "fst (next_packet k now cc) \<noteq> None"
    by (auto simp: find_Some_iff)
  then obtain p where p: "fst (next_packet k now cc) = Some p" by blast
  note s = next_packet_sendable [OF ok p]
  then have "packet_ok p" by blast
  then have "tls_unwrap mac (tls_peer (cc_auth cc)) d =
      Inr (p, \<lparr>ah_packet_id = cc_next_replay_id cc, ah_net_time = nt\<rparr>)"
    unfolding d p option.sel by (rule tls_unwrap_wrap [OF assms(3)]) (simp add: tls_peer_def)
  with s mem n show ?thesis by blast
qed

definition opened_channel :: control_channel where
  "opened_channel = channel_open (channel_new sample_auth (sample_sid 1) 2)"

theorem channel_sends_readable_packets_witness:
  "\<exists>d p. fst (poll_transmit sample_mac 5 7 opened_channel) = Some d \<and>
     tls_unwrap sample_mac (tls_peer (cc_auth opened_channel)) d =
       Inr (p, \<lparr>ah_packet_id = cc_next_replay_id opened_channel, ah_net_time = 7\<rparr>) \<and> packet_ok p"
proof -
  have r: "channel_reachable sample_mac sample_auth (sample_sid 1) 2 opened_channel"
    unfolding opened_channel_def by (rule ReachStep [OF ReachNew StepOpen])
  have "fst (poll_transmit sample_mac 5 7 opened_channel) \<noteq> None"
    unfolding poll_transmit_work [OF channel_reachable_ok [OF r sample_sid_ok]]
    by (rule bexI [of _ "cc_primary opened_channel"])
      (simp_all add: states_def opened_channel_def has_work_def channel_open_def channel_new_def
        key_state_new_def sw_queue_def sw_new_def sw_is_full_def sw_next_due_def is_due_def
        SEND_CAPACITY_def bt_keys_def)
  then obtain d cc' where "poll_transmit sample_mac 5 7 opened_channel = (Some d, cc')"
    by (metis option.exhaust prod.collapse)
  from channel_sends_readable_packets [OF r sample_sid_ok sample_mac_len this] this show ?thesis
    by auto
qed

lemma sooner_min:
  "sooner a b = (case a of None \<Rightarrow> b | Some x \<Rightarrow> (case b of None \<Rightarrow> Some x | Some y \<Rightarrow> Some (min x y)))"
  by (cases a; cases b) simp_all

text \<open>The wakeup of a set of generations: exact if it is of each.\<close>

definition wakes :: "instant \<Rightarrow> (instant \<Rightarrow> bool) \<Rightarrow> instant option \<Rightarrow> bool" where
  "wakes now work due \<longleftrightarrow>
     (case due of
        None \<Rightarrow> \<forall>u. \<not> work u
      | Some t \<Rightarrow> now \<le> t \<and> work t \<and> (\<forall>u. now \<le> u \<and> u < t \<longrightarrow> \<not> work u))"

lemma wakes_sooner:
  "wakes now f a \<Longrightarrow> wakes now g b \<Longrightarrow> wakes now (\<lambda>u. f u \<or> g u) (sooner a b)"
  by (auto simp: wakes_def sooner_min min_def split: option.splits)

lemma state_due_wakes: "wakes now (\<lambda>u. has_work u s) (state_due now s)"
proof (cases "rv_owes_acks (ks_recv s)")
  case True
  then show ?thesis by (simp add: wakes_def state_due_def has_work_def)
next
  case False
  then show ?thesis
    using sw_wakeup_spec [where now = now and w = "ks_send s"]
    by (auto simp: wakes_def state_due_def has_work_def split: option.splits)
qed

lemma channel_wakeup_work: "wakes now (\<lambda>u. \<exists>s \<in> set (states cc). has_work u s) (channel_next_wakeup now cc)"
proof (cases "cc_pending cc")
  case None
  with state_due_wakes [of now "cc_primary cc"] show ?thesis
    by (simp add: states_def channel_next_wakeup_def)
next
  case (Some p)
  with wakes_sooner [OF state_due_wakes [of now "cc_primary cc"] state_due_wakes [of now p]] show ?thesis
    by (simp add: states_def channel_next_wakeup_def)
qed

lemma poll_transmit_had_work:
  assumes "poll_transmit mac now nt cc = (Some d, cc')"
  shows "\<exists>s \<in> set (states cc). has_work now s"
proof -
  from assms obtain k where "fst (next_packet k now cc) \<noteq> None"
    by (auto simp: poll_transmit_def poll_keys_cases find_Some_iff split: option.splits)
  then obtain s where "state_of k cc = Some s" "has_work now s"
    unfolding next_packet_work by blast
  then show ?thesis using state_of_in [of k cc s] by blast
qed

text \<open>
  Sleeping until the channel's wakeup is exact: if there is none, there is nothing to send at
  any time, and otherwise it is not in the past, there is a datagram to send then, and there is
  none before: acknowledgements owed, both generations and fast retransmission included.
\<close>

theorem channel_wakeup_exact:
  assumes "channel_reachable mac auth local t0 cc" and "sid_ok local"
  shows "case channel_next_wakeup now cc of
     None \<Rightarrow> \<forall>u. fst (poll_transmit mac u nt cc) = None
   | Some t \<Rightarrow> now \<le> t \<and> fst (poll_transmit mac t nt cc) \<noteq> None \<and>
       (\<forall>u. now \<le> u \<and> u < t \<longrightarrow> fst (poll_transmit mac u nt cc) = None)"
proof -
  have work: "fst (poll_transmit mac u nt cc) \<noteq> None \<longleftrightarrow> (\<exists>s \<in> set (states cc). has_work u s)" for u
    by (rule poll_transmit_work [OF channel_reachable_ok [OF assms]])
  show ?thesis
    using channel_wakeup_work [of now cc] unfolding wakes_def work [symmetric] by (simp split: option.splits)
qed

theorem channel_wakeup_exact_witness:
  "case channel_next_wakeup 3 opened_channel of
     None \<Rightarrow> \<forall>u. fst (poll_transmit sample_mac u 7 opened_channel) = None
   | Some t \<Rightarrow> 3 \<le> t \<and> fst (poll_transmit sample_mac t 7 opened_channel) \<noteq> None \<and>
       (\<forall>u. 3 \<le> u \<and> u < t \<longrightarrow> fst (poll_transmit sample_mac u 7 opened_channel) = None)"
proof -
  have "channel_reachable sample_mac sample_auth (sample_sid 1) 2 opened_channel"
    unfolding opened_channel_def by (rule ReachStep [OF ReachNew StepOpen])
  from channel_wakeup_exact [OF this sample_sid_ok] show ?thesis .
qed

end
