(* ===== verification/Prf.thy ===== *)
theory Prf
  imports Text
begin

text \<open>
  Key derivation, \<open>prf.rs\<close>: the TLS 1.0 PRF over the random material of both ends. The HMACs are
  code of other crates, parameters \<open>md5\<close> and \<open>sha1\<close> (functions of key and message) of which the
  code needs that their tags have one positive length. The loop of \<open>p_hash\<close> ends only because a
  block is never empty; it is a partial function here, and that it returns is proved.
\<close>

section \<open>Key sources\<close>

record key_source2 =
  pre_master :: bytes
  client_random1 :: bytes
  client_random2 :: bytes
  server_random1 :: bytes
  server_random2 :: bytes

definition key_source2_default :: key_source2 where
  "key_source2_default =
     \<lparr>pre_master = replicate 48 0, client_random1 = replicate 32 0, client_random2 = replicate 32 0,
      server_random1 = replicate 32 0, server_random2 = replicate 32 0\<rparr>"

text \<open>\<open>new_client\<close>: the random bytes are an argument.\<close>

definition key_source2_new_client :: "bytes \<Rightarrow> bytes \<Rightarrow> bytes \<Rightarrow> key_source2" where
  "key_source2_new_client pm r1 r2 =
     \<lparr>pre_master = pm, client_random1 = r1, client_random2 = r2,
      server_random1 = replicate 32 0, server_random2 = replicate 32 0\<rparr>"

definition LABEL_PREFIX :: str where
  "LABEL_PREFIX = lit ''OpenVPN ''"

section \<open>The PRF\<close>

type_synonym hmac = "bytes \<Rightarrow> bytes \<Rightarrow> bytes"

partial_function (option) p_hash_loop :: "hmac \<Rightarrow> bytes \<Rightarrow> bytes \<Rightarrow> bytes \<Rightarrow> bytes \<Rightarrow> nat \<Rightarrow> bytes option"
where
  "p_hash_loop mac secret seed a written n =
     (if length written < n then
        p_hash_loop mac secret seed (mac secret a)
          (written @ take (min (length (mac secret (a @ seed))) (n - length written)) (mac secret (a @ seed))) n
      else Some written)"

text \<open>\<open>n\<close> is the length of the output buffer.\<close>

definition p_hash :: "hmac \<Rightarrow> bytes \<Rightarrow> bytes \<Rightarrow> nat \<Rightarrow> bytes option" where
  "p_hash mac secret seed n = p_hash_loop mac secret seed (mac secret seed) [] n"

definition tls1_prf :: "hmac \<Rightarrow> hmac \<Rightarrow> bytes \<Rightarrow> bytes \<Rightarrow> nat \<Rightarrow> bytes option" where
  "tls1_prf md5 sha1 secret seed n =
     (let half = (length secret + 1) div 2;
          s1 = take half secret;
          s2 = drop (length secret - half) secret
      in case p_hash md5 s1 seed n of
           None \<Rightarrow> None
         | Some out \<Rightarrow> map_option (\<lambda>sha1_out. map2 (XOR) out sha1_out) (p_hash sha1 s2 seed n))"

definition key_expansion ::
  "hmac \<Rightarrow> hmac \<Rightarrow> key_source2 \<Rightarrow> bytes \<Rightarrow> bytes \<Rightarrow> bytes option" where
  "key_expansion md5 sha1 source client_session server_session =
     (case tls1_prf md5 sha1 (pre_master source)
             (LABEL_PREFIX @ lit ''master secret'' @ client_random1 source @ server_random1 source) 48 of
        None \<Rightarrow> None
      | Some master \<Rightarrow>
          tls1_prf md5 sha1 master
            (LABEL_PREFIX @ lit ''key expansion'' @ client_random2 source @ server_random2 source @
             client_session @ server_session) 256)"

section \<open>The specification: RFC 2246, section 5\<close>

fun rfc_A :: "hmac \<Rightarrow> bytes \<Rightarrow> bytes \<Rightarrow> nat \<Rightarrow> bytes" where
  "rfc_A mac secret seed 0 = seed"
| "rfc_A mac secret seed (Suc i) = mac secret (rfc_A mac secret seed i)"

definition rfc_blocks :: "hmac \<Rightarrow> bytes \<Rightarrow> bytes \<Rightarrow> nat \<Rightarrow> nat \<Rightarrow> bytes" where
  "rfc_blocks mac secret seed i k =
     concat (map (\<lambda>j. mac secret (rfc_A mac secret seed j @ seed)) [i..<i + k])"

definition rfc_p_hash :: "hmac \<Rightarrow> bytes \<Rightarrow> bytes \<Rightarrow> nat \<Rightarrow> bytes" where
  "rfc_p_hash mac secret seed n = take n (rfc_blocks mac secret seed 1 n)"

definition rfc_prf :: "hmac \<Rightarrow> hmac \<Rightarrow> bytes \<Rightarrow> bytes \<Rightarrow> nat \<Rightarrow> bytes" where
  "rfc_prf md5 sha1 secret seed n =
     (let half = (length secret + 1) div 2
      in map2 (XOR) (rfc_p_hash md5 (take half secret) seed n)
           (rfc_p_hash sha1 (drop (length secret - half) secret) seed n))"

text \<open>The law of an HMAC: its tags have one positive length.\<close>

definition tag_len :: "hmac \<Rightarrow> nat \<Rightarrow> bool" where
  "tag_len mac l \<longleftrightarrow> 0 < l \<and> (\<forall>k m. length (mac k m) = l)"

lemma rfc_blocks_Suc:
  "rfc_blocks mac s seed i (Suc k) = mac s (rfc_A mac s seed i @ seed) @ rfc_blocks mac s seed (Suc i) k"
  by (simp add: rfc_blocks_def upt_conv_Cons del: upt_Suc)

lemma length_rfc_blocks: "tag_len mac l \<Longrightarrow> length (rfc_blocks mac s seed i k) = k * l"
  by (induction k arbitrary: i) (simp_all add: rfc_blocks_Suc tag_len_def, simp add: rfc_blocks_def)

lemma p_hash_loop_spec:
  assumes "tag_len mac l"
  shows "n - length written \<le> k \<Longrightarrow> length written \<le> n \<Longrightarrow>
    p_hash_loop mac s seed (rfc_A mac s seed i) written n =
      Some (written @ take (n - length written) (rfc_blocks mac s seed i k))"
proof (induction k arbitrary: i written)
  case 0
  then show ?case by (subst p_hash_loop.simps) simp
next
  case (Suc k)
  let ?block = "mac s (rfc_A mac s seed i @ seed)"
  have l: "length ?block = l" "0 < l" using assms by (auto simp: tag_len_def)
  show ?case
  proof (cases "length written < n")
    case False
    with Suc.prems show ?thesis by (subst p_hash_loop.simps) simp
  next
    case True
    let ?w = "written @ take (min l (n - length written)) ?block"
    have w: "length ?w = length written + min l (n - length written)" using l by simp
    have "p_hash_loop mac s seed (rfc_A mac s seed i) written n =
          p_hash_loop mac s seed (rfc_A mac s seed (Suc i)) ?w n"
      using True l by (subst p_hash_loop.simps) simp
    also have "\<dots> = Some (?w @ take (n - length ?w) (rfc_blocks mac s seed (Suc i) k))"
      by (rule Suc.IH) (use w l True Suc.prems in auto)
    also have "?w @ take (n - length ?w) (rfc_blocks mac s seed (Suc i) k) =
          written @ take (n - length written) (rfc_blocks mac s seed i (Suc k))"
      using l w by (simp add: rfc_blocks_Suc min_def)
    finally show ?thesis .
  qed
qed

lemma p_hash_spec:
  assumes "tag_len mac l"
  shows "p_hash mac s seed n = Some (rfc_p_hash mac s seed n)"
  using p_hash_loop_spec [OF assms, of n "[]" n s seed 1] by (simp add: p_hash_def rfc_p_hash_def)

lemma length_rfc_p_hash: "tag_len mac l \<Longrightarrow> length (rfc_p_hash mac s seed n) = n"
  using length_rfc_blocks [of mac l s seed 1 n]
  by (simp add: rfc_p_hash_def tag_len_def)

lemma tls1_prf_spec:
  assumes "tag_len md5 l" "tag_len sha1 l'"
  shows "tls1_prf md5 sha1 secret seed n = Some (rfc_prf md5 sha1 secret seed n)"
  using p_hash_spec [OF assms(1)] p_hash_spec [OF assms(2)]
  by (simp add: tls1_prf_def rfc_prf_def Let_def)

lemma length_rfc_prf:
  "tag_len md5 l \<Longrightarrow> tag_len sha1 l' \<Longrightarrow> length (rfc_prf md5 sha1 secret seed n) = n"
  by (simp add: rfc_prf_def Let_def length_rfc_p_hash)

section \<open>Properties\<close>

text \<open>
  Key derivation always returns, and returns the 256 bytes the TLS 1.0 PRF of RFC 2246
  defines: the master secret from the pre-master and the first randoms, the keys from it, the
  second randoms and both session ids. Both ends hold the same source, so they hold the same keys.
\<close>

theorem key_expansion_is_rfc2246:
  assumes "tag_len md5 l" and "tag_len sha1 l'"
  shows "\<exists>keys. key_expansion md5 sha1 source cs ss = Some keys \<and> length keys = 256 \<and>
    keys = rfc_prf md5 sha1
      (rfc_prf md5 sha1 (pre_master source)
         (lit ''OpenVPN master secret'' @ client_random1 source @ server_random1 source) 48)
      (lit ''OpenVPN key expansion'' @ client_random2 source @ server_random2 source @ cs @ ss) 256"
proof -
  have "lit ''OpenVPN master secret'' = LABEL_PREFIX @ lit ''master secret''"
    "lit ''OpenVPN key expansion'' = LABEL_PREFIX @ lit ''key expansion''"
    by (simp_all add: LABEL_PREFIX_def lit_def)
  then show ?thesis
    unfolding key_expansion_def
    by (simp add: tls1_prf_spec [OF assms] length_rfc_prf [OF assms])
qed

definition sample_hmac :: "nat \<Rightarrow> hmac" where
  "sample_hmac l k m = replicate l (fold (+) (k @ m) 0)"

theorem key_expansion_is_rfc2246_witness:
  "\<exists>keys. key_expansion (sample_hmac 16) (sample_hmac 20) key_source2_default [1] [2] = Some keys \<and>
     length keys = 256"
  using key_expansion_is_rfc2246 [of "sample_hmac 16" 16 "sample_hmac 20" 20 key_source2_default "[1]" "[2]"]
  by (auto simp: tag_len_def sample_hmac_def)

end
