(* ===== verification/Utf8.thy ===== *)
theory Utf8
  imports Text
begin

text \<open>
  \<open>String::from_utf8_lossy\<close> of the Rust library: the bytes are cut into valid characters and
  maximal invalid pieces, and every invalid piece becomes one U+FFFD.
\<close>

definition cont :: "u8 \<Rightarrow> bool" where
  "cont b \<longleftrightarrow> 0x80 \<le> b \<and> b \<le> 0xBF"

text \<open>The byte at an index, 0 past the end, which continues no character.\<close>

definition at_or_0 :: "bytes \<Rightarrow> nat \<Rightarrow> u8" where
  "at_or_0 s i = (if i < length s then s ! i else 0)"

definition second_ok :: "u8 \<Rightarrow> u8 \<Rightarrow> bool" where
  "second_ok b c \<longleftrightarrow>
     (if b = 0xE0 then 0xA0 \<le> c \<and> c \<le> 0xBF
      else if b = 0xED then 0x80 \<le> c \<and> c \<le> 0x9F
      else if b = 0xF0 then 0x90 \<le> c \<and> c \<le> 0xBF
      else if b = 0xF4 then 0x80 \<le> c \<and> c \<le> 0x8F
      else cont c)"

text \<open>Whether the first piece of a non-empty string is valid, and its length.\<close>

definition utf8_piece :: "bytes \<Rightarrow> bool \<times> nat" where
  "utf8_piece s =
     (let b = at_or_0 s 0; c = at_or_0 s 1; d = at_or_0 s 2; e = at_or_0 s 3 in
      if b < 0x80 then (True, 1)
      else if 0xC2 \<le> b \<and> b \<le> 0xDF then (if cont c then (True, 2) else (False, 1))
      else if 0xE0 \<le> b \<and> b \<le> 0xEF then
        (if \<not> second_ok b c then (False, 1) else if \<not> cont d then (False, 2) else (True, 3))
      else if 0xF0 \<le> b \<and> b \<le> 0xF4 then
        (if \<not> second_ok b c then (False, 1) else if \<not> cont d then (False, 2)
         else if \<not> cont e then (False, 3) else (True, 4))
      else (False, 1))"

lemma utf8_piece_pos: "0 < snd (utf8_piece s)"
  by (auto simp: utf8_piece_def Let_def)

lemma utf8_piece_shrinks: "(ok, n) = utf8_piece s \<Longrightarrow> 0 < n"
  using utf8_piece_pos [of s] by (simp add: eq_commute [of "(ok, n)"])

function utf8_pieces :: "bytes \<Rightarrow> (bool \<times> bytes) list" where
  "utf8_pieces s =
     (if s = [] then []
      else case utf8_piece s of (ok, n) \<Rightarrow> (ok, take n s) # utf8_pieces (drop n s))"
  by pat_completeness auto
termination
  by (relation "measure length") (auto dest: utf8_piece_shrinks)

declare utf8_pieces.simps [simp del]

definition REPLACEMENT :: bytes where
  "REPLACEMENT = [0xEF, 0xBF, 0xBD]"

definition utf8_lossy :: "bytes \<Rightarrow> str" where
  "utf8_lossy s = concat (map (\<lambda>(ok, piece). if ok then piece else REPLACEMENT) (utf8_pieces s))"

definition is_utf8 :: "bytes \<Rightarrow> bool" where
  "is_utf8 s \<longleftrightarrow> list_all fst (utf8_pieces s)"

lemma utf8_pieces_concat: "concat (map snd (utf8_pieces s)) = s"
proof (induction s rule: utf8_pieces.induct)
  case (1 s)
  show ?case
  proof (cases "s = []")
    case False
    obtain ok n where p: "utf8_piece s = (ok, n)" by (cases "utf8_piece s")
    show ?thesis
      using 1 [OF False p [symmetric]] False p by (subst utf8_pieces.simps) simp
  qed (simp add: utf8_pieces.simps)
qed

lemma utf8_lossy_valid [simp]: "is_utf8 s \<Longrightarrow> utf8_lossy s = s"
proof -
  assume v: "is_utf8 s"
  have "map (\<lambda>(ok, piece). if ok then piece else REPLACEMENT) (utf8_pieces s) = map snd (utf8_pieces s)"
    by (rule map_cong [OF refl]) (use v in \<open>auto simp: is_utf8_def list_all_iff\<close>)
  then show ?thesis
    unfolding utf8_lossy_def by (simp only: utf8_pieces_concat)
qed

lemma is_utf8_ascii: "\<forall>b \<in> set s. b < 0x80 \<Longrightarrow> is_utf8 s"
proof (induction s)
  case (Cons b s)
  then have "utf8_piece (b # s) = (True, 1)"
    by (simp add: utf8_piece_def at_or_0_def)
  then have "utf8_pieces (b # s) = (True, [b]) # utf8_pieces s"
    by (subst utf8_pieces.simps) simp
  with Cons show ?case by (simp add: is_utf8_def)
qed (simp add: is_utf8_def utf8_pieces.simps)

lemma is_utf8_Nil [simp]: "is_utf8 []"
  by (simp add: is_utf8_def utf8_pieces.simps)

end
