(* ===== verification/Key_Method.thy ===== *)
theory Key_Method
  imports Prf Utf8 Cursor
begin

text \<open>
  The key exchange inside the TLS session, \<open>key_method.rs\<close>: the client's message is written, the
  server's is read off a stream that delivers it in pieces. \<open>Reader\<close> is the cursor of
  \<open>packet.rs\<close> again, with strings.
\<close>

section \<open>Writing\<close>

definition KEY_METHOD_2 :: u8 where
  "KEY_METHOD_2 = 2"

definition write_string :: "str \<Rightarrow> string \<Rightarrow> error + bytes" where
  "write_string value context =
     (if value = [] then Inr (be16 0)
      else if length value + 1 \<le> 65535 then Inr (be16 (of_nat (length value + 1)) @ value @ [0])
      else Inl (FieldTooLong context))"

record client_key_method2 =
  ck_source :: key_source2
  ck_options :: str
  ck_username :: str
  ck_password :: str
  ck_peer_info :: str

definition client_encode :: "client_key_method2 \<Rightarrow> error + bytes" where
  "client_encode m =
     bindE (write_string (ck_options m) ''the options string'') (\<lambda>options.
     bindE (write_string (ck_username m) ''the username'') (\<lambda>username.
     bindE (write_string (ck_password m) ''the password'') (\<lambda>password.
     bindE (write_string (ck_peer_info m) ''the peer info'') (\<lambda>peer_info.
       Inr (be32 0 @ [KEY_METHOD_2] @ pre_master (ck_source m) @ client_random1 (ck_source m) @
            client_random2 (ck_source m) @ options @ username @ password @ peer_info)))))"

section \<open>Reading\<close>

definition reader_array :: "nat \<Rightarrow> string \<Rightarrow> cursor \<Rightarrow> error + bytes \<times> cursor" where
  "reader_array n context c = cursor_take n context c"

text \<open>\<open>strip_suffix(&[0]).unwrap_or(bytes)\<close>: one trailing NUL is dropped.\<close>

definition strip_nul :: "bytes \<Rightarrow> bytes" where
  "strip_nul bs = (if bs \<noteq> [] \<and> last bs = 0 then butlast bs else bs)"

definition reader_string :: "string \<Rightarrow> cursor \<Rightarrow> error + str \<times> cursor" where
  "reader_string context c =
     bindE (reader_array 2 context c) (\<lambda>(l, c).
     if from_be16 l = 0 then Inr ([], c)
     else bindE (cursor_take (unat (from_be16 l)) context c) (\<lambda>(bs, c).
       Inr (utf8_lossy (strip_nul bs), c)))"

record server_key_method2 =
  sk_random1 :: bytes
  sk_random2 :: bytes
  sk_options :: str

definition server_key_method2_read :: "cursor \<Rightarrow> error + server_key_method2 \<times> cursor" where
  "server_key_method2_read c =
     bindE (cursor_take 4 ''the leading zero'' c) (\<lambda>(_, c).
     bindE (cursor_take 1 ''a key method'' c) (\<lambda>(method, c).
     if method ! 0 \<noteq> KEY_METHOD_2 then Inl (UnsupportedKeyMethod (method ! 0))
     else
     bindE (reader_array 32 ''the server's first random'' c) (\<lambda>(random1, c).
     bindE (reader_array 32 ''the server's second random'' c) (\<lambda>(random2, c).
     bindE (reader_string ''the options string'' c) (\<lambda>(options, c).
     bindE (reader_string ''a username'' c) (\<lambda>(_, c).
     bindE (reader_string ''a password'' c) (\<lambda>(_, c).
     bindE (reader_string ''peer info'' c) (\<lambda>(_, c).
       Inr (\<lparr>sk_random1 = random1, sk_random2 = random2, sk_options = options\<rparr>, c)))))))))"

definition server_key_method2_decode :: "bytes \<Rightarrow> error + server_key_method2 \<times> nat" where
  "server_key_method2_decode bs =
     bindE (server_key_method2_read (cursor_new bs)) (\<lambda>(m, c). Inr (m, cur_at c))"

datatype server_message = MsgKeyMethod2 server_key_method2 | MsgControl str

text \<open>\<open>position\<close> of the first NUL.\<close>

fun nul_position :: "bytes \<Rightarrow> nat option" where
  "nul_position [] = None"
| "nul_position (b # bs) = (if b = 0 then Some 0 else map_option Suc (nul_position bs))"

definition server_message_decode :: "bytes \<Rightarrow> error + server_message \<times> nat" where
  "server_message_decode bs =
     (if length bs < 4 then Inl (Truncated ''a message header'')
      else if take 4 bs \<noteq> [0, 0, 0, 0] then
        bindE (ok_or (nul_position bs) (Truncated ''a control message''))
          (\<lambda>stop. Inr (MsgControl (utf8_lossy (take stop bs)), stop + 1))
      else bindE (server_key_method2_decode bs) (\<lambda>(m, used). Inr (MsgKeyMethod2 m, used)))"

section \<open>Fields of the message\<close>

definition string_ok :: "str \<Rightarrow> bool" where
  "string_ok v \<longleftrightarrow> is_utf8 v \<and> length v + 1 \<le> 65535"

definition string_wire :: "str \<Rightarrow> bytes" where
  "string_wire v = (if v = [] then be16 0 else be16 (of_nat (length v + 1)) @ v @ [0])"

lemma write_string_ok: "length v + 1 \<le> 65535 \<Longrightarrow> write_string v ctx = Inr (string_wire v)"
  by (simp add: write_string_def string_wire_def)

interpretation array_field: stream_decoder "\<lambda>b. b" "reader_array n ctx" "\<lambda>b. length b = n" for n ctx
proof
  fix a c r
  assume "length a = n" "cursor_ok c" "cursor_rest c = a @ r"
  then show "\<exists>c'. reader_array n ctx c = Inr (a, c') \<and> reads c a c'"
    unfolding reader_array_def by (intro cursor_take_append)
qed

lemma string_length_word: "length v + 1 \<le> 65535 \<Longrightarrow> unat (of_nat (length v + 1) :: u16) = length v + 1"
  by (simp add: unat_of_nat del: of_nat_Suc of_nat_add)

interpretation string_field: stream_decoder string_wire "reader_string ctx" string_ok for ctx
proof
  fix v c r
  assume ok: "string_ok v" and c: "cursor_ok c" "cursor_rest c = string_wire v @ r"
  show "\<exists>c'. reader_string ctx c = Inr (v, c') \<and> reads c (string_wire v) c'"
  proof (cases "v = []")
    case True
    then obtain c1 where "reader_array 2 ctx c = Inr (be16 0, c1)" "reads c (be16 0) c1"
      using array_field.dec_enc [of "be16 0" 2 c r] c by (auto simp: string_wire_def)
    with True show ?thesis by (simp add: reader_string_def string_wire_def)
  next
    case False
    let ?l = "of_nat (length v + 1) :: u16"
    have n: "unat ?l = length v + 1" "is_utf8 v"
      using ok string_length_word unfolding string_ok_def by blast+
    then have nz: "?l \<noteq> 0" by (metis add_is_0 one_neq_zero unat_0)
    have rest: "cursor_rest c = be16 ?l @ (v @ [0]) @ r"
      using c(2) False by (simp add: string_wire_def)
    then obtain c1 where c1: "reader_array 2 ctx c = Inr (be16 ?l, c1)" "reads c (be16 ?l) c1"
        "cursor_ok c1" "cursor_rest c1 = (v @ [0]) @ r"
      using array_field.dec_encE [of "be16 ?l" 2 c "(v @ [0]) @ r"] c(1) length_be16 by metis
    obtain c2 where c2: "cursor_take (unat ?l) ctx c1 = Inr (v @ [0], c2)" "reads c1 (v @ [0]) c2"
      using cursor_take_append [OF c1(4), of "unat ?l" ctx] c1(3) unfolding n by auto
    have "reader_string ctx c = Inr (v, c2)"
      using c1(1) c2(1) nz n(2) by (simp add: reader_string_def strip_nul_def del: of_nat_add of_nat_Suc)
    moreover have "reads c (string_wire v) c2"
      using reads_trans [OF c1(2) c2(2)] False by (simp add: string_wire_def)
    ultimately show ?thesis by blast
  qed
qed

section \<open>Reading a stream that has not all arrived\<close>

definition grow :: "cursor \<Rightarrow> bytes \<Rightarrow> cursor" where
  "grow c x = c\<lparr>cur_bytes := cur_bytes c @ x\<rparr>"

text \<open>
  A decoder is stable if more bytes change nothing of what it has decided: not a value, and no
  error but \<open>Truncated\<close>.
\<close>

definition decided :: "error + 'a \<Rightarrow> bool" where
  "decided r \<longleftrightarrow> (\<forall>ctx. r \<noteq> Inl (Truncated ctx))"

definition stable :: "(cursor \<Rightarrow> error + 'a \<times> cursor) \<Rightarrow> bool" where
  "stable dec \<longleftrightarrow>
     (\<forall>c. cursor_ok c \<longrightarrow>
        (\<forall>a c'. dec c = Inr (a, c') \<longrightarrow>
           cursor_ok c' \<and> cur_bytes c' = cur_bytes c \<and> cur_at c \<le> cur_at c' \<and> (\<forall>x. dec (grow c x) = Inr (a, grow c' x))) \<and>
        (\<forall>e x. dec c = Inl e \<longrightarrow> (\<exists>ctx. e = Truncated ctx) \<or> dec (grow c x) = Inl e))"

lemma stable_Inr:
  "stable dec \<Longrightarrow> cursor_ok c \<Longrightarrow> dec c = Inr (a, c') \<Longrightarrow>
     cursor_ok c' \<and> cur_bytes c' = cur_bytes c \<and> cur_at c \<le> cur_at c' \<and>
     dec (grow c x) = Inr (a, grow c' x)"
  unfolding stable_def by blast

lemma stable_Inl:
  "stable dec \<Longrightarrow> cursor_ok c \<Longrightarrow> dec c = Inl e \<Longrightarrow> decided (dec c) \<Longrightarrow> dec (grow c x) = Inl e"
  unfolding stable_def decided_def by blast

lemma stable_take: "stable (cursor_take n ctx)"
  by (auto simp: stable_def cursor_take_def slice_get_def grow_def cursor_ok_def split: if_splits)

lemma stable_return: "stable (\<lambda>c. Inr (a, c))"
  by (simp add: stable_def)

lemma stable_fail: "stable (\<lambda>c. Inl e)"
  by (simp add: stable_def)

lemma stable_bind:
  assumes f: "stable f" and g: "\<And>a. stable (g a)"
  shows "stable (\<lambda>c. bindE (f c) (\<lambda>(a, c). g a c))"
  unfolding stable_def
proof (intro allI impI conjI)
  fix c b c'' x
  assume ok: "cursor_ok c" and r: "bindE (f c) (\<lambda>(a, c). g a c) = Inr (b, c'')"
  from r obtain a c' where s: "f c = Inr (a, c')" "g a c' = Inr (b, c'')"
    by (auto simp: bindE_eq_Inr)
  note f' = stable_Inr [OF f ok s(1)]
  have ok': "cursor_ok c'" and b': "cur_bytes c' = cur_bytes c" using f' [of "[]"] by simp_all
  note g' = stable_Inr [OF g ok' s(2)]
  show "cursor_ok c''" using g' [of "[]"] by simp
  show "cur_bytes c'' = cur_bytes c" using g' [of "[]"] b' by simp
  show "cur_at c \<le> cur_at c''" using f' [of "[]"] g' [of "[]"] by simp
  show "bindE (f (grow c x)) (\<lambda>(a, c). g a c) = Inr (b, grow c'' x)"
    using f' [of x] g' [of x] by simp
next
  fix c e x
  assume ok: "cursor_ok c" and r: "bindE (f c) (\<lambda>(a, c). g a c) = Inl e"
  show "(\<exists>ctx. e = Truncated ctx) \<or> bindE (f (grow c x)) (\<lambda>(a, c). g a c) = Inl e"
  proof (cases "f c")
    case (Inl e')
    with r f ok show ?thesis unfolding stable_def by fastforce
  next
    case (Inr p)
    obtain a c' where s: "f c = Inr (a, c')" using Inr by (cases p) auto
    have ok': "cursor_ok c'" and fx: "f (grow c x) = Inr (a, grow c' x)"
      using stable_Inr [OF f ok s, of x] by simp_all
    from s r have "g a c' = Inl e" by simp
    with g [of a] ok' have "(\<exists>ctx. e = Truncated ctx) \<or> g a (grow c' x) = Inl e"
      unfolding stable_def by blast
    with fx show ?thesis by simp
  qed
qed

lemma stable_if: "stable f \<Longrightarrow> stable g \<Longrightarrow> stable (\<lambda>c. if b then f c else g c)"
  by (cases b) simp_all

lemmas stable_intros = stable_take stable_return stable_fail stable_bind stable_if

lemma stable_array: "stable (reader_array n ctx)"
  unfolding reader_array_def by (rule stable_take)

lemma stable_string: "stable (reader_string ctx)"
  unfolding reader_string_def by (intro stable_intros stable_array)

lemma stable_server_read: "stable server_key_method2_read"
  unfolding server_key_method2_read_def by (intro stable_intros stable_array stable_string)

lemma take_then_stable:
  assumes r: "bindE (cursor_take n ctx c) (\<lambda>(a, c). g a c) = Inr (b, c'')"
    and ok: "cursor_ok c" and g: "\<And>a. stable (g a)"
  shows "cur_at c + n \<le> cur_at c''"
proof -
  from r obtain a c' where s: "cursor_take n ctx c = Inr (a, c')" "g a c' = Inr (b, c'')"
    by (auto simp: bindE_eq_Inr)
  have "cur_at c' = cur_at c + n" using s(1) by (auto simp: cursor_take_ok reads_def)
  moreover have "cursor_ok c'" using stable_Inr [OF stable_take ok s(1), of "[]"] by simp
  ultimately show ?thesis using stable_Inr [OF g _ s(2), of "[]"] by simp
qed

lemma server_read_advances:
  "server_key_method2_read c = Inr (k, c') \<Longrightarrow> cursor_ok c \<Longrightarrow> cur_at c + 4 \<le> cur_at c'"
  unfolding server_key_method2_read_def
  by (erule (1) take_then_stable) (intro stable_intros stable_array stable_string)

lemma server_decode_grow:
  assumes "decided (server_key_method2_decode bs)"
  shows "server_key_method2_decode (bs @ x) = server_key_method2_decode bs"
proof -
  let ?c = "cursor_new bs"
  have g: "cursor_new (bs @ x) = grow ?c x" by (simp add: cursor_new_def grow_def)
  show ?thesis
  proof (cases "server_key_method2_read ?c")
    case (Inl e)
    have "decided (server_key_method2_read ?c)"
      using assms unfolding server_key_method2_decode_def Inl by (simp add: decided_def)
    then have "server_key_method2_read (grow ?c x) = Inl e"
      by (rule stable_Inl [OF stable_server_read cursor_ok_new Inl])
    with Inl show ?thesis
      unfolding server_key_method2_decode_def g by simp
  next
    case (Inr p)
    obtain m c' where r: "server_key_method2_read ?c = Inr (m, c')" using Inr by (cases p) auto
    then have "server_key_method2_read (grow ?c x) = Inr (m, grow c' x)"
      using stable_Inr [OF stable_server_read cursor_ok_new r, of x] by blast
    moreover have "cur_at (grow c' x) = cur_at c'" by (simp add: grow_def)
    ultimately show ?thesis
      using r unfolding server_key_method2_decode_def g by simp
  qed
qed

lemma nul_position_append: "nul_position bs = Some n \<Longrightarrow> nul_position (bs @ x) = Some n \<and> n < length bs"
  by (induction bs arbitrary: n) (auto split: if_splits)

lemma server_message_grow:
  assumes "decided (server_message_decode bs)"
  shows "server_message_decode (bs @ x) = server_message_decode bs"
proof -
  have len: "\<not> length bs < 4"
    using assms by (auto simp: decided_def server_message_decode_def)
  show ?thesis
  proof (cases "take 4 bs = [0, 0, 0, 0]")
    case True
    then have "decided (server_key_method2_decode bs)"
      using assms len by (auto simp: decided_def server_message_decode_def bindE_eq_Inl)
    with server_decode_grow [of bs x] True len show ?thesis
      by (simp add: server_message_decode_def)
  next
    case False
    then obtain n where "nul_position bs = Some n"
      using assms len by (cases "nul_position bs") (auto simp: decided_def server_message_decode_def)
    with nul_position_append [OF this, of x] False len show ?thesis
      by (simp add: server_message_decode_def)
  qed
qed

lemma server_message_used:
  assumes "server_message_decode bs = Inr (m, n)"
  shows "0 < n \<and> n \<le> length bs"
proof (cases "take 4 bs = [0, 0, 0, 0]")
  case False
  with assms nul_position_append [of bs _ "[]"] show ?thesis
    by (auto simp: server_message_decode_def bindE_eq_Inr split: if_splits)
next
  case True
  from True assms obtain k c where r: "server_key_method2_read (cursor_new bs) = Inr (k, c)" "cur_at c = n"
    by (auto simp: server_message_decode_def server_key_method2_decode_def bindE_eq_Inr split: if_splits)
  have ok: "cursor_ok c" "cur_bytes c = bs"
    using stable_Inr [OF stable_server_read cursor_ok_new r(1), of "[]"] by (simp_all add: cursor_new_def)
  have "cur_at c \<noteq> 0" using server_read_advances [OF r(1)] by simp
  with ok r(2) show ?thesis by (simp add: cursor_ok_def)
qed

section \<open>The peer\<close>

text \<open>
  OpenVPN's writer of the server's message and its reader of the client's, from the layout at the
  head of \<open>key_method.rs\<close>.
\<close>

definition peer_writes_server :: "server_key_method2 \<Rightarrow> str \<Rightarrow> str \<Rightarrow> str \<Rightarrow> bytes" where
  "peer_writes_server m username password peer_info =
     [0, 0, 0, 0] @ [KEY_METHOD_2] @ sk_random1 m @ sk_random2 m @ string_wire (sk_options m) @
     string_wire username @ string_wire password @ string_wire peer_info"

definition peer_reads_client :: "bytes \<Rightarrow> error + (bytes list \<times> str list) \<times> bytes" where
  "peer_reads_client bs =
     bindE (cursor_take 4 ''zero'' (cursor_new bs)) (\<lambda>(zero, c).
     bindE (cursor_take 1 ''method'' c) (\<lambda>(method, c).
     bindE (reader_array 48 ''pre-master'' c) (\<lambda>(pm, c).
     bindE (reader_array 32 ''random1'' c) (\<lambda>(r1, c).
     bindE (reader_array 32 ''random2'' c) (\<lambda>(r2, c).
     bindE (read_many (reader_string ''a string'') 4 c) (\<lambda>(strings, c).
       Inr (([zero, method, pm, r1, r2], strings), cursor_rest c)))))))"

definition server_fields_ok :: "server_key_method2 \<Rightarrow> str list \<Rightarrow> bool" where
  "server_fields_ok m others \<longleftrightarrow> length (sk_random1 m) = 32 \<and> length (sk_random2 m) = 32 \<and>
     string_ok (sk_options m) \<and> list_all string_ok others"

definition client_ok :: "client_key_method2 \<Rightarrow> bool" where
  "client_ok m \<longleftrightarrow> length (pre_master (ck_source m)) = 48 \<and> length (client_random1 (ck_source m)) = 32 \<and>
     length (client_random2 (ck_source m)) = 32 \<and>
     list_all is_utf8 [ck_options m, ck_username m, ck_password m, ck_peer_info m]"

text \<open>The field that does not fit, if any: the first one too long for a 16-bit length.\<close>

definition too_long :: "client_key_method2 \<Rightarrow> string option" where
  "too_long m =
     map_option snd (find (\<lambda>(v, _). length v + 1 > 65535)
       [(ck_options m, ''the options string''), (ck_username m, ''the username''),
        (ck_password m, ''the password''), (ck_peer_info m, ''the peer info'')])"

lemma take_field:
  assumes "cursor_ok c" "cursor_rest c = b @ r" "length b = n"
  obtains c' where "cursor_take n ctx c = Inr (b, c')" "cursor_ok c'" "cursor_rest c' = r"
  using cursor_take_append [OF assms(2,3,1), of ctx] reads_next [OF _ assms(1,2)] that by blast

lemma array_fieldE:
  assumes "cursor_ok c" "cursor_rest c = b @ r" "length b = n"
  obtains c' where "reader_array n ctx c = Inr (b, c')" "cursor_ok c'" "cursor_rest c' = r"
  using array_field.dec_encE [OF assms(3,1,2)] that by blast

lemma string_fieldE:
  assumes "cursor_ok c" "cursor_rest c = string_wire v @ r" "string_ok v"
  obtains c' where "reader_string ctx c = Inr (v, c')" "cursor_ok c'" "cursor_rest c' = r"
  using string_field.dec_encE [OF assms(3,1,2)] that by blast

lemma server_read_written:
  assumes "server_fields_ok m [u, p, i]"
  obtains c where "server_key_method2_read (cursor_new (peer_writes_server m u p i @ r)) = Inr (m, c)"
    "cursor_ok c" "cursor_rest c = r"
proof -
  have len: "length (sk_random1 m) = 32" "length (sk_random2 m) = 32"
    and str: "string_ok (sk_options m)" "string_ok u" "string_ok p" "string_ok i"
    using assms by (auto simp: server_fields_ok_def)
  let ?c = "cursor_new (peer_writes_server m u p i @ r)"
  have "cursor_rest ?c = [0, 0, 0, 0] @ [KEY_METHOD_2] @ sk_random1 m @ sk_random2 m @
      string_wire (sk_options m) @ string_wire u @ string_wire p @ string_wire i @ r"
    by (simp add: peer_writes_server_def)
  from take_field [OF cursor_ok_new this, of 4 "''the leading zero''"] obtain c1
    where 1: "cursor_take 4 ''the leading zero'' ?c = Inr ([0, 0, 0, 0], c1)" "cursor_ok c1"
      "cursor_rest c1 = [KEY_METHOD_2] @ sk_random1 m @ sk_random2 m @
      string_wire (sk_options m) @ string_wire u @ string_wire p @ string_wire i @ r" by auto
  from take_field [OF 1(2,3), of 1 "''a key method''"] obtain c2
    where 2: "cursor_take 1 ''a key method'' c1 = Inr ([KEY_METHOD_2], c2)" "cursor_ok c2"
      "cursor_rest c2 = sk_random1 m @ sk_random2 m @
      string_wire (sk_options m) @ string_wire u @ string_wire p @ string_wire i @ r" by auto
  from array_fieldE [OF 2(2,3) len(1), of "''the server's first random''"] obtain c3
    where 3: "reader_array 32 ''the server's first random'' c2 = Inr (sk_random1 m, c3)" "cursor_ok c3"
      "cursor_rest c3 = sk_random2 m @
      string_wire (sk_options m) @ string_wire u @ string_wire p @ string_wire i @ r" by blast
  from array_fieldE [OF 3(2,3) len(2), of "''the server's second random''"] obtain c4
    where 4: "reader_array 32 ''the server's second random'' c3 = Inr (sk_random2 m, c4)" "cursor_ok c4"
      "cursor_rest c4 = string_wire (sk_options m) @ string_wire u @ string_wire p @ string_wire i @ r"
    by blast
  from string_fieldE [OF 4(2,3) str(1), of "''the options string''"] obtain c5
    where 5: "reader_string ''the options string'' c4 = Inr (sk_options m, c5)" "cursor_ok c5"
      "cursor_rest c5 = string_wire u @ string_wire p @ string_wire i @ r" by blast
  from string_fieldE [OF 5(2,3) str(2), of "''a username''"] obtain c6
    where 6: "reader_string ''a username'' c5 = Inr (u, c6)" "cursor_ok c6"
      "cursor_rest c6 = string_wire p @ string_wire i @ r" by blast
  from string_fieldE [OF 6(2,3) str(3), of "''a password''"] obtain c7
    where 7: "reader_string ''a password'' c6 = Inr (p, c7)" "cursor_ok c7"
      "cursor_rest c7 = string_wire i @ r" by blast
  from string_fieldE [OF 7(2,3) str(4), of "''peer info''"] obtain c8
    where 8: "reader_string ''peer info'' c7 = Inr (i, c8)" "cursor_ok c8" "cursor_rest c8 = r" by blast
  have "server_key_method2_read ?c = Inr (m, c8)"
    unfolding server_key_method2_read_def
    by (simp add: 1(1) 2(1) 3(1) 4(1) 5(1) 6(1) 7(1) 8(1) del: One_nat_def)
  with 8 that show ?thesis by blast
qed

lemma server_message_written:
  assumes "server_fields_ok m [u, p, i]"
  shows "server_message_decode (peer_writes_server m u p i @ r) =
     Inr (MsgKeyMethod2 m, length (peer_writes_server m u p i))"
proof -
  let ?w = "peer_writes_server m u p i"
  obtain c where c: "server_key_method2_read (cursor_new (?w @ r)) = Inr (m, c)" "cursor_ok c"
      "cursor_rest c = r"
    by (rule server_read_written [OF assms])
  have "cur_bytes c = ?w @ r"
    using stable_Inr [OF stable_server_read cursor_ok_new c(1), of "[]"] by (simp add: cursor_new_def)
  with c(2,3) have "length (?w @ r) = cur_at c + length r"
    unfolding cursor_ok_def cursor_rest_def by (metis append_take_drop_id length_append length_take min.absorb2)
  then have at: "cur_at c = length ?w" by simp
  have h: "take 4 (?w @ r) = [0, 0, 0, 0]" "\<not> length (?w @ r) < 4"
    by (simp_all add: peer_writes_server_def)
  show ?thesis
    unfolding server_message_decode_def server_key_method2_decode_def using h c(1) at by simp
qed

lemma client_encode_too_long:
  "client_encode m =
     (case too_long m of
        Some ctx \<Rightarrow> Inl (FieldTooLong ctx)
      | None \<Rightarrow> Inr (be32 0 @ [KEY_METHOD_2] @ pre_master (ck_source m) @ client_random1 (ck_source m) @
            client_random2 (ck_source m) @ string_wire (ck_options m) @ string_wire (ck_username m) @
            string_wire (ck_password m) @ string_wire (ck_peer_info m)))"
proof -
  have w: "write_string v ctx = (if length v + 1 > 65535 then Inl (FieldTooLong ctx) else Inr (string_wire v))"
    for v ctx by (auto simp: write_string_def string_wire_def)
  show ?thesis
    unfolding client_encode_def w too_long_def by (simp del: list.size)
qed

lemma client_read_written:
  assumes "client_ok m" and "too_long m = None" and "client_encode m = Inr w"
  shows "peer_reads_client (w @ r) =
     Inr (([[0, 0, 0, 0], [KEY_METHOD_2], pre_master (ck_source m), client_random1 (ck_source m),
            client_random2 (ck_source m)],
           [ck_options m, ck_username m, ck_password m, ck_peer_info m]), r)"
proof -
  let ?k = "ck_source m" and ?vs = "[ck_options m, ck_username m, ck_password m, ck_peer_info m]"
  let ?s = "concat (map string_wire ?vs) @ r"
  have len: "length (pre_master ?k) = 48" "length (client_random1 ?k) = 32" "length (client_random2 ?k) = 32"
    using assms(1) by (auto simp: client_ok_def)
  have vs: "\<forall>v \<in> set ?vs. string_ok v"
    using assms(1,2)
    by (auto simp: client_ok_def too_long_def string_ok_def not_less split: if_splits)
  have z: "be32 0 = [0, 0, 0, 0]" by (simp add: be32_def)
  let ?c = "cursor_new (w @ r)"
  have "cursor_rest ?c = [0, 0, 0, 0] @ [KEY_METHOD_2] @ pre_master ?k @ client_random1 ?k @
      client_random2 ?k @ ?s"
    using assms(3) unfolding client_encode_too_long assms(2) z by simp
  from take_field [OF cursor_ok_new this, of 4 "''zero''"] obtain c1
    where 1: "cursor_take 4 ''zero'' ?c = Inr ([0, 0, 0, 0], c1)" "cursor_ok c1"
      "cursor_rest c1 = [KEY_METHOD_2] @ pre_master ?k @ client_random1 ?k @ client_random2 ?k @ ?s" by auto
  from take_field [OF 1(2,3), of 1 "''method''"] obtain c2
    where 2: "cursor_take 1 ''method'' c1 = Inr ([KEY_METHOD_2], c2)" "cursor_ok c2"
      "cursor_rest c2 = pre_master ?k @ client_random1 ?k @ client_random2 ?k @ ?s" by auto
  from array_fieldE [OF 2(2,3) len(1), of "''pre-master''"] obtain c3
    where 3: "reader_array 48 ''pre-master'' c2 = Inr (pre_master ?k, c3)" "cursor_ok c3"
      "cursor_rest c3 = client_random1 ?k @ client_random2 ?k @ ?s" by blast
  from array_fieldE [OF 3(2,3) len(2), of "''random1''"] obtain c4
    where 4: "reader_array 32 ''random1'' c3 = Inr (client_random1 ?k, c4)" "cursor_ok c4"
      "cursor_rest c4 = client_random2 ?k @ ?s" by blast
  from array_fieldE [OF 4(2,3) len(3), of "''random2''"] obtain c5
    where 5: "reader_array 32 ''random2'' c4 = Inr (client_random2 ?k, c5)" "cursor_ok c5"
      "cursor_rest c5 = ?s" by blast
  obtain c6 where 6: "read_many (reader_string ''a string'') (length ?vs) c5 = Inr (?vs, c6)"
      "cursor_rest c6 = r"
    by (rule string_field.read_many_encE [OF vs 5(2,3), of "''a string''"])
  have "length ?vs = 4" by simp
  note four = 6(1) [unfolded this]
  show ?thesis
    unfolding peer_reads_client_def
    by (simp add: 1(1) 2(1) 3(1) 4(1) 5(1) four 6(2) del: One_nat_def read_many.simps)
qed

section \<open>Properties\<close>

text \<open>
  The server's message is read whole: whatever OpenVPN writes with it and whatever follows
  it in the stream, decoding gives the two randoms and the options, and a length that stops
  exactly at the end of the message, its empty trailing strings included.
\<close>

theorem server_message_roundtrip:
  assumes "server_fields_ok m [username, password, peer_info]"
  shows "server_message_decode (peer_writes_server m username password peer_info @ rest) =
     Inr (MsgKeyMethod2 m, length (peer_writes_server m username password peer_info))"
  using assms by (rule server_message_written)

definition sample_server :: server_key_method2 where
  "sample_server =
     \<lparr>sk_random1 = replicate 32 1, sk_random2 = replicate 32 2, sk_options = lit ''V4''\<rparr>"

lemma sample_server_ok: "server_fields_ok sample_server [[], [], []]"
proof -
  have "is_utf8 (lit ''V4'')" by code_simp
  then show ?thesis
    by (simp add: server_fields_ok_def sample_server_def string_ok_def lit_def)
qed

theorem server_message_roundtrip_witness:
  "server_message_decode (peer_writes_server sample_server [] [] [] @ [1, 2, 3]) =
     Inr (MsgKeyMethod2 sample_server, length (peer_writes_server sample_server [] [] []))"
  by (rule server_message_roundtrip [OF sample_server_ok])

text \<open>
  Reading off the TLS stream waits and never guesses: once decoding a prefix of the stream
  gives anything but \<open>Truncated\<close>, more bytes change neither the message, nor its length, nor the
  error; a message never claims bytes that have not arrived; and every strict prefix of a
  server's message is answered with \<open>Truncated\<close>, that is, not yet.
\<close>

theorem server_message_stream:
  "(decided (server_message_decode bs) \<longrightarrow>
      server_message_decode (bs @ later) = server_message_decode bs) \<and>
   (server_message_decode bs = Inr (m, n) \<longrightarrow> 0 < n \<and> n \<le> length bs) \<and>
   (server_fields_ok k [u, p, i] \<and> later \<noteq> [] \<and> peer_writes_server k u p i = bs @ later \<longrightarrow>
      \<not> decided (server_message_decode bs))"
proof (intro conjI impI)
  show "decided (server_message_decode bs) \<Longrightarrow>
      server_message_decode (bs @ later) = server_message_decode bs"
    by (rule server_message_grow)
  assume m: "server_message_decode bs = Inr (m, n)"
  then show "0 < n" "n \<le> length bs"
    using server_message_used by auto
next
  assume a: "server_fields_ok k [u, p, i] \<and> later \<noteq> [] \<and> peer_writes_server k u p i = bs @ later"
  show "\<not> decided (server_message_decode bs)"
  proof
    assume "decided (server_message_decode bs)"
    with a server_message_grow [of bs later] server_message_written [of k u p i "[]"]
    have "server_message_decode bs = Inr (MsgKeyMethod2 k, length (bs @ later))" by simp
    with server_message_used a show False by fastforce
  qed
qed

theorem server_message_stream_witness:
  "\<not> decided (server_message_decode (take 40 (peer_writes_server sample_server [] [] [])))"
proof -
  let ?w = "peer_writes_server sample_server [] [] []"
  have "drop 40 ?w \<noteq> []" by code_simp
  then have "server_fields_ok sample_server [[], [], []] \<and> drop 40 ?w \<noteq> [] \<and> ?w = take 40 ?w @ drop 40 ?w"
    using sample_server_ok by simp
  then show ?thesis
    using server_message_stream [of "take 40 ?w" "drop 40 ?w" _ _ sample_server "[]" "[]" "[]"] by blast
qed

text \<open>
  The client's message says what was asked or is not sent: if a field does not fit its
  16-bit length the error names the first such field, and otherwise a peer reading the layout
  finds the pre-master, the randoms and the four strings, unchanged, and stops at its end.
\<close>

theorem client_message_roundtrip:
  assumes "client_ok m"
  shows "case too_long m of
      Some ctx \<Rightarrow> client_encode m = Inl (FieldTooLong ctx)
    | None \<Rightarrow> \<exists>w. client_encode m = Inr w \<and> peer_reads_client (w @ rest) =
        Inr (([[0, 0, 0, 0], [KEY_METHOD_2], pre_master (ck_source m), client_random1 (ck_source m),
               client_random2 (ck_source m)],
              [ck_options m, ck_username m, ck_password m, ck_peer_info m]), rest)"
proof (cases "too_long m")
  case (Some ctx)
  then show ?thesis by (simp add: client_encode_too_long)
next
  case None
  then obtain w where w: "client_encode m = Inr w" by (simp add: client_encode_too_long)
  with None client_read_written [OF assms None w, of rest] show ?thesis by simp
qed

definition sample_client :: client_key_method2 where
  "sample_client =
     \<lparr>ck_source = key_source2_default, ck_options = lit ''V4'', ck_username = lit ''ada'',
      ck_password = lit ''pw'', ck_peer_info = []\<rparr>"

theorem client_message_roundtrip_witness:
  "\<exists>w. client_encode sample_client = Inr w \<and> peer_reads_client (w @ [7]) =
     Inr (([[0, 0, 0, 0], [KEY_METHOD_2], replicate 48 0, replicate 32 0, replicate 32 0],
           [lit ''V4'', lit ''ada'', lit ''pw'', []]), [7])"
proof -
  have "is_utf8 (lit ''V4'')" "is_utf8 (lit ''ada'')" "is_utf8 (lit ''pw'')" by code_simp+
  then have ok: "client_ok sample_client"
    by (simp add: client_ok_def sample_client_def key_source2_default_def)
  have fits: "too_long sample_client = None" by (simp add: too_long_def sample_client_def lit_def)
  have fields: "pre_master (ck_source sample_client) = replicate 48 0"
    "client_random1 (ck_source sample_client) = replicate 32 0"
    "client_random2 (ck_source sample_client) = replicate 32 0"
    "ck_options sample_client = lit ''V4''" "ck_username sample_client = lit ''ada''"
    "ck_password sample_client = lit ''pw''" "ck_peer_info sample_client = []"
    by (simp_all add: sample_client_def key_source2_default_def)
  show ?thesis
    using client_message_roundtrip [OF ok, of "[7]"] by (simp only: fits fields option.case)
qed

end
