(* ===== verification/Session.thy ===== *)
theory Session
  imports Session_Config Channel Key_Method Push
begin

text \<open>
  The session of \<open>session.rs\<close>: a TLS connection carried on the control channel, the key exchange
  inside it, the push exchange, renegotiation, and the tunnel that comes out. The TLS library is
  a parameter: a record of its operations on connections of an arbitrary type, of which nothing
  is assumed. Loops around it may not end (a connection that always has more to say), so they are
  partial functions and everything that contains one returns an option. Random values (session
  id, key sources, initialisation vectors) are arguments.
\<close>

section \<open>The world\<close>

record ('k, 'c) tls_ops =
  tls_setup :: "session_config \<Rightarrow> error + 'k"
  tls_connect :: "'k \<Rightarrow> bytes + 'c"
  tls_is_handshaking :: "'c \<Rightarrow> bool"
  tls_wants_write :: "'c \<Rightarrow> bool"
  tls_write :: "'c \<Rightarrow> (bytes + bytes) \<times> 'c"
  tls_read :: "bytes \<Rightarrow> 'c \<Rightarrow> (bytes + nat) \<times> 'c"
  tls_process :: "'c \<Rightarrow> (bytes + unit) \<times> 'c"
  tls_reader :: "'c \<Rightarrow> (bytes option + bytes) \<times> 'c"
  tls_writer :: "bytes \<Rightarrow> 'c \<Rightarrow> (bytes + unit) \<times> 'c"

text \<open>
  \<open>tls_write\<close> is \<open>write_tls\<close>: \<open>Inr\<close> what it wrote. \<open>tls_read\<close> is \<open>read_tls\<close>: \<open>Inr\<close> how much of the
  bytes it took. \<open>tls_reader\<close> is a read of the plaintext: \<open>Inr\<close> the bytes, none of them at a clean
  close, \<open>Inl None\<close> for \<open>WouldBlock\<close> and \<open>Inl (Some m)\<close> for any other error.
\<close>

record ('k, 'c) world =
  w_tls :: "('k, 'c) tls_ops"
  w_mac :: mac
  w_suite :: suite
  w_md5 :: hmac
  w_sha1 :: hmac

section \<open>Constants\<close>

definition CONTROL_MTU :: nat where
  "CONTROL_MTU = 1250"

definition CONTROL_OVERHEAD :: nat where
  "CONTROL_OVERHEAD = 9 + 64 + 8 + 41 + 4"

definition PUSH_REQUEST_INTERVAL :: duration where
  "PUSH_REQUEST_INTERVAL = secs 5"

definition PUSH_REQUEST_TIMEOUT :: duration where
  "PUSH_REQUEST_TIMEOUT = secs 60"

definition MAX_TLS_FRAGMENT :: nat where
  "MAX_TLS_FRAGMENT = CONTROL_MTU - CONTROL_OVERHEAD"

definition OPTIONS :: str where
  "OPTIONS = lit ''V4,dev-type tun,link-mtu 1602,tun-mtu 1500,proto UDPv4,cipher AES-256-CBC,auth SHA512,keysize 256,key-method 2,tls-client''"

definition PEER_INFO :: str where
  "PEER_INFO = lit ''IV_VER=2.5.11'' @ [10] @ lit ''IV_PLAT=rust'' @ [10] @ lit ''IV_PROTO=2'' @ [10] @
     lit ''IV_CIPHERS=AES-256-CBC'' @ [10]"

section \<open>State\<close>

datatype phase = PhaseTls | AwaitingKeys | Established | AwaitingPush | Ready

record 'c renegotiation =
  rn_key_id :: key_id
  rn_tls :: 'c
  rn_outbox :: bytes
  rn_source :: key_source2
  rn_inbound :: bytes
  rn_sent_key_material :: bool

record ('k, 'c) session =
  ss_channel :: control_channel
  ss_tls :: 'c
  ss_outbox :: bytes
  ss_tls_config :: 'k
  ss_renegotiation :: "'c renegotiation option"
  ss_phase :: phase
  ss_source :: key_source2
  ss_credentials :: "credentials option"
  ss_inbound :: bytes
  ss_keys :: "bytes option"
  ss_push :: "push_reply option"
  ss_peer_timeout :: "duration option"
  ss_push_requested_at :: "instant option"
  ss_push_first_requested_at :: "instant option"
  ss_data :: "data_channel option"
  ss_previous_data :: "data_channel option"
  ss_last_sent :: "instant option"
  ss_failure :: "error option"

text \<open>Steps that change the session, may fail with what was changed so far, and may not return.\<close>

type_synonym ('k, 'c, 'a) step = "('k, 'c) session \<Rightarrow> ((error + 'a) \<times> ('k, 'c) session) option"

definition step_bind :: "('k, 'c, 'a) step \<Rightarrow> ('a \<Rightarrow> ('k, 'c, 'b) step) \<Rightarrow> ('k, 'c, 'b) step" where
  "step_bind m f s =
     (case m s of
        None \<Rightarrow> None
      | Some (Inl e, s') \<Rightarrow> Some (Inl e, s')
      | Some (Inr a, s') \<Rightarrow> f a s')"

definition step_then :: "('k, 'c, unit) step \<Rightarrow> ('k, 'c, 'b) step \<Rightarrow> ('k, 'c, 'b) step" where
  "step_then m n = step_bind m (\<lambda>_. n)"

section \<open>TLS bytes waiting for the channel\<close>

definition outbox_push :: "bytes \<Rightarrow> bytes \<Rightarrow> bytes" where
  "outbox_push bs pending = pending @ bs"

function outbox_drain_into :: "key_id \<Rightarrow> bytes \<Rightarrow> control_channel \<Rightarrow> bytes \<times> control_channel" where
  "outbox_drain_into k pending channel =
     (if pending = [] then (pending, channel)
      else
        let n = min (length pending) MAX_TLS_FRAGMENT;
            (taken, channel) = send_control k (take n pending) channel
        in if \<not> taken then (pending, channel)
           else outbox_drain_into k (drop n pending) channel)"
  by pat_completeness auto
termination
  by (relation "measure (\<lambda>(k, pending, channel). length pending)")
    (auto simp: MAX_TLS_FRAGMENT_def CONTROL_MTU_def CONTROL_OVERHEAD_def)

declare outbox_drain_into.simps [simp del]

text \<open>\<open>while tls.wants_write()\<close>: what TLS has produced goes to the outbox.\<close>

partial_function (option) pump_out :: "('k, 'c) tls_ops \<Rightarrow> 'c \<Rightarrow> bytes \<Rightarrow> ('c \<times> bytes) option" where
  "pump_out ops tls outbox =
     (if tls_wants_write ops tls then
        (case tls_write ops tls of
           (Inl _, tls') \<Rightarrow> Some (tls', outbox)
         | (Inr bs, tls') \<Rightarrow>
             if bs = [] then Some (tls', outbox) else pump_out ops tls' (outbox_push bs outbox))
      else Some (tls, outbox))"

text \<open>A record is fed to TLS until all of it is taken.\<close>

partial_function (option) feed_tls :: "('k, 'c) tls_ops \<Rightarrow> bytes \<Rightarrow> 'c \<Rightarrow> ((error + unit) \<times> 'c) option" where
  "feed_tls ops remaining tls =
     (if remaining = [] then Some (Inr (), tls)
      else
        (case tls_read ops remaining tls of
           (Inl m, tls1) \<Rightarrow> Some (Inl (Tls m), tls1)
         | (Inr n, tls1) \<Rightarrow>
             (case tls_process ops tls1 of
                (Inl m, tls2) \<Rightarrow> Some (Inl (Tls m), tls2)
              | (Inr _, tls2) \<Rightarrow> feed_tls ops (drop n remaining) tls2)))"

text \<open>The plaintext TLS has decrypted, as far as it goes.\<close>

partial_function (option) read_plaintext ::
  "('k, 'c) tls_ops \<Rightarrow> 'c \<Rightarrow> bytes \<Rightarrow> ((error + unit) \<times> 'c \<times> bytes) option" where
  "read_plaintext ops tls inbound =
     (case tls_reader ops tls of
        (Inr bs, tls') \<Rightarrow>
          if bs \<noteq> [] then read_plaintext ops tls' (inbound @ bs) else Some (Inl PeerClosed, tls', inbound)
      | (Inl None, tls') \<Rightarrow> Some (Inr (), tls', inbound)
      | (Inl (Some m), tls') \<Rightarrow> Some (Inl (Tls m), tls', inbound))"

section \<open>Construction and questions\<close>

definition session_new :: "('k, 'c) world \<Rightarrow> session_config \<Rightarrow> key_source2 \<Rightarrow> error + ('k, 'c) session" where
  "session_new w config source =
     (let channel = channel_new (tls_auth_new (cfg_static_key config) (cfg_key_direction config))
                      (cfg_session_id config) (cfg_tls_timeout config)
      in bindE (tls_setup (w_tls w) config) (\<lambda>tls_config.
         bindE (map_err Tls (tls_connect (w_tls w) tls_config)) (\<lambda>tls.
           Inr \<lparr>ss_channel = channel_open channel, ss_tls = tls, ss_outbox = [],
                ss_tls_config = tls_config, ss_renegotiation = None, ss_phase = PhaseTls,
                ss_source = source, ss_credentials = cfg_credentials config, ss_inbound = [],
                ss_keys = None, ss_push = None, ss_peer_timeout = cfg_peer_timeout config,
                ss_push_requested_at = None, ss_push_first_requested_at = None, ss_data = None,
                ss_previous_data = None, ss_last_sent = None, ss_failure = None\<rparr>)))"

definition session_is_handshaking :: "('k, 'c) world \<Rightarrow> ('k, 'c) session \<Rightarrow> bool" where
  "session_is_handshaking w s = tls_is_handshaking (w_tls w) (ss_tls s)"

definition session_is_established :: "('k, 'c) session \<Rightarrow> bool" where
  "session_is_established s \<longleftrightarrow> ss_phase s \<in> {Established, AwaitingPush, Ready}"

definition session_peer_timeout :: "('k, 'c) session \<Rightarrow> duration option" where
  "session_peer_timeout s =
     (case ss_push s of
        Some push \<Rightarrow>
          if pr_ping_restart_disabled push then None
          else (case pr_ping_restart push of Some limit \<Rightarrow> Some limit | None \<Rightarrow> ss_peer_timeout s)
      | None \<Rightarrow> ss_peer_timeout s)"

definition session_is_ready :: "('k, 'c) session \<Rightarrow> bool" where
  "session_is_ready s \<longleftrightarrow> ss_data s \<noteq> None"

text \<open>\<open>is_data\<close>: which of the two kinds of datagram this is.\<close>

definition is_data :: "bytes \<Rightarrow> bool" where
  "is_data datagram =
     (case datagram of
        first # _ \<Rightarrow> drop_bit 3 first = opcode_u8 DataV1 \<or> drop_bit 3 first = opcode_u8 DataV2
      | [] \<Rightarrow> False)"

section \<open>Payloads\<close>

definition send_payload ::
  "('k, 'c) world \<Rightarrow> instant \<Rightarrow> bytes \<Rightarrow> bytes \<Rightarrow> ('k, 'c) session \<Rightarrow> (error + bytes) \<times> ('k, 'c) session"
where
  "send_payload w now payload iv s =
     (case ss_data s of
        None \<Rightarrow> (Inl NotReady, s)
      | Some data \<Rightarrow>
          (case encrypt_with_iv (w_suite w) payload iv data of
             (Inl e, data') \<Rightarrow> (Inl e, s\<lparr>ss_data := Some data'\<rparr>)
           | (Inr datagram, data') \<Rightarrow> (Inr datagram, s\<lparr>ss_data := Some data', ss_last_sent := Some now\<rparr>)))"

definition receive_payload ::
  "('k, 'c) world \<Rightarrow> bytes \<Rightarrow> ('k, 'c) session \<Rightarrow> (error + bytes option) \<times> ('k, 'c) session"
where
  "receive_payload w datagram s =
     (let keepalive = (\<lambda>payload. if payload = PING then None else Some payload) in
      case ss_data s of
        None \<Rightarrow> (Inl NotReady, s)
      | Some data \<Rightarrow>
          let (r, data') = decrypt (w_suite w) datagram data; s = s\<lparr>ss_data := Some data'\<rparr> in
          case r of
            Inr payload \<Rightarrow> (Inr (keepalive payload), s\<lparr>ss_previous_data := None\<rparr>)
          | Inl (OtherKeyId theirs ours) \<Rightarrow>
              (case ss_previous_data s of
                 None \<Rightarrow> (Inl (OtherKeyId theirs ours), s)
               | Some previous \<Rightarrow>
                   let (r, previous') = decrypt (w_suite w) datagram previous
                   in (case r of Inl e \<Rightarrow> Inl e | Inr payload \<Rightarrow> Inr (keepalive payload),
                       s\<lparr>ss_previous_data := Some previous'\<rparr>))
          | Inl e \<Rightarrow> (Inl e, s))"

section \<open>Sending\<close>

definition send_push_request :: "('k, 'c) world \<Rightarrow> instant \<Rightarrow> ('k, 'c) session \<Rightarrow> (error + unit) \<times> ('k, 'c) session"
where
  "send_push_request w now s =
     (case tls_writer (w_tls w) (PUSH_REQUEST @ [0]) (ss_tls s) of
        (Inl m, tls) \<Rightarrow> (Inl (Tls m), s\<lparr>ss_tls := tls\<rparr>)
      | (Inr _, tls) \<Rightarrow>
          (Inr (), s\<lparr>ss_tls := tls, ss_push_requested_at := Some now,
             ss_push_first_requested_at :=
               (case ss_push_first_requested_at s of Some t \<Rightarrow> Some t | None \<Rightarrow> Some now)\<rparr>))"

definition resend_push_request :: "('k, 'c) world \<Rightarrow> instant \<Rightarrow> ('k, 'c) session \<Rightarrow> (error + unit) \<times> ('k, 'c) session"
where
  "resend_push_request w now s =
     (if ss_phase s \<noteq> AwaitingPush then (Inr (), s)
      else if (case ss_push_first_requested_at s of
                 Some first \<Rightarrow> now - first \<ge> PUSH_REQUEST_TIMEOUT | None \<Rightarrow> False) then (Inl NoPushReply, s)
      else if (case ss_push_requested_at s of
                 Some sent \<Rightarrow> now - sent < PUSH_REQUEST_INTERVAL | None \<Rightarrow> False) then (Inr (), s)
      else send_push_request w now s)"

definition poll_keepalive :: "('k, 'c) world \<Rightarrow> instant \<Rightarrow> bytes \<Rightarrow> ('k, 'c) session \<Rightarrow> bytes option \<times> ('k, 'c) session"
where
  "poll_keepalive w now iv s =
     (case Option.bind (ss_push s) pr_ping of
        None \<Rightarrow> (None, s)
      | Some interval \<Rightarrow>
          if \<not> (case ss_last_sent s of Some sent \<Rightarrow> now - sent \<ge> interval | None \<Rightarrow> True) then (None, s)
          else
            (case ss_data s of
               None \<Rightarrow> (None, s)
             | Some data \<Rightarrow>
                 (case encrypt_with_iv (w_suite w) PING iv data of
                    (Inl e, data') \<Rightarrow> (None, s\<lparr>ss_data := Some data'\<rparr>)
                  | (Inr datagram, data') \<Rightarrow>
                      (Some datagram, s\<lparr>ss_data := Some data', ss_last_sent := Some now\<rparr>))))"

text \<open>Both handshakes hand what they have to the channel.\<close>

definition pump_primary :: "('k, 'c) world \<Rightarrow> ('k, 'c) session \<Rightarrow> ('k, 'c) session option" where
  "pump_primary w s =
     (case pump_out (w_tls w) (ss_tls s) (ss_outbox s) of
        None \<Rightarrow> None
      | Some (tls, outbox) \<Rightarrow>
          let (outbox, channel) = outbox_drain_into (channel_key_id (ss_channel s)) outbox (ss_channel s)
          in Some (s\<lparr>ss_tls := tls, ss_outbox := outbox, ss_channel := channel\<rparr>))"

definition pump_renegotiation :: "('k, 'c) world \<Rightarrow> ('k, 'c) session \<Rightarrow> ('k, 'c) session option" where
  "pump_renegotiation w s =
     (case ss_renegotiation s of
        None \<Rightarrow> Some s
      | Some pending \<Rightarrow>
          (case pump_out (w_tls w) (rn_tls pending) (rn_outbox pending) of
             None \<Rightarrow> None
           | Some (tls, outbox) \<Rightarrow>
               let (outbox, channel) = outbox_drain_into (rn_key_id pending) outbox (ss_channel s)
               in Some (s\<lparr>ss_renegotiation := Some (pending\<lparr>rn_tls := tls, rn_outbox := outbox\<rparr>),
                          ss_channel := channel\<rparr>)))"

definition session_poll_transmit ::
  "('k, 'c) world \<Rightarrow> instant \<Rightarrow> u32 \<Rightarrow> bytes \<Rightarrow> ('k, 'c) session \<Rightarrow> (bytes option \<times> ('k, 'c) session) option"
where
  "session_poll_transmit w now net_time iv s =
     (if ss_failure s \<noteq> None then Some (None, s)
      else case resend_push_request w now s of
        (Inl e, s) \<Rightarrow> Some (None, s\<lparr>ss_failure := Some e\<rparr>)
      | (Inr _, s) \<Rightarrow>
          (case pump_primary w s of
             None \<Rightarrow> None
           | Some s \<Rightarrow>
               (case pump_renegotiation w s of
                  None \<Rightarrow> None
                | Some s \<Rightarrow>
                    (case poll_transmit (w_mac w) now net_time (ss_channel s) of
                       (Some datagram, channel) \<Rightarrow>
                         Some (Some datagram, s\<lparr>ss_channel := channel, ss_last_sent := Some now\<rparr>)
                     | (None, channel) \<Rightarrow> Some (poll_keepalive w now iv (s\<lparr>ss_channel := channel\<rparr>))))))"

section \<open>Waking up\<close>

definition keepalive_due :: "instant \<Rightarrow> ('k, 'c) session \<Rightarrow> instant option" where
  "keepalive_due now s =
     (case Option.bind (ss_push s) pr_ping of
        None \<Rightarrow> None
      | Some interval \<Rightarrow>
          if ss_data s = None then None
          else Some (case ss_last_sent s of Some sent \<Rightarrow> sent + interval | None \<Rightarrow> now))"

definition push_retry_due :: "('k, 'c) session \<Rightarrow> instant option" where
  "push_retry_due s =
     (if ss_phase s \<noteq> AwaitingPush then None
      else case ss_push_requested_at s of
        None \<Rightarrow> None
      | Some sent \<Rightarrow>
          (case ss_push_first_requested_at s of
             None \<Rightarrow> None
           | Some first \<Rightarrow> Some (min (sent + PUSH_REQUEST_INTERVAL) (first + PUSH_REQUEST_TIMEOUT))))"

definition session_next_wakeup :: "('k, 'c) world \<Rightarrow> instant \<Rightarrow> ('k, 'c) session \<Rightarrow> instant option" where
  "session_next_wakeup w now s =
     (if can_send (ss_channel s) \<and> (tls_wants_write (w_tls w) (ss_tls s) \<or> ss_outbox s \<noteq> []) then Some now
      else if (case ss_renegotiation s of
                 Some pending \<Rightarrow> can_send_for (rn_key_id pending) (ss_channel s) \<and>
                   (tls_wants_write (w_tls w) (rn_tls pending) \<or> rn_outbox pending \<noteq> [])
               | None \<Rightarrow> False) then Some now
      else min_option (List.map_filter (\<lambda>t. t)
             [channel_next_wakeup now (ss_channel s), keepalive_due now s, push_retry_due s]))"

section \<open>Receiving\<close>

definition key_material_message :: "key_source2 \<Rightarrow> credentials option \<Rightarrow> client_key_method2" where
  "key_material_message source cred =
     \<lparr>ck_source = source, ck_options = OPTIONS,
      ck_username = (case cred of Some c \<Rightarrow> cred_username c | None \<Rightarrow> []),
      ck_password = (case cred of Some c \<Rightarrow> cred_password c | None \<Rightarrow> []),
      ck_peer_info = PEER_INFO\<rparr>"

definition send_our_key_material :: "('k, 'c) world \<Rightarrow> ('k, 'c, unit) step" where
  "send_our_key_material w s =
     (if ss_phase s \<noteq> PhaseTls \<or> tls_is_handshaking (w_tls w) (ss_tls s) then Some (Inr (), s)
      else case client_encode (key_material_message (ss_source s) (ss_credentials s)) of
        Inl e \<Rightarrow> Some (Inl e, s)
      | Inr message \<Rightarrow>
          (case tls_writer (w_tls w) message (ss_tls s) of
             (Inl m, tls) \<Rightarrow> Some (Inl (Tls m), s\<lparr>ss_tls := tls\<rparr>)
           | (Inr _, tls) \<Rightarrow> Some (Inr (), s\<lparr>ss_tls := tls, ss_phase := AwaitingKeys\<rparr>)))"

definition drain_plaintext :: "('k, 'c) world \<Rightarrow> ('k, 'c, unit) step" where
  "drain_plaintext w s =
     (case read_plaintext (w_tls w) (ss_tls s) (ss_inbound s) of
        None \<Rightarrow> None
      | Some (r, tls, inbound) \<Rightarrow> Some (r, s\<lparr>ss_tls := tls, ss_inbound := inbound\<rparr>))"

definition open_tunnel :: "('k, 'c, unit) step" where
  "open_tunnel s =
     Some (case bindE (ok_or (ss_keys s) NotReady) data_keys_for_client of
             Inl e \<Rightarrow> (Inl e, s)
           | Inr keys \<Rightarrow>
               (Inr (), s\<lparr>ss_data := Some (data_channel_new keys (Option.bind (ss_push s) pr_peer_id)
                                          (channel_key_id (ss_channel s)))\<rparr>))"

definition AUTH_FAILED :: str where
  "AUTH_FAILED = lit ''AUTH_FAILED''"

text \<open>\<open>From<String>\<close> of a message the code words itself.\<close>

definition receive_push_reply :: "('k, 'c, unit) step" where
  "receive_push_reply s =
     (if ss_phase s \<noteq> AwaitingPush \<or> ss_inbound s = [] then Some (Inr (), s)
      else case server_message_decode (ss_inbound s) of
        Inl (Truncated _) \<Rightarrow> Some (Inr (), s)
      | Inl e \<Rightarrow> Some (Inl e, s)
      | Inr (message, used) \<Rightarrow>
          let s = s\<lparr>ss_inbound := drop used (ss_inbound s)\<rparr> in
          case message of
            MsgKeyMethod2 _ \<Rightarrow>
              Some (Inl (UnexpectedControlMessage (lit ''key material after the exchange'')), s)
          | MsgControl text \<Rightarrow>
              (case strip_prefix AUTH_FAILED text of
                 Some detail \<Rightarrow> Some (Inl (AuthFailed detail), s)
               | None \<Rightarrow>
                   (case push_reply_parse text of
                      Inl e \<Rightarrow> Some (Inl e, s)
                    | Inr reply \<Rightarrow>
                        if \<not> compression_is_supported reply then
                          Some (Inl (UnsupportedCompression
                            (case pr_compression reply of Some c \<Rightarrow> c | None \<Rightarrow> [])), s)
                        else if \<not> cipher_is_supported reply then
                          Some (Inl (UnsupportedCipher
                            (case pr_cipher reply of Some c \<Rightarrow> c | None \<Rightarrow> [])), s)
                        else open_tunnel (s\<lparr>ss_push := Some reply, ss_phase := Ready\<rparr>))))"

text \<open>What a control message means where key material is expected.\<close>

definition refused_by_text :: "str \<Rightarrow> error" where
  "refused_by_text text =
     (case strip_prefix AUTH_FAILED text of
        Some detail \<Rightarrow> AuthFailed detail
      | None \<Rightarrow> UnexpectedControlMessage text)"

definition with_server_randoms :: "server_key_method2 \<Rightarrow> key_source2 \<Rightarrow> key_source2" where
  "with_server_randoms reply source =
     source\<lparr>server_random1 := sk_random1 reply, server_random2 := sk_random2 reply\<rparr>"

definition no_session_yet :: error where
  "no_session_yet = Tls (lit ''key material before a session id'')"

definition session_keys :: "('k, 'c) world \<Rightarrow> key_source2 \<Rightarrow> session_id \<Rightarrow> session_id \<Rightarrow> bytes option" where
  "session_keys w source local remote =
     key_expansion (w_md5 w) (w_sha1 w) source (sid_bytes local) (sid_bytes remote)"

definition receive_their_key_material :: "('k, 'c) world \<Rightarrow> ('k, 'c, unit) step" where
  "receive_their_key_material w s =
     (if ss_phase s \<noteq> AwaitingKeys then Some (Inr (), s)
      else case server_message_decode (ss_inbound s) of
        Inl (Truncated _) \<Rightarrow> Some (Inr (), s)
      | Inl e \<Rightarrow> Some (Inl e, s)
      | Inr (MsgControl message, used) \<Rightarrow>
          Some (Inl (refused_by_text message), s\<lparr>ss_inbound := drop used (ss_inbound s)\<rparr>)
      | Inr (MsgKeyMethod2 reply, used) \<Rightarrow>
          let s = s\<lparr>ss_source := with_server_randoms reply (ss_source s)\<rparr> in
          (case cc_remote_session (ss_channel s) of
             None \<Rightarrow> Some (Inl no_session_yet, s)
           | Some server_session \<Rightarrow>
               (case session_keys w (ss_source s) (cc_local_session (ss_channel s)) server_session of
                  None \<Rightarrow> None
                | Some keys \<Rightarrow>
                    receive_push_reply
                      (s\<lparr>ss_keys := Some keys, ss_inbound := drop used (ss_inbound s),
                         ss_phase := AwaitingPush\<rparr>))))"

section \<open>Renegotiation\<close>

text \<open>\<open>source\<close> is the random material of the new generation, should one begin.\<close>

definition begin_renegotiation :: "('k, 'c) world \<Rightarrow> key_source2 \<Rightarrow> ('k, 'c, unit) step" where
  "begin_renegotiation w source s =
     Some (case pending_key_id (ss_channel s) of
             None \<Rightarrow> (Inr (), s)
           | Some k \<Rightarrow>
               if (case ss_renegotiation s of Some pending \<Rightarrow> rn_key_id pending = k | None \<Rightarrow> False)
               then (Inr (), s)
               else
                 (case tls_connect (w_tls w) (ss_tls_config s) of
                    Inl m \<Rightarrow> (Inl (Tls m), s)
                  | Inr tls \<Rightarrow>
                      (Inr (), s\<lparr>ss_renegotiation := Some
                         \<lparr>rn_key_id = k, rn_tls = tls, rn_outbox = [], rn_source = source,
                          rn_inbound = [], rn_sent_key_material = False\<rparr>\<rparr>)))"

text \<open>The client's half of the new exchange, once.\<close>

definition renegotiation_sends :: "('k, 'c) world \<Rightarrow> 'c renegotiation \<Rightarrow> ('k, 'c, unit) step" where
  "renegotiation_sends w pending s =
     (if \<not> tls_is_handshaking (w_tls w) (rn_tls pending) \<and> \<not> rn_sent_key_material pending then
        (case client_encode (key_material_message (rn_source pending) (ss_credentials s)) of
           Inl e \<Rightarrow> Some (Inl e, s)
         | Inr message \<Rightarrow>
             (case tls_writer (w_tls w) message (rn_tls pending) of
                (Inl m, tls) \<Rightarrow> Some (Inl (Tls m), s\<lparr>ss_renegotiation := Some (pending\<lparr>rn_tls := tls\<rparr>)\<rparr>)
              | (Inr _, tls) \<Rightarrow>
                  Some (Inr (), s\<lparr>ss_renegotiation :=
                    Some (pending\<lparr>rn_tls := tls, rn_sent_key_material := True\<rparr>)\<rparr>)))
      else Some (Inr (), s))"

definition renegotiation_drains :: "('k, 'c) world \<Rightarrow> 'c renegotiation \<Rightarrow> ('k, 'c, unit) step" where
  "renegotiation_drains w pending s =
     (case read_plaintext (w_tls w) (rn_tls pending) (rn_inbound pending) of
        None \<Rightarrow> None
      | Some (r, tls, inbound) \<Rightarrow>
          Some (r, s\<lparr>ss_renegotiation := Some (pending\<lparr>rn_tls := tls, rn_inbound := inbound\<rparr>)\<rparr>))"

text \<open>Everything swaps at once.\<close>

definition take_over :: "'c renegotiation \<Rightarrow> nat \<Rightarrow> bytes \<Rightarrow> ('k, 'c, unit) step" where
  "take_over pending used keys s =
     (let s = s\<lparr>ss_renegotiation := None, ss_channel := promote (ss_channel s), ss_tls := rn_tls pending,
                ss_outbox := rn_outbox pending, ss_source := rn_source pending,
                ss_inbound := drop used (rn_inbound pending), ss_keys := Some keys,
                ss_previous_data := ss_data s, ss_data := None\<rparr>
      in if ss_previous_data s \<noteq> None then open_tunnel s else Some (Inr (), s))"

definition renegotiation_finishes :: "('k, 'c) world \<Rightarrow> 'c renegotiation \<Rightarrow> ('k, 'c, unit) step" where
  "renegotiation_finishes w pending s =
     (case server_message_decode (rn_inbound pending) of
        Inl (Truncated _) \<Rightarrow> Some (Inr (), s)
      | Inl e \<Rightarrow> Some (Inl e, s)
      | Inr (MsgControl text, used) \<Rightarrow>
          Some (Inl (refused_by_text text),
                s\<lparr>ss_renegotiation := Some (pending\<lparr>rn_inbound := drop used (rn_inbound pending)\<rparr>)\<rparr>)
      | Inr (MsgKeyMethod2 reply, used) \<Rightarrow>
          let pending = pending\<lparr>rn_source := with_server_randoms reply (rn_source pending)\<rparr>;
              s = s\<lparr>ss_renegotiation := Some pending\<rparr>
          in case cc_remote_session (ss_channel s) of
               None \<Rightarrow> Some (Inl no_session_yet, s)
             | Some remote \<Rightarrow>
                 (case session_keys w (rn_source pending) (cc_local_session (ss_channel s)) remote of
                    None \<Rightarrow> None
                  | Some keys \<Rightarrow> take_over pending used keys s))"

text \<open>A step of the renegotiation, if there is one.\<close>

definition renegotiating :: "('c renegotiation \<Rightarrow> ('k, 'c, unit) step) \<Rightarrow> ('k, 'c, unit) step" where
  "renegotiating f s = (case ss_renegotiation s of None \<Rightarrow> Some (Inr (), s) | Some pending \<Rightarrow> f pending s)"

definition advance_renegotiation :: "('k, 'c) world \<Rightarrow> ('k, 'c, unit) step" where
  "advance_renegotiation w =
     step_then (renegotiating (renegotiation_sends w))
       (step_then (renegotiating (renegotiation_drains w))
          (renegotiating (renegotiation_finishes w)))"

section \<open>Handling a datagram\<close>

text \<open>One record goes to the TLS connection of its generation.\<close>

definition feed_record :: "('k, 'c) world \<Rightarrow> key_id \<Rightarrow> bytes \<Rightarrow> ('k, 'c, unit) step" where
  "feed_record w k record s =
     (case ss_renegotiation s of
        Some pending \<Rightarrow>
          if rn_key_id pending = k then
            map_option (\<lambda>(r, tls). (r, s\<lparr>ss_renegotiation := Some (pending\<lparr>rn_tls := tls\<rparr>)\<rparr>))
              (feed_tls (w_tls w) record (rn_tls pending))
          else map_option (\<lambda>(r, tls). (r, s\<lparr>ss_tls := tls\<rparr>)) (feed_tls (w_tls w) record (ss_tls s))
      | None \<Rightarrow> map_option (\<lambda>(r, tls). (r, s\<lparr>ss_tls := tls\<rparr>)) (feed_tls (w_tls w) record (ss_tls s)))"

partial_function (option) feed_records :: "('k, 'c) world \<Rightarrow> ('k, 'c, unit) step" where
  "feed_records w s =
     (case poll_control (ss_channel s) of
        (None, channel) \<Rightarrow> Some (Inr (), s\<lparr>ss_channel := channel\<rparr>)
      | (Some (k, record), channel) \<Rightarrow>
          (case feed_record w k record (s\<lparr>ss_channel := channel\<rparr>) of
             None \<Rightarrow> None
           | Some (Inl e, s') \<Rightarrow> Some (Inl e, s')
           | Some (Inr _, s') \<Rightarrow> feed_records w s'))"

definition channel_takes :: "('k, 'c) world \<Rightarrow> bytes \<Rightarrow> ('k, 'c, unit) step" where
  "channel_takes w datagram s =
     (let (r, channel) = channel_handle (w_mac w) datagram (ss_channel s)
      in Some (r, s\<lparr>ss_channel := channel\<rparr>))"

definition session_handle :: "('k, 'c) world \<Rightarrow> bytes \<Rightarrow> key_source2 \<Rightarrow> ('k, 'c, unit) step" where
  "session_handle w datagram source s =
     (case ss_failure s of
        Some e \<Rightarrow> Some (Inl e, s\<lparr>ss_failure := None\<rparr>)
      | None \<Rightarrow>
          step_then (channel_takes w datagram)
            (step_then (feed_records w)
            (step_then (send_our_key_material w)
            (step_then (drain_plaintext w)
            (step_then (receive_their_key_material w)
            (step_then receive_push_reply
            (step_then (begin_renegotiation w source)
               (advance_renegotiation w))))))) s)"

end
