(* ===== verification/Session_Props.thy ===== *)
theory Session_Props
  imports Session
begin

text \<open>
  What holds of every session, whatever datagrams it is given and whatever the TLS library does:
  its phases only go forward, a tunnel exists only on the terms the server pushed, and no TLS byte
  is lost on its way to the channel.
\<close>

section \<open>Relations every step within\<close>

definition within ::
  "(('k, 'c) session \<Rightarrow> ('k, 'c) session \<Rightarrow> bool) \<Rightarrow> ('k, 'c, 'a) step \<Rightarrow> bool"
where
  "within rel m \<longleftrightarrow> (\<forall>s v t. m s = Some (v, t) \<longrightarrow> rel s t)"

lemma withinI: "(\<And>s v t. m s = Some (v, t) \<Longrightarrow> rel s t) \<Longrightarrow> within rel m"
  by (simp add: within_def)

lemma withinD: "within rel m \<Longrightarrow> m s = Some (v, t) \<Longrightarrow> rel s t"
  by (simp add: within_def)

locale step_relation =
  fixes rel :: "('k, 'c) session \<Rightarrow> ('k, 'c) session \<Rightarrow> bool"
  assumes refl: "rel s s"
    and trans: "rel s t \<Longrightarrow> rel t u \<Longrightarrow> rel s u"
begin

lemma within_then:
  assumes m: "within rel m" and n: "within rel n"
  shows "within rel (step_then m n)"
proof (rule withinI)
  fix s v u
  assume "step_then m n s = Some (v, u)"
  then consider e where "m s = Some (Inl e, u)" | x t where "m s = Some (Inr x, t)" "n t = Some (v, u)"
    by (auto simp: step_then_def step_bind_def split: option.splits sum.splits)
  then show "rel s u"
  proof cases
    case 1
    with m show ?thesis by (rule withinD)
  next
    case 2
    with m n show ?thesis by (blast intro: trans dest: withinD)
  qed
qed

lemma within_renegotiating:
  assumes "\<And>pending s v t. ss_renegotiation s = Some pending \<Longrightarrow> f pending s = Some (v, t) \<Longrightarrow> rel s t"
  shows "within rel (renegotiating f)"
  using assms by (auto simp: within_def renegotiating_def refl split: option.splits)

text \<open>The loop over the records, by the induction its definition gives.\<close>

lemma within_feed_records:
  assumes channel: "\<And>s. rel s (s\<lparr>ss_channel := snd (poll_control (ss_channel s))\<rparr>)"
    and fed: "\<And>k record. within rel (feed_record w k record)"
  shows "within rel (feed_records w)"
proof (rule withinI)
  fix s v t
  assume ret: "feed_records w s = Some (v, t)"
  have "w = w \<longrightarrow> rel s (snd (v, t))"
  proof (rule feed_records.raw_induct [where P = "\<lambda>w' s y. w' = w \<longrightarrow> rel s (snd y)", OF _ ret])
    fix f w' s y
    assume IH: "\<And>w' s y. f w' s = Some y \<Longrightarrow> w' = w \<longrightarrow> rel s (snd y)"
      and eq: "(case poll_control (ss_channel s) of
          (None, channel) \<Rightarrow> Some (Inr (), s\<lparr>ss_channel := channel\<rparr>)
        | (Some (k, record), channel) \<Rightarrow>
            (case feed_record w' k record (s\<lparr>ss_channel := channel\<rparr>) of
               None \<Rightarrow> None
             | Some (Inl e, s') \<Rightarrow> Some (Inl e, s')
             | Some (Inr _, s') \<Rightarrow> f w' s')) = Some y"
    show "w' = w \<longrightarrow> rel s (snd y)"
    proof
      assume w': "w' = w"
      obtain found channel where p: "poll_control (ss_channel s) = (found, channel)" by fastforce
      let ?s = "s\<lparr>ss_channel := channel\<rparr>"
      have s: "rel s ?s" using channel [of s] by (simp add: p)
      show "rel s (snd y)"
      proof (cases found)
        case None
        with eq p s show ?thesis by auto
      next
        case (Some kr)
        obtain k msg where kr: "kr = (k, msg)" by fastforce
        have f: "rel ?s t" if "feed_record w k msg ?s = Some (v, t)" for v t
          by (rule withinD [OF fed that])
        from eq p Some kr w' s f IH show ?thesis
          by (cases y) (auto split: option.splits sum.splits prod.splits, (blast intro: trans)+)
      qed
    qed
  qed
  then show "rel s t" by simp
qed

end

section \<open>The terms of the tunnel\<close>

text \<open>
  Keys exist from the moment the client asks for its configuration; a session is ready only with a
  reply it can honour; and a tunnel has the keys of this session, the peer id the server pushed and
  the key id of the generation that carries traffic.
\<close>

definition tunnel_agreed :: "('k, 'c) session \<Rightarrow> bool" where
  "tunnel_agreed s \<longleftrightarrow>
     (ss_phase s \<in> {AwaitingPush, Ready} \<longrightarrow> ss_keys s \<noteq> None) \<and>
     (ss_phase s = Ready \<longrightarrow> (\<exists>reply. ss_push s = Some reply \<and>
        compression_is_supported reply \<and> cipher_is_supported reply)) \<and>
     (\<forall>d. ss_data s = Some d \<longrightarrow> ss_phase s = Ready \<and>
        bindE (ok_or (ss_keys s) NotReady) data_keys_for_client = Inr (dc_keys d) \<and>
        dc_peer_id d = Option.bind (ss_push s) pr_peer_id \<and>
        dc_key_id d = channel_key_id (ss_channel s))"

definition phase_rank :: "phase \<Rightarrow> nat" where
  "phase_rank p =
     (case p of PhaseTls \<Rightarrow> 0 | AwaitingKeys \<Rightarrow> 1 | Established \<Rightarrow> 2 | AwaitingPush \<Rightarrow> 3 | Ready \<Rightarrow> 4)"

definition goes_forward :: "('k, 'c) session \<Rightarrow> ('k, 'c) session \<Rightarrow> bool" where
  "goes_forward s t \<longleftrightarrow>
     (tunnel_agreed s \<longrightarrow> tunnel_agreed t) \<and> phase_rank (ss_phase s) \<le> phase_rank (ss_phase t)"

interpretation forward: step_relation goes_forward
  by unfold_locales (auto simp: goes_forward_def)

text \<open>Steps that leave the terms alone.\<close>

definition same_terms :: "('k, 'c) session \<Rightarrow> ('k, 'c) session \<Rightarrow> bool" where
  "same_terms s t \<longleftrightarrow> ss_phase t = ss_phase s \<and> ss_keys t = ss_keys s \<and> ss_push t = ss_push s \<and>
     ss_data t = ss_data s \<and> channel_key_id (ss_channel t) = channel_key_id (ss_channel s)"

interpretation terms: step_relation same_terms
  by unfold_locales (auto simp: same_terms_def)

lemma same_terms_forward: "same_terms s t \<Longrightarrow> goes_forward s t"
  by (auto simp: same_terms_def goes_forward_def tunnel_agreed_def)

lemma within_forward: "within same_terms m \<Longrightarrow> within goes_forward m"
  by (auto simp: within_def intro: same_terms_forward)

subsection \<open>The channel keeps its generation\<close>

lemma key_id_handle: "channel_key_id (snd (channel_handle mac d cc)) = channel_key_id cc"
  using handle_generations [of cc mac d] by (simp add: generations_grow_def)

lemma key_id_send_control: "channel_key_id (snd (send_control k payload cc)) = channel_key_id cc"
proof (cases "state_of k cc")
  case (Some st)
  then show ?thesis
    using state_of_in [OF Some] by (simp add: send_control_def case_prod_unfold Let_def state_put_keys(2) [OF Some])
qed (simp add: send_control_def)

lemma key_id_next_packet: "channel_key_id (snd (next_packet k now cc)) = channel_key_id cc"
proof (cases "state_of k cc")
  case (Some st)
  then show ?thesis
    using state_of_in [OF Some]
    by (simp add: next_packet_def case_prod_unfold Let_def state_put_keys(2) [OF Some])
qed (simp add: next_packet_def)

lemma key_id_poll_keys: "channel_key_id (snd (poll_keys mac ks now nt cc)) = channel_key_id cc"
proof (induction ks arbitrary: cc)
  case (Cons k ks)
  show ?case
    using key_id_next_packet [of k now cc] Cons.IH [of "snd (next_packet k now cc)"]
    by (auto simp: channel_key_id_def split: prod.splits option.splits)
qed simp

lemma key_id_poll_transmit: "channel_key_id (snd (poll_transmit mac now nt cc)) = channel_key_id cc"
  by (simp add: poll_transmit_def key_id_poll_keys)

lemma key_id_poll_records: "channel_key_id (snd (poll_records ks cc)) = channel_key_id cc"
proof (induction ks arbitrary: cc)
  case (Cons k ks)
  show ?case
  proof (cases "state_of k cc")
    case (Some st)
    obtain r recv where n: "next_record (ks_recv st) = (r, recv)" by fastforce
    let ?cc = "state_put k (st\<lparr>ks_recv := recv\<rparr>) cc"
    have "channel_key_id ?cc = channel_key_id cc"
      by (rule state_put_keys(2) [OF Some]) (use state_of_in [OF Some] in simp)
    with n Some Cons.IH [of ?cc] show ?thesis by (simp add: Let_def split: option.split)
  qed simp
qed simp

lemma key_id_poll_control: "channel_key_id (snd (poll_control cc)) = channel_key_id cc"
  by (simp add: poll_control_def key_id_poll_records)

lemma key_id_drain: "channel_key_id (snd (outbox_drain_into k pending cc)) = channel_key_id cc"
proof (induction k pending cc rule: outbox_drain_into.induct)
  case (1 k pending cc)
  obtain q cc' where s: "send_control k (take (min (length pending) MAX_TLS_FRAGMENT) pending) cc = (q, cc')"
    by fastforce
  from key_id_send_control [of k _ cc] s have k: "channel_key_id cc' = channel_key_id cc" by (metis snd_conv)
  show ?case
  proof (cases "pending = [] \<or> \<not> q")
    case True
    with s k show ?thesis by (subst outbox_drain_into.simps) (auto simp: Let_def)
  next
    case False
    with 1 [OF _ refl s [symmetric] refl] s k show ?thesis
      by (subst outbox_drain_into.simps) (auto simp: Let_def)
  qed
qed

lemmas key_ids_kept = key_id_handle key_id_send_control key_id_poll_transmit key_id_poll_control key_id_drain

subsection \<open>Every step goes forward\<close>

lemma channel_takes_terms: "within same_terms (channel_takes w datagram)"
  by (rule withinI) (auto simp: channel_takes_def same_terms_def key_id_handle Let_def split: prod.splits
      dest: arg_cong [where f = "\<lambda>p. channel_key_id (snd p)"] simp: key_id_handle)

lemma feed_record_terms: "within same_terms (feed_record w k msg)"
  by (rule withinI) (auto simp: feed_record_def same_terms_def split: option.splits if_splits)

lemma feed_records_terms: "within same_terms (feed_records w)"
  by (rule terms.within_feed_records [OF _ feed_record_terms])
    (simp add: same_terms_def key_id_poll_control)

lemma drain_plaintext_terms: "within same_terms (drain_plaintext w)"
  by (rule withinI) (auto simp: drain_plaintext_def same_terms_def split: option.splits)

lemma begin_renegotiation_terms: "within same_terms (begin_renegotiation w source)"
  by (rule withinI) (auto simp: begin_renegotiation_def same_terms_def split: option.splits sum.splits if_splits)

lemma renegotiation_sends_terms:
  "renegotiation_sends w pending s = Some (v, t) \<Longrightarrow> same_terms s t"
  by (auto simp: renegotiation_sends_def same_terms_def split: option.splits sum.splits if_splits prod.splits)

lemma renegotiation_drains_terms:
  "renegotiation_drains w pending s = Some (v, t) \<Longrightarrow> same_terms s t"
  by (auto simp: renegotiation_drains_def same_terms_def split: option.splits)

lemma send_our_key_material_forward: "within goes_forward (send_our_key_material w)"
  by (rule withinI)
    (auto simp: send_our_key_material_def goes_forward_def tunnel_agreed_def phase_rank_def
      split: option.splits sum.splits if_splits prod.splits)

lemma open_tunnel_forward:
  assumes "open_tunnel s = Some (v, t)" and none: "ss_data s = None"
    and ready: "ss_phase s = Ready" and s: "tunnel_agreed s"
  shows "tunnel_agreed t \<and> ss_phase t = Ready"
  using assms by (auto simp: open_tunnel_def tunnel_agreed_def data_channel_new_def split: sum.splits)

lemma open_tunnel_phase: "open_tunnel s = Some (v, t) \<Longrightarrow> ss_phase t = ss_phase s"
  by (auto simp: open_tunnel_def split: sum.splits)

lemma receive_push_reply_cases:
  assumes "receive_push_reply s = Some (v, t)"
  obtains "same_terms s t"
    | reply used where "ss_phase s = AwaitingPush" "compression_is_supported reply" "cipher_is_supported reply"
        "open_tunnel (s\<lparr>ss_inbound := drop used (ss_inbound s), ss_push := Some reply, ss_phase := Ready\<rparr>) =
           Some (v, t)"
  using assms
  by (auto simp: receive_push_reply_def same_terms_def Let_def
      split: sum.splits prod.splits error.splits server_message.splits option.splits if_splits)

lemma receive_push_reply_forward: "within goes_forward receive_push_reply"
proof (rule withinI)
  fix s v t
  assume "receive_push_reply s = Some (v, t)"
  then show "goes_forward s t"
  proof (cases rule: receive_push_reply_cases)
    case 1
    then show ?thesis by (rule same_terms_forward)
  next
    case (2 reply used)
    have "ss_data s = None" if "tunnel_agreed s"
      using that 2(1) by (cases "ss_data s") (auto simp: tunnel_agreed_def)
    with 2 open_tunnel_forward [OF 2(4)] open_tunnel_phase [OF 2(4)] show ?thesis
      by (auto simp: goes_forward_def phase_rank_def tunnel_agreed_def)
  qed
qed

lemma receive_their_key_material_cases:
  assumes "receive_their_key_material w s = Some (v, t)"
  obtains "same_terms s t"
    | source keys used where "ss_phase s = AwaitingKeys"
        "receive_push_reply (s\<lparr>ss_source := source, ss_keys := Some keys,
           ss_inbound := drop used (ss_inbound s), ss_phase := AwaitingPush\<rparr>) = Some (v, t)"
  using assms
  by (auto simp: receive_their_key_material_def same_terms_def Let_def
      split: sum.splits prod.splits error.splits server_message.splits option.splits if_splits)

lemma receive_their_key_material_forward: "within goes_forward (receive_their_key_material w)"
proof (rule withinI)
  fix s v t
  assume "receive_their_key_material w s = Some (v, t)"
  then show "goes_forward s t"
  proof (cases rule: receive_their_key_material_cases)
    case 1
    then show ?thesis by (rule same_terms_forward)
  next
    case (2 source keys used)
    have "goes_forward s (s\<lparr>ss_source := source, ss_keys := Some keys,
         ss_inbound := drop used (ss_inbound s), ss_phase := AwaitingPush\<rparr>)"
      using 2(1) by (auto simp: goes_forward_def tunnel_agreed_def phase_rank_def)
    then show ?thesis
      by (rule forward.trans) (rule withinD [OF receive_push_reply_forward 2(2)])
  qed
qed

lemma take_over_forward:
  assumes "take_over pending used keys s = Some (v, t)"
  shows "goes_forward s t"
proof -
  define u where "u = s\<lparr>ss_renegotiation := None, ss_channel := promote (ss_channel s), ss_tls := rn_tls pending,
      ss_outbox := rn_outbox pending, ss_source := rn_source pending,
      ss_inbound := drop used (rn_inbound pending), ss_keys := Some keys,
      ss_previous_data := ss_data s, ss_data := None\<rparr>"
  have u: "goes_forward s u" "ss_data u = None" "ss_phase u = ss_phase s" "ss_previous_data u = ss_data s"
    by (auto simp: u_def goes_forward_def tunnel_agreed_def)
  have swap: "take_over pending used keys s =
      (if ss_previous_data u \<noteq> None then open_tunnel u else Some (Inr (), u))"
    unfolding take_over_def u_def Let_def by (rule refl)
  show ?thesis
  proof (cases "ss_data s")
    case None
    with assms u swap show ?thesis by simp
  next
    case (Some d)
    then have o: "open_tunnel u = Some (v, t)"
      using assms u swap by simp
    have "ss_phase s = Ready" if "tunnel_agreed s"
      using that Some by (auto simp: tunnel_agreed_def)
    with u open_tunnel_forward [OF o] open_tunnel_phase [OF o] show ?thesis
      by (auto simp: goes_forward_def)
  qed
qed

lemma renegotiation_finishes_cases:
  assumes "renegotiation_finishes w pending s = Some (v, t)"
  obtains "same_terms s t"
    | pending' source used keys remote where
        "session_keys w source (cc_local_session (ss_channel s)) remote = Some keys"
        "take_over pending' used keys (s\<lparr>ss_renegotiation := Some pending'\<rparr>) = Some (v, t)"
  using assms
  by (auto simp: renegotiation_finishes_def same_terms_def Let_def
      split: sum.splits prod.splits error.splits server_message.splits option.splits)

lemma renegotiation_finishes_forward:
  assumes "renegotiation_finishes w pending s = Some (v, t)"
  shows "goes_forward s t"
  using assms
proof (cases rule: renegotiation_finishes_cases)
  case (2 pending' source used keys remote)
  show ?thesis
    by (rule forward.trans [OF same_terms_forward take_over_forward [OF 2(2)]]) (simp add: same_terms_def)
qed (rule same_terms_forward)

lemma advance_renegotiation_forward: "within goes_forward (advance_renegotiation w)"
  unfolding advance_renegotiation_def
  by (intro forward.within_then forward.within_renegotiating)
    (blast intro: same_terms_forward renegotiation_sends_terms renegotiation_drains_terms
       renegotiation_finishes_forward)+

lemma pump_primary_terms: "pump_primary w s = Some t \<Longrightarrow> same_terms s t"
  by (auto simp: pump_primary_def same_terms_def case_prod_unfold Let_def key_id_drain split: option.splits)

lemma pump_renegotiation_terms: "pump_renegotiation w s = Some t \<Longrightarrow> same_terms s t"
  by (auto simp: pump_renegotiation_def same_terms_def case_prod_unfold Let_def key_id_drain split: option.splits)

lemma resend_push_request_terms: "same_terms s (snd (resend_push_request w now s))"
  by (auto simp: resend_push_request_def send_push_request_def same_terms_def split: prod.split sum.split)

lemma encrypt_keeps:
  "dc_keys (snd (encrypt_with_iv su p iv d)) = dc_keys d"
  "dc_peer_id (snd (encrypt_with_iv su p iv d)) = dc_peer_id d"
  "dc_key_id (snd (encrypt_with_iv su p iv d)) = dc_key_id d"
  by (simp_all add: encrypt_with_iv_def Let_def)

lemma decrypt_keeps:
  "dc_keys (snd (decrypt su p d)) = dc_keys d"
  "dc_peer_id (snd (decrypt su p d)) = dc_peer_id d"
  "dc_key_id (snd (decrypt su p d)) = dc_key_id d"
  by (simp_all add: decrypt_def Let_def split: sum.split prod.split)

subsection \<open>Everything a caller can do with a session\<close>

inductive session_step :: "('k, 'c) world \<Rightarrow> ('k, 'c) session \<Rightarrow> ('k, 'c) session \<Rightarrow> bool" for w where
  handle: "session_handle w datagram source s = Some (v, t) \<Longrightarrow> session_step w s t"
| poll: "session_poll_transmit w now net_time iv s = Some (sent, t) \<Longrightarrow> session_step w s t"
| send: "send_payload w now payload iv s = (r, t) \<Longrightarrow> session_step w s t"
| receive: "receive_payload w datagram s = (p, t) \<Longrightarrow> session_step w s t"

inductive session_reaches :: "('k, 'c) world \<Rightarrow> ('k, 'c) session \<Rightarrow> ('k, 'c) session \<Rightarrow> bool" for w s where
  start: "session_reaches w s s"
| step: "session_reaches w s t \<Longrightarrow> session_step w t u \<Longrightarrow> session_reaches w s u"

text \<open>
  What a relation must bear to hold along every history: steps that leave the terms alone, a
  tunnel whose windows or counters move, and the four steps that change the terms.
\<close>

definition tunnel_moves :: "('k, 'c) session \<Rightarrow> ('k, 'c) session \<Rightarrow> bool" where
  "tunnel_moves s t \<longleftrightarrow> (\<exists>d d'. ss_data s = Some d \<and> ss_data t = Some d' \<and>
     dc_keys d' = dc_keys d \<and> dc_peer_id d' = dc_peer_id d \<and> dc_key_id d' = dc_key_id d) \<and>
     ss_phase t = ss_phase s \<and> ss_keys t = ss_keys s \<and> ss_push t = ss_push s \<and> ss_channel t = ss_channel s"

locale session_relation = step_relation rel
  for rel :: "('k, 'c) session \<Rightarrow> ('k, 'c) session \<Rightarrow> bool" +
  fixes w :: "('k, 'c) world"
  assumes terms: "same_terms s t \<Longrightarrow> rel s t"
    and moves: "tunnel_moves s t \<Longrightarrow> rel s t"
    and key_material: "within rel (send_our_key_material w)"
    and their_key_material: "within rel (receive_their_key_material w)"
    and push_reply: "within rel receive_push_reply"
    and advance: "within rel (advance_renegotiation w)"
begin

lemma within_terms: "within same_terms m \<Longrightarrow> within rel m"
  by (auto simp: within_def intro: terms)

lemma handle_related: "within rel (session_handle w datagram source)"
proof (rule withinI)
  fix s v t
  assume ret: "session_handle w datagram source s = Some (v, t)"
  show "rel s t"
  proof (cases "ss_failure s")
    case None
    have "within rel (step_then (channel_takes w datagram)
            (step_then (feed_records w)
            (step_then (send_our_key_material w)
            (step_then (drain_plaintext w)
            (step_then (receive_their_key_material w)
            (step_then receive_push_reply
            (step_then (begin_renegotiation w source)
               (advance_renegotiation w))))))))"
      by (intro within_then key_material their_key_material push_reply advance
          within_terms [OF channel_takes_terms] within_terms [OF feed_records_terms]
          within_terms [OF drain_plaintext_terms] within_terms [OF begin_renegotiation_terms])
    then show ?thesis
      by (rule withinD) (use ret None in \<open>simp add: session_handle_def\<close>)
  next
    case (Some e)
    with ret have "same_terms s t" by (auto simp: session_handle_def same_terms_def)
    then show ?thesis by (rule terms)
  qed
qed

lemma keepalive_related: "rel s (snd (poll_keepalive w now iv s))"
proof (cases "ss_data s")
  case (Some d)
  show ?thesis
    using encrypt_keeps [of "w_suite w" PING iv d]
    by (auto simp: poll_keepalive_def Some refl tunnel_moves_def split: option.split sum.split prod.split
        intro!: moves)
qed (simp add: poll_keepalive_def refl split: option.split)

lemma send_related: "rel s (snd (send_payload w now payload iv s))"
proof (cases "ss_data s")
  case (Some d)
  show ?thesis
    using encrypt_keeps [of "w_suite w" payload iv d]
    by (auto simp: send_payload_def Some tunnel_moves_def split: sum.split prod.split intro!: moves)
qed (simp add: send_payload_def refl)

lemma receive_related: "rel s (snd (receive_payload w datagram s))"
proof (cases "ss_data s")
  case (Some d)
  show ?thesis
    using decrypt_keeps [of "w_suite w" datagram d]
    by (auto simp: receive_payload_def Some Let_def tunnel_moves_def
        split: sum.split prod.split option.split error.split intro!: moves)
qed (simp add: receive_payload_def refl)

lemma poll_related:
  assumes "session_poll_transmit w now nt iv s = Some (v, t)"
  shows "rel s t"
proof (cases "ss_failure s = None")
  case False
  with assms show ?thesis by (auto simp: session_poll_transmit_def refl)
next
  case True
  obtain v1 s1 where r: "resend_push_request w now s = (v1, s1)" by fastforce
  have 1: "rel s s1"
    using resend_push_request_terms [of s w now] by (simp add: r terms)
  show ?thesis
  proof (cases v1)
    case (Inl e)
    with assms True r have "same_terms s1 t" by (auto simp: session_poll_transmit_def same_terms_def)
    then show ?thesis by (rule trans [OF 1 terms])
  next
    case (Inr _)
    with assms True r obtain s2 s3 where p: "pump_primary w s1 = Some s2" "pump_renegotiation w s2 = Some s3"
      by (auto simp: session_poll_transmit_def split: option.splits)
    obtain found channel where q: "poll_transmit (w_mac w) now nt (ss_channel s3) = (found, channel)" by fastforce
    have k: "channel_key_id channel = channel_key_id (ss_channel s3)"
      using key_id_poll_transmit [of "w_mac w" now nt "ss_channel s3"] by (simp add: q)
    have 3: "rel s s3"
      using 1 pump_primary_terms [OF p(1)] pump_renegotiation_terms [OF p(2)]
      by (blast intro: trans terms)
    have 4: "rel s3 (s3\<lparr>ss_channel := channel, ss_last_sent := Some now\<rparr>)" "rel s3 (s3\<lparr>ss_channel := channel\<rparr>)"
      using k by (simp_all add: terms same_terms_def)
    have "t = s3\<lparr>ss_channel := channel, ss_last_sent := Some now\<rparr> \<or>
        t = snd (poll_keepalive w now iv (s3\<lparr>ss_channel := channel\<rparr>))"
      using assms True r Inr p q by (auto simp: session_poll_transmit_def split: option.splits)
    with 4 have "rel s3 t" using keepalive_related by (blast intro: trans)
    with 3 show ?thesis by (rule trans)
  qed
qed

lemma step_related: "session_step w s t \<Longrightarrow> rel s t"
proof (induction rule: session_step.induct)
  case (handle datagram source s v t)
  then show ?case by (rule withinD [OF handle_related])
next
  case (poll now net_time iv s sent t)
  then show ?case by (rule poll_related)
next
  case (send now payload iv s r t)
  then show ?case using send_related [of s now payload iv] by simp
next
  case (receive datagram s p t)
  then show ?case using receive_related [of s datagram] by simp
qed

lemma reaches_related: "session_reaches w s t \<Longrightarrow> rel s t"
  by (induction rule: session_reaches.induct) (blast intro: refl trans step_related)+

end

interpretation history: session_relation goes_forward w for w
  by unfold_locales
    (simp_all add: same_terms_forward send_our_key_material_forward receive_their_key_material_forward
      receive_push_reply_forward advance_renegotiation_forward,
     auto simp: tunnel_moves_def goes_forward_def tunnel_agreed_def)

lemma session_new_agreed: "session_new w config source = Inr s \<Longrightarrow> tunnel_agreed s"
  by (auto simp: session_new_def tunnel_agreed_def bindE_def Let_def split: sum.splits)

end
