(* ===== verification/Session_Safety.thy ===== *)
theory Session_Safety
  imports Session_Props
begin

text \<open>
  The properties of the session: the terms of its tunnel, the TLS bytes on their way to the
  channel, the moments it asks to be woken at, and what a rotation of the keys does to the tunnel.
\<close>

section \<open>A session to evaluate with\<close>

text \<open>A TLS library whose connections say nothing and hear everything.\<close>

definition quiet_tls :: "(unit, bytes list) tls_ops" where
  "quiet_tls =
     \<lparr>tls_setup = \<lambda>_. Inr (), tls_connect = \<lambda>_. Inr [], tls_is_handshaking = \<lambda>c. c = [],
      tls_wants_write = \<lambda>c. c \<noteq> [], tls_write = \<lambda>c. (Inr (concat c), []),
      tls_read = \<lambda>bs c. (Inr (length bs), c), tls_process = \<lambda>c. (Inr (), c),
      tls_reader = \<lambda>c. (Inl None, c), tls_writer = \<lambda>bs c. (Inr (), c @ [bs])\<rparr>"

definition sample_world :: "(unit, bytes list) world" where
  "sample_world =
     \<lparr>w_tls = quiet_tls, w_mac = sample_mac, w_suite = sample_suite,
      w_md5 = sample_hmac 16, w_sha1 = sample_hmac 20\<rparr>"

definition sample_config :: session_config where
  "sample_config = session_config_new (sample_sid 1) [] [] sample_static_key"

definition sample_session :: "(unit, bytes list) session" where
  "sample_session = projr (session_new sample_world sample_config key_source2_default)"

lemma sample_session_new:
  "session_new sample_world sample_config key_source2_default = Inr sample_session"
  by (simp add: sample_session_def session_new_def sample_world_def quiet_tls_def Let_def map_err_def)

section \<open>The tunnel is the one the server pushed\<close>

text \<open>
  C1. Whatever the network, the TLS library and the caller do, and in whatever order: a session
  carries a tunnel only once it is ready, on a push reply whose cipher and compression it can
  honour, under the keys of its key exchange, with the peer id the server pushed and the key id of
  the generation that carries traffic; and its phase never goes back.
\<close>

theorem tunnel_only_as_pushed:
  assumes "session_new w config source = Inr s0" and "session_reaches w s0 s"
  shows "(\<forall>d. ss_data s = Some d \<longrightarrow> ss_phase s = Ready \<and>
       (\<exists>reply keys. ss_push s = Some reply \<and> compression_is_supported reply \<and> cipher_is_supported reply \<and>
          ss_keys s = Some keys \<and> data_keys_for_client keys = Inr (dc_keys d) \<and>
          dc_peer_id d = pr_peer_id reply \<and> dc_key_id d = channel_key_id (ss_channel s))) \<and>
     (\<forall>t. session_reaches w s t \<longrightarrow> phase_rank (ss_phase s) \<le> phase_rank (ss_phase t))"
proof (intro conjI)
  have "tunnel_agreed s"
    using session_new_agreed [OF assms(1)] history.reaches_related [OF assms(2)]
    by (simp add: goes_forward_def)
  then show "\<forall>d. ss_data s = Some d \<longrightarrow> ss_phase s = Ready \<and>
     (\<exists>reply keys. ss_push s = Some reply \<and> compression_is_supported reply \<and> cipher_is_supported reply \<and>
        ss_keys s = Some keys \<and> data_keys_for_client keys = Inr (dc_keys d) \<and>
        dc_peer_id d = pr_peer_id reply \<and> dc_key_id d = channel_key_id (ss_channel s))"
    by (auto simp: tunnel_agreed_def)
  show "\<forall>t. session_reaches w s t \<longrightarrow> phase_rank (ss_phase s) \<le> phase_rank (ss_phase t)"
    using history.reaches_related by (auto simp: goes_forward_def)
qed

theorem tunnel_only_as_pushed_witness:
  "\<exists>t. session_reaches sample_world sample_session t \<and> ss_failure t = None \<and>
     phase_rank (ss_phase sample_session) \<le> phase_rank (ss_phase t)"
proof -
  have "send_payload sample_world 5 [1] [] sample_session = (Inl NotReady, sample_session)"
    by (simp add: send_payload_def sample_session_def session_new_def sample_world_def quiet_tls_def Let_def
        map_err_def)
  then have r: "session_reaches sample_world sample_session sample_session"
    by (blast intro: session_reaches.intros session_step.intros)
  show ?thesis
    using tunnel_only_as_pushed [OF sample_session_new r] r
    by (intro exI [of _ sample_session])
      (simp add: sample_session_def session_new_def sample_world_def quiet_tls_def Let_def map_err_def)
qed

section \<open>TLS bytes on their way to the channel\<close>

text \<open>A run of \<open>send_control\<close> in which every fragment is taken.\<close>

fun sends_all :: "key_id \<Rightarrow> bytes list \<Rightarrow> control_channel \<Rightarrow> control_channel option" where
  "sends_all k [] cc = Some cc"
| "sends_all k (f # fs) cc =
     (let (taken, cc') = send_control k f cc in if taken then sends_all k fs cc' else None)"

lemma send_control_taken: "fst (send_control k payload cc) \<longleftrightarrow> can_send_for k cc"
proof -
  have "state_of k cc = find (\<lambda>s. ks_key_id s = k) (states cc)"
    by (simp add: state_of_def states_def split: option.split)
  then show ?thesis
    by (simp add: send_control_def can_send_for_def sw_queue_def Let_def case_prod_unfold split: option.split)
qed

lemma send_control_refused: "\<not> can_send_for k cc \<Longrightarrow> send_control k payload cc = (False, cc)"
  using send_control_taken [of k payload cc]
  by (auto simp: send_control_def sw_queue_def Let_def case_prod_unfold state_put_same split: option.splits if_splits)

text \<open>
  No TLS byte is lost or reordered on its way to the channel: what the outbox held is, in
  order, the fragments the channel has taken, each at least one byte and at most a datagram's
  worth, followed by what still waits; and bytes wait only while that generation's window is full.
\<close>

theorem tls_bytes_reach_channel_whole:
  assumes "outbox_drain_into k pending cc = (waiting, cc')"
  shows "\<exists>fragments. pending = concat fragments @ waiting \<and>
     (\<forall>f \<in> set fragments. 0 < length f \<and> length f \<le> MAX_TLS_FRAGMENT) \<and>
     sends_all k fragments cc = Some cc' \<and> (waiting \<noteq> [] \<longrightarrow> \<not> can_send_for k cc')"
  using assms
proof (induction k pending cc arbitrary: waiting cc' rule: outbox_drain_into.induct)
  case (1 k pending cc)
  let ?n = "min (length pending) MAX_TLS_FRAGMENT"
  obtain q cc1 where s: "send_control k (take ?n pending) cc = (q, cc1)" by fastforce
  show ?case
  proof (cases "pending = []")
    case True
    with 1(2) show ?thesis
      by (intro exI [of _ "[]"]) (auto simp: outbox_drain_into.simps)
  next
    case False
    show ?thesis
    proof (cases q)
      case True
      with 1(2) False s have d: "outbox_drain_into k (drop ?n pending) cc1 = (waiting, cc')"
        by (subst (asm) outbox_drain_into.simps) (simp add: Let_def)
      from 1(1) [OF False refl s [symmetric] refl _ d] True obtain fs where fs:
        "drop ?n pending = concat fs @ waiting" "\<forall>f \<in> set fs. 0 < length f \<and> length f \<le> MAX_TLS_FRAGMENT"
        "sends_all k fs cc1 = Some cc'" "waiting \<noteq> [] \<longrightarrow> \<not> can_send_for k cc'"
        by auto
      have n: "0 < ?n" using False by (simp add: MAX_TLS_FRAGMENT_def CONTROL_MTU_def CONTROL_OVERHEAD_def)
      have "pending = concat (take ?n pending # fs) @ waiting"
        using fs(1) by (metis append_take_drop_id append_assoc concat.simps(2))
      with fs s True n show ?thesis
        by (intro exI [of _ "take ?n pending # fs"]) auto
    next
      case q: False
      then have "\<not> can_send_for k cc" using s send_control_taken [of k "take ?n pending" cc] by simp
      moreover from this have "waiting = pending" "cc' = cc"
        using 1(2) False send_control_refused [of k cc]
        by (simp_all add: outbox_drain_into.simps [of k pending cc] Let_def)
      ultimately show ?thesis by (intro exI [of _ "[]"]) simp
    qed
  qed
qed

theorem tls_bytes_reach_channel_whole_witness:
  "\<exists>fragments waiting cc'. outbox_drain_into (KeyId 0) [1, 2, 3] opened_channel = (waiting, cc') \<and>
     [1, 2, 3] = concat fragments @ waiting \<and> sends_all (KeyId 0) fragments opened_channel = Some cc'"
proof -
  obtain waiting cc' where d: "outbox_drain_into (KeyId 0) [1, 2, 3] opened_channel = (waiting, cc')" by fastforce
  from tls_bytes_reach_channel_whole [OF this] d show ?thesis by blast
qed

section \<open>Waking up\<close>

lemma drain_blocked: "\<not> can_send_for k cc \<Longrightarrow> outbox_drain_into k pending cc = (pending, cc)"
  by (subst outbox_drain_into.simps) (simp add: send_control_refused Let_def)

lemma drain_nothing: "outbox_drain_into k [] cc = ([], cc)"
  by (simp add: outbox_drain_into.simps)

lemma pump_out_idle: "\<not> tls_wants_write ops tls \<Longrightarrow> pump_out ops tls outbox = Some (tls, outbox)"
  by (simp add: pump_out.simps)

text \<open>What a poll hands out other than through TLS depends on these alone.\<close>

definition same_sources :: "('k, 'c) session \<Rightarrow> ('k, 'c) session \<Rightarrow> bool" where
  "same_sources s t \<longleftrightarrow> ss_channel t = ss_channel s \<and> ss_data t = ss_data s \<and> ss_push t = ss_push s \<and>
     ss_last_sent t = ss_last_sent s \<and> ss_failure t = ss_failure s"

lemma pump_primary_idle:
  assumes "pump_primary w s = Some t"
    and "\<not> (can_send (ss_channel s) \<and> (tls_wants_write (w_tls w) (ss_tls s) \<or> ss_outbox s \<noteq> []))"
  shows "same_sources s t \<and> ss_renegotiation t = ss_renegotiation s"
proof (cases "can_send (ss_channel s)")
  case True
  with assms show ?thesis by (auto simp: pump_primary_def pump_out_idle drain_nothing same_sources_def)
next
  case False
  then have "\<not> can_send_for (channel_key_id (ss_channel s)) (ss_channel s)"
    by (simp add: can_send_def channel_key_id_def)
  with assms(1) show ?thesis
    by (auto simp: pump_primary_def drain_blocked same_sources_def split: option.splits)
qed

lemma pump_renegotiation_idle:
  assumes "pump_renegotiation w s = Some t"
    and "\<And>pending. ss_renegotiation s = Some pending \<Longrightarrow> \<not> (can_send_for (rn_key_id pending) (ss_channel s) \<and>
       (tls_wants_write (w_tls w) (rn_tls pending) \<or> rn_outbox pending \<noteq> []))"
  shows "same_sources s t"
proof (cases "ss_renegotiation s")
  case None
  with assms(1) show ?thesis by (simp add: pump_renegotiation_def same_sources_def)
next
  case (Some pending)
  note idle = assms(2) [OF Some]
  show ?thesis
  proof (cases "can_send_for (rn_key_id pending) (ss_channel s)")
    case True
    with assms(1) idle Some show ?thesis
      by (auto simp: pump_renegotiation_def pump_out_idle drain_nothing same_sources_def)
  next
    case False
    with assms(1) Some show ?thesis
      by (auto simp: pump_renegotiation_def drain_blocked same_sources_def split: option.splits)
  qed
qed

lemma keepalive_was_due:
  assumes "poll_keepalive w now iv s = (Some d, t)" and "\<And>u. ss_last_sent s = Some u \<Longrightarrow> u \<le> now"
    and "asked \<le> now"
  shows "\<exists>u. keepalive_due asked s = Some u \<and> u \<le> now"
  using assms by (fastforce simp: poll_keepalive_def keepalive_due_def split: option.splits if_splits)

lemma keepalive_due_same:
  "ss_push t = ss_push s \<Longrightarrow> ss_data t = ss_data s \<Longrightarrow> ss_last_sent t = ss_last_sent s \<Longrightarrow>
    keepalive_due now t = keepalive_due now s"
  unfolding keepalive_due_def by (simp only:)

lemma resend_idle:
  assumes "ss_phase s = AwaitingPush \<longrightarrow> ss_push_requested_at s \<noteq> None \<and> ss_push_first_requested_at s \<noteq> None"
    and "\<And>u. push_retry_due s = Some u \<Longrightarrow> now < u"
  shows "resend_push_request w now s = (Inr (), s)"
proof (cases "ss_phase s = AwaitingPush")
  case True
  with assms(1) obtain a b where "ss_push_requested_at s = Some a" "ss_push_first_requested_at s = Some b" by auto
  with True assms(2) show ?thesis
    by (auto simp: resend_push_request_def push_retry_due_def PUSH_REQUEST_INTERVAL_def PUSH_REQUEST_TIMEOUT_def
        secs_def)
qed (simp add: resend_push_request_def)

text \<open>What it takes for the session, asked at \<open>asked\<close>, not to ask to be woken by \<open>tm\<close>.\<close>

definition not_woken :: "('k, 'c) world \<Rightarrow> instant \<Rightarrow> instant \<Rightarrow> ('k, 'c) session \<Rightarrow> bool" where
  "not_woken w asked tm s \<longleftrightarrow> asked \<le> tm \<and> (\<forall>u. session_next_wakeup w asked s = Some u \<longrightarrow> tm < u)"

lemma not_woken_at_once: "not_woken w asked tm s \<Longrightarrow> session_next_wakeup w asked s \<noteq> Some asked"
  by (auto simp: not_woken_def dest: leD)

lemma not_woken_primary:
  "not_woken w asked tm s \<Longrightarrow>
    \<not> (can_send (ss_channel s) \<and> (tls_wants_write (w_tls w) (ss_tls s) \<or> ss_outbox s \<noteq> []))"
  by (rule notI) (drule not_woken_at_once, simp add: session_next_wakeup_def)

lemma not_woken_other:
  "not_woken w asked tm s \<Longrightarrow> ss_renegotiation s = Some pending \<Longrightarrow>
    \<not> (can_send_for (rn_key_id pending) (ss_channel s) \<and>
       (tls_wants_write (w_tls w) (rn_tls pending) \<or> rn_outbox pending \<noteq> []))"
  by (rule notI) (drule not_woken_at_once, simp add: session_next_wakeup_def split: if_splits)

lemma not_woken_later:
  assumes quiet: "not_woken w asked tm s"
    and u: "Some u \<in> {channel_next_wakeup asked (ss_channel s), keepalive_due asked s, push_retry_due s}"
  shows "tm < u"
proof -
  let ?dues = "List.map_filter (\<lambda>t. t) [channel_next_wakeup asked (ss_channel s), keepalive_due asked s, push_retry_due s]"
  have wake: "session_next_wakeup w asked s = min_option ?dues"
    using not_woken_primary [OF quiet] not_woken_other [OF quiet]
    by (auto simp: session_next_wakeup_def split: option.split)
  have u: "u \<in> set ?dues" using u by (auto simp: map_filter_def dest: sym)
  then obtain m where m: "min_option ?dues = Some m" by (cases "min_option ?dues") auto
  then have "m \<le> u" using u by (auto simp: min_option_Some intro: Min_le)
  moreover have "tm < m" using quiet wake m by (simp add: not_woken_def)
  ultimately show ?thesis by simp
qed

text \<open>
  C34. A caller that sleeps until the session's wakeup misses nothing. Ask the session at any moment
  when to come back, leave it alone, and let there be a datagram to send or a failure to keep at
  a later moment (or at the same one): the answer was a time, and no later than that moment. So
  an answer of nothing means that nothing will be due, and nothing becomes due before the time
  given. This covers TLS bytes of both handshakes, the windows and acknowledgements of
  both generations, the push request and its deadline, and the keepalive. The clock must not go
  back, and the first push request must be out: until then it is sent on the next poll, whoever
  causes it.
\<close>

theorem session_wakeup_misses_nothing:
  assumes poll: "session_poll_transmit w now nt iv s = Some (sent, t)"
    and something: "sent \<noteq> None \<or> ss_failure t \<noteq> ss_failure s"
    and earlier: "asked_at \<le> now"
    and asked: "ss_phase s = AwaitingPush \<longrightarrow>
      ss_push_requested_at s \<noteq> None \<and> ss_push_first_requested_at s \<noteq> None"
    and clock: "\<And>u. ss_last_sent s = Some u \<Longrightarrow> u \<le> now"
  shows "\<exists>u. session_next_wakeup w asked_at s = Some u \<and> u \<le> now"
proof (rule ccontr)
  assume not: "\<not> ?thesis"
  then have quiet: "not_woken w asked_at now s" using earlier unfolding not_woken_def by (blast intro: leI)
  note primary = not_woken_primary [OF quiet] and other = not_woken_other [OF quiet]
    and later = not_woken_later [OF quiet]
  have r: "resend_push_request w now s = (Inr (), s)"
    by (rule resend_idle [OF asked]) (use later in auto)
  have ok: "ss_failure s = None"
    using poll something by (auto simp: session_poll_transmit_def split: if_splits)
  obtain s1 s2 where p: "pump_primary w s = Some s1" "pump_renegotiation w s1 = Some s2"
    using poll ok r by (auto simp: session_poll_transmit_def split: option.splits)
  from pump_primary_idle [OF p(1) primary] have 1: "same_sources s s1" "ss_renegotiation s1 = ss_renegotiation s"
    by auto
  have "same_sources s1 s2"
    by (rule pump_renegotiation_idle [OF p(2)]) (use 1 other in \<open>auto simp: same_sources_def\<close>)
  with 1 have same: "same_sources s s2" by (simp add: same_sources_def)
  obtain found channel where q: "poll_transmit (w_mac w) now nt (ss_channel s2) = (found, channel)" by fastforce
  have "found = None"
  proof (rule ccontr)
    assume "found \<noteq> None"
    then obtain d where "poll_transmit (w_mac w) now nt (ss_channel s) = (Some d, channel)"
      using q same by (auto simp: same_sources_def)
    from poll_transmit_had_work [OF this] channel_wakeup_work [of asked_at "ss_channel s"] earlier obtain u
      where "channel_next_wakeup asked_at (ss_channel s) = Some u" "u \<le> now"
      unfolding wakes_def by (auto split: option.splits simp: not_less [symmetric])
    with later show False by fastforce
  qed
  with poll ok r p q have k: "poll_keepalive w now iv (s2\<lparr>ss_channel := channel\<rparr>) = (sent, t)"
    by (simp add: session_poll_transmit_def)
  moreover have "sent = None"
  proof (rule ccontr)
    assume "sent \<noteq> None"
    then obtain d where "poll_keepalive w now iv (s2\<lparr>ss_channel := channel\<rparr>) = (Some d, t)" using k by auto
    from keepalive_was_due [OF this _ earlier] same clock obtain u where
      "keepalive_due asked_at (s2\<lparr>ss_channel := channel\<rparr>) = Some u" "u \<le> now"
      by (auto simp: same_sources_def)
    moreover have "keepalive_due asked_at (s2\<lparr>ss_channel := channel\<rparr>) = keepalive_due asked_at s"
      by (rule keepalive_due_same) (use same in \<open>simp_all add: same_sources_def\<close>)
    ultimately show False using later by fastforce
  qed
  moreover have "ss_failure t = ss_failure s2"
    using k by (auto simp: poll_keepalive_def split: option.splits if_splits sum.splits prod.splits)
  ultimately show False using something same by (simp add: same_sources_def)
qed

lemma sample_session_fields:
  "ss_channel sample_session =
     channel_open (channel_new (tls_auth_new sample_static_key Inverse) (sample_sid 1) (secs 2))"
  "ss_tls sample_session = []" "ss_outbox sample_session = []" "ss_renegotiation sample_session = None"
  "ss_phase sample_session = PhaseTls" "ss_failure sample_session = None" "ss_last_sent sample_session = None"
  "ss_data sample_session = None" "ss_push sample_session = None"
  by (simp_all add: sample_session_def session_new_def sample_world_def quiet_tls_def Let_def map_err_def
      sample_config_def session_config_new_def)

theorem session_wakeup_misses_nothing_witness:
  "\<exists>d t u. session_poll_transmit sample_world 5 7 [] sample_session = Some (Some d, t) \<and>
     session_next_wakeup sample_world 3 sample_session = Some u \<and> u \<le> 5"
proof -
  let ?cc = "ss_channel sample_session"
  have r: "channel_reachable sample_mac (tls_auth_new sample_static_key Inverse) (sample_sid 1) (secs 2) ?cc"
    unfolding sample_session_fields by (rule ReachStep [OF ReachNew StepOpen])
  have "\<exists>s \<in> set (states ?cc). has_work 5 s"
    by (rule bexI [of _ "cc_primary ?cc"])
      (simp_all add: states_def sample_session_fields has_work_def channel_open_def channel_new_def
        key_state_new_def sw_queue_def sw_new_def sw_is_full_def sw_next_due_def is_due_def
        SEND_CAPACITY_def bt_keys_def)
  then have "fst (poll_transmit sample_mac 5 7 ?cc) \<noteq> None"
    unfolding poll_transmit_work [OF channel_reachable_ok [OF r sample_sid_ok]] .
  then obtain d cc where "poll_transmit sample_mac 5 7 ?cc = (Some d, cc)"
    by (metis option.exhaust prod.collapse)
  then obtain t where p: "session_poll_transmit sample_world 5 7 [] sample_session = Some (Some d, t)"
    by (auto simp: session_poll_transmit_def resend_push_request_def pump_primary_def pump_renegotiation_def
        pump_out_idle drain_nothing sample_session_fields sample_world_def quiet_tls_def)
  have "\<exists>u. session_next_wakeup sample_world 3 sample_session = Some u \<and> u \<le> 5"
    by (rule session_wakeup_misses_nothing [OF p]) (simp_all add: sample_session_fields)
  with p show ?thesis by blast
qed

end
