(* ===== verification/Session_Rotation.thy ===== *)
theory Session_Rotation
  imports Session_Safety
begin

text \<open>
  What a rotation of the keys does to the tunnel: it is replaced and never lost, and packets still
  in flight under the old keys are still read.
\<close>

section \<open>The tunnel is never lost\<close>

definition keeps_tunnel :: "('k, 'c) session \<Rightarrow> ('k, 'c) session \<Rightarrow> bool" where
  "keeps_tunnel s t \<longleftrightarrow> (ss_data s \<noteq> None \<longrightarrow> ss_data t \<noteq> None)"

interpretation tunnel: step_relation keeps_tunnel
  by unfold_locales (auto simp: keeps_tunnel_def)

lemma same_terms_tunnel: "same_terms s t \<Longrightarrow> keeps_tunnel s t"
  by (simp add: same_terms_def keeps_tunnel_def)

lemma within_tunnel: "within same_terms m \<Longrightarrow> within keeps_tunnel m"
  by (auto simp: within_def intro: same_terms_tunnel)

lemma send_our_key_material_tunnel: "within keeps_tunnel (send_our_key_material w)"
  by (rule withinI)
    (auto simp: send_our_key_material_def keeps_tunnel_def split: option.splits sum.splits if_splits prod.splits)

lemma open_tunnel_keeps: "open_tunnel s = Some (v, t) \<Longrightarrow> keeps_tunnel s t"
  by (auto simp: open_tunnel_def keeps_tunnel_def split: sum.splits)

lemma receive_push_reply_tunnel: "within keeps_tunnel receive_push_reply"
proof (rule withinI)
  fix s v t
  assume "receive_push_reply s = Some (v, t)"
  then show "keeps_tunnel s t"
    by (cases rule: receive_push_reply_cases)
      (auto dest: open_tunnel_keeps simp: keeps_tunnel_def same_terms_def)
qed

lemma receive_their_key_material_tunnel: "within keeps_tunnel (receive_their_key_material w)"
proof (rule withinI)
  fix s v t
  assume "receive_their_key_material w s = Some (v, t)"
  then show "keeps_tunnel s t"
    by (cases rule: receive_their_key_material_cases)
      (auto dest: withinD [OF receive_push_reply_tunnel] simp: keeps_tunnel_def same_terms_def)
qed

text \<open>With 256 bytes of keys a rotation always opens the new tunnel.\<close>

lemma take_over_opens:
  assumes "take_over pending used keys s = Some (v, t)" "256 \<le> length keys" "ss_data s = Some old"
  shows "\<exists>new. v = Inr () \<and> ss_data t = Some new \<and> dc_key_id new = channel_key_id (ss_channel t) \<and>
     dc_peer_id new = Option.bind (ss_push s) pr_peer_id \<and> data_keys_for_client keys = Inr (dc_keys new) \<and>
     ss_previous_data t = Some old \<and> ss_renegotiation t = None \<and> ss_keys t = Some keys"
proof -
  from assms(2) obtain dk where dk: "data_keys_for_client keys = Inr dk"
    by (simp add: data_keys_for_client_def data_keys_split_def Let_def)
  from assms(1,3) dk show ?thesis
    by (auto simp: take_over_def open_tunnel_def data_channel_new_def Let_def split: sum.splits)
qed

lemma take_over_returns: "\<exists>v t. take_over pending used keys s = Some (v, t)"
  by (auto simp: take_over_def open_tunnel_def Let_def split: sum.split)

lemma session_keys_length:
  assumes "tag_len (w_md5 w) l" "tag_len (w_sha1 w) l'" "session_keys w source a b = Some keys"
  shows "length keys = 256"
  using assms(3) length_rfc_prf [OF assms(1,2)]
  by (auto simp: session_keys_def key_expansion_def tls1_prf_spec [OF assms(1,2)])

text \<open>The laws of the two HMACs, under which key derivation returns.\<close>

definition world_ok :: "('k, 'c) world \<Rightarrow> bool" where
  "world_ok w \<longleftrightarrow> (\<exists>l. tag_len (w_md5 w) l) \<and> (\<exists>l. tag_len (w_sha1 w) l)"

lemma renegotiation_finishes_tunnel:
  assumes ok: "world_ok w" and ret: "renegotiation_finishes w pending s = Some (v, t)"
  shows "keeps_tunnel s t"
  using ret
proof (cases rule: renegotiation_finishes_cases)
  case 1
  then show ?thesis by (rule same_terms_tunnel)
next
  case (2 pending' source used keys remote)
  have "length keys = 256"
    using ok session_keys_length [OF _ _ 2(1)] unfolding world_ok_def by blast
  with take_over_opens [OF 2(2)] show ?thesis
    by (cases "ss_data s") (auto simp: keeps_tunnel_def)
qed

lemma advance_renegotiation_tunnel: "world_ok w \<Longrightarrow> within keeps_tunnel (advance_renegotiation w)"
  unfolding advance_renegotiation_def
  by (intro tunnel.within_then tunnel.within_renegotiating)
    (blast intro: same_terms_tunnel renegotiation_sends_terms renegotiation_drains_terms
       renegotiation_finishes_tunnel)+

text \<open>A world that keeps the laws, and the history of a tunnel in it.\<close>

lemma tunnel_history: "world_ok w \<Longrightarrow> session_relation keeps_tunnel w"
  by unfold_locales
    (simp_all add: same_terms_tunnel send_our_key_material_tunnel receive_their_key_material_tunnel
      receive_push_reply_tunnel advance_renegotiation_tunnel,
     auto simp: tunnel_moves_def keeps_tunnel_def)

text \<open>
  C32. A tunnel is never lost: once a session carries one, every later state of that session
  carries one, rotations of the keys, failed exchanges and refused datagrams included. Keys are
  derived with HMACs whose tags have a fixed length.
\<close>

theorem tunnel_never_lost:
  assumes "world_ok w" and "session_reaches w s t" and "ss_data s \<noteq> None"
  shows "ss_data t \<noteq> None"
  using session_relation.reaches_related [OF tunnel_history [OF assms(1)] assms(2)] assms(3)
  by (simp add: keeps_tunnel_def)

section \<open>Packets in flight across a rotation\<close>

lemma data_open_other_key:
  assumes "data_open su old d = Inr ip" and "dc_key_id old \<noteq> dc_key_id new"
  shows "data_open su new d = Inl (OtherKeyId (dc_key_id old) (dc_key_id new))"
  using assms
  by (auto simp: data_open_def Let_def bindE_def split: list.splits sum.splits if_splits)

text \<open>
  A rotation of the keys loses no packet in flight: once it has taken over, the new tunnel runs
  on the new keys, under the key id of the promoted generation and with the peer id the server
  pushed, and a datagram that the old tunnel would have read as a payload is still read as that
  payload, unless the peer's two generations share a key id.
\<close>

theorem rotation_reads_packets_in_flight:
  assumes "take_over pending used keys s = Some (v, t)" and "256 \<le> length keys"
    and "ss_data s = Some old"
    and "fst (decrypt (w_suite w) datagram old) = Inr payload" and "payload \<noteq> PING"
    and "dc_key_id old \<noteq> channel_key_id (ss_channel t)"
  shows "\<exists>new. v = Inr () \<and> ss_data t = Some new \<and> data_keys_for_client keys = Inr (dc_keys new) \<and>
     dc_key_id new = channel_key_id (ss_channel t) \<and>
     dc_peer_id new = Option.bind (ss_push s) pr_peer_id \<and>
     fst (receive_payload w datagram t) = Inr (Some payload)"
proof -
  obtain new where new: "v = Inr ()" "ss_data t = Some new" "dc_key_id new = channel_key_id (ss_channel t)"
    "dc_peer_id new = Option.bind (ss_push s) pr_peer_id" "data_keys_for_client keys = Inr (dc_keys new)"
    "ss_previous_data t = Some old"
    using take_over_opens [OF assms(1-3)] by blast
  obtain ip where ip: "data_open (w_suite w) old datagram = Inr ip"
    using assms(4) by (auto simp: decrypt_def split: sum.splits)
  have "dc_key_id old \<noteq> dc_key_id new" using assms(6) new(3) by simp
  from data_open_other_key [OF ip this]
  have "decrypt (w_suite w) datagram new = (Inl (OtherKeyId (dc_key_id old) (dc_key_id new)), new)"
    by (simp add: decrypt_def)
  then have "fst (receive_payload w datagram t) = Inr (Some payload)"
    using new(2,6) assms(4,5) by (auto simp: receive_payload_def Let_def case_prod_unfold)
  with new show ?thesis by blast
qed

text \<open>A session with a tunnel, and a packet in flight.\<close>

definition sample_tunnel :: data_channel where
  "sample_tunnel = data_channel_new (projr (data_keys_for_client sample_expansion)) (Some (PeerId 3)) (KeyId 0)"

definition sample_ready :: "(unit, bytes list) session" where
  "sample_ready = sample_session\<lparr>ss_data := Some sample_tunnel, ss_phase := Ready,
     ss_channel := (ss_channel sample_session)\<lparr>cc_pending := Some (key_state_new (KeyId 1) 2)\<rparr>\<rparr>"

definition sample_pending :: "bytes list renegotiation" where
  "sample_pending = \<lparr>rn_key_id = KeyId 1, rn_tls = [], rn_outbox = [], rn_source = key_source2_default,
     rn_inbound = [], rn_sent_key_material = True\<rparr>"

definition sample_in_flight :: bytes where
  "sample_in_flight = data_wire sample_suite
     (data_channel_new (projr (data_keys_for_server sample_expansion)) (Some (PeerId 3)) (KeyId 0))
     1 (replicate 16 1) [7, 7]"

theorem rotation_reads_packets_in_flight_witness:
  "\<exists>t. take_over sample_pending 0 sample_expansion sample_ready = Some (Inr (), t) \<and>
     fst (receive_payload sample_world sample_in_flight t) = Inr (Some [7, 7])"
proof -
  obtain v t where o: "take_over sample_pending 0 sample_expansion sample_ready = Some (v, t)"
    using take_over_returns by blast
  have len: "256 \<le> length sample_expansion" by (simp add: sample_expansion_def)
  have d: "ss_data sample_ready = Some sample_tunnel" by (simp add: sample_ready_def)
  have opened: "fst (decrypt (w_suite sample_world) sample_in_flight sample_tunnel) = Inr [7, 7]"
    by code_simp
  have k: "dc_key_id sample_tunnel \<noteq> channel_key_id (ss_channel t)"
    using o by (auto simp: take_over_def open_tunnel_def Let_def sample_ready_def sample_tunnel_def
        data_channel_new_def promote_def channel_key_id_def key_state_new_def split: sum.splits if_splits)
  have "[7, 7] \<noteq> PING" by (simp add: PING_def)
  from rotation_reads_packets_in_flight [OF o len d opened this k] o show ?thesis by blast
qed

theorem tunnel_never_lost_witness:
  "\<exists>t. fst (send_payload sample_world 5 [7, 7] (replicate 16 1) sample_ready) = Inr t \<and>
     ss_data (snd (send_payload sample_world 5 [7, 7] (replicate 16 1) sample_ready)) \<noteq> None"
proof -
  let ?r = "send_payload sample_world 5 [7, 7] (replicate 16 1) sample_ready"
  have ok: "world_ok sample_world"
    unfolding world_ok_def
    by (intro conjI exI [of _ 16] exI [of _ 20]) (simp_all add: sample_world_def tag_len_def sample_hmac_def)
  have "session_reaches sample_world sample_ready (snd ?r)"
    by (rule session_reaches.step [OF session_reaches.start session_step.send [OF prod.collapse [symmetric]]])
  from tunnel_never_lost [OF ok this] have "ss_data (snd ?r) \<noteq> None" by (simp add: sample_ready_def)
  moreover have "\<exists>t. fst ?r = Inr t"
    by (simp add: send_payload_def sample_ready_def sample_tunnel_def data_channel_new_def encrypt_with_iv_def)
  ultimately show ?thesis by blast
qed

section \<open>A keepalive that can no longer be sent\<close>

text \<open>
  Once a tunnel has used up its packet ids its keepalives fail, and the failure is dropped: the
  session says it is overdue to send one, for good, and a poll sends nothing and changes nothing.
\<close>

lemma exhausted_keepalive_never_settles:
  assumes "ss_data s = Some d" and "dc_next_packet_id d = 0xffffffff" and "Option.bind (ss_push s) pr_ping = Some interval"
    and "ss_last_sent s = Some sent" and "sent + interval \<le> now"
  shows "poll_keepalive w now iv s = (None, s)" and "keepalive_due now s = Some (sent + interval)"
proof -
  have "encrypt_with_iv (w_suite w) PING iv d = (Inl PacketIdExhausted, d)"
    using assms(2) by (simp add: encrypt_with_iv_def Let_def)
  then show "poll_keepalive w now iv s = (None, s)"
    using assms by (cases s) (simp add: poll_keepalive_def)
  show "keepalive_due now s = Some (sent + interval)"
    using assms by (simp add: keepalive_due_def)
qed

end
