(* ===== verification/Ip.thy ===== *)
theory Ip
  imports Text
begin

text \<open>
  What address the tunnel end has, \<open>ip.rs\<close>: the second address of \<open>ifconfig\<close> is a netmask if its
  bits are a run of ones followed by zeros, and the peer of a four-address block otherwise.
\<close>

record ifconfig =
  ifc_address :: ipv4
  ifc_prefix :: u8

text \<open>\<open>u32::leading_ones\<close>, and \<open>checked_shl\<close>, which is \<open>None\<close> from the width on.\<close>

definition leading_ones :: "u32 \<Rightarrow> nat" where
  "leading_ones w = length (takeWhile (\<lambda>n. bit w n) (rev [0..<32]))"

definition checked_shl :: "u32 \<Rightarrow> nat \<Rightarrow> u32 option" where
  "checked_shl w n = (if n < 32 then Some (push_bit n w) else None)"

definition prefix_of_netmask :: "ipv4 \<Rightarrow> u8 option" where
  "prefix_of_netmask bits =
     (let ones = leading_ones bits in
      if ones = 0 \<or> (case checked_shl bits ones of Some s \<Rightarrow> s | None \<Rightarrow> 0) \<noteq> 0 then None
      else Some (of_nat ones))"

definition ifconfig_from_push :: "ipv4 \<Rightarrow> ipv4 \<Rightarrow> ifconfig" where
  "ifconfig_from_push address second =
     (case prefix_of_netmask second of
        Some prefix \<Rightarrow> \<lparr>ifc_address = address, ifc_prefix = prefix\<rparr>
      | None \<Rightarrow> \<lparr>ifc_address = address, ifc_prefix = 30\<rparr>)"

text \<open>The netmask of a prefix: that many ones from the top.\<close>

definition netmask :: "nat \<Rightarrow> ipv4" where
  "netmask p = push_bit (32 - p) (mask p)"

lemma bit_netmask: "p \<le> 32 \<Longrightarrow> n < 32 \<Longrightarrow> bit (netmask p) n \<longleftrightarrow> 32 - p \<le> n"
  by (auto simp: netmask_def bit_simps)

lemma leading_ones_le: "leading_ones w \<le> 32"
  using length_takeWhile_le [of "\<lambda>n. bit w n" "rev [0..<32]"] by (simp add: leading_ones_def)

lemma leading_ones_bits:
  "n < leading_ones w \<Longrightarrow> bit w (31 - n)"
  "leading_ones w < 32 \<Longrightarrow> \<not> bit w (31 - leading_ones w)"
proof -
  let ?xs = "rev [0..<32 :: nat]"
  have nth: "?xs ! n = 31 - n" if "n < 32" for n
    using that by (simp add: rev_nth)
  { assume n: "n < leading_ones w"
    then have "takeWhile (\<lambda>n. bit w n) ?xs ! n = ?xs ! n"
      unfolding leading_ones_def by (rule takeWhile_nth)
    moreover have "takeWhile (\<lambda>n. bit w n) ?xs ! n \<in> set (takeWhile (\<lambda>n. bit w n) ?xs)"
      using n unfolding leading_ones_def by (rule nth_mem)
    ultimately have "bit w (?xs ! n)" using set_takeWhileD by metis
    then show "bit w (31 - n)" using n leading_ones_le [of w] nth [of n] by simp }
  assume l: "leading_ones w < 32"
  then have "\<not> bit w (?xs ! leading_ones w)"
    unfolding leading_ones_def by (intro nth_length_takeWhile) simp
  then show "\<not> bit w (31 - leading_ones w)" using nth [OF l] by simp
qed

lemma leading_ones_bit: "32 - leading_ones w \<le> n \<Longrightarrow> n < 32 \<Longrightarrow> bit w n"
  using leading_ones_bits(1) [of "31 - n" w] leading_ones_le [of w] by simp

lemma leading_ones_netmask:
  assumes "p \<le> 32"
  shows "leading_ones (netmask p) = p"
proof (rule ccontr)
  let ?l = "leading_ones (netmask p)"
  assume "?l \<noteq> p"
  then consider "?l < p" | "p < ?l" by linarith
  then show False
  proof cases
    case 1
    then have "\<not> bit (netmask p) (31 - ?l)" using leading_ones_bits(2) assms by simp
    with 1 assms show False by (simp add: bit_netmask)
  next
    case 2
    then have "bit (netmask p) (31 - p)" by (rule leading_ones_bits(1))
    with 2 assms leading_ones_le [of "netmask p"] show False by (simp add: bit_netmask)
  qed
qed

lemma only_leading_ones:
  assumes "p = leading_ones w" "case checked_shl w p of Some s \<Rightarrow> s = 0 | None \<Rightarrow> True"
  shows "w = netmask p"
proof (rule bit_word_eqI)
  fix n assume n: "n < LENGTH(32)"
  have p: "p \<le> 32" using leading_ones_le assms(1) by simp
  show "bit w n = bit (netmask p) n"
  proof (cases "32 - p \<le> n")
    case True
    with n p assms(1) show ?thesis by (simp add: bit_netmask leading_ones_bit)
  next
    case False
    have "\<not> bit w n"
    proof (cases "p < 32")
      case True
      then have "push_bit p w = 0" using assms(2) by (simp add: checked_shl_def)
      then have "\<not> bit (push_bit p w) (n + p)" by simp
      with False show ?thesis by (simp add: bit_simps)
    qed (use False p in simp)
    with False n p show ?thesis by (simp add: bit_netmask)
  qed
qed

section \<open>Property\<close>

text \<open>
  Masks and peers are told apart exactly: the prefix length is \<open>p\<close> precisely for the address
  of \<open>p\<close> ones followed by zeros, with \<open>p\<close> from 1 to 32, and every other second address, all
  zeros included, makes a block of prefix 30. The address is always kept.
\<close>

theorem netmask_prefix_exact:
  "(prefix_of_netmask m = Some p \<longleftrightarrow> 1 \<le> unat p \<and> unat p \<le> 32 \<and> m = netmask (unat p)) \<and>
   ifc_address (ifconfig_from_push a m) = a \<and>
   ifc_prefix (ifconfig_from_push a m) =
     (if \<exists>k. 1 \<le> k \<and> k \<le> 32 \<and> m = netmask k then of_nat (leading_ones m) else 30)"
proof -
  have eq: "prefix_of_netmask m =
      (if \<exists>k. 1 \<le> k \<and> k \<le> 32 \<and> m = netmask k then Some (of_nat (leading_ones m)) else None)"
  proof (cases "\<exists>k. 1 \<le> k \<and> k \<le> 32 \<and> m = netmask k")
    case True
    then obtain k where k: "1 \<le> k" "k \<le> 32" "m = netmask k" by blast
    have "push_bit k m = 0" if "k < 32"
      by (rule bit_word_eqI) (use k that in \<open>auto simp: bit_simps bit_netmask\<close>)
    with k leading_ones_netmask [of k] True show ?thesis
      by (simp add: prefix_of_netmask_def checked_shl_def)
  next
    case False
    then have "leading_ones m = 0 \<or> \<not> (case checked_shl m (leading_ones m) of Some s \<Rightarrow> s = 0 | None \<Rightarrow> True)"
      using only_leading_ones [OF refl, of m] leading_ones_le [of m] by (metis One_nat_def Suc_leI neq0_conv)
    then have "prefix_of_netmask m = None"
      by (auto simp: prefix_of_netmask_def Let_def split: option.splits)
    with False show ?thesis by simp
  qed
  have "prefix_of_netmask m = Some p \<longleftrightarrow> 1 \<le> unat p \<and> unat p \<le> 32 \<and> m = netmask (unat p)"
  proof
    assume "prefix_of_netmask m = Some p"
    then obtain k where "1 \<le> k" "k \<le> 32" "m = netmask k" "p = of_nat (leading_ones m)"
      unfolding eq by (auto split: if_splits)
    then show "1 \<le> unat p \<and> unat p \<le> 32 \<and> m = netmask (unat p)"
      using leading_ones_netmask [of k] by (simp add: unat_of_nat)
  next
    assume m: "1 \<le> unat p \<and> unat p \<le> 32 \<and> m = netmask (unat p)"
    then have "leading_ones m = unat p" using leading_ones_netmask by blast
    then show "prefix_of_netmask m = Some p" unfolding eq using m by auto
  qed
  with eq show ?thesis by (auto simp: ifconfig_from_push_def)
qed

end
