(* ===== verification/Driver.thy ===== *)
theory Driver
  imports Session_Safety Ip
begin

text \<open>
  The driver of a tunnel (\<open>driver.rs\<close>): the loop that gives a session its socket, its clock and its
  caller. What happens between two turns of the loop (a datagram, an error of the socket, a
  payload of the caller, a timeout) is an event, and every reading of the clock is an argument. The
  socket only takes datagrams: whether it sends them is not observable, because no failure to
  send ends the tunnel.
\<close>

section \<open>Constants\<close>

definition CONNECT_TIMEOUT :: duration where
  "CONNECT_TIMEOUT = secs 30"

definition IDLE_POLL :: duration where
  "IDLE_POLL = 100000000"

definition SOCKET_BUFFER :: nat where
  "SOCKET_BUFFER = 4 * 1024 * 1024"

definition buffer_request :: "nat \<Rightarrow> nat option" where
  "buffer_request current = (if current < SOCKET_BUFFER then Some SOCKET_BUFFER else None)"

text \<open>The loop's buffer: a longer datagram is cut by the socket.\<close>

definition RECEIVE_BUFFER :: nat where
  "RECEIVE_BUFFER = 4096"

section \<open>State and events\<close>

datatype io_kind =
    ConnectionRefused | ConnectionReset | HostUnreachable | NetworkUnreachable | TimedOut | OtherIo

record io_error =
  io_error_kind :: io_kind
  io_error_text :: bytes

definition is_transient :: "io_error \<Rightarrow> bool" where
  "is_transient e \<longleftrightarrow> io_error_kind e \<in>
     {ConnectionRefused, ConnectionReset, HostUnreachable, NetworkUnreachable, TimedOut}"

text \<open>
  The variables of \<open>run\<close>. \<open>dr_told\<close> is what the caller of \<open>connect\<close> was told through the one-shot
  channel \<open>ready\<close>, \<open>dr_failure\<close> the \<open>LinkFailure\<close>; \<open>dr_sent\<close> and \<open>dr_delivered\<close> record what went to
  the socket and to the caller.
\<close>

record ('k, 'c) driver =
  dr_session :: "('k, 'c) session"
  dr_last_heard :: instant
  dr_told :: "(error + ifconfig option) option"
  dr_failure :: "error option"
  dr_sent :: "bytes list"
  dr_delivered :: "bytes list"

text \<open>The outcome of \<open>try_send\<close> to the caller.\<close>

datatype offered = Taken | CallerBehind | NobodyReading

datatype event =
    Received instant bytes key_source2 offered
  | ReceiveFailed io_error
  | Outbound instant bytes bytes
  | CallerGone
  | Slept

text \<open>
  One turn: for each pass of the inner loop its clock, the net time and the initialisation vector
  should it need one, then when the peer's silence is measured, and what the wait ends with.
\<close>

record tick =
  tk_polls :: "nat \<Rightarrow> instant \<times> u32 \<times> bytes"
  tk_measured :: instant
  tk_event :: event

definition driver_new :: "instant \<Rightarrow> ('k, 'c) session \<Rightarrow> ('k, 'c) driver" where
  "driver_new now s =
     \<lparr>dr_session = s, dr_last_heard = now, dr_told = None, dr_failure = None, dr_sent = [], dr_delivered = []\<rparr>"

section \<open>A turn of the loop\<close>

partial_function (option) transmit ::
  "('k, 'c) world \<Rightarrow> (nat \<Rightarrow> instant \<times> u32 \<times> bytes) \<Rightarrow> nat \<Rightarrow> ('k, 'c) driver \<Rightarrow> ('k, 'c) driver option"
where
  "transmit w polls n d =
     (let (now, net_time, iv) = polls n in
      case session_poll_transmit w now net_time iv (dr_session d) of
        None \<Rightarrow> None
      | Some (sent, s) \<Rightarrow>
          (case sent of
             None \<Rightarrow> Some (d\<lparr>dr_session := s\<rparr>)
           | Some datagram \<Rightarrow>
               transmit w polls (Suc n) (d\<lparr>dr_session := s, dr_sent := dr_sent d @ [datagram]\<rparr>)))"

text \<open>A one-shot channel carries one value.\<close>

definition tell :: "error + ifconfig option \<Rightarrow> ('k, 'c) driver \<Rightarrow> ('k, 'c) driver" where
  "tell r d = (case dr_told d of None \<Rightarrow> d\<lparr>dr_told := Some r\<rparr> | Some _ \<Rightarrow> d)"

definition pushed_ifconfig :: "('k, 'c) session \<Rightarrow> ifconfig option" where
  "pushed_ifconfig s =
     Option.bind (ss_push s) (\<lambda>reply. map_option (\<lambda>(address, second). ifconfig_from_push address second) (pr_ifconfig reply))"

definition announce :: "('k, 'c) driver \<Rightarrow> ('k, 'c) driver" where
  "announce d =
     (if session_is_ready (dr_session d) then tell (Inr (pushed_ifconfig (dr_session d))) d else d)"

definition peer_gone :: "instant \<Rightarrow> ('k, 'c) driver \<Rightarrow> error option" where
  "peer_gone now d =
     (case session_peer_timeout (dr_session d) of
        Some limit \<Rightarrow> if now - dr_last_heard d \<ge> limit then Some (PeerGone limit) else None
      | None \<Rightarrow> None)"

text \<open>How long the wait lasts at most, from two readings of the clock.\<close>

definition wait_at_most :: "('k, 'c) world \<Rightarrow> instant \<Rightarrow> instant \<Rightarrow> ('k, 'c) session \<Rightarrow> duration" where
  "wait_at_most w asked read s =
     min (case session_next_wakeup w asked s of Some at \<Rightarrow> at - read | None \<Rightarrow> IDLE_POLL)
         (max IDLE_POLL (secs 1))"

definition heard :: "('k, 'c) world \<Rightarrow> bytes \<Rightarrow> key_source2 \<Rightarrow> offered \<Rightarrow> ('k, 'c) driver \<Rightarrow>
  ((error + unit) \<times> ('k, 'c) driver) option"
where
  "heard w datagram source offered d =
     (if is_data datagram then
        (case receive_payload w datagram (dr_session d) of
           (Inr None, s) \<Rightarrow> Some (Inr (), d\<lparr>dr_session := s\<rparr>)
         | (Inr (Some payload), s) \<Rightarrow>
             (case offered of
                Taken \<Rightarrow> Some (Inr (), d\<lparr>dr_session := s, dr_delivered := dr_delivered d @ [payload]\<rparr>)
              | CallerBehind \<Rightarrow> Some (Inr (), d\<lparr>dr_session := s\<rparr>)
              | NobodyReading \<Rightarrow> Some (Inl (Io (lit ''nobody is reading the tunnel'')), d\<lparr>dr_session := s\<rparr>))
         | (Inl e, s) \<Rightarrow> Some (if is_fatal e then Inl e else Inr (), d\<lparr>dr_session := s\<rparr>))
      else
        (case session_handle w datagram source (dr_session d) of
           None \<Rightarrow> None
         | Some (Inl e, s) \<Rightarrow> Some (if is_fatal e then Inl e else Inr (), d\<lparr>dr_session := s\<rparr>)
         | Some (Inr _, s) \<Rightarrow> Some (Inr (), d\<lparr>dr_session := s\<rparr>)))"

fun on_event :: "('k, 'c) world \<Rightarrow> event \<Rightarrow> ('k, 'c) driver \<Rightarrow> ((error + unit) \<times> ('k, 'c) driver) option" where
  "on_event w (Received now datagram source offered) d =
     heard w (take RECEIVE_BUFFER datagram) source offered (d\<lparr>dr_last_heard := now\<rparr>)"
| "on_event w (ReceiveFailed e) d = Some (if is_transient e then Inr () else Inl (Io (io_error_text e)), d)"
| "on_event w (Outbound now payload iv) d =
     (case send_payload w now payload iv (dr_session d) of
        (Inr datagram, s) \<Rightarrow> Some (Inr (), d\<lparr>dr_session := s, dr_sent := dr_sent d @ [datagram]\<rparr>)
      | (Inl e, s) \<Rightarrow> Some (if is_fatal e then Inl e else Inr (), d\<lparr>dr_session := s\<rparr>))"
| "on_event w CallerGone d = Some (Inl (Io (lit ''the tunnel was dropped'')), d)"
| "on_event w Slept d = Some (Inr (), d)"

text \<open>\<open>Inl\<close> is the loop's \<open>break\<close>.\<close>

definition turn :: "('k, 'c) world \<Rightarrow> tick \<Rightarrow> ('k, 'c) driver \<Rightarrow> ((error + unit) \<times> ('k, 'c) driver) option" where
  "turn w t d =
     (case transmit w (tk_polls t) 0 d of
        None \<Rightarrow> None
      | Some d \<Rightarrow>
          (case ss_failure (dr_session d) of
             Some e \<Rightarrow> Some (Inl e, d)
           | None \<Rightarrow>
               let d = announce d in
               (case peer_gone (tk_measured t) d of
                  Some e \<Rightarrow> Some (Inl e, d)
                | None \<Rightarrow> on_event w (tk_event t) d)))"

text \<open>\<open>break_with\<close> and \<open>finish\<close>; the first reason of a \<open>LinkFailure\<close> stands.\<close>

definition finish :: "error \<Rightarrow> ('k, 'c) driver \<Rightarrow> ('k, 'c) driver" where
  "finish e d =
     (tell (Inl e) d)\<lparr>dr_failure := (case dr_failure d of Some first \<Rightarrow> Some first | None \<Rightarrow> Some e)\<rparr>"

text \<open>The loop over the turns there are; \<open>Some e\<close> when it has ended, with its reason.\<close>

fun run :: "('k, 'c) world \<Rightarrow> tick list \<Rightarrow> ('k, 'c) driver \<Rightarrow> (error option \<times> ('k, 'c) driver) option" where
  "run w [] d = Some (None, d)"
| "run w (t # ts) d =
     (case turn w t d of
        None \<Rightarrow> None
      | Some (Inl e, d) \<Rightarrow> Some (Some e, finish e d)
      | Some (Inr _, d) \<Rightarrow> run w ts d)"

section \<open>What the caller of \<open>connect\<close> gets\<close>

text \<open>How the wait for \<open>ready\<close> ends: the task told something, ended without a word, or neither in
  time.\<close>

datatype answer = Told "error + ifconfig option" | TaskStopped | NoAnswer

definition connect_outcome :: "answer \<Rightarrow> error + ifconfig option" where
  "connect_outcome a =
     (case a of
        Told r \<Rightarrow> r
      | TaskStopped \<Rightarrow> Inl (Io (lit ''the tunnel task stopped''))
      | NoAnswer \<Rightarrow> Inl HandshakeTimeout)"

definition why_it_stopped :: "error option \<Rightarrow> error" where
  "why_it_stopped failure =
     (case failure of Some e \<Rightarrow> e | None \<Rightarrow> Io (lit ''the tunnel has stopped''))"

text \<open>\<open>share\<close>, up to the pump: the address the connections get, or why there can be none.\<close>

definition share :: "ifconfig option \<Rightarrow> error option \<Rightarrow> error + ifconfig" where
  "share ifconfig failure =
     bindE (ok_or ifconfig (Io (lit ''the server pushed no address for us''))) (\<lambda>ifconfig.
     case failure of Some stopped \<Rightarrow> Inl stopped | None \<Rightarrow> Inr ifconfig)"

section \<open>The session inside the loop\<close>

text \<open>Every step of the loop is a step a session's owner may take.\<close>

lemma transmit_induct:
  assumes ret: "transmit w polls n d = Some d'"
    and refl: "\<And>d. P d d"
    and step: "\<And>now nt iv d sent s d'. session_poll_transmit w now nt iv (dr_session d) = Some (sent, s) \<Longrightarrow>
      P (d\<lparr>dr_session := s, dr_sent := dr_sent d @ (case sent of None \<Rightarrow> [] | Some g \<Rightarrow> [g])\<rparr>) d' \<Longrightarrow> P d d'"
  shows "P d d'"
proof -
  have "w = w \<longrightarrow> P d d'"
  proof (rule transmit.raw_induct [where P = "\<lambda>w' polls n d d'. w' = w \<longrightarrow> P d d'", OF _ ret], rule impI)
    fix f w' polls n d y
    assume ih: "\<And>w' polls n d d'. f w' polls n d = Some d' \<Longrightarrow> w' = w \<longrightarrow> P d d'"
      and now: "(let (now, net_time, iv) = polls n in
        case session_poll_transmit w' now net_time iv (dr_session d) of
          None \<Rightarrow> None
        | Some (sent, s) \<Rightarrow>
            (case sent of
               None \<Rightarrow> Some (d\<lparr>dr_session := s\<rparr>)
             | Some datagram \<Rightarrow> f w' polls (Suc n) (d\<lparr>dr_session := s, dr_sent := dr_sent d @ [datagram]\<rparr>))) = Some y"
      and w: "w' = w"
    obtain t nt iv where p: "polls n = (t, nt, iv)" by (cases "polls n")
    with now w obtain sent s where q: "session_poll_transmit w t nt iv (dr_session d) = Some (sent, s)"
      by (auto split: option.splits)
    show "P d y"
    proof (cases sent)
      case None
      with now p q w have "y = d\<lparr>dr_session := s, dr_sent := dr_sent d @ []\<rparr>" by (cases d) auto
      with step [OF q, of y] None refl show ?thesis by simp
    next
      case (Some g)
      with now p q w have "f w polls (Suc n) (d\<lparr>dr_session := s, dr_sent := dr_sent d @ [g]\<rparr>) = Some y" by simp
      from ih [OF this] step [OF q, of y] Some show ?thesis by simp
    qed
  qed
  then show ?thesis by simp
qed

text \<open>What sending does not touch: the silence allowed to the peer, and the rest of the loop.\<close>

definition only_sends :: "('k, 'c) driver \<Rightarrow> ('k, 'c) driver \<Rightarrow> bool" where
  "only_sends d d' \<longleftrightarrow> session_peer_timeout (dr_session d') = session_peer_timeout (dr_session d) \<and>
     dr_last_heard d' = dr_last_heard d \<and> dr_told d' = dr_told d \<and> dr_failure d' = dr_failure d \<and>
     dr_delivered d' = dr_delivered d"

lemma peer_timeout_same:
  "ss_push t = ss_push s \<Longrightarrow> ss_peer_timeout t = ss_peer_timeout s \<Longrightarrow> session_peer_timeout t = session_peer_timeout s"
  unfolding session_peer_timeout_def by (simp only:)

lemma pumps_keep:
  "pump_primary w s = Some t \<Longrightarrow> ss_push t = ss_push s \<and> ss_peer_timeout t = ss_peer_timeout s \<and> ss_failure t = ss_failure s"
  "pump_renegotiation w s = Some t \<Longrightarrow> ss_push t = ss_push s \<and> ss_peer_timeout t = ss_peer_timeout s \<and> ss_failure t = ss_failure s"
  by (auto simp: pump_primary_def pump_renegotiation_def Let_def split: option.splits prod.splits)

lemma resend_keeps:
  assumes "resend_push_request w now s = (r, t)"
  shows "ss_push t = ss_push s \<and> ss_peer_timeout t = ss_peer_timeout s \<and> ss_failure t = ss_failure s \<and>
    (\<forall>e. r = Inl e \<longrightarrow> is_fatal e)"
  using assms
  by (auto simp: resend_push_request_def send_push_request_def split: if_splits sum.splits prod.splits)

lemma keepalive_keeps:
  assumes "poll_keepalive w now iv s = (r, t)"
  shows "ss_push t = ss_push s \<and> ss_peer_timeout t = ss_peer_timeout s \<and> ss_failure t = ss_failure s"
  using assms by (auto simp: poll_keepalive_def split: if_splits sum.splits prod.splits option.splits)

text \<open>A failure kept in the session is one that ends it.\<close>

definition failure_fatal :: "('k, 'c) session \<Rightarrow> bool" where
  "failure_fatal s \<longleftrightarrow> (\<forall>e. ss_failure s = Some e \<longrightarrow> is_fatal e)"

lemma poll_keeps:
  assumes "session_poll_transmit w now nt iv s = Some (sent, t)"
  shows "ss_push t = ss_push s \<and> ss_peer_timeout t = ss_peer_timeout s \<and> (failure_fatal s \<longrightarrow> failure_fatal t)"
proof (cases "ss_failure s")
  case None
  obtain r s1 where r: "resend_push_request w now s = (r, s1)" by fastforce
  note k = resend_keeps [OF r]
  show ?thesis
  proof (cases r)
    case (Inl e)
    with assms None r k show ?thesis by (auto simp: session_poll_transmit_def failure_fatal_def)
  next
    case (Inr u)
    with assms None r obtain s2 s3 found channel where p: "pump_primary w s1 = Some s2"
      "pump_renegotiation w s2 = Some s3" "poll_transmit (w_mac w) now nt (ss_channel s3) = (found, channel)"
      by (auto simp: session_poll_transmit_def split: option.splits prod.splits)
    note k2 = pumps_keep(1) [OF p(1)] pumps_keep(2) [OF p(2)]
    show ?thesis
    proof (cases found)
      case None
      with assms \<open>ss_failure s = None\<close> r Inr p have
        "poll_keepalive w now iv (s3\<lparr>ss_channel := channel\<rparr>) = (sent, t)"
        by (simp add: session_poll_transmit_def)
      from keepalive_keeps [OF this] k k2 show ?thesis by (auto simp: failure_fatal_def)
    next
      case (Some g)
      with assms None r Inr p k k2 show ?thesis by (auto simp: session_poll_transmit_def failure_fatal_def)
    qed
  qed
qed (use assms in \<open>simp add: session_poll_transmit_def\<close>)

lemma transmit_only_sends: "transmit w polls n d = Some d' \<Longrightarrow> only_sends d d'"
  by (erule transmit_induct)
    (auto simp: only_sends_def dest!: poll_keeps intro: peer_timeout_same)



section \<open>Handling keeps the failure\<close>

definition same_failure :: "('k, 'c) session \<Rightarrow> ('k, 'c) session \<Rightarrow> bool" where
  "same_failure s t \<longleftrightarrow> ss_failure t = ss_failure s"

interpretation failure: step_relation same_failure
  by unfold_locales (auto simp: same_failure_def)








section \<open>Runs\<close>




lemma announce_fields [simp]:
  "dr_session (announce d) = dr_session d" "dr_last_heard (announce d) = dr_last_heard d"
  by (simp_all add: announce_def tell_def split: option.split)






section \<open>Properties\<close>






lemma finish_fields [simp]:
  "dr_session (finish e d) = dr_session d" "dr_last_heard (finish e d) = dr_last_heard d"
  by (simp_all add: finish_def tell_def split: option.split)




text \<open>What a turn without a datagram leaves as it was.\<close>

definition hears_nothing :: "tick \<Rightarrow> bool" where
  "hears_nothing t \<longleftrightarrow> (\<forall>now datagram source offered. tk_event t \<noteq> Received now datagram source offered)"

definition as_silent :: "('k, 'c) driver \<Rightarrow> ('k, 'c) driver \<Rightarrow> bool" where
  "as_silent d d' \<longleftrightarrow> session_peer_timeout (dr_session d') = session_peer_timeout (dr_session d) \<and>
     dr_last_heard d' = dr_last_heard d"

lemma turn_silent:
  assumes "turn w t d = Some (Inr u, d')" "hears_nothing t"
  shows "as_silent d d'"
proof -
  from assms(1) obtain d1 where d1: "transmit w (tk_polls t) 0 d = Some d1"
    and ev: "on_event w (tk_event t) (announce d1) = Some (Inr u, d')"
    by (auto simp: turn_def Let_def split: option.splits)
  have "session_peer_timeout (dr_session d') = session_peer_timeout (dr_session d1) \<and>
      dr_last_heard d' = dr_last_heard d1"
  proof (cases "tk_event t")
    case (Outbound now payload iv)
    obtain q s where q: "send_payload w now payload iv (dr_session d1) = (q, s)" by fastforce
    then have "ss_push s = ss_push (dr_session d1) \<and> ss_peer_timeout s = ss_peer_timeout (dr_session d1)"
      by (auto simp: send_payload_def split: option.splits sum.splits prod.splits)
    with ev q show ?thesis
      by (auto simp: Outbound split: sum.splits if_splits intro: peer_timeout_same)
  qed (use ev assms(2) in \<open>auto simp: hears_nothing_def\<close>)
  with transmit_only_sends [OF d1] show ?thesis by (simp add: as_silent_def only_sends_def)
qed

lemma run_silent:
  "run w ts d = Some (None, d') \<Longrightarrow> list_all hears_nothing ts \<Longrightarrow> as_silent d d'"
proof (induction ts arbitrary: d)
  case (Cons t ts)
  from Cons.prems(1) obtain u d1 where t: "turn w t d = Some (Inr u, d1)" and r: "run w ts d1 = Some (None, d')"
    by (auto split: option.splits sum.splits)
  from turn_silent [OF t] Cons.IH [OF r] Cons.prems(2) show ?case by (simp add: as_silent_def)
qed (simp add: as_silent_def)

lemma run_append:
  "run w (ts @ us) d =
     (case run w ts d of Some (None, d') \<Rightarrow> run w us d' | r \<Rightarrow> r)"
  by (induction ts arbitrary: d) (auto split: option.split sum.split)

text \<open>
  C35. A peer that has gone is noticed. If nothing arrives from it, then whatever else goes on (the
  caller sending, errors of the socket, timeouts) the loop has ended by the first turn that
  measures a silence as long as the session allows; and the loop never waits longer than a second
  before it measures.
\<close>

theorem silent_peer_is_noticed:
  assumes ran: "run w (ts @ [t]) d = Some (out, d')" and silent: "list_all hears_nothing (ts @ [t])"
    and limit: "session_peer_timeout (dr_session d) = Some limit" "dr_last_heard d + limit \<le> tk_measured t"
  shows "(\<exists>e. out = Some e) \<and> wait_at_most w asked read s \<le> secs 1"
proof
  show "\<exists>e. out = Some e"
  proof (rule ccontr)
    assume "\<nexists>e. out = Some e"
    with ran obtain d1 u where r: "run w ts d = Some (None, d1)" and t: "turn w t d1 = Some (Inr u, d')"
      by (auto simp: run_append split: option.splits sum.splits)
    from run_silent [OF r] silent have s1: "as_silent d d1" by simp
    from t obtain d2 where d2: "transmit w (tk_polls t) 0 d1 = Some d2"
      and p: "peer_gone (tk_measured t) (announce d2) = None"
      by (auto simp: turn_def Let_def split: option.splits)
    from transmit_only_sends [OF d2] s1 limit p show False
      by (auto simp: only_sends_def as_silent_def peer_gone_def split: if_splits)
  qed
  show "wait_at_most w asked read s \<le> secs 1"
    by (simp add: wait_at_most_def IDLE_POLL_def secs_def)
qed

section \<open>A tunnel nobody answers\<close>

text \<open>Two passes of the inner loop: the opening packet goes out, then there is nothing to send.\<close>

lemma sample_polls:
  "\<exists>g cc. poll_transmit mac 5 7 (ss_channel sample_session) = (Some g, cc) \<and> poll_transmit mac 5 7 cc = (None, cc)"
  by (simp add: sample_session_fields poll_transmit_def key_ids_def channel_open_def channel_new_def
      key_state_new_def next_packet_def state_of_def state_put_def sw_queue_def sw_new_def sw_is_full_def
      sw_next_due_def SEND_CAPACITY_def is_due_def sent_again_def rv_owes_acks_def rv_new_def bt_map_def
      bt_keys_def secs_def FAST_RETRANSMIT_AFTER_def)

lemma sample_pumps:
  assumes "ss_tls s = []" "ss_outbox s = []" "ss_renegotiation s = None" "ss_phase s = PhaseTls"
  shows "resend_push_request sample_world now s = (Inr (), s)" "pump_primary sample_world s = Some s"
    "pump_renegotiation sample_world s = Some s"
  using assms
  by (simp_all add: resend_push_request_def pump_primary_def pump_renegotiation_def pump_out_idle drain_nothing
      sample_world_def quiet_tls_def)

lemma sample_transmits:
  "\<exists>g cc. transmit sample_world (\<lambda>_. (5, 7, [])) 0 (driver_new 5 (sample_session\<lparr>ss_peer_timeout := p\<rparr>)) =
     Some (driver_new 5 (sample_session\<lparr>ss_peer_timeout := p, ss_channel := cc, ss_last_sent := Some 5\<rparr>)
       \<lparr>dr_sent := [g]\<rparr>)"
proof -
  obtain g cc where p: "poll_transmit (w_mac sample_world) 5 7 (ss_channel sample_session) = (Some g, cc)"
    "poll_transmit (w_mac sample_world) 5 7 cc = (None, cc)" using sample_polls by blast
  let ?s = "sample_session\<lparr>ss_peer_timeout := p\<rparr>"
  let ?t = "?s\<lparr>ss_channel := cc, ss_last_sent := Some 5\<rparr>"
  have "session_poll_transmit sample_world 5 7 [] ?s = Some (Some g, ?t)"
    using p(1) by (simp add: session_poll_transmit_def sample_pumps sample_session_fields)
  moreover have "session_poll_transmit sample_world 5 7 [] ?t = Some (None, ?t)"
    using p(2) by (simp add: session_poll_transmit_def sample_pumps sample_session_fields poll_keepalive_def)
  ultimately show ?thesis
    by (intro exI [of _ g] exI [of _ cc], subst transmit.simps, subst transmit.simps) (simp add: driver_new_def)
qed

lemma driver_new_fields [simp]:
  "dr_session (driver_new now s) = s" "dr_last_heard (driver_new now s) = now"
  "dr_told (driver_new now s) = None" "dr_failure (driver_new now s) = None"
  by (simp_all add: driver_new_def)

definition sample_tick :: "instant \<Rightarrow> event \<Rightarrow> tick" where
  "sample_tick measured ev = \<lparr>tk_polls = (\<lambda>_. (5, 7, [])), tk_measured = measured, tk_event = ev\<rparr>"

lemma sample_turn:
  "\<exists>d. turn sample_world (sample_tick measured CallerGone) (driver_new 5 (sample_session\<lparr>ss_peer_timeout := p\<rparr>)) =
     Some (Inl (case p of
        Some limit \<Rightarrow> if measured - 5 \<ge> limit then PeerGone limit else Io (lit ''the tunnel was dropped'')
      | None \<Rightarrow> Io (lit ''the tunnel was dropped'')), d) \<and> dr_told d = None"
proof -
  obtain g cc where t: "transmit sample_world (\<lambda>_. (5, 7, [])) 0 (driver_new 5 (sample_session\<lparr>ss_peer_timeout := p\<rparr>)) =
     Some (driver_new 5 (sample_session\<lparr>ss_peer_timeout := p, ss_channel := cc, ss_last_sent := Some 5\<rparr>)
       \<lparr>dr_sent := [g]\<rparr>)" using sample_transmits by blast
  show ?thesis
    by (simp add: turn_def sample_tick_def t sample_session_fields announce_def session_is_ready_def
        peer_gone_def session_peer_timeout_def split: option.split)
qed


theorem silent_peer_is_noticed_witness:
  "\<exists>out d. run sample_world [sample_tick 9 CallerGone] (driver_new 5 (sample_session\<lparr>ss_peer_timeout := Some 3\<rparr>)) =
     Some (out, d) \<and> (\<exists>e. out = Some e) \<and> wait_at_most sample_world 9 9 sample_session \<le> secs 1"
proof -
  obtain out d where
    r: "run sample_world ([] @ [sample_tick 9 CallerGone]) (driver_new 5 (sample_session\<lparr>ss_peer_timeout := Some 3\<rparr>)) =
       Some (out, d)"
    using sample_turn [of 9 "Some 3"] by auto
  have "(\<exists>e. out = Some e) \<and> wait_at_most sample_world 9 9 sample_session \<le> secs 1"
    by (rule silent_peer_is_noticed [OF r, where limit = 3])
      (simp_all add: hears_nothing_def sample_tick_def driver_new_def session_peer_timeout_def sample_session_fields)
  with r show ?thesis by auto
qed

end
