(* ===== verification/Stack.thy ===== *)
theory Stack
  imports Data Decimal
begin

text \<open>
  The TCP stack in the process (\<open>stack.rs\<close>). \<open>smoltcp\<close> is code of another crate: its interface with
  one socket is a record of the operations the loop calls, on a state of arbitrary type. What is
  modelled is the code around it: the sizes of packets, the device that is the tunnel, the loop
  that moves bytes between the socket and the caller, and the stream the caller holds.
\<close>

section \<open>Sizes\<close>

definition LINK :: nat where
  "LINK = 1450"

definition OUTER :: nat where
  "OUTER = 40 + 8"

definition WRAP :: nat where
  "WRAP = 4 + 64 + 16 + 4 + 16"

definition MTU :: nat where
  "MTU = LINK - OUTER - WRAP"

definition MIN_MTU :: nat where
  "MIN_MTU = 576"

definition MSS_OVERHEAD :: nat where
  "MSS_OVERHEAD = 20 + 20"

datatype mtu = Mtu (mtu_get: nat)

definition mtu_new :: "nat \<Rightarrow> str + mtu" where
  "mtu_new n =
     (if MIN_MTU \<le> n \<and> n \<le> MTU then Inr (Mtu n)
      else Inl (lit ''a tunnel MTU of '' @ show_nat n @ lit '' is outside '' @ show_nat MIN_MTU @ lit ''..='' @
        show_nat MTU @ lit '': smaller than '' @ show_nat MIN_MTU @
        lit '' is not carried by every path, and larger than '' @ show_nat MTU @ lit '' does not fit the '' @
        show_nat LINK @ lit '' bytes the server allows a datagram''))"

definition mtu_mss :: "mtu \<Rightarrow> nat" where
  "mtu_mss m = mtu_get m - MSS_OVERHEAD"

definition mtu_default :: mtu where
  "mtu_default = Mtu MTU"

definition mtu_from_str :: "str \<Rightarrow> str + mtu" where
  "mtu_from_str raw =
     bindE (ok_or (parse_uint (2 ^ 64 - 1) (trim raw)) ([96] @ raw @ [96] @ lit '' is not a number of bytes''))
       mtu_new"

section \<open>The device\<close>

text \<open>
  The channel into the tunnel: what waits in it, how many packets it holds, and whether the tunnel
  is still there. A receive token is the packet; a transmit token is the right to send one.
\<close>

record tunnel_device =
  td_outbound :: "bytes list"
  td_capacity :: nat
  td_closed :: bool
  td_inbox :: "bytes list"
  td_sent :: nat
  td_received :: nat
  td_mtu :: mtu

definition device_new :: "nat \<Rightarrow> mtu \<Rightarrow> tunnel_device" where
  "device_new capacity mtu =
     \<lparr>td_outbound = [], td_capacity = capacity, td_closed = False, td_inbox = [], td_sent = 0, td_received = 0,
      td_mtu = mtu\<rparr>"

definition device_push :: "bytes \<Rightarrow> tunnel_device \<Rightarrow> tunnel_device" where
  "device_push packet d = d\<lparr>td_received := td_received d + 1, td_inbox := td_inbox d @ [packet]\<rparr>"

definition device_is_full :: "tunnel_device \<Rightarrow> bool" where
  "device_is_full d \<longleftrightarrow> length (td_outbound d) \<ge> td_capacity d"

definition device_traffic :: "tunnel_device \<Rightarrow> nat \<times> nat" where
  "device_traffic d = (td_sent d, td_received d)"

definition device_receive :: "tunnel_device \<Rightarrow> bytes option \<times> tunnel_device" where
  "device_receive d =
     (case td_inbox d of [] \<Rightarrow> (None, d) | packet # rest \<Rightarrow> (Some packet, d\<lparr>td_inbox := rest\<rparr>))"

definition device_transmit :: "tunnel_device \<Rightarrow> bool" where
  "device_transmit d \<longleftrightarrow> \<not> device_is_full d"

definition tx_consume :: "bytes \<Rightarrow> tunnel_device \<Rightarrow> tunnel_device" where
  "tx_consume packet d =
     (if td_closed d \<or> device_is_full d then d
      else d\<lparr>td_outbound := td_outbound d @ [packet], td_sent := td_sent d + 1\<rparr>)"

section \<open>The socket\<close>

datatype tcp_state = FinWait2 | TimeWait | Closed | OtherState

text \<open>
  \<open>tcp_poll\<close> is \<open>Interface::poll\<close>, \<open>tcp_send\<close> and \<open>tcp_receive\<close> are \<open>send_slice\<close> (how much was taken, or
  the text of its error) and \<open>recv_slice\<close> into a buffer of the given size.
\<close>

record 's tcp_ops =
  tcp_poll :: "instant \<Rightarrow> tunnel_device \<Rightarrow> 's \<Rightarrow> tunnel_device \<times> 's"
  tcp_may_send :: "'s \<Rightarrow> bool"
  tcp_can_send :: "'s \<Rightarrow> bool"
  tcp_may_recv :: "'s \<Rightarrow> bool"
  tcp_can_recv :: "'s \<Rightarrow> bool"
  tcp_is_active :: "'s \<Rightarrow> bool"
  tcp_send :: "bytes \<Rightarrow> 's \<Rightarrow> (bytes + nat) \<times> 's"
  tcp_receive :: "nat \<Rightarrow> 's \<Rightarrow> (bytes + bytes) \<times> 's"
  tcp_close :: "'s \<Rightarrow> 's"
  tcp_send_queue :: "'s \<Rightarrow> nat"
  tcp_state_of :: "'s \<Rightarrow> tcp_state"
  tcp_poll_delay :: "instant \<Rightarrow> 's \<Rightarrow> duration option"

section \<open>State of the loop\<close>

definition STACK_QUEUE_DEPTH :: nat where
  "STACK_QUEUE_DEPTH = 8"

definition RECV_CHUNK :: nat where
  "RECV_CHUNK = 8 * 1024"

definition WRITE_CHUNK :: nat where
  "WRITE_CHUNK = 16 * 1024"

definition STACK_IDLE_POLL :: duration where
  "STACK_IDLE_POLL = 50000000"

record progress =
  pg_acknowledged :: nat
  pg_closed :: bool
  pg_stopped :: bool
  pg_ended_cleanly :: bool

datatype stopped = CallerGaveUp | NeverConnected | CannotSend | TunnelGone | Finished

definition why :: "stopped \<Rightarrow> str" where
  "why s =
     (case s of
        CallerGaveUp \<Rightarrow> lit ''nobody was waiting for it any more''
      | NeverConnected \<Rightarrow> lit ''it never came up''
      | CannotSend \<Rightarrow> lit ''the connection would not accept what was written to it''
      | TunnelGone \<Rightarrow> lit ''the tunnel underneath it stopped''
      | Finished \<Rightarrow> lit ''the connection was closed at both ends'')"

definition is_ordinary :: "stopped \<Rightarrow> bool" where
  "is_ordinary s \<longleftrightarrow> s \<in> {Finished, CallerGaveUp}"

text \<open>
  \<open>Driver\<close> and the variables of \<open>drive\<close>. \<open>st_reads\<close> is the queue to the reader while there is a
  sender (\<open>st_to_caller\<close>), \<open>st_writes\<close> the queue from the writer, closed when \<open>st_writes_closed\<close>;
  \<open>st_up\<close> what whoever waits for the connection was told. \<open>st_given\<close> and \<open>st_handed\<close> record what
  went to the socket and to the reader.
\<close>

record 's stack =
  st_device :: tunnel_device
  st_socket :: 's
  st_by :: instant
  st_progress :: progress
  st_cause :: "error option"
  st_to_caller :: bool
  st_reads :: "bytes list"
  st_writes :: "bytes list"
  st_writes_closed :: bool
  st_up :: "(error + unit) option"
  st_established :: bool
  st_queued :: bytes
  st_accepted :: nat
  st_link_gone :: bool
  st_closing :: bool
  st_given :: bytes
  st_handed :: bytes

definition no_progress :: progress where
  "no_progress = \<lparr>pg_acknowledged = 0, pg_closed = False, pg_stopped = False, pg_ended_cleanly = False\<rparr>"

definition stack_new :: "tunnel_device \<Rightarrow> 's \<Rightarrow> instant \<Rightarrow> duration \<Rightarrow> 's stack" where
  "stack_new device socket started patience =
     \<lparr>st_device = device, st_socket = socket, st_by = started + patience, st_progress = no_progress,
      st_cause = None, st_to_caller = True, st_reads = [], st_writes = [], st_writes_closed = False, st_up = None, st_established = False,
      st_queued = [], st_accepted = 0, st_link_gone = False, st_closing = False, st_given = [], st_handed = []\<rparr>"

section \<open>A turn of the loop\<close>

text \<open>Out: what the caller wrote, as much as the socket takes. \<open>drain\<close> beyond the end panics.\<close>

definition push_out :: "'s tcp_ops \<Rightarrow> 's stack \<Rightarrow> (stopped option \<times> 's stack) option" where
  "push_out ops s =
     (if st_queued s \<noteq> [] \<and> tcp_can_send ops (st_socket s) then
        (case tcp_send ops (st_queued s) (st_socket s) of
           (Inl _, socket) \<Rightarrow> Some (Some CannotSend, s\<lparr>st_socket := socket\<rparr>)
         | (Inr n, socket) \<Rightarrow>
             if n > length (st_queued s) then None
             else Some (None, s\<lparr>st_socket := socket, st_queued := drop n (st_queued s),
                               st_given := st_given s @ take n (st_queued s)\<rparr>))
      else Some (None, s))"

definition close_when_written :: "'s tcp_ops \<Rightarrow> 's stack \<Rightarrow> 's stack" where
  "close_when_written ops s =
     (if st_closing s \<and> st_queued s = [] \<and> tcp_may_send ops (st_socket s)
      then s\<lparr>st_socket := tcp_close ops (st_socket s)\<rparr> else s)"

text \<open>In: as many chunks as the queue to the reader has room for. Its reader is there as long as the
  stream is, and the loop no longer than it.\<close>

function pull_in :: "'s tcp_ops \<Rightarrow> 's stack \<Rightarrow> 's stack" where
  "pull_in ops s =
     (if tcp_can_recv ops (st_socket s) \<and> st_to_caller s \<and> length (st_reads s) < STACK_QUEUE_DEPTH then
        (case tcp_receive ops RECV_CHUNK (st_socket s) of
           (Inl _, socket) \<Rightarrow> s\<lparr>st_socket := socket\<rparr>
         | (Inr chunk, socket) \<Rightarrow>
             if chunk = [] then s\<lparr>st_socket := socket\<rparr>
             else pull_in ops (s\<lparr>st_socket := socket, st_reads := st_reads s @ [chunk],
                                      st_handed := st_handed s @ chunk\<rparr>))
      else s)"
  by pat_completeness auto
termination
  by (relation "measure (\<lambda>(ops, s). STACK_QUEUE_DEPTH - length (st_reads s))") auto

declare pull_in.simps [simp del]

definition finished_reading :: "'s tcp_ops \<Rightarrow> 's stack \<Rightarrow> bool" where
  "finished_reading ops s \<longleftrightarrow>
     st_established s \<and> \<not> tcp_may_recv ops (st_socket s) \<and> \<not> tcp_can_recv ops (st_socket s)"

definition outstanding :: "'s tcp_ops \<Rightarrow> 's stack \<Rightarrow> nat" where
  "outstanding ops s = length (st_queued s) + tcp_send_queue ops (st_socket s)"

definition progress_now :: "'s tcp_ops \<Rightarrow> 's stack \<Rightarrow> progress" where
  "progress_now ops s =
     \<lparr>pg_acknowledged = st_accepted s - outstanding ops s,
      pg_closed = (st_closing s \<and> outstanding ops s = 0 \<and>
        tcp_state_of ops (st_socket s) \<in> {FinWait2, TimeWait, Closed}),
      pg_stopped = False,
      pg_ended_cleanly = (pg_ended_cleanly (st_progress s) \<or> finished_reading ops s)\<rparr>"

text \<open>The progress is said, and then the queue to the reader let go of.\<close>

definition publish :: "'s tcp_ops \<Rightarrow> 's stack \<Rightarrow> 's stack" where
  "publish ops s =
     s\<lparr>st_progress := progress_now ops s, st_to_caller := (st_to_caller s \<and> \<not> finished_reading ops s)\<rparr>"

definition unread :: "'s tcp_ops \<Rightarrow> 's stack \<Rightarrow> bool" where
  "unread ops s \<longleftrightarrow> tcp_can_recv ops (st_socket s) \<and> st_to_caller s"

text \<open>What the wait ends with. A branch of the \<open>select!\<close> whose condition does not hold never does.\<close>

datatype stack_event = Packet "bytes option" | WriteReady | Woken

fun on_stack_event :: "stack_event \<Rightarrow> 's stack \<Rightarrow> 's stack" where
  "on_stack_event (Packet (Some packet)) s =
     (if st_link_gone s then s else s\<lparr>st_device := device_push packet (st_device s)\<rparr>)"
| "on_stack_event (Packet None) s = s\<lparr>st_link_gone := True\<rparr>"
| "on_stack_event WriteReady s =
     (if st_queued s = [] \<and> \<not> st_closing s then
        (case st_writes s of
           bs # rest \<Rightarrow> s\<lparr>st_accepted := st_accepted s + length bs, st_queued := bs, st_writes := rest\<rparr>
         | [] \<Rightarrow> if st_writes_closed s then s\<lparr>st_closing := True\<rparr> else s)
      else s)"
| "on_stack_event Woken s = s"

text \<open>One turn, with its clock and whether whoever called \<open>connect\<close> has given up waiting.\<close>

record stack_tick =
  sk_now :: instant
  sk_gave_up :: bool
  sk_event :: stack_event

definition came_up :: "'s tcp_ops \<Rightarrow> 's stack \<Rightarrow> 's stack" where
  "came_up ops s =
     (if tcp_may_send ops (st_socket s)
      then s\<lparr>st_established := True, st_up := (case st_up s of None \<Rightarrow> Some (Inr ()) | told \<Rightarrow> told)\<rparr>
      else s)"

definition stack_turn :: "'s tcp_ops \<Rightarrow> stack_tick \<Rightarrow> 's stack \<Rightarrow> (stopped option \<times> 's stack) option" where
  "stack_turn ops t s =
     (let (device, socket) = tcp_poll ops (sk_now t) (st_device s) (st_socket s);
          s = s\<lparr>st_device := device, st_socket := socket\<rparr>
      in if st_up s = None \<and> sk_gave_up t then Some (Some CallerGaveUp, s)
         else if \<not> st_established s \<and> st_by s \<le> sk_now t then Some (Some NeverConnected, s)
         else
           (case push_out ops (came_up ops s) of
              None \<Rightarrow> None
            | Some (Some stop, s) \<Rightarrow> Some (Some stop, s)
            | Some (None, s) \<Rightarrow>
                let s = publish ops (pull_in ops (close_when_written ops s)) in
                if (\<not> tcp_is_active ops (st_socket s) \<or> st_link_gone s) \<and> \<not> unread ops s
                then Some (Some (if st_link_gone s then TunnelGone else Finished), s)
                else Some (None, on_stack_event (sk_event t) s)))"

definition stack_delay :: "'s tcp_ops \<Rightarrow> instant \<Rightarrow> 's stack \<Rightarrow> duration" where
  "stack_delay ops now s =
     (let delay = min (case tcp_poll_delay ops now (st_socket s) of Some d \<Rightarrow> d | None \<Rightarrow> STACK_IDLE_POLL)
                      STACK_IDLE_POLL
      in if st_established s then delay else min delay (st_by s - now))"

definition why_it_never_came_up :: "nat \<Rightarrow> nat \<Rightarrow> str" where
  "why_it_never_came_up sent received =
     (if received = 0 then
        lit ''nothing answered inside the tunnel: '' @ show_nat sent @
        lit '' packets went out and none came back, so the address is silent rather than refusing''
      else
        lit ''the connection was refused or reset after '' @ show_nat sent @ lit '' sent and '' @
        show_nat received @ lit '' received'')"

text \<open>The way out: the reason on the link's failure, the progress, and whoever still waits.\<close>

definition stack_stop :: "stopped \<Rightarrow> 's stack \<Rightarrow> 's stack" where
  "stack_stop stop s =
     s\<lparr>st_cause := (if is_ordinary stop then st_cause s
                    else case st_cause s of
                      Some first \<Rightarrow> Some first
                    | None \<Rightarrow> Some (Io (lit ''the connection ended because '' @ why stop))),
       st_progress := (st_progress s)\<lparr>pg_stopped := True\<rparr>,
       st_up := (case st_up s of
                   None \<Rightarrow> Some (Inl (Io (case device_traffic (st_device s) of
                             (sent, received) \<Rightarrow> why_it_never_came_up sent received)))
                 | told \<Rightarrow> told),
       st_to_caller := False\<rparr>"

section \<open>The stream\<close>

text \<open>\<open>Poll\<close>, and the part of \<open>TunnelStream\<close> that is not a channel.\<close>

datatype 'a polled = Pending | Polled 'a

record tunnel_stream =
  ts_partial :: bytes
  ts_taken :: nat
  ts_written :: nat
  ts_flushing :: "nat option"

definition stream_new :: tunnel_stream where
  "stream_new = \<lparr>ts_partial = [], ts_taken = 0, ts_written = 0, ts_flushing = None\<rparr>"

datatype stream_error = EndedEarly | StackGone

text \<open>\<open>poll_read\<close> into a buffer with room for \<open>room\<close> bytes, from the queue of chunks.\<close>

fun poll_read ::
  "nat \<Rightarrow> bytes list \<Rightarrow> bool \<Rightarrow> bool \<Rightarrow> tunnel_stream \<Rightarrow>
     (stream_error + bytes) polled \<times> bytes list \<times> tunnel_stream"
where
  "poll_read room queue has_sender clean ts =
     (if ts_taken ts = length (ts_partial ts) then
        (case queue of
           chunk # queue \<Rightarrow> poll_read room queue has_sender clean (ts\<lparr>ts_partial := chunk, ts_taken := 0\<rparr>)
         | [] \<Rightarrow> (if has_sender then Pending else Polled (if clean then Inr [] else Inl EndedEarly), [], ts))
      else
        let available = drop (ts_taken ts) (ts_partial ts); wanted = min (length available) room
        in (Polled (Inr (take wanted available)), queue, ts\<lparr>ts_taken := ts_taken ts + wanted\<rparr>))"

declare poll_read.simps [simp del]

definition poll_write ::
  "bytes \<Rightarrow> bytes list \<Rightarrow> bool \<Rightarrow> tunnel_stream \<Rightarrow> (stream_error + nat) polled \<times> bytes list \<times> tunnel_stream"
where
  "poll_write buf queue gone ts =
     (if gone then (Polled (Inl StackGone), queue, ts)
      else if length queue \<ge> STACK_QUEUE_DEPTH then (Pending, queue, ts)
      else
        let taking = min (length buf) WRITE_CHUNK
        in (Polled (Inr taking), queue @ [take taking buf], ts\<lparr>ts_written := ts_written ts + taking\<rparr>))"

text \<open>A look at the progress: \<open>until\<close>, polled once.\<close>

definition until_now :: "(progress \<Rightarrow> bool) \<Rightarrow> progress \<Rightarrow> (stream_error + unit) polled" where
  "until_now done_when p =
     (if done_when p then Polled (Inr ()) else if pg_stopped p then Polled (Inl StackGone) else Pending)"

text \<open>A wait kept for another target is replaced; a wait that is over is let go of.\<close>

definition poll_flush :: "progress \<Rightarrow> tunnel_stream \<Rightarrow> (stream_error + unit) polled \<times> tunnel_stream" where
  "poll_flush p ts =
     (let target = (case ts_flushing ts of
            Some waiting_for \<Rightarrow> if waiting_for \<noteq> ts_written ts then ts_written ts else waiting_for
          | None \<Rightarrow> ts_written ts);
          r = until_now (\<lambda>p. target \<le> pg_acknowledged p) p
      in (r, ts\<lparr>ts_flushing := (if r = Pending then Some target else None)\<rparr>))"

text \<open>\<open>poll_shutdown\<close> also closes the queue to the stack.\<close>

definition poll_shutdown :: "progress \<Rightarrow> (stream_error + unit) polled" where
  "poll_shutdown p = until_now pg_closed p"

section \<open>A full packet fits\<close>

text \<open>What AES-CBC with PKCS#7 padding makes of a plaintext: whole blocks, at least one byte more.\<close>

definition pads_to_blocks :: "suite \<Rightarrow> bool" where
  "pads_to_blocks su \<longleftrightarrow>
     (\<forall>k m. length (su_mac su k m) = HMAC_KEY_LEN) \<and>
     (\<forall>k iv p. length (su_encrypt su k iv p) = 16 * (length p div 16 + 1))"

text \<open>
  A packet of the tunnel's MTU fits the link. For every MTU that is accepted, whatever the
  stack sends through the tunnel, wrapped by the data channel with or without a peer id and with
  the outer headers of either IP version, is at most the datagram the server allows; and the
  default is accepted and the largest that is.
\<close>

theorem full_packet_fits_the_link:
  assumes su: "pads_to_blocks su" and iv: "length iv = IV_LEN"
    and mtu: "mtu_new n = Inr m" and packet: "length packet \<le> mtu_get m"
    and sent: "encrypt_with_iv su packet iv ch = (Inr datagram, ch')"
  shows "length datagram + OUTER \<le> LINK \<and> mtu_mss m + MSS_OVERHEAD = mtu_get m \<and>
    mtu_new (mtu_get mtu_default) = Inr mtu_default \<and> mtu_get m \<le> mtu_get mtu_default"
proof -
  have p: "length packet \<le> 1298" and m: "576 \<le> mtu_get m" "mtu_get m \<le> 1298"
    using mtu packet
    by (auto simp: mtu_new_def MIN_MTU_def MTU_def LINK_def OUTER_def WRAP_def split: if_splits)
  have "length datagram \<le> 4 + 64 + 16 + 16 * ((4 + length packet) div 16 + 1)"
    using sent su iv
    by (auto simp: encrypt_with_iv_def data_wire_def Let_def pads_to_blocks_def HMAC_KEY_LEN_def IV_LEN_def
        split: if_splits option.splits)
  moreover have "(4 + length packet) div 16 \<le> 81" using p by simp
  ultimately have "length datagram + OUTER \<le> LINK" by (simp add: OUTER_def LINK_def)
  with m show ?thesis
    by (simp add: mtu_mss_def MSS_OVERHEAD_def mtu_default_def mtu_new_def MIN_MTU_def MTU_def LINK_def
        OUTER_def WRAP_def)
qed

section \<open>The stream and the stack together\<close>

text \<open>
  The stream in the caller's hands and the loop behind it, with what the caller wrote and read so
  far. Once the loop has stopped it takes no more turns and its ends of the channels are gone.
\<close>

record 's pipe =
  pp_stack :: "'s stack"
  pp_stream :: tunnel_stream
  pp_stopped :: bool
  pp_wrote :: bytes
  pp_read :: bytes

inductive pipe_step :: "'s tcp_ops \<Rightarrow> 's pipe \<Rightarrow> 's pipe \<Rightarrow> bool" for ops where
  turns: "\<not> pp_stopped p \<Longrightarrow> stack_turn ops t (pp_stack p) = Some (None, s) \<Longrightarrow>
    pipe_step ops p (p\<lparr>pp_stack := s\<rparr>)"
| stops: "\<not> pp_stopped p \<Longrightarrow> stack_turn ops t (pp_stack p) = Some (Some reason, s) \<Longrightarrow>
    pipe_step ops p (p\<lparr>pp_stack := stack_stop reason s, pp_stopped := True\<rparr>)"
| writes: "poll_write buf (st_writes (pp_stack p)) (pp_stopped p \<or> st_writes_closed (pp_stack p)) (pp_stream p) =
      (Polled (Inr n), queue, ts) \<Longrightarrow>
    pipe_step ops p (p\<lparr>pp_stack := (pp_stack p)\<lparr>st_writes := queue\<rparr>, pp_stream := ts,
      pp_wrote := pp_wrote p @ take n buf\<rparr>)"
| reads: "poll_read room (st_reads (pp_stack p)) (st_to_caller (pp_stack p))
      (pg_ended_cleanly (st_progress (pp_stack p))) (pp_stream p) = (Polled (Inr bs), queue, ts) \<Longrightarrow>
    pipe_step ops p (p\<lparr>pp_stack := (pp_stack p)\<lparr>st_reads := queue\<rparr>, pp_stream := ts, pp_read := pp_read p @ bs\<rparr>)"
| flushes: "poll_flush (st_progress (pp_stack p)) (pp_stream p) = (r, ts) \<Longrightarrow>
    pipe_step ops p (p\<lparr>pp_stream := ts\<rparr>)"
| shuts_down: "pipe_step ops p (p\<lparr>pp_stack := (pp_stack p)\<lparr>st_writes_closed := True\<rparr>\<rparr>)"

inductive pipe_reaches :: "'s tcp_ops \<Rightarrow> 's pipe \<Rightarrow> 's pipe \<Rightarrow> bool" for ops p where
  start: "pipe_reaches ops p p"
| step: "pipe_reaches ops p q \<Longrightarrow> pipe_step ops q r \<Longrightarrow> pipe_reaches ops p r"

definition pipe_new :: "tunnel_device \<Rightarrow> 's \<Rightarrow> instant \<Rightarrow> duration \<Rightarrow> 's pipe" where
  "pipe_new device socket started patience =
     \<lparr>pp_stack = stack_new device socket started patience, pp_stream = stream_new, pp_stopped = False,
      pp_wrote = [], pp_read = []\<rparr>"

text \<open>What the loop keeps: nothing it took is lost, and no more is said to have arrived than was given.\<close>

definition stack_ok :: "'s stack \<Rightarrow> bool" where
  "stack_ok s \<longleftrightarrow> st_accepted s = length (st_given s) + length (st_queued s) \<and>
     pg_acknowledged (st_progress s) \<le> length (st_given s)"

definition owed_out :: "'s stack \<Rightarrow> bytes" where
  "owed_out s = st_given s @ st_queued s @ concat (st_writes s)"

definition pending_in :: "tunnel_stream \<Rightarrow> bytes list \<Rightarrow> bytes" where
  "pending_in ts queue = drop (ts_taken ts) (ts_partial ts) @ concat queue"

definition pipe_ok :: "'s pipe \<Rightarrow> bool" where
  "pipe_ok p \<longleftrightarrow> stack_ok (pp_stack p) \<and> pp_wrote p = owed_out (pp_stack p) \<and>
     ts_written (pp_stream p) = length (pp_wrote p) \<and>
     ts_taken (pp_stream p) \<le> length (ts_partial (pp_stream p)) \<and>
     st_handed (pp_stack p) = pp_read p @ pending_in (pp_stream p) (st_reads (pp_stack p))"

text \<open>The parts of a turn, each keeping the account: \<open>moves_in\<close> only adds to what the reader is owed.\<close>

definition moves :: "'s stack \<Rightarrow> 's stack \<Rightarrow> bool" where
  "moves s t \<longleftrightarrow> (stack_ok s \<longrightarrow> stack_ok t) \<and> owed_out t = owed_out s \<and>
     (\<exists>chunks. st_handed t = st_handed s @ concat chunks \<and> st_reads t = st_reads s @ chunks)"

lemma moves_refl: "moves s s"
  by (auto simp: moves_def intro: exI [of _ "[]"])

lemma moves_trans: "moves s t \<Longrightarrow> moves t u \<Longrightarrow> moves s u"
  by (auto simp: moves_def)

lemma moves_same:
  "st_given t = st_given s \<Longrightarrow> st_queued t = st_queued s \<Longrightarrow> st_accepted t = st_accepted s \<Longrightarrow>
   st_progress t = st_progress s \<Longrightarrow> st_writes t = st_writes s \<Longrightarrow> st_handed t = st_handed s \<Longrightarrow>
   st_reads t = st_reads s \<Longrightarrow> moves s t"
  by (auto simp: moves_def stack_ok_def owed_out_def intro: exI [of _ "[]"])

lemma push_out_moves: "push_out ops s = Some (r, t) \<Longrightarrow> moves s t"
  by (auto simp: push_out_def moves_def stack_ok_def owed_out_def split: if_splits sum.splits prod.splits
      intro: exI [of _ "[]"])

lemma pull_in_moves: "moves s (pull_in ops s)"
proof (induction ops s rule: pull_in.induct)
  case (1 ops s)
  let ?recv = "tcp_can_recv ops (st_socket s) \<and> st_to_caller s \<and> length (st_reads s) < STACK_QUEUE_DEPTH"
  obtain r socket where r: "tcp_receive ops RECV_CHUNK (st_socket s) = (r, socket)" by fastforce
  show ?case
  proof (cases "?recv \<and> (\<exists>chunk. r = Inr chunk \<and> chunk \<noteq> [])")
    case True
    then obtain chunk where chunk: "r = Inr chunk" "chunk \<noteq> []" by auto
    let ?t = "s\<lparr>st_socket := socket, st_reads := st_reads s @ [chunk], st_handed := st_handed s @ chunk\<rparr>"
    have "moves s ?t"
      by (auto simp: moves_def stack_ok_def owed_out_def intro: exI [of _ "[chunk]"])
    moreover have "moves ?t (pull_in ops ?t)"
      by (rule 1) (use True r chunk in auto)
    moreover have "pull_in ops s = pull_in ops ?t"
      using True r chunk by (subst pull_in.simps) simp
    ultimately show ?thesis using moves_trans by metis
  next
    case False
    then show ?thesis
      using r by (subst pull_in.simps) (auto split: sum.split intro: moves_same moves_refl)
  qed
qed

lemma publish_moves: "stack_ok s \<Longrightarrow> moves s (publish ops s)"
  by (auto simp: moves_def stack_ok_def owed_out_def publish_def progress_now_def outstanding_def
      intro: exI [of _ "[]"])

lemma event_moves: "moves s (on_stack_event ev s)"
proof (cases "(ev, s)" rule: on_stack_event.cases)
  case (3 s')
  then show ?thesis
    by (auto simp: moves_def stack_ok_def owed_out_def split: list.split intro: exI [of _ "[]"])
qed (auto intro: moves_same)

lemma event_keeps [simp]:
  "finished_reading ops (on_stack_event ev s) = finished_reading ops s"
  "st_progress (on_stack_event ev s) = st_progress s"
  by (cases "(ev, s)" rule: on_stack_event.cases;
      auto simp: finished_reading_def split: list.split)+

lemma push_out_keeps: "push_out ops s = Some (r, t) \<Longrightarrow> st_progress t = st_progress s"
  by (auto simp: push_out_def split: if_splits sum.splits prod.splits)

lemma pull_in_keeps: "st_progress (pull_in ops s) = st_progress s"
proof (induction ops s rule: pull_in.induct)
  case (1 ops s)
  then show ?case by (subst pull_in.simps) (auto split: sum.split prod.split)
qed

text \<open>
  What a progress says of the bytes is true of the stack: they were given to the socket and have
  left its queue.
\<close>

definition all_acked :: "'s tcp_ops \<Rightarrow> nat \<Rightarrow> 's stack \<Rightarrow> bool" where
  "all_acked ops n s \<longleftrightarrow> n = 0 \<or> n + tcp_send_queue ops (st_socket s) \<le> length (st_given s)"

lemma event_acked [simp]: "all_acked ops n (on_stack_event ev s) = all_acked ops n s"
  by (cases "(ev, s)" rule: on_stack_event.cases) (auto simp: all_acked_def split: list.split)

lemma publish_acked:
  "stack_ok s \<Longrightarrow> all_acked ops (pg_acknowledged (st_progress (publish ops s))) (publish ops s)"
  by (auto simp: all_acked_def publish_def progress_now_def outstanding_def stack_ok_def)

lemma turn_moves:
  assumes ret: "stack_turn ops t s = Some (r, u)" and ok: "stack_ok s"
  shows "moves s u \<and> (pg_ended_cleanly (st_progress u) \<longrightarrow>
    pg_ended_cleanly (st_progress s) \<or> finished_reading ops u) \<and>
    (pg_acknowledged (st_progress u) = pg_acknowledged (st_progress s) \<or>
     all_acked ops (pg_acknowledged (st_progress u)) u)"
proof -
  obtain device socket where p: "tcp_poll ops (sk_now t) (st_device s) (st_socket s) = (device, socket)" by fastforce
  let ?s = "s\<lparr>st_device := device, st_socket := socket\<rparr>"
  have 1: "moves s ?s" by (rule moves_same) simp_all
  have 2: "moves ?s (came_up ops ?s)" by (rule moves_same) (simp_all add: came_up_def)
  consider "u = ?s"
    | r' s1 where "push_out ops (came_up ops ?s) = Some (r', s1)" "r' \<noteq> None" "u = s1"
    | s1 s2 where "push_out ops (came_up ops ?s) = Some (None, s1)"
        "s2 = publish ops (pull_in ops (close_when_written ops s1))" "u = s2 \<or> u = on_stack_event (sk_event t) s2"
    using ret p by (auto simp: stack_turn_def Let_def split: if_splits option.splits)
  then show ?thesis
  proof cases
    case 1
    with \<open>moves s ?s\<close> show ?thesis by simp
  next
    case (2 r' s1)
    with push_out_moves [OF 2(1)] push_out_keeps [OF 2(1)] 1 \<open>moves ?s (came_up ops ?s)\<close>
    show ?thesis by (auto simp: came_up_def intro: moves_trans split: if_splits)
  next
    case (3 s1 s2)
    let ?c = "close_when_written ops s1"
    have c: "moves s1 ?c" by (rule moves_same) (simp_all add: close_when_written_def)
    have m: "moves s (pull_in ops ?c)"
      using 1 2 push_out_moves [OF 3(1)] c pull_in_moves [of ?c ops] moves_trans by metis
    with ok have "stack_ok (pull_in ops ?c)" by (simp add: moves_def)
    then have a: "all_acked ops (pg_acknowledged (st_progress s2)) s2" unfolding 3(2) by (rule publish_acked)
    have "stack_ok (pull_in ops ?c)" using m ok by (simp add: moves_def)
    from moves_trans [OF m publish_moves [OF this]] have s2: "moves s s2" using 3(2) by simp
    have "st_progress (pull_in ops ?c) = st_progress s"
      using push_out_keeps [OF 3(1)] by (simp add: pull_in_keeps close_when_written_def came_up_def)
    then have "pg_ended_cleanly (st_progress s2) \<longrightarrow> pg_ended_cleanly (st_progress s) \<or> finished_reading ops s2"
      by (auto simp: 3(2) publish_def progress_now_def finished_reading_def)
    with 3(3) s2 a event_moves [of s2 "sk_event t"] event_keeps show ?thesis
      by (auto intro: moves_trans)
  qed
qed

lemma stop_moves: "moves s (stack_stop r s)"
  by (auto simp: moves_def stack_ok_def owed_out_def stack_stop_def intro: exI [of _ "[]"])

lemma stop_keeps:
  "finished_reading ops (stack_stop r s) = finished_reading ops s"
  "pg_ended_cleanly (st_progress (stack_stop r s)) = pg_ended_cleanly (st_progress s)"
  "pg_acknowledged (st_progress (stack_stop r s)) = pg_acknowledged (st_progress s)"
  "all_acked ops n (stack_stop r s) = all_acked ops n s"
  by (simp_all add: finished_reading_def stack_stop_def all_acked_def)

lemma pipe_ok_moves:
  assumes "pipe_ok p" "moves (pp_stack p) s"
  shows "pipe_ok (p\<lparr>pp_stack := s\<rparr>)"
  using assms by (auto simp: pipe_ok_def moves_def pending_in_def)

subsection \<open>Reading\<close>

lemma poll_read_account:
  "poll_read room queue has_sender clean ts = (Polled (Inr bs), queue', ts') \<Longrightarrow> ts_taken ts \<le> length (ts_partial ts) \<Longrightarrow>
    pending_in ts queue = bs @ pending_in ts' queue' \<and> ts_taken ts' \<le> length (ts_partial ts') \<and>
    ts_written ts' = ts_written ts \<and> (0 < room \<and> bs = [] \<longrightarrow> clean \<and> \<not> has_sender \<and> pending_in ts queue = [])"
proof (induction room queue has_sender clean ts rule: poll_read.induct)
  case (1 room queue has_sender clean ts)
  show ?case
  proof (cases "ts_taken ts = length (ts_partial ts)")
    case True
    show ?thesis
    proof (cases queue)
      case Nil
      with True 1(2) show ?thesis by (auto simp: poll_read.simps [of room "[]"] pending_in_def split: if_splits)
    next
      case (Cons chunk rest)
      with True 1(2) have "poll_read room rest has_sender clean (ts\<lparr>ts_partial := chunk, ts_taken := 0\<rparr>) =
          (Polled (Inr bs), queue', ts')" by (simp add: poll_read.simps [of room "chunk # rest"])
      from 1(1) [OF True Cons this] True Cons show ?thesis by (simp add: pending_in_def)
    qed
  next
    case False
    let ?avail = "drop (ts_taken ts) (ts_partial ts)"
    let ?wanted = "min (length ?avail) room"
    from False 1(2) have r: "bs = take ?wanted ?avail" "queue' = queue" "ts' = ts\<lparr>ts_taken := ts_taken ts + ?wanted\<rparr>"
      by (simp_all add: poll_read.simps [of room queue] Let_def)
    have "drop (ts_taken ts + ?wanted) (ts_partial ts) = drop ?wanted ?avail" by (simp add: add.commute)
    moreover from r have "ts_taken ts' = ts_taken ts + ?wanted" "ts_partial ts' = ts_partial ts" by simp_all
    ultimately have "pending_in ts queue = bs @ pending_in ts' queue'"
      unfolding pending_in_def r(1,2) by (simp only: append_assoc [symmetric] append_take_drop_id)
    moreover have "length bs = ?wanted" "0 < length ?avail" using False 1(3) by (simp_all add: r(1))
    then have "0 < room \<longrightarrow> bs \<noteq> []" by auto
    moreover from r(3) 1(3) have "ts_taken ts' \<le> length (ts_partial ts')" "ts_written ts' = ts_written ts" by simp_all
    ultimately show ?thesis by blast
  qed
qed

lemma poll_write_account:
  assumes "poll_write buf queue gone ts = (Polled (Inr n), queue', ts')"
  shows "concat queue' = concat queue @ take n buf \<and> ts_written ts' = ts_written ts + length (take n buf) \<and>
    ts_taken ts' = ts_taken ts \<and> ts_partial ts' = ts_partial ts"
  using assms by (auto simp: poll_write_def Let_def split: if_splits)

lemma step_ok: "pipe_step ops p q \<Longrightarrow> pipe_ok p \<Longrightarrow> pipe_ok q"
proof (induction rule: pipe_step.induct)
  case (turns p t s)
  with turn_moves [OF turns(2)] show ?case by (auto simp: pipe_ok_def [of p] intro!: pipe_ok_moves)
next
  case (stops p t reason s)
  have "moves (pp_stack p) (stack_stop reason s)"
    using turn_moves [OF stops(2)] stops(3) stop_moves by (auto simp: pipe_ok_def intro: moves_trans)
  from pipe_ok_moves [OF stops(3) this] show ?case by (simp add: pipe_ok_def)
next
  case (writes buf p n queue ts)
  with poll_write_account [OF writes(1)] show ?case
    by (simp add: pipe_ok_def stack_ok_def owed_out_def pending_in_def)
next
  case (reads room p bs queue ts)
  from reads(2) have "ts_taken (pp_stream p) \<le> length (ts_partial (pp_stream p))" by (simp add: pipe_ok_def)
  from poll_read_account [OF reads(1) this] reads(2) show ?case
    by (simp add: pipe_ok_def stack_ok_def owed_out_def)
next
  case (flushes p r ts)
  then show ?case by (auto simp: pipe_ok_def poll_flush_def Let_def pending_in_def)
next
  case (shuts_down p)
  then show ?case by (simp add: pipe_ok_def stack_ok_def owed_out_def)
qed

lemma reaches_ok:
  assumes "pipe_reaches ops (pipe_new device socket started patience) p"
  shows "pipe_ok p"
  using assms
proof (induction rule: pipe_reaches.induct)
  case start
  show ?case
    by (simp add: pipe_ok_def pipe_new_def stack_new_def stream_new_def stack_ok_def owed_out_def pending_in_def
        no_progress_def)
qed (blast intro: step_ok)

text \<open>What the progress says was seen on the socket, in a state this one came from.\<close>

lemma step_seen:
  assumes "pipe_step ops p q" "pipe_ok p"
  shows "(pg_ended_cleanly (st_progress (pp_stack q)) \<longrightarrow>
      pg_ended_cleanly (st_progress (pp_stack p)) \<or> finished_reading ops (pp_stack q)) \<and>
    (pg_acknowledged (st_progress (pp_stack q)) = pg_acknowledged (st_progress (pp_stack p)) \<or>
      all_acked ops (pg_acknowledged (st_progress (pp_stack q))) (pp_stack q))"
  using assms
proof (induction rule: pipe_step.induct)
  case (turns p t s)
  with turn_moves [OF turns(2)] show ?case by (auto simp: pipe_ok_def)
next
  case (stops p t reason s)
  with turn_moves [OF stops(2)] show ?case by (auto simp: pipe_ok_def stop_keeps)
qed auto

lemma reaches_seen:
  assumes "pipe_reaches ops (pipe_new device socket started patience) p"
  shows "(pg_ended_cleanly (st_progress (pp_stack p)) \<longrightarrow>
      (\<exists>q. pipe_reaches ops (pipe_new device socket started patience) q \<and> pipe_reaches ops q p \<and>
        finished_reading ops (pp_stack q))) \<and>
    (\<exists>q. pipe_reaches ops (pipe_new device socket started patience) q \<and> pipe_reaches ops q p \<and>
      all_acked ops (pg_acknowledged (st_progress (pp_stack p))) (pp_stack q))"
  using assms
proof (induction rule: pipe_reaches.induct)
  case start
  show ?case
    by (auto simp: pipe_new_def stack_new_def no_progress_def all_acked_def intro: pipe_reaches.start)
next
  case (step q r)
  let ?p0 = "pipe_new device socket started patience"
  have r: "pipe_reaches ops ?p0 r" "pipe_reaches ops r r"
    using pipe_reaches.step [OF step(1,2)] pipe_reaches.start by blast+
  have later: "pipe_reaches ops x r" if "pipe_reaches ops x q" for x
    using pipe_reaches.step [OF that step(2)] .
  from step.IH obtain q1 where
    q1: "pipe_reaches ops ?p0 q1" "pipe_reaches ops q1 q" "all_acked ops (pg_acknowledged (st_progress (pp_stack q))) (pp_stack q1)"
    by blast
  have "\<exists>x. pipe_reaches ops ?p0 x \<and> pipe_reaches ops x r \<and> finished_reading ops (pp_stack x)"
    if "pg_ended_cleanly (st_progress (pp_stack r))"
    using that step_seen [OF step(2) reaches_ok [OF step(1)]] step.IH r later by blast
  moreover have "\<exists>x. pipe_reaches ops ?p0 x \<and> pipe_reaches ops x r \<and>
      all_acked ops (pg_acknowledged (st_progress (pp_stack r))) (pp_stack x)"
    using step_seen [OF step(2) reaches_ok [OF step(1)]] q1 r later by (cases "all_acked ops (pg_acknowledged (st_progress (pp_stack r))) (pp_stack r)") (blast, auto)
  ultimately show ?case by blast
qed

lemma step_wrote: "pipe_step ops p q \<Longrightarrow> \<exists>more_bytes. pp_wrote q = pp_wrote p @ more_bytes"
  by (induction rule: pipe_step.induct) auto

lemma reaches_wrote: "pipe_reaches ops p q \<Longrightarrow> \<exists>more_bytes. pp_wrote q = pp_wrote p @ more_bytes"
proof (induction rule: pipe_reaches.induct)
  case (step q r)
  then show ?case using step_wrote [OF step(2)] by auto
qed simp

text \<open>
  C3. A stream over the tunnel carries bytes whole. However writes, reads, flushes and turns of
  the loop interleave and whatever the TCP socket does: what the caller wrote is, in order, what
  the socket was given followed by what still waits, and what the caller read is an initial part
  of what the socket handed over. A flush succeeds only when there was a moment, since the last
  byte was written, at which everything written had been given to the socket and the socket's own
  queue of bytes the peer has yet to acknowledge was empty; a read says the stream has ended only when everything
  handed over has been read and, earlier on, the connection was up and the socket had nothing more to
  hand over and never would.
\<close>

theorem stream_carries_bytes_whole:
  assumes "pipe_reaches ops (pipe_new device socket started patience) p"
  shows "(\<exists>waiting. pp_wrote p = st_given (pp_stack p) @ waiting) \<and>
     (\<exists>unread. st_handed (pp_stack p) = pp_read p @ unread) \<and>
     (\<forall>ts. poll_flush (st_progress (pp_stack p)) (pp_stream p) = (Polled (Inr ()), ts) \<longrightarrow>
        st_given (pp_stack p) = pp_wrote p \<and> pg_acknowledged (st_progress (pp_stack p)) = length (pp_wrote p) \<and>
        (pp_wrote p = [] \<or>
         (\<exists>q. pipe_reaches ops (pipe_new device socket started patience) q \<and> pipe_reaches ops q p \<and>
            pp_wrote q = pp_wrote p \<and> st_given (pp_stack q) = pp_wrote p \<and>
            tcp_send_queue ops (st_socket (pp_stack q)) = 0))) \<and>
     (\<forall>room queue ts. 0 < room \<and> poll_read room (st_reads (pp_stack p)) (st_to_caller (pp_stack p))
          (pg_ended_cleanly (st_progress (pp_stack p))) (pp_stream p) = (Polled (Inr []), queue, ts) \<longrightarrow>
        pp_read p = st_handed (pp_stack p) \<and>
        (\<exists>q. pipe_reaches ops (pipe_new device socket started patience) q \<and> pipe_reaches ops q p \<and>
           st_established (pp_stack q) \<and> \<not> tcp_may_recv ops (st_socket (pp_stack q)) \<and>
           \<not> tcp_can_recv ops (st_socket (pp_stack q))))"
proof -
  note ok = reaches_ok [OF assms]
  have out: "pp_wrote p = st_given (pp_stack p) @ st_queued (pp_stack p) @ concat (st_writes (pp_stack p))"
    using ok by (simp add: pipe_ok_def owed_out_def)
  have inward: "st_handed (pp_stack p) = pp_read p @ pending_in (pp_stream p) (st_reads (pp_stack p))"
    using ok by (simp add: pipe_ok_def)
  have "st_given (pp_stack p) = pp_wrote p \<and> pg_acknowledged (st_progress (pp_stack p)) = length (pp_wrote p) \<and>
      (pp_wrote p = [] \<or>
       (\<exists>q. pipe_reaches ops (pipe_new device socket started patience) q \<and> pipe_reaches ops q p \<and>
          pp_wrote q = pp_wrote p \<and> st_given (pp_stack q) = pp_wrote p \<and>
          tcp_send_queue ops (st_socket (pp_stack q)) = 0))"
    if "poll_flush (st_progress (pp_stack p)) (pp_stream p) = (Polled (Inr ()), ts)" for ts
  proof -
    have "ts_written (pp_stream p) \<le> pg_acknowledged (st_progress (pp_stack p))"
      using that by (auto simp: poll_flush_def Let_def until_now_def split: if_splits option.splits)
    moreover have "ts_written (pp_stream p) = length (pp_wrote p)"
      "pg_acknowledged (st_progress (pp_stack p)) \<le> length (st_given (pp_stack p))"
      using ok by (simp_all add: pipe_ok_def stack_ok_def)
    moreover have "length (pp_wrote p) =
        length (st_given (pp_stack p)) + length (st_queued (pp_stack p) @ concat (st_writes (pp_stack p)))"
      by (simp only: out length_append)
    ultimately have "length (st_queued (pp_stack p) @ concat (st_writes (pp_stack p))) = 0"
      and n: "pg_acknowledged (st_progress (pp_stack p)) = length (pp_wrote p)" by linarith+
    then have g: "st_given (pp_stack p) = pp_wrote p" unfolding length_0_conv by (simp add: out)
    from reaches_seen [OF assms] n obtain q where
      q: "pipe_reaches ops (pipe_new device socket started patience) q" "pipe_reaches ops q p"
      and a: "all_acked ops (length (pp_wrote p)) (pp_stack q)" by auto
    from reaches_wrote [OF q(2)] obtain later where p: "pp_wrote p = pp_wrote q @ later" by blast
    obtain waiting where w: "pp_wrote q = st_given (pp_stack q) @ waiting"
      using reaches_ok [OF q(1)] by (auto simp: pipe_ok_def owed_out_def)
    have "pp_wrote p = [] \<or> later = [] \<and> waiting = [] \<and> tcp_send_queue ops (st_socket (pp_stack q)) = 0"
      using a by (auto simp: all_acked_def p w)
    with n g q p w show ?thesis by auto
  qed
  moreover have "pp_read p = st_handed (pp_stack p) \<and>
      (\<exists>q. pipe_reaches ops (pipe_new device socket started patience) q \<and> pipe_reaches ops q p \<and>
         st_established (pp_stack q) \<and> \<not> tcp_may_recv ops (st_socket (pp_stack q)) \<and>
         \<not> tcp_can_recv ops (st_socket (pp_stack q)))"
    if "0 < room \<and> poll_read room (st_reads (pp_stack p)) (st_to_caller (pp_stack p))
          (pg_ended_cleanly (st_progress (pp_stack p))) (pp_stream p) = (Polled (Inr []), queue, ts)"
    for room queue ts
  proof -
    have "ts_taken (pp_stream p) \<le> length (ts_partial (pp_stream p))" using ok by (simp add: pipe_ok_def)
    from poll_read_account [OF conjunct2 [OF that] this] that have
      "pg_ended_cleanly (st_progress (pp_stack p))" "pending_in (pp_stream p) (st_reads (pp_stack p)) = []" by auto
    with inward reaches_seen [OF assms] show ?thesis unfolding finished_reading_def by auto
  qed
  ultimately show ?thesis using out inward by blast
qed

text \<open>A socket that takes everything and has it acknowledged at once.\<close>

definition sample_socket :: "unit tcp_ops" where
  "sample_socket =
     \<lparr>tcp_poll = \<lambda>_ d s. (d, s), tcp_may_send = \<lambda>_. True, tcp_can_send = \<lambda>_. True, tcp_may_recv = \<lambda>_. True,
      tcp_can_recv = \<lambda>_. False, tcp_is_active = \<lambda>_. True, tcp_send = \<lambda>bs s. (Inr (length bs), s),
      tcp_receive = \<lambda>_ s. (Inl [], s), tcp_close = \<lambda>s. s, tcp_send_queue = \<lambda>_. 0,
      tcp_state_of = \<lambda>_. OtherState, tcp_poll_delay = \<lambda>_ _. None\<rparr>"

definition sample_stack_tick :: "stack_event \<Rightarrow> stack_tick" where
  "sample_stack_tick ev = \<lparr>sk_now = 3, sk_gave_up = False, sk_event = ev\<rparr>"

lemma pipe_path:
  "pipe_step ops p q \<Longrightarrow> pipe_step ops q r \<Longrightarrow> pipe_step ops r s \<Longrightarrow> pipe_reaches ops p s"
  by (blast intro: pipe_reaches.intros)

theorem stream_carries_bytes_whole_witness:
  "\<exists>p ts. pipe_reaches sample_socket (pipe_new (device_new 64 mtu_default) () 0 5) p \<and>
     poll_flush (st_progress (pp_stack p)) (pp_stream p) = (Polled (Inr ()), ts) \<and>
     pp_wrote p = [1, 2, 3] \<and> st_given (pp_stack p) = [1, 2, 3]"
proof -
  let ?p0 = "pipe_new (device_new 64 mtu_default) () 0 5"
  obtain queue ts where w: "poll_write [1, 2, 3] [] False (pp_stream ?p0) = (Polled (Inr 3), queue, ts)"
    "queue = [[1, 2, 3]]"
    by (simp add: poll_write_def STACK_QUEUE_DEPTH_def WRITE_CHUNK_def)
  let ?p1 = "?p0\<lparr>pp_stack := (pp_stack ?p0)\<lparr>st_writes := queue\<rparr>, pp_stream := ts, pp_wrote := pp_wrote ?p0 @ take 3 [1, 2, 3]\<rparr>"
  have 1: "pipe_step sample_socket ?p0 ?p1"
    by (rule pipe_step.writes) (use w in \<open>simp add: pipe_new_def stack_new_def\<close>)
  obtain s2 where s2: "stack_turn sample_socket (sample_stack_tick WriteReady) (pp_stack ?p1) = Some (None, s2)"
    "st_queued s2 = [1, 2, 3]" "st_writes s2 = []" "st_given s2 = []" "st_accepted s2 = 3" "st_established s2"
    "st_up s2 = Some (Inr ())" "\<not> st_link_gone s2" "\<not> st_closing s2" "pg_ended_cleanly (st_progress s2) = False"
    by (simp add: w(2) stack_turn_def sample_stack_tick_def sample_socket_def pipe_new_def stack_new_def came_up_def
        push_out_def close_when_written_def pull_in.simps publish_def progress_now_def finished_reading_def
        outstanding_def no_progress_def unread_def)
  have 2: "pipe_step sample_socket ?p1 (?p1\<lparr>pp_stack := s2\<rparr>)"
    by (rule pipe_step.turns [OF _ s2(1)]) (simp add: pipe_new_def)
  obtain s3 where s3: "stack_turn sample_socket (sample_stack_tick Woken) s2 = Some (None, s3)"
    "st_given s3 = [1, 2, 3]" "pg_acknowledged (st_progress s3) = 3"
    using s2 by (simp add: stack_turn_def sample_stack_tick_def sample_socket_def came_up_def
        push_out_def close_when_written_def pull_in.simps publish_def progress_now_def finished_reading_def
        outstanding_def unread_def)
  have 3: "pipe_step sample_socket (?p1\<lparr>pp_stack := s2\<rparr>) (?p1\<lparr>pp_stack := s3\<rparr>)"
    using pipe_step.turns [of "?p1\<lparr>pp_stack := s2\<rparr>" sample_socket "sample_stack_tick Woken" s3] s3(1)
    by (simp add: pipe_new_def)
  note r = pipe_path [OF 1 2 3]
  have "ts_written ts = 3" "ts_flushing ts = None"
    using w(1) by (auto simp: poll_write_def STACK_QUEUE_DEPTH_def WRITE_CHUNK_def pipe_new_def stream_new_def)
  then obtain us where f: "poll_flush (st_progress s3) ts = (Polled (Inr ()), us)"
    using s3(3) by (simp add: poll_flush_def Let_def until_now_def)
  define p where "p = ?p1\<lparr>pp_stack := s3\<rparr>"
  have p: "pp_stack p = s3" "pp_stream p = ts" "pp_wrote p = [1, 2, 3]" by (simp_all add: p_def pipe_new_def)
  have r: "pipe_reaches sample_socket ?p0 p" unfolding p_def by (rule r)
  have "st_given s3 = pp_wrote p"
    using stream_carries_bytes_whole [OF r] f unfolding p(1,2) by blast
  with r f p show ?thesis by (intro exI [of _ p] exI [of _ us]) simp
qed

text \<open>A suite whose lengths are those of AES-CBC and HMAC-SHA-512.\<close>

definition padding_suite :: suite where
  "padding_suite =
     \<lparr>su_encrypt = \<lambda>_ _ p. p @ replicate (16 - length p mod 16) 0, su_decrypt = \<lambda>_ _ _. None,
      su_mac = \<lambda>_ _. replicate HMAC_KEY_LEN 0\<rparr>"

lemma padding_suite_pads: "pads_to_blocks padding_suite"
proof -
  have "n + (16 - n mod 16) = 16 * (n div 16 + 1)" for n :: nat
  proof -
    obtain q r where "n = 16 * q + r" "r < 16" by (metis mult_div_mod_eq mod_less_divisor zero_less_numeral)
    then show ?thesis by simp
  qed
  then show ?thesis by (simp add: pads_to_blocks_def padding_suite_def)
qed

theorem full_packet_fits_the_link_witness:
  "\<exists>datagram ch'. encrypt_with_iv padding_suite (replicate 1298 0) (replicate 16 0)
       (data_channel_new (projr (data_keys_for_client sample_expansion)) (Some (PeerId 7)) (KeyId 0)) = (Inr datagram, ch') \<and>
     length datagram + OUTER \<le> LINK"
proof -
  let ?ch = "data_channel_new (projr (data_keys_for_client sample_expansion)) (Some (PeerId 7)) (KeyId 0)"
  obtain datagram ch' where e: "encrypt_with_iv padding_suite (replicate 1298 0) (replicate 16 0) ?ch = (Inr datagram, ch')"
    by (simp add: encrypt_with_iv_def data_channel_new_def)
  moreover have "mtu_new 1298 = Inr (Mtu 1298)"
    by (simp add: mtu_new_def MIN_MTU_def MTU_def LINK_def OUTER_def WRAP_def)
  ultimately show ?thesis
    using full_packet_fits_the_link [OF padding_suite_pads _ _ _ e, of 1298 "Mtu 1298"]
    by (simp add: IV_LEN_def)
qed

end
