(* ===== verification/Mux.thy ===== *)
theory Mux
  imports Prelude "HOL-Library.Sublist"
begin

text \<open>
  Several TCP connections over one tunnel (\<open>mux.rs\<close>): local ports handed out in turn, and packets
  handed to the connection they are addressed to. The queue into a connection's stack is part of
  the model; the stack behind it, and the dialling of a connection, are not.
\<close>

section \<open>Routes and queues\<close>

definition QUEUE_DEPTH :: nat where
  "QUEUE_DEPTH = 64"

text \<open>The routes are a map from port to connection, with one entry per port.\<close>

type_synonym 'c routes = "(u16 \<times> 'c) list"

text \<open>The receiving end of a connection's queue: what waits in it, and whether it is still there.\<close>

record queue =
  q_waiting :: "bytes list"
  q_closed :: bool

datatype send_outcome = Sent | QueueFull | QueueClosed

definition try_send :: "bytes \<Rightarrow> queue \<Rightarrow> send_outcome \<times> queue" where
  "try_send packet q =
     (if q_closed q then (QueueClosed, q)
      else if length (q_waiting q) \<ge> QUEUE_DEPTH then (QueueFull, q)
      else (Sent, q\<lparr>q_waiting := q_waiting q @ [packet]\<rparr>))"

section \<open>Ports\<close>

definition FIRST_PORT :: u16 where
  "FIRST_PORT = 49152"

definition PORTS :: u16 where
  "PORTS = 16000"

definition next_port :: "u16 \<Rightarrow> u16" where
  "next_port port = (if port \<ge> FIRST_PORT + PORTS - 1 then FIRST_PORT else port + 1)"

text \<open>\<open>PortCursor::new\<close> from a random number, and \<open>take\<close>: the port it points at.\<close>

definition port_cursor_new :: "u16 \<Rightarrow> u16" where
  "port_cursor_new random = FIRST_PORT + random mod PORTS"

definition take_port :: "u16 \<Rightarrow> u16 \<times> u16" where
  "take_port cursor = (cursor, next_port cursor)"

partial_function (option) find_port :: "'c routes \<Rightarrow> u16 \<Rightarrow> (u16 \<times> u16) option" where
  "find_port routes cursor =
     (let (port, cursor) = take_port cursor in
      if map_of routes port = None then Some (port, cursor) else find_port routes cursor)"

definition claim_port ::
  "('c \<Rightarrow> bool) \<Rightarrow> 'c \<Rightarrow> 'c routes \<Rightarrow> u16 \<Rightarrow> (u16 \<times> 'c routes \<times> u16) option" where
  "claim_port closed target routes cursor =
     (let routes = filter (\<lambda>(_, c). \<not> closed c) routes
      in map_option (\<lambda>(port, cursor). (port, routes @ [(port, target)], cursor)) (find_port routes cursor))"

text \<open>
  The part of \<open>connect\<close> that touches the routes: the port is claimed first, and given back when the
  attempt, whose outcome is an argument, fails.
\<close>

definition connect_routes ::
  "('c \<Rightarrow> bool) \<Rightarrow> 'c \<Rightarrow> (u16 \<Rightarrow> bool) \<Rightarrow> 'c routes \<Rightarrow> u16 \<Rightarrow> (u16 \<times> 'c routes \<times> u16) option" where
  "connect_routes closed target answered routes cursor =
     map_option (\<lambda>(port, routes, cursor).
        (port, if answered port then routes else filter (\<lambda>(p, _). p \<noteq> port) routes, cursor))
       (claim_port closed target routes cursor)"

section \<open>Demultiplexing\<close>

definition destination_port :: "bytes \<Rightarrow> u16 option" where
  "destination_port packet =
     (case packet of
        [] \<Rightarrow> None
      | first # _ \<Rightarrow>
          if drop_bit 4 first \<noteq> 4 then None
          else
            let header = unat (first AND 0x0f) * 4 in
            if header < 20 \<or> length packet < header + 4 \<or> packet ! 9 \<noteq> 6 then None
            else if from_be16 [packet ! 6, packet ! 7] AND 0x1fff \<noteq> 0 then None
            else Some (from_be16 [packet ! (header + 2), packet ! (header + 3)]))"

text \<open>One packet: the queues are a function from the connection.\<close>

definition demux_packet :: "bytes \<Rightarrow> 'c routes \<Rightarrow> ('c \<Rightarrow> queue) \<Rightarrow> 'c routes \<times> ('c \<Rightarrow> queue)" where
  "demux_packet packet routes queues =
     (case destination_port packet of
        None \<Rightarrow> (routes, queues)
      | Some port \<Rightarrow>
          (case map_of routes port of
             None \<Rightarrow> (routes, queues)
           | Some c \<Rightarrow>
               let (outcome, q) = try_send packet (queues c) in
               case outcome of
                 QueueClosed \<Rightarrow> (filter (\<lambda>(p, _). p \<noteq> port) routes, queues(c := q))
               | _ \<Rightarrow> (routes, queues(c := q))))"

text \<open>The whole link: when it ends, every route goes with it.\<close>

fun demux_packets :: "bytes list \<Rightarrow> 'c routes \<Rightarrow> ('c \<Rightarrow> queue) \<Rightarrow> 'c routes \<times> ('c \<Rightarrow> queue)" where
  "demux_packets [] routes queues = (routes, queues)"
| "demux_packets (packet # packets) routes queues =
     (let (routes, queues) = demux_packet packet routes queues in demux_packets packets routes queues)"

definition demux :: "bytes list \<Rightarrow> 'c routes \<Rightarrow> ('c \<Rightarrow> queue) \<Rightarrow> 'c routes \<times> ('c \<Rightarrow> queue)" where
  "demux packets routes queues = (let (_, queues) = demux_packets packets routes queues in ([], queues))"

section \<open>Ports are found\<close>

text \<open>The port \<open>i\<close> places after another, round the range.\<close>

definition port_at :: "nat \<Rightarrow> u16" where
  "port_at i = FIRST_PORT + of_nat (i mod 16000)"

lemma unat_port_at: "unat (port_at i) = 49152 + i mod 16000"
proof -
  have "i mod 16000 < 16000" by simp
  then have "unat (of_nat (i mod 16000) :: u16) = i mod 16000" by (simp add: unat_of_nat)
  moreover have "49152 + i mod 16000 < (65536 :: nat)" using \<open>i mod 16000 < 16000\<close> by linarith
  ultimately show ?thesis by (simp add: port_at_def FIRST_PORT_def unat_word_ariths)
qed

lemma port_at_inj: "port_at i = port_at j \<longleftrightarrow> i mod 16000 = j mod 16000"
  using unat_port_at [of i] unat_port_at [of j] by (metis add_left_cancel port_at_def)

lemma port_at_next: "next_port (port_at i) = port_at (Suc i)"
proof (cases "i mod 16000 = 15999")
  case True
  then have "unat (port_at i) = 65151" by (simp add: unat_port_at)
  then have "FIRST_PORT + PORTS - 1 \<le> port_at i" by (simp add: FIRST_PORT_def PORTS_def word_le_nat_alt)
  moreover have "Suc i mod 16000 = 0" using True by (simp add: mod_Suc)
  ultimately show ?thesis by (simp add: next_port_def port_at_def)
next
  case False
  then have s: "Suc i mod 16000 = Suc (i mod 16000)" by (simp add: mod_Suc)
  have "i mod 16000 < 16000" by simp
  with False have "i mod 16000 < 15999" by linarith
  then have "unat (port_at i) < 65151" by (simp add: unat_port_at)
  then have "\<not> FIRST_PORT + PORTS - 1 \<le> port_at i" by (simp add: FIRST_PORT_def PORTS_def word_le_nat_alt)
  with s show ?thesis by (simp add: next_port_def port_at_def)
qed

lemma find_port_spec:
  assumes "\<forall>j < n. map_of routes (port_at (i + j)) \<noteq> None" "map_of routes (port_at (i + n)) = None"
  shows "find_port routes (port_at i) = Some (port_at (i + n), port_at (Suc (i + n)))"
  using assms
proof (induction n arbitrary: i)
  case 0
  then show ?case by (simp add: find_port.simps [of routes "port_at i"] take_port_def port_at_next)
next
  case (Suc n)
  have "map_of routes (port_at i) \<noteq> None" using Suc(2) by (metis add.right_neutral zero_less_Suc)
  then have "find_port routes (port_at i) = find_port routes (port_at (Suc i))"
    by (auto simp: find_port.simps [of routes "port_at i"] take_port_def port_at_next)
  also have "\<dots> = Some (port_at (Suc i + n), port_at (Suc (Suc i + n)))"
    by (rule Suc.IH) (use Suc(2,3) in auto)
  finally show ?case by simp
qed

abbreviation live_routes :: "('c \<Rightarrow> bool) \<Rightarrow> 'c routes \<Rightarrow> 'c routes" where
  "live_routes closed routes \<equiv> filter (\<lambda>(_, c). \<not> closed c) routes"

lemma cursor_in_range:
  assumes "FIRST_PORT \<le> cursor" "cursor < FIRST_PORT + PORTS"
  shows "cursor = port_at (unat cursor - 49152)"
proof -
  have c: "49152 \<le> unat cursor" "unat cursor < 65152"
    using assms by (simp_all add: FIRST_PORT_def PORTS_def word_le_nat_alt word_less_nat_alt)
  then have "unat (port_at (unat cursor - 49152)) = unat cursor"
    by (subst unat_port_at) simp
  then show ?thesis by (simp add: word_unat_eq_iff)
qed

lemma some_port_free:
  assumes "length routes < 16000"
  shows "\<exists>n < 16000. map_of routes (port_at (i + n)) = None"
proof (rule ccontr)
  assume "\<not> ?thesis"
  then have "(\<lambda>n. port_at (i + n)) ` {..<16000} \<subseteq> fst ` set routes"
    by (auto simp: map_of_eq_None_iff)
  then have "card ((\<lambda>n. port_at (i + n)) ` {..<16000}) \<le> card (fst ` set routes)"
    by (intro card_mono) simp_all
  also have "\<dots> \<le> length routes" by (metis card_image_le card_length le_trans List.finite_set)
  moreover have "inj_on (\<lambda>n. port_at (i + n)) {..<16000}"
  proof (rule inj_onI)
    fix m n :: nat
    assume mn: "m \<in> {..<16000}" "n \<in> {..<16000}" "port_at (i + m) = port_at (i + n)"
    then have "(i + m) mod 16000 = (i + n) mod 16000" by (simp only: port_at_inj)
    then obtain a b where "i + m + 16000 * a = i + n + 16000 * b" by (auto simp: nat_mod_eq_iff)
    with mn(1,2) have "m + 16000 * a = n + 16000 * b" "m < 16000" "n < 16000" by simp_all
    then have "(m + 16000 * a) mod 16000 = (n + 16000 * b) mod 16000" by (simp only:)
    then show "m = n" using \<open>m < 16000\<close> \<open>n < 16000\<close> by (simp only: mod_mult_self2 mod_less)
  qed
  ultimately show False using assms by (simp add: card_image)
qed

text \<open>
  A port is always found, and in turn. With fewer connections than ports, claiming ends; the
  port is the first from the cursor on, round the range, that no live connection uses, so one just
  given up comes round again only after every other; the cursor moves just past it; and the routes
  of live connections are kept, with the new one added and those of closed ones gone.
\<close>

theorem claim_port_in_turn:
  assumes "FIRST_PORT \<le> cursor" and "cursor < FIRST_PORT + PORTS" and "length routes < 16000"
  shows "\<exists>i n. cursor = port_at i \<and> n < 16000 \<and>
     claim_port closed target routes cursor =
       Some (port_at (i + n), live_routes closed routes @ [(port_at (i + n), target)], port_at (Suc (i + n))) \<and>
     map_of (live_routes closed routes) (port_at (i + n)) = None \<and>
     (\<forall>j < n. map_of (live_routes closed routes) (port_at (i + j)) \<noteq> None)"
proof -
  let ?i = "unat cursor - 49152" and ?live = "live_routes closed routes"
  let ?free = "\<lambda>n. map_of ?live (port_at (?i + n)) = None"
  have "length ?live < 16000" using assms(3) by (rule le_less_trans [OF length_filter_le])
  from some_port_free [OF this] obtain m where m: "m < 16000" "?free m" by blast
  define n where "n = (LEAST n. ?free n)"
  have n: "?free n" "n \<le> m" "\<forall>j < n. \<not> ?free j"
    unfolding n_def using m(2) by (auto intro: LeastI Least_le dest: not_less_Least)
  from find_port_spec [OF n(3,1)] have
    "find_port ?live cursor = Some (port_at (?i + n), port_at (Suc (?i + n)))"
    using cursor_in_range [OF assms(1,2)] by simp
  with n m(1) cursor_in_range [OF assms(1,2)] show ?thesis
    by (intro exI [of _ ?i] exI [of _ n]) (simp add: claim_port_def)
qed

theorem claim_port_in_turn_witness:
  "\<exists>p c. claim_port (\<lambda>_. False) 7 [(65151, 3), (49152, 4 :: nat)] 65151 =
     Some (p, [(65151, 3), (49152, 4), (p, 7)], c)"
  using claim_port_in_turn [of 65151 "[(65151, 3), (49152, 4 :: nat)]" "\<lambda>_. False" 7]
  by (auto simp: FIRST_PORT_def PORTS_def)

section \<open>Packets stay with their connection\<close>







end
