(* ===== verification/Redact.thy ===== *)
theory Redact
  imports Text
begin

text \<open>
  Scrubbing secrets out of text (\<open>synology-filestation-core/src/redact.rs\<close>). A string is its
  UTF-8 bytes: every character the code looks for is ASCII, and no byte of a longer character is.
\<close>

section \<open>The code\<close>

definition SECRET_PARAMS :: "str list" where
  "SECRET_PARAMS = map lit [''_sid'', ''sid'', ''passwd'', ''password'', ''otp_code'', ''otp'',
     ''synotoken'', ''x-syno-token'']"

definition PLACEHOLDER :: str where
  "PLACEHOLDER = lit ''<redacted>''"

definition is_secret :: "str \<Rightarrow> bool" where
  "is_secret name \<longleftrightarrow> (\<exists>candidate \<in> set SECRET_PARAMS. eq_ignore_ascii_case candidate name)"

text \<open>The characters that end a value: ampersand, both quotes, closing parenthesis, space, comma,
  semicolon, LF, CR and tab.\<close>

definition ends_value :: "u8 \<Rightarrow> bool" where
  "ends_value c \<longleftrightarrow> c \<in> {38, 34, 39, 41, 32, 44, 59, 10, 13, 9}"

definition name_char :: "u8 \<Rightarrow> bool" where
  "name_char c \<longleftrightarrow> 48 \<le> c \<and> c \<le> 57 \<or> 65 \<le> c \<and> c \<le> 90 \<or> 97 \<le> c \<and> c \<le> 122 \<or> c = 95 \<or> c = 45"

text \<open>The identifier run that ends a piece of text.\<close>

definition trailing_name :: "str \<Rightarrow> str" where
  "trailing_name s = rev (takeWhile name_char (rev s))"

text \<open>
  The loop, with the text split at its cursor into what is passed and what is left: \<open>out\<close> grows
  by the text up to and including the next equals sign (61), then the placeholder in place of a
  secret's value. The name is looked for in all of the text before the equals sign.
\<close>

lemma dropWhile_shrinks: "dropWhile f s = x # rest \<Longrightarrow> length rest < length s"
  using length_dropWhile_le [of f s] by simp

function redact_after :: "str \<Rightarrow> str \<Rightarrow> str" where
  "redact_after passed s =
     (case dropWhile (\<lambda>c. c \<noteq> 61) s of
        [] \<Rightarrow> s
      | _ # rest \<Rightarrow>
          let head = takeWhile (\<lambda>c. c \<noteq> 61) s;
              value = takeWhile (\<lambda>c. \<not> ends_value c) rest
          in head @ [61] @
             (if is_secret (trailing_name (passed @ head)) then
                (if value \<noteq> [] then PLACEHOLDER else []) @
                redact_after (passed @ head @ [61] @ value) (drop (length value) rest)
              else redact_after (passed @ head @ [61]) rest))"
  by pat_completeness auto
termination
  by (relation "measure (\<lambda>(passed, s). length s)")
    (auto dest: dropWhile_shrinks intro: le_less_trans [OF diff_le_self])

declare redact_after.simps [simp del]

definition redact_secrets :: "str \<Rightarrow> str" where
  "redact_secrets text = redact_after [] text"

section \<open>What a secret's value can influence\<close>

lemma trailing_name_append:
  "takeWhile name_char (rev p) = takeWhile name_char (rev q) \<Longrightarrow>
    trailing_name (p @ h) = trailing_name (q @ h)"
  by (simp add: trailing_name_def takeWhile_append)

lemma not_name_char_eq: "\<not> name_char 61"
  by (simp add: name_char_def)

lemma passed_value:
  "takeWhile name_char (rev (p @ h @ 61 # v)) = takeWhile name_char (rev (q @ h @ 61 # v))"
  by (simp add: takeWhile_append not_name_char_eq)

lemma redact_none: "61 \<notin> set s \<Longrightarrow> redact_after p s = s"
proof -
  assume "61 \<notin> set s"
  then have "dropWhile (\<lambda>c. c \<noteq> 61) s = []" by (auto simp: dropWhile_eq_Nil_conv)
  then show ?thesis by (simp only: redact_after.simps [of p s] list.case)
qed

lemma redact_equals:
  assumes "61 \<notin> set h"
  shows "redact_after p (h @ 61 # rest) = h @ [61] @
    (let value = takeWhile (\<lambda>c. \<not> ends_value c) rest in
     if is_secret (trailing_name (p @ h)) then
       (if value \<noteq> [] then PLACEHOLDER else []) @ redact_after (p @ h @ 61 # value) (drop (length value) rest)
     else redact_after (p @ h @ [61]) rest)"
proof -
  have "dropWhile (\<lambda>c. c \<noteq> 61) (h @ 61 # rest) = 61 # rest" "takeWhile (\<lambda>c. c \<noteq> 61) (h @ 61 # rest) = h"
    using assms by (auto simp: dropWhile_append takeWhile_append)
  then show ?thesis by (simp only: redact_after.simps [of p "h @ 61 # rest"] list.case Let_def) simp
qed

lemma at_equals: "61 \<in> set s \<Longrightarrow> \<exists>h rest. s = h @ 61 # rest \<and> 61 \<notin> set h"
  by (metis split_list_first)

text \<open>Of the text passed only the identifier run at its end matters.\<close>

lemma redact_after_cong:
  "takeWhile name_char (rev p) = takeWhile name_char (rev q) \<Longrightarrow> redact_after p s = redact_after q s"
proof (induction s arbitrary: p q rule: length_induct)
  case (1 s)
  show ?case
  proof (cases "61 \<in> set s")
    case False
    then show ?thesis by (simp add: redact_none)
  next
    case True
    then obtain h rest where s: "s = h @ 61 # rest" "61 \<notin> set h" using at_equals by blast
    have "redact_after (p @ h @ 61 # v) r = redact_after (q @ h @ 61 # v) r" if "length r \<le> length rest" for v r
      by (rule 1(1) [rule_format, OF _ passed_value]) (use that s in simp)
    from this [of "drop n rest" for n] this [of rest "[]"] show ?thesis
      unfolding s(1) redact_equals [OF s(2)] trailing_name_append [OF 1(2)] by (simp add: Let_def)
  qed
qed

lemma redact_after_fresh:
  assumes "s = [] \<or> \<not> name_char (hd s) \<and> hd s \<noteq> 61"
  shows "redact_after p s = redact_after q s"
proof (cases "61 \<in> set s")
  case False
  then show ?thesis by (simp add: redact_none)
next
  case True
  then obtain h rest where s: "s = h @ 61 # rest" "61 \<notin> set h" using at_equals by blast
  with assms obtain c h' where h: "h = c # h'" "\<not> name_char c" by (cases h) auto
  have "trailing_name (p @ h) = trailing_name (q @ h)"
    using h by (simp add: trailing_name_def takeWhile_append)
  moreover have "redact_after (p @ h @ 61 # v) r = redact_after (q @ h @ 61 # v) r" for v r
    by (rule redact_after_cong [OF passed_value])
  ultimately show ?thesis
    unfolding s(1) redact_equals [OF s(2)] by (simp add: Let_def)
qed

section \<open>No secret is told\<close>

definition is_value :: "str \<Rightarrow> bool" where
  "is_value v \<longleftrightarrow> v \<noteq> [] \<and> (\<forall>c \<in> set v. \<not> ends_value c)"

definition after_value :: "str \<Rightarrow> bool" where
  "after_value rest \<longleftrightarrow> rest = [] \<or> ends_value (hd rest)"

lemma ends_value_apart: "ends_value c \<Longrightarrow> \<not> name_char c \<and> c \<noteq> 61"
  by (auto simp: ends_value_def name_char_def)

lemma name_char_apart: "name_char c \<Longrightarrow> \<not> ends_value c \<and> c \<noteq> 61"
  using ends_value_apart not_name_char_eq by auto

lemma take_value:
  assumes "\<forall>c \<in> set v. \<not> ends_value c" "after_value rest"
  shows "takeWhile (\<lambda>c. \<not> ends_value c) (v @ rest) = v"
  using assms by (cases rest) (auto simp: after_value_def takeWhile_append)

lemma redact_same_after:
  "after_value rest \<Longrightarrow> redact_after p rest = redact_after q rest"
  using ends_value_apart by (intro redact_after_fresh) (auto simp: after_value_def)

lemma trailing_name_at: "takeWhile name_char (rev p) = [] \<Longrightarrow> \<forall>c \<in> set n. name_char c \<Longrightarrow> trailing_name (p @ n) = n"
  by (simp add: trailing_name_def takeWhile_append)

lemma redact_value_hidden:
  assumes name: "is_secret name" "\<forall>c \<in> set name. name_char c"
    and v: "is_value v" "is_value v'" and rest: "after_value rest"
  shows "takeWhile name_char (rev (p @ pre)) = [] \<Longrightarrow>
    redact_after p (pre @ name @ 61 # v @ rest) = redact_after p (pre @ name @ 61 # v' @ rest)"
proof (induction pre arbitrary: p rule: length_induct)
  case (1 pre)
  have vs: "v \<noteq> []" "v' \<noteq> []" "takeWhile (\<lambda>c. \<not> ends_value c) (v @ rest) = v"
    "takeWhile (\<lambda>c. \<not> ends_value c) (v' @ rest) = v'"
    using v rest take_value by (auto simp: is_value_def)
  note same = redact_same_after [OF rest]
  have n: "61 \<notin> set name" "\<forall>c \<in> set name. \<not> ends_value c" "\<not> ends_value 61"
    using name(2) name_char_apart by (auto simp: ends_value_def)
  show ?case
  proof (cases "61 \<in> set pre")
    case False
    have secret: "is_secret (trailing_name (p @ pre @ name))"
      using trailing_name_at [OF 1(2) name(2)] name(1) by simp
    have h: "61 \<notin> set (pre @ name)" using False n by simp
    show ?thesis
      using redact_equals [OF h, of p "v @ rest"] redact_equals [OF h, of p "v' @ rest"] secret vs
        same [of "p @ pre @ name @ 61 # v" "p @ pre @ name @ 61 # v'"]
      by (simp add: Let_def)
  next
    case True
    then obtain h pre1 where pre: "pre = h @ 61 # pre1" "61 \<notin> set h" using at_equals by blast
    let ?tail = "\<lambda>v. pre1 @ name @ 61 # v @ rest"
    show ?thesis
    proof (cases "is_secret (trailing_name (p @ h))")
      case False
      have "redact_after (p @ h @ [61]) (?tail v) = redact_after (p @ h @ [61]) (?tail v')"
        by (rule 1(1) [rule_format]) (use 1(2) pre(1) in simp_all)
      with False show ?thesis by (simp add: pre(1) redact_equals [OF pre(2)] Let_def)
    next
      case secret: True
      show ?thesis
      proof (cases "\<exists>c \<in> set pre1. ends_value c")
        case True
        then obtain a c b where s: "pre1 = a @ c # b" "\<forall>x \<in> set a. \<not> ends_value x" "ends_value c"
          by (metis split_list_first_prop)
        have tw: "takeWhile (\<lambda>c. \<not> ends_value c) (?tail u) = a" for u
          using s by (simp add: takeWhile_append)
        have "redact_after (p @ h @ 61 # a) ((c # b) @ name @ 61 # v @ rest) =
            redact_after (p @ h @ 61 # a) ((c # b) @ name @ 61 # v' @ rest)"
          by (rule 1(1) [rule_format]) (use 1(2) pre(1) s(1) in simp_all)
        with secret s(1) show ?thesis
          unfolding pre(1) append_assoc append_Cons redact_equals [OF pre(2)] tw by (simp add: Let_def)
      next
        case False
        have tw: "takeWhile (\<lambda>c. \<not> ends_value c) (?tail u) = pre1 @ name @ 61 # u" if "is_value u" for u
          using take_value [of "pre1 @ name @ 61 # u" rest] False n that rest by (auto simp: is_value_def)
        show ?thesis
          using secret same [of "p @ h @ 61 # pre1 @ name @ 61 # v" "p @ h @ 61 # pre1 @ name @ 61 # v'"]
          unfolding pre(1) append_assoc append_Cons redact_equals [OF pre(2)] tw [OF v(1)] tw [OF v(2)]
          by (simp add: Let_def)
      qed
    qed
  qed
qed

text \<open>
  C33. What is logged tells nothing of a secret: wherever in a text a secret parameter stands, in
  whatever case its name is written, the redacted text is the same whatever the value is. The value
  is what runs up to the next delimiter, and the name is the whole identifier before the equals
  sign.
\<close>

theorem redaction_is_noninterfering:
  assumes "is_secret name" and "list_all name_char name"
    and "pre = [] \<or> \<not> name_char (last pre)" and "rest = [] \<or> ends_value (hd rest)"
    and "v \<noteq> []" "list_all (\<lambda>c. \<not> ends_value c) v" and "v' \<noteq> []" "list_all (\<lambda>c. \<not> ends_value c) v'"
  shows "redact_secrets (pre @ name @ [61] @ v @ rest) = redact_secrets (pre @ name @ [61] @ v' @ rest)"
proof -
  have "takeWhile name_char (rev ([] @ pre)) = []"
    using assms(3) by (cases pre rule: rev_cases) auto
  moreover have "\<forall>c \<in> set name. name_char c" using assms(2) by (simp add: list_all_iff)
  moreover have "is_value v" "is_value v'" using assms(5-8) by (simp_all add: is_value_def list_all_iff)
  moreover have "after_value rest" using assms(4) by (simp add: after_value_def)
  ultimately have "redact_after [] (pre @ name @ 61 # v @ rest) = redact_after [] (pre @ name @ 61 # v' @ rest)"
    by (intro redact_value_hidden [OF assms(1)])
  then show ?thesis unfolding redact_secrets_def append_Cons append_Nil .
qed

theorem redaction_is_noninterfering_witness:
  "redact_secrets (lit ''url (https://nas/?api=x&'' @ lit ''_SID'' @ [61] @ lit ''one'' @ lit ''): refused'') =
   redact_secrets (lit ''url (https://nas/?api=x&'' @ lit ''_SID'' @ [61] @ lit ''three'' @ lit ''): refused'')"
proof -
  have "is_secret (lit ''_SID'')" "list_all name_char (lit ''_SID'')" "\<not> name_char (last (lit ''url (https://nas/?api=x&''))"
    "ends_value (hd (lit ''): refused''))" "list_all (\<lambda>c. \<not> ends_value c) (lit ''one'')"
    "list_all (\<lambda>c. \<not> ends_value c) (lit ''three'')" "lit ''one'' \<noteq> []" "lit ''three'' \<noteq> []"
    by code_simp+
  from redaction_is_noninterfering [OF this(1,2) disjI2 [OF this(3)] disjI2 [OF this(4)] this(7) this(5) this(8) this(6)]
  show ?thesis .
qed

lemma redact_example:
  "redact_secrets (lit ''nas/?api=x&_sid=abc): refused'') = lit ''nas/?api=x&_sid=<redacted>): refused''"
  by code_simp

end
