(* ===== verification/Syno_Error.thy ===== *)
theory Syno_Error
  imports Redact Decimal
begin

text \<open>
  The error type the whole workspace shares and its classification
  (\<open>synology-filestation-core/src/error.rs\<close>), and the way SMB failures are mapped onto it
  (\<open>synology-filestation-smb/src/error.rs\<close>). The constructors of \<open>SynoFsError\<close> carry a prefix,
  those of \<open>ErrorCategory\<close> another, because the two enums share names.
\<close>

section \<open>Errors and their categories\<close>

datatype syno_error =
    SynoNotFound | SynoPermissionDenied | SynoAlreadyExists | SynoNotEmpty | SynoInvalidArg
  | SynoNoSpace | SynoNotSupported | SynoIo str | ApiError u32 | LoginFailed syno_error

datatype error_category =
    CatNotFound | CatPermissionDenied | CatAlreadyExists | CatNotEmpty | CatInvalidArg | CatNoSpace
  | CatNotSupported | CatSidExpired | CatBusy | CatTransport | CatOther

definition dsm_code_to_category :: "u32 \<Rightarrow> error_category" where
  "dsm_code_to_category code =
     (if code = 400 then CatInvalidArg
      else if code = 402 then CatBusy
      else if code \<in> {403, 414, 415} then CatNotFound
      else if code \<in> {408, 1805} then CatPermissionDenied
      else if code = 416 then CatNotEmpty
      else if code \<in> {418, 1101} then CatAlreadyExists
      else if code \<in> {419, 1804} then CatNoSpace
      else if code = 119 then CatSidExpired
      else CatOther)"

fun category :: "syno_error \<Rightarrow> error_category" where
  "category SynoNotFound = CatNotFound"
| "category SynoPermissionDenied = CatPermissionDenied"
| "category SynoAlreadyExists = CatAlreadyExists"
| "category SynoNotEmpty = CatNotEmpty"
| "category SynoInvalidArg = CatInvalidArg"
| "category SynoNoSpace = CatNoSpace"
| "category SynoNotSupported = CatNotSupported"
| "category (SynoIo _) = CatTransport"
| "category (ApiError code) = dsm_code_to_category code"
| "category (LoginFailed inner) = category inner"

definition looks_like_tls :: "str \<Rightarrow> bool" where
  "looks_like_tls msg =
     (let m = to_ascii_lowercase msg in
      str_contains (lit ''certificate'') m \<or> str_contains (lit ''tls'') m \<or>
      str_contains (lit ''invalid peer'') m \<or> str_contains (lit ''unknownissuer'') m \<or>
      str_contains (lit ''self-signed'') m)"

fun is_tls_error :: "syno_error \<Rightarrow> bool" where
  "is_tls_error (SynoIo msg) = looks_like_tls msg"
| "is_tls_error (LoginFailed inner) = is_tls_error inner"
| "is_tls_error _ = False"

datatype errno = EACCES | EAGAIN | EEXIST | EINVAL | EIO | ENOENT | ENOSPC | ENOSYS | ENOTEMPTY

fun category_to_errno :: "error_category \<Rightarrow> errno" where
  "category_to_errno CatNotFound = ENOENT"
| "category_to_errno CatPermissionDenied = EACCES"
| "category_to_errno CatSidExpired = EACCES"
| "category_to_errno CatAlreadyExists = EEXIST"
| "category_to_errno CatNotEmpty = ENOTEMPTY"
| "category_to_errno CatInvalidArg = EINVAL"
| "category_to_errno CatNoSpace = ENOSPC"
| "category_to_errno CatNotSupported = ENOSYS"
| "category_to_errno CatBusy = EAGAIN"
| "category_to_errno CatTransport = EIO"
| "category_to_errno CatOther = EIO"

definition to_errno :: "syno_error \<Rightarrow> errno" where
  "to_errno e = (case e of LoginFailed _ \<Rightarrow> EACCES | _ \<Rightarrow> category_to_errno (category e))"

fun syno_text :: "syno_error \<Rightarrow> str" where
  "syno_text SynoNotFound = lit ''not found''"
| "syno_text SynoPermissionDenied = lit ''permission denied''"
| "syno_text SynoAlreadyExists = lit ''already exists''"
| "syno_text SynoNotEmpty = lit ''directory not empty''"
| "syno_text SynoInvalidArg = lit ''invalid argument''"
| "syno_text SynoNoSpace = lit ''no space left''"
| "syno_text SynoNotSupported = lit ''not supported''"
| "syno_text (SynoIo msg) = lit ''I/O error: '' @ msg"
| "syno_text (ApiError code) = lit ''Synology API error '' @ show_nat (unat code)"
| "syno_text (LoginFailed inner) = lit ''login failed: '' @ syno_text inner"

text \<open>An error and its chain of sources, each as its text, the outermost first.\<close>

definition flatten_sources :: "str \<Rightarrow> str list \<Rightarrow> str" where
  "flatten_sources outer sources =
     foldl (\<lambda>msg text. if ends_with text msg then msg else msg @ lit '': '' @ text) outer sources"

text \<open>\<open>From<reqwest::Error>\<close>.\<close>

definition from_transport :: "str \<Rightarrow> str list \<Rightarrow> syno_error" where
  "from_transport outer sources = SynoIo (redact_secrets (flatten_sources outer sources))"

section \<open>SMB failures\<close>

text \<open>
  An \<open>smb2::Error\<close> is what the code asks of it: its kind, its text, and the status of a
  \<open>Protocol\<close> error. \<open>KindOther\<close> stands for the kinds a later version of the library may add.
\<close>

datatype smb_kind =
    KindNotFound | AccessDenied | AuthRequired | SigningRequired | KindAlreadyExists | DiskFull
  | Unsupported | IsADirectory | NotADirectory | TooLarge | ConnectionLost | KindTimedOut | KindIo
  | SessionExpired | SharingViolation | DfsReferral | InvalidData | Cancelled | KindOther

record smb_error =
  se_kind :: smb_kind
  se_text :: str
  se_protocol_status :: "u32 option"

definition DIRECTORY_NOT_EMPTY :: u32 where
  "DIRECTORY_NOT_EMPTY = 0xC0000101"

definition kind_to_syno :: "smb_kind \<Rightarrow> str \<Rightarrow> syno_error" where
  "kind_to_syno kind context =
     (case kind of
        KindNotFound \<Rightarrow> SynoNotFound
      | AccessDenied \<Rightarrow> SynoPermissionDenied
      | AuthRequired \<Rightarrow> SynoPermissionDenied
      | SigningRequired \<Rightarrow> SynoPermissionDenied
      | KindAlreadyExists \<Rightarrow> SynoAlreadyExists
      | DiskFull \<Rightarrow> SynoNoSpace
      | Unsupported \<Rightarrow> SynoNotSupported
      | IsADirectory \<Rightarrow> SynoInvalidArg
      | NotADirectory \<Rightarrow> SynoInvalidArg
      | TooLarge \<Rightarrow> SynoInvalidArg
      | _ \<Rightarrow> SynoIo (lit ''smb: '' @ context))"

definition to_syno_error :: "smb_error \<Rightarrow> syno_error" where
  "to_syno_error e = kind_to_syno (se_kind e) (se_text e)"

definition is_login_refusal :: "smb_error \<Rightarrow> bool" where
  "is_login_refusal e \<longleftrightarrow> se_kind e = AuthRequired"

definition is_refused_login :: "syno_error \<Rightarrow> bool" where
  "is_refused_login e = (case e of LoginFailed SynoPermissionDenied \<Rightarrow> True | _ \<Rightarrow> False)"

definition session_error :: "smb_error \<Rightarrow> syno_error" where
  "session_error e = (if is_login_refusal e then LoginFailed SynoPermissionDenied else to_syno_error e)"

definition move_error :: "smb_error \<Rightarrow> syno_error" where
  "move_error e =
     (if se_protocol_status e = Some DIRECTORY_NOT_EMPTY then SynoNotEmpty
      else if se_kind e \<in> {ConnectionLost, KindTimedOut, SessionExpired} then to_syno_error e
      else if se_kind e = SharingViolation then SynoPermissionDenied
      else case to_syno_error e of SynoIo _ \<Rightarrow> SynoInvalidArg | definitive \<Rightarrow> definitive)"

section \<open>Properties\<close>

text \<open>
  SMB failures fall back exactly when they should. A failure is a transport failure, which a
  caller answers by using another backend, exactly for the transient kinds and those the library
  may add; a refused move is one only when the connection or its session is gone, whatever else
  the server said; and of the failures to build a session exactly a refused login is remembered as
  one, although other failures map to the same category.
\<close>

theorem smb_failures_fall_back_when_they_should:
  "(category (to_syno_error e) = CatTransport \<longleftrightarrow>
      se_kind e \<notin> {KindNotFound, AccessDenied, AuthRequired, SigningRequired, KindAlreadyExists, DiskFull,
        Unsupported, IsADirectory, NotADirectory, TooLarge}) \<and>
   (category (move_error e) = CatTransport \<longleftrightarrow>
      se_kind e \<in> {ConnectionLost, KindTimedOut, SessionExpired} \<and>
      se_protocol_status e \<noteq> Some DIRECTORY_NOT_EMPTY) \<and>
   (is_refused_login (session_error e) \<longleftrightarrow> is_login_refusal e) \<and>
   category (session_error e) = category (to_syno_error e)"
  by (cases "se_kind e")
    (simp_all add: to_syno_error_def kind_to_syno_def move_error_def session_error_def is_login_refusal_def
      is_refused_login_def)

end
