(* ===== verification/Smb_Path.thy ===== *)
theory Smb_Path
  imports Syno_Error
begin

text \<open>
  Logical paths as SMB locations (\<open>synology-filestation-smb/src/path.rs\<close>): a share and a path
  inside it. The byte of a slash is 47.
\<close>

record smb_path =
  sp_share :: str
  sp_path :: str

definition trim_slashes :: "str \<Rightarrow> str" where
  "trim_slashes s = rev (dropWhile (\<lambda>c. c = 47) (rev (dropWhile (\<lambda>c. c = 47) s)))"

definition from_logical :: "str \<Rightarrow> syno_error + smb_path" where
  "from_logical logical =
     (let trimmed = trim_slashes logical in
      if trimmed = [] then Inl SynoInvalidArg
      else
        let (share, path) = (case split_once [47] trimmed of Some (s, p) \<Rightarrow> (s, p) | None \<Rightarrow> (trimmed, []))
        in if share = [] then Inl SynoInvalidArg else Inr \<lparr>sp_share = share, sp_path = path\<rparr>)"

abbreviation is_slash :: "u8 \<Rightarrow> bool" where
  "is_slash c \<equiv> c = 47"

lemma trim_slashes_front:
  "dropWhile is_slash s = trim_slashes s @ rev (takeWhile is_slash (rev (dropWhile is_slash s)))"
proof -
  let ?t = "dropWhile is_slash s"
  have "rev (takeWhile is_slash (rev ?t) @ dropWhile is_slash (rev ?t)) = ?t"
    by (simp only: takeWhile_dropWhile_id rev_rev_ident)
  then show ?thesis by (simp only: rev_append trim_slashes_def)
qed

lemma trim_slashes_spec:
  obtains lead trail where "s = lead @ trim_slashes s @ trail" "set lead \<subseteq> {47}" "set trail \<subseteq> {47}"
proof (rule that)
  show "s = takeWhile is_slash s @ trim_slashes s @ rev (takeWhile is_slash (rev (dropWhile is_slash s)))"
    using trim_slashes_front [of s] takeWhile_dropWhile_id [of is_slash s] by simp
qed (auto dest: set_takeWhileD)

lemma trim_slashes_last: "trim_slashes s \<noteq> [] \<Longrightarrow> last (trim_slashes s) \<noteq> 47"
  using hd_dropWhile [of is_slash "rev (dropWhile is_slash s)"] by (simp add: trim_slashes_def last_rev)

lemma trim_slashes_hd: "trim_slashes s \<noteq> [] \<Longrightarrow> hd (trim_slashes s) \<noteq> 47"
proof -
  assume ne: "trim_slashes s \<noteq> []"
  then have "hd (dropWhile is_slash s) = hd (trim_slashes s)" "dropWhile is_slash s \<noteq> []"
    by (subst trim_slashes_front, simp)+
  then show ?thesis using hd_dropWhile [of is_slash s] by simp
qed

lemma trim_slashes_Nil: "trim_slashes s = [] \<longleftrightarrow> set s \<subseteq> {47}"
proof
  assume "trim_slashes s = []"
  then show "set s \<subseteq> {47}" by (rule_tac s = s in trim_slashes_spec) auto
next
  assume s: "set s \<subseteq> {47}"
  then have "\<forall>c \<in> set s. is_slash c" by blast
  then have "dropWhile is_slash s = []" by (simp only: dropWhile_eq_Nil_conv)
  then show "trim_slashes s = []"
    unfolding trim_slashes_def by (simp only: rev.simps dropWhile.simps)
qed

lemma split_once_byte: "split_once [c] s = Some (a, b) \<longleftrightarrow> s = a @ c # b \<and> c \<notin> set a"
proof (induction s arbitrary: a)
  case (Cons x s)
  show ?case
  proof (cases "x = c")
    case True
    then show ?thesis by (cases a) (auto simp: starts_with_def)
  next
    case False
    then show ?thesis using Cons by (cases a) (auto simp: starts_with_def)
  qed
qed simp

lemma split_once_none: "split_once [c] s = None \<longleftrightarrow> c \<notin> set s"
  by (metis in_set_conv_decomp_first option.exhaust split_once_byte surj_pair not_Some_eq)

text \<open>
  C39. An SMB location is well formed and says what the path said: the share is one non-empty
  component, the path inside it does not end in a slash, and the two with a slash between them are
  the logical path without the slashes around it; only a path of nothing but slashes is refused.
\<close>

theorem smb_location_well_formed:
  "case from_logical logical of
     Inr p \<Rightarrow> sp_share p \<noteq> [] \<and> 47 \<notin> set (sp_share p) \<and> (sp_path p = [] \<or> last (sp_path p) \<noteq> 47) \<and>
       (\<exists>lead trail. set lead \<union> set trail \<subseteq> {47} \<and>
         logical = lead @ sp_share p @ (if sp_path p = [] then [] else 47 # sp_path p) @ trail)
   | Inl e \<Rightarrow> e = SynoInvalidArg \<and> set logical \<subseteq> {47}"
proof (cases "trim_slashes logical = []")
  case True
  then show ?thesis using trim_slashes_Nil [of logical] by (simp add: from_logical_def)
next
  case False
  obtain lead trail where l: "logical = lead @ trim_slashes logical @ trail" "set lead \<subseteq> {47}" "set trail \<subseteq> {47}"
    by (rule trim_slashes_spec)
  note ends = trim_slashes_hd [OF False] trim_slashes_last [OF False]
  show ?thesis
  proof (cases "split_once [47] (trim_slashes logical)")
    case None
    then have "47 \<notin> set (trim_slashes logical)" by (simp add: split_once_none)
    then show ?thesis using None False l trim_slashes_Nil [of logical]
      by (simp add: from_logical_def) (rule exI [of _ lead], simp, rule exI [of _ trail], simp)
  next
    case (Some sp)
    obtain s p where sp: "sp = (s, p)" by fastforce
    with Some have t: "trim_slashes logical = s @ 47 # p" "47 \<notin> set s" by (auto simp: split_once_byte)
    with ends have "s \<noteq> []" "p \<noteq> []" "last p \<noteq> 47" by (auto split: if_splits)
    with Some sp t l False show ?thesis
      by (simp add: from_logical_def) blast
  qed
qed

theorem smb_location_well_formed_witness:
  "from_logical (lit ''/share/dir/'') = Inr \<lparr>sp_share = lit ''share'', sp_path = lit ''dir''\<rparr> \<and>
     last (lit ''dir'') \<noteq> (47 :: u8)"
proof -
  have "from_logical (lit ''/share/dir/'') = Inr \<lparr>sp_share = lit ''share'', sp_path = lit ''dir''\<rparr>"
    by code_simp
  moreover from this have "sp_path \<lparr>sp_share = lit ''share'', sp_path = lit ''dir''\<rparr> = [] \<or> last (lit ''dir'') \<noteq> (47 :: u8)"
    using smb_location_well_formed [of "lit ''/share/dir/''"] by simp
  moreover have "lit ''dir'' \<noteq> []" by code_simp
  ultimately show ?thesis by simp
qed

end
