(* ===== verification/Smb_Framing.thy ===== *)
theory Smb_Framing
  imports Decimal
begin

text \<open>
  The framing that carries SMB messages over any byte stream
  (\<open>synology-filestation-smb/src/framing.rs\<close>). The stream is a parameter. Its writing half is a
  record of operations on a state of any type. Its reading half is the bytes it will still deliver,
  in whatever pieces, and the way it ends: \<open>read_exact\<close> does not see the pieces. The locks around
  the halves serialise the operations of each and are not modelled.
\<close>

section \<open>The stream\<close>

record 'w writer =
  wr_all :: "bytes \<Rightarrow> 'w \<Rightarrow> (str + unit) \<times> 'w"
  wr_flush :: "'w \<Rightarrow> (str + unit) \<times> 'w"

datatype stream_end = Eof | Broken str

record reader =
  rd_bytes :: bytes
  rd_end :: stream_end

datatype frame_error = FrameInvalid str | FrameDisconnected | FrameIo str

text \<open>\<open>ended\<close>, after a read that met the end of the stream.\<close>

definition ended :: "stream_end \<Rightarrow> frame_error" where
  "ended e = (case e of Eof \<Rightarrow> FrameDisconnected | Broken m \<Rightarrow> FrameIo m)"

definition read_exact :: "nat \<Rightarrow> reader \<Rightarrow> (stream_end + bytes) \<times> reader" where
  "read_exact n r =
     (if n \<le> length (rd_bytes r) then (Inr (take n (rd_bytes r)), r\<lparr>rd_bytes := drop n (rd_bytes r)\<rparr>)
      else (Inl (rd_end r), r\<lparr>rd_bytes := []\<rparr>))"

section \<open>Messages\<close>

definition MAX_FRAME_SIZE :: nat where
  "MAX_FRAME_SIZE = 0xFFFFFF"

definition frame_header :: "nat \<Rightarrow> bytes" where
  "frame_header len = [0, of_nat (len div 2 ^ 16), of_nat (len div 2 ^ 8), of_nat len]"

definition frame_send :: "'w writer \<Rightarrow> bytes \<Rightarrow> 'w \<Rightarrow> (frame_error + unit) \<times> 'w" where
  "frame_send ops data w =
     (let len = length data in
      if len > MAX_FRAME_SIZE then
        (Inl (FrameInvalid (lit ''message size '' @ show_nat len @ lit '' exceeds maximum frame size '' @
           show_nat MAX_FRAME_SIZE)), w)
      else
        case wr_all ops (frame_header len) w of
          (Inl m, w) \<Rightarrow> (Inl (FrameIo m), w)
        | (Inr _, w) \<Rightarrow>
            (case wr_all ops data w of
               (Inl m, w) \<Rightarrow> (Inl (FrameIo m), w)
             | (Inr _, w) \<Rightarrow>
                 (case wr_flush ops w of
                    (Inl m, w) \<Rightarrow> (Inl (FrameIo m), w)
                  | (Inr _, w) \<Rightarrow> (Inr (), w))))"

definition hex_digit :: "nat \<Rightarrow> u8" where
  "hex_digit d = (if d < 10 then of_nat (48 + d) else of_nat (55 + d))"

definition frame_receive :: "reader \<Rightarrow> (frame_error + bytes) \<times> reader" where
  "frame_receive r =
     (case read_exact 4 r of
        (Inl e, r) \<Rightarrow> (Inl (ended e), r)
      | (Inr header, r) \<Rightarrow>
          if header ! 0 \<noteq> 0 then
            (Inl (FrameInvalid (lit ''invalid transport frame: first byte must be 0x00, got 0x'' @
               [hex_digit (unat (header ! 0) div 16), hex_digit (unat (header ! 0) mod 16)])), r)
          else
            let len = unat (header ! 1) * 2 ^ 16 + unat (header ! 2) * 2 ^ 8 + unat (header ! 3) in
            (case read_exact len r of
               (Inl e, r) \<Rightarrow> (Inl (ended e), r)
             | (Inr message, r) \<Rightarrow> (Inr message, r)))"

text \<open>The three length bytes are combined with \<open>OR\<close> after shifting, which adds them.\<close>

section \<open>A stream of messages\<close>

text \<open>A writer that keeps everything, and the messages a reader yields until its first error.\<close>

definition memory :: "bytes writer" where
  "memory = \<lparr>wr_all = \<lambda>bs w. (Inr (), w @ bs), wr_flush = \<lambda>w. (Inr (), w)\<rparr>"

fun sends :: "bytes list \<Rightarrow> bytes \<Rightarrow> bytes" where
  "sends [] w = w"
| "sends (m # ms) w = sends ms (snd (frame_send memory m w))"

fun receives :: "nat \<Rightarrow> reader \<Rightarrow> bytes list \<times> frame_error option" where
  "receives 0 r = ([], None)"
| "receives (Suc n) r =
     (case frame_receive r of
        (Inl e, r) \<Rightarrow> ([], Some e)
      | (Inr m, r) \<Rightarrow> (let (ms, e) = receives n r in (m # ms, e)))"

abbreviation frame :: "bytes \<Rightarrow> bytes" where
  "frame m \<equiv> frame_header (length m) @ m"

lemma length_frame_header [simp]: "length (frame_header n) = 4"
  by (simp add: frame_header_def)

lemma send_memory:
  "frame_send memory m w =
     (if length m > MAX_FRAME_SIZE then
        (Inl (FrameInvalid (lit ''message size '' @ show_nat (length m) @ lit '' exceeds maximum frame size '' @
           show_nat MAX_FRAME_SIZE)), w)
      else (Inr (), w @ frame m))"
  by (simp add: frame_send_def memory_def Let_def)

lemma header_length:
  assumes "n \<le> MAX_FRAME_SIZE"
  shows "unat (frame_header n ! 1) * 2 ^ 16 + unat (frame_header n ! 2) * 2 ^ 8 + unat (frame_header n ! 3) = n"
proof -
  have 1: "n div 2 ^ 16 < 2 ^ 8" using assms by (simp add: MAX_FRAME_SIZE_def)
  have "unat (frame_header n ! 1) = n div 2 ^ 16"
    using 1 by (simp add: frame_header_def unat_of_nat)
  moreover have "unat (frame_header n ! 2) = n div 2 ^ 8 mod 2 ^ 8"
    by (simp add: frame_header_def unat_of_nat)
  moreover have "unat (frame_header n ! 3) = n mod 2 ^ 8"
    by (simp add: frame_header_def unat_of_nat)
  moreover have "n div 2 ^ 16 * 2 ^ 16 + n div 2 ^ 8 mod 2 ^ 8 * 2 ^ 8 + n mod 2 ^ 8 = n"
  proof -
    have "n div 2 ^ 16 = n div 2 ^ 8 div 2 ^ 8" by (simp flip: div_mult2_eq)
    then have "n div 2 ^ 16 * 2 ^ 16 + n div 2 ^ 8 mod 2 ^ 8 * 2 ^ 8 + n mod 2 ^ 8 =
        (n div 2 ^ 8 div 2 ^ 8 * 2 ^ 8 + n div 2 ^ 8 mod 2 ^ 8) * 2 ^ 8 + n mod 2 ^ 8"
      by (simp only: distrib_right) simp
    then show ?thesis by (simp only: div_mult_mod_eq)
  qed
  ultimately show ?thesis by (simp only:)
qed

lemma receive_frame:
  assumes "length m \<le> MAX_FRAME_SIZE"
  shows "frame_receive \<lparr>rd_bytes = frame m @ rest, rd_end = e\<rparr> = (Inr m, \<lparr>rd_bytes = rest, rd_end = e\<rparr>)"
proof -
  have "read_exact 4 \<lparr>rd_bytes = frame m @ rest, rd_end = e\<rparr> =
      (Inr (frame_header (length m)), \<lparr>rd_bytes = m @ rest, rd_end = e\<rparr>)"
    by (simp add: read_exact_def)
  moreover have "frame_header (length m) ! 0 = 0" by (simp add: frame_header_def)
  ultimately show ?thesis
    using header_length [OF assms] by (simp add: frame_receive_def read_exact_def Let_def)
qed

lemma receive_part:
  assumes "length m \<le> MAX_FRAME_SIZE" and "frame m = part @ missing" and "missing \<noteq> []"
  shows "fst (frame_receive \<lparr>rd_bytes = part, rd_end = e\<rparr>) = Inl (ended e)"
proof (cases "length part < 4")
  case True
  then show ?thesis by (simp add: frame_receive_def read_exact_def)
next
  case False
  then have part: "take 4 part = frame_header (length m)"
    using arg_cong [OF assms(2), of "take 4"] by simp
  have len: "length (drop 4 part) < length m"
    using arg_cong [OF assms(2), of length] assms(3) False by (cases missing) auto
  have "read_exact 4 \<lparr>rd_bytes = part, rd_end = e\<rparr> =
      (Inr (frame_header (length m)), \<lparr>rd_bytes = drop 4 part, rd_end = e\<rparr>)"
    using False part by (simp add: read_exact_def)
  moreover have "frame_header (length m) ! 0 = 0" by (simp add: frame_header_def)
  ultimately show ?thesis
    using header_length [OF assms(1)] len by (simp add: frame_receive_def read_exact_def Let_def)
qed

section \<open>Properties\<close>

lemma sends_frames:
  "list_all (\<lambda>m. length m \<le> MAX_FRAME_SIZE) ms \<Longrightarrow> sends ms w = w @ concat (map frame ms)"
  by (induction ms arbitrary: w) (auto simp: send_memory not_less)

text \<open>
  Messages survive the stream whole and in order. Whatever messages of at most 2^24 - 1 bytes
  are sent, a reader of what was written receives exactly those, and a stream that stops inside the
  next message ends with an error that says how it stopped: never a short message.
\<close>

theorem framed_messages_roundtrip:
  assumes "list_all (\<lambda>m. length m \<le> MAX_FRAME_SIZE) ms" and "length m \<le> MAX_FRAME_SIZE"
    and "sends [m] [] = part @ missing" and "missing \<noteq> []"
  shows "receives (Suc (length ms)) \<lparr>rd_bytes = sends ms [] @ part, rd_end = e\<rparr> = (ms, Some (ended e))"
proof -
  have m: "frame m = part @ missing" using assms(2,3) by (simp add: send_memory not_less)
  have "receives (Suc (length ms)) \<lparr>rd_bytes = concat (map frame ms) @ part, rd_end = e\<rparr> = (ms, Some (ended e))"
    using assms(1)
  proof (induction ms)
    case Nil
    have "fst (frame_receive \<lparr>rd_bytes = part, rd_end = e\<rparr>) = Inl (ended e)"
      by (rule receive_part [OF assms(2) m assms(4)])
    then show ?case by (cases "frame_receive \<lparr>rd_bytes = part, rd_end = e\<rparr>") simp
  next
    case (Cons x ms)
    then have "frame_receive \<lparr>rd_bytes = frame x @ concat (map frame ms) @ part, rd_end = e\<rparr> =
        (Inr x, \<lparr>rd_bytes = concat (map frame ms) @ part, rd_end = e\<rparr>)"
      by (intro receive_frame) simp
    with Cons show ?case by (simp del: receives.simps(2) add: receives.simps(2) [of "Suc (length ms)"])
  qed
  then show ?thesis using sends_frames [OF assms(1), of "[]"] by simp
qed

theorem framed_messages_roundtrip_witness:
  "receives 3 \<lparr>rd_bytes = sends [[1, 2], []] [] @ [0, 0, 0, 2, 7], rd_end = Eof\<rparr> =
     ([[1, 2], []], Some FrameDisconnected)"
proof -
  have "sends [[7, 8]] [] = [0, 0, 0, 2, 7] @ [8]"
    by (simp add: send_memory MAX_FRAME_SIZE_def frame_header_def)
  from framed_messages_roundtrip [OF _ _ this, of "[[1, 2], []]" Eof] show ?thesis
    by (simp add: MAX_FRAME_SIZE_def ended_def numeral_3_eq_3)
qed

end
