(* ===== verification/Handles.thy ===== *)
theory Handles
  imports Text "HOL-Library.Multiset"
begin

text \<open>
  The bounded cache of open read handles (\<open>synology-filestation-smb/src/handles.rs\<close>). A
  \<open>HashMap\<close> is an association list with one entry per key; the order in which it is drained is
  unspecified in the source, and here the order of the list. A shared handle is its value; how many
  others hold it, which \<open>take_free\<close> asks, is an argument. The lock makes each operation one step.
\<close>

section \<open>State and operations\<close>

record 'h handle_state =
  hs_order :: "str list"
  hs_handles :: "(str \<times> 'h) list"
  hs_deferred :: "'h list"

record 'h handle_cache =
  hc_capacity :: nat
  hc_state :: "'h handle_state"

definition MAX_CACHED_HANDLES :: nat where
  "MAX_CACHED_HANDLES = 64"

definition cache_new :: "nat \<Rightarrow> 'h handle_cache" where
  "cache_new capacity =
     \<lparr>hc_capacity = capacity, hc_state = \<lparr>hs_order = [], hs_handles = [], hs_deferred = []\<rparr>\<rparr>"

definition touch :: "str \<Rightarrow> 'h handle_state \<Rightarrow> 'h handle_state" where
  "touch path st = st\<lparr>hs_order := filter (\<lambda>k. k \<noteq> path) (hs_order st) @ [path]\<rparr>"

definition map_remove :: "str \<Rightarrow> (str \<times> 'h) list \<Rightarrow> 'h list \<times> (str \<times> 'h) list" where
  "map_remove path m = (map snd (filter (\<lambda>e. fst e = path) m), filter (\<lambda>e. fst e \<noteq> path) m)"

definition cache_get :: "str \<Rightarrow> 'h handle_cache \<Rightarrow> 'h option \<times> 'h handle_cache" where
  "cache_get path c =
     (case map_of (hs_handles (hc_state c)) path of
        None \<Rightarrow> (None, c)
      | Some h \<Rightarrow> (Some h, c\<lparr>hc_state := touch path (hc_state c)\<rparr>))"

text \<open>The loop that evicts; \<open>order.remove(0)\<close> panics on an empty list, which is \<open>None\<close>.\<close>

function evict :: "nat \<Rightarrow> 'h handle_state \<Rightarrow> ('h list \<times> 'h handle_state) option" where
  "evict capacity st =
     (if length (hs_handles st) > capacity then
        (case hs_order st of
           [] \<Rightarrow> None
         | oldest # order \<Rightarrow>
             let (gone, handles) = map_remove oldest (hs_handles st)
             in map_option (\<lambda>(evicted, st). (gone @ evicted, st))
                  (evict capacity (st\<lparr>hs_order := order, hs_handles := handles\<rparr>)))
      else Some ([], st))"
  by pat_completeness auto
termination
  by (relation "measure (\<lambda>(c, st). length (hs_order st))") auto

declare evict.simps [simp del]

definition insert_or_existing ::
  "str \<Rightarrow> 'h \<Rightarrow> 'h handle_cache \<Rightarrow> (('h \<times> 'h list) \<times> 'h handle_cache) option" where
  "insert_or_existing path h c =
     (if hc_capacity c = 0 then Some ((h, [h]), c)
      else case map_of (hs_handles (hc_state c)) path of
        Some existing \<Rightarrow> Some ((existing, [h]), c\<lparr>hc_state := touch path (hc_state c)\<rparr>)
      | None \<Rightarrow>
          let st = (hc_state c)\<lparr>hs_handles := hs_handles (hc_state c) @ [(path, h)]\<rparr>
          in map_option (\<lambda>(evicted, st). ((h, evicted), c\<lparr>hc_state := st\<rparr>))
               (evict (hc_capacity c) (touch path st)))"

definition invalidate :: "str \<Rightarrow> 'h handle_cache \<Rightarrow> 'h list \<times> 'h handle_cache" where
  "invalidate path c =
     (let st = hc_state c; (gone, handles) = map_remove path (hs_handles st)
      in (gone, c\<lparr>hc_state := st\<lparr>hs_order := filter (\<lambda>k. k \<noteq> path) (hs_order st), hs_handles := handles\<rparr>\<rparr>))"

definition under :: "str \<Rightarrow> str \<Rightarrow> bool" where
  "under path prefix \<longleftrightarrow>
     (let prefix = rev (dropWhile (\<lambda>c. c = 47) (rev prefix)) in
      path = prefix \<or> starts_with prefix path \<and> length prefix < length path \<and> path ! length prefix = 47)"

definition invalidate_prefix :: "str \<Rightarrow> 'h handle_cache \<Rightarrow> 'h list \<times> 'h handle_cache" where
  "invalidate_prefix prefix c =
     (let st = hc_state c
      in (map snd (filter (\<lambda>e. under (fst e) prefix) (hs_handles st)),
          c\<lparr>hc_state := st\<lparr>hs_order := filter (\<lambda>k. \<not> under k prefix) (hs_order st),
             hs_handles := filter (\<lambda>e. \<not> under (fst e) prefix) (hs_handles st)\<rparr>\<rparr>))"

definition cache_clear :: "'h handle_cache \<Rightarrow> 'h list \<times> 'h handle_cache" where
  "cache_clear c =
     (map snd (hs_handles (hc_state c)) @ hs_deferred (hc_state c),
      c\<lparr>hc_state := \<lparr>hs_order = [], hs_handles = [], hs_deferred = []\<rparr>\<rparr>)"

definition cache_defer :: "'h \<Rightarrow> 'h handle_cache \<Rightarrow> 'h handle_cache" where
  "cache_defer h c = c\<lparr>hc_state := (hc_state c)\<lparr>hs_deferred := hs_deferred (hc_state c) @ [h]\<rparr>\<rparr>"

definition cache_is_empty :: "'h handle_cache \<Rightarrow> bool" where
  "cache_is_empty c \<longleftrightarrow> hs_handles (hc_state c) = [] \<and> hs_deferred (hc_state c) = []"

text \<open>\<open>refs h\<close> is how many references to a parked handle there are, the cache's own included.\<close>

definition take_free :: "('h \<Rightarrow> nat) \<Rightarrow> 'h handle_cache \<Rightarrow> 'h list \<times> 'h handle_cache" where
  "take_free refs c =
     (let st = hc_state c
      in (filter (\<lambda>h. refs h = 1) (hs_deferred st),
          c\<lparr>hc_state := st\<lparr>hs_deferred := filter (\<lambda>h. refs h \<noteq> 1) (hs_deferred st)\<rparr>\<rparr>))"

section \<open>The invariant\<close>

definition cache_ok :: "'h handle_cache \<Rightarrow> bool" where
  "cache_ok c \<longleftrightarrow> (let st = hc_state c in
     distinct (hs_order st) \<and> distinct (map fst (hs_handles st)) \<and>
     set (hs_order st) = fst ` set (hs_handles st) \<and> length (hs_handles st) \<le> hc_capacity c)"

text \<open>The cache as what it is meant to be: paths with their handles, the least recently used first.\<close>

definition lru :: "'h handle_cache \<Rightarrow> (str \<times> 'h) list" where
  "lru c = map (\<lambda>k. (k, the (map_of (hs_handles (hc_state c)) k))) (hs_order (hc_state c))"

fun lru_use :: "str \<Rightarrow> (str \<times> 'h) list \<Rightarrow> (str \<times> 'h) list" where
  "lru_use path l = filter (\<lambda>e. fst e \<noteq> path) l @ filter (\<lambda>e. fst e = path) l"

definition lru_insert :: "nat \<Rightarrow> str \<Rightarrow> 'h \<Rightarrow> (str \<times> 'h) list \<Rightarrow> ('h \<times> 'h list) \<times> (str \<times> 'h) list" where
  "lru_insert capacity path h l =
     (case map_of l path of
        Some existing \<Rightarrow> ((existing, [h]), lru_use path l)
      | None \<Rightarrow>
          let l' = l @ [(path, h)]; n = length l' - capacity
          in ((h, map snd (take n l')), drop n l'))"

lemma cache_okD:
  assumes "cache_ok c"
  shows "distinct (hs_order (hc_state c))" "distinct (map fst (hs_handles (hc_state c)))"
    "set (hs_order (hc_state c)) = fst ` set (hs_handles (hc_state c))"
    "length (hs_handles (hc_state c)) \<le> hc_capacity c"
    "length (hs_order (hc_state c)) = length (hs_handles (hc_state c))"
proof -
  from assms show *: "distinct (hs_order (hc_state c))" "distinct (map fst (hs_handles (hc_state c)))"
    "set (hs_order (hc_state c)) = fst ` set (hs_handles (hc_state c))"
    "length (hs_handles (hc_state c)) \<le> hc_capacity c"
    by (simp_all add: cache_ok_def Let_def)
  show "length (hs_order (hc_state c)) = length (hs_handles (hc_state c))"
    using distinct_card [OF *(1)] distinct_card [OF *(2)] *(3) by simp
qed

lemma map_of_lru: "cache_ok c \<Longrightarrow> map_of (lru c) = map_of (hs_handles (hc_state c))"
proof
  fix k
  assume ok: "cache_ok c"
  show "map_of (lru c) k = map_of (hs_handles (hc_state c)) k"
    using cache_okD(3) [OF ok] map_of_eq_None_iff [of "hs_handles (hc_state c)" k]
    by (cases "map_of (hs_handles (hc_state c)) k")
      (auto simp: lru_def map_of_map_restrict restrict_map_def)
qed

lemma filter_key: "distinct ks \<Longrightarrow> filter (\<lambda>k. k = p) ks = (if p \<in> set ks then [p] else [])"
  by (induction ks) auto

lemma lru_touch:
  assumes "path \<in> set (hs_order st)" "distinct (hs_order st)"
  shows "map (\<lambda>k. (k, f k)) (hs_order (touch path st)) = lru_use path (map (\<lambda>k. (k, f k)) (hs_order st))"
  using assms by (simp add: touch_def filter_map o_def filter_key)

lemma touch_ok:
  assumes "cache_ok c" "path \<in> set (hs_order (hc_state c))"
  shows "cache_ok (c\<lparr>hc_state := touch path (hc_state c)\<rparr>)"
    and "lru (c\<lparr>hc_state := touch path (hc_state c)\<rparr>) = lru_use path (lru c)"
proof -
  show "cache_ok (c\<lparr>hc_state := touch path (hc_state c)\<rparr>)"
    using assms by (auto simp: cache_ok_def touch_def Let_def)
  show "lru (c\<lparr>hc_state := touch path (hc_state c)\<rparr>) = lru_use path (lru c)"
    using lru_touch [OF assms(2) cache_okD(1) [OF assms(1)]] by (simp add: lru_def touch_def)
qed

lemma lookup_order: "cache_ok c \<Longrightarrow> map_of (hs_handles (hc_state c)) path \<noteq> None \<longleftrightarrow> path \<in> set (hs_order (hc_state c))"
  using cache_okD(3) [of c] by (simp add: map_of_eq_None_iff)

lemma get_refines:
  assumes "cache_ok c"
  shows "cache_ok (snd (cache_get path c)) \<and> fst (cache_get path c) = map_of (lru c) path \<and>
    lru (snd (cache_get path c)) = lru_use path (lru c)"
proof (cases "map_of (hs_handles (hc_state c)) path")
  case None
  with assms have "\<forall>e \<in> set (lru c). fst e \<noteq> path"
    using map_of_lru [OF assms] by (metis map_of_eq_None_iff image_eqI)
  then have "lru_use path (lru c) = lru c" by (simp add: filter_False filter_True)
  with None assms show ?thesis by (simp add: cache_get_def map_of_lru)
next
  case (Some h)
  with assms have "path \<in> set (hs_order (hc_state c))" using lookup_order by blast
  with Some assms touch_ok [OF assms] show ?thesis by (simp add: cache_get_def map_of_lru)
qed

lemma distinct_key_filter:
  "distinct (map fst m) \<Longrightarrow> map_of m p = Some h \<Longrightarrow> filter (\<lambda>e. fst e = p) m = [(p, h)]"
  by (induction m) (force simp: filter_empty_conv split: if_splits dest: map_of_SomeD)+

lemma map_of_removed: "map_of (filter (\<lambda>e. fst e \<noteq> p) m) k = (if k = p then None else map_of m k)"
  by (induction m) auto

lemma length_removed:
  "distinct (map fst m) \<Longrightarrow> map_of m p = Some h \<Longrightarrow> Suc (length (filter (\<lambda>e. fst e \<noteq> p) m)) = length m"
  using sum_length_filter_compl [of "\<lambda>e. fst e = p" m] by (simp add: distinct_key_filter)

text \<open>One step of the loop that evicts.\<close>

lemma evict_once:
  assumes ok: "cache_ok c" and full: "length (hs_handles (hc_state c)) = Suc capacity" and cap: "0 < hc_capacity c"
  shows "\<exists>p h st. hd (lru c) = (p, h) \<and> evict capacity (hc_state c) = Some ([h], st) \<and>
    cache_ok \<lparr>hc_capacity = capacity, hc_state = st\<rparr> \<and> lru \<lparr>hc_capacity = capacity, hc_state = st\<rparr> = tl (lru c)"
proof -
  let ?st = "hc_state c"
  from full cache_okD(5) [OF ok] obtain p ps where o: "hs_order ?st = p # ps" by (cases "hs_order ?st") auto
  have p: "p \<notin> set ps" "p \<in> fst ` set (hs_handles ?st)"
    using cache_okD(1,3) [OF ok] o by auto
  then obtain h where h: "map_of (hs_handles ?st) p = Some h"
    by (metis map_of_eq_None_iff not_Some_eq)
  let ?t = "?st\<lparr>hs_order := ps, hs_handles := filter (\<lambda>e. fst e \<noteq> p) (hs_handles ?st)\<rparr>"
  have len: "length (hs_handles ?t) = capacity"
    using length_removed [OF cache_okD(2) [OF ok] h] full by simp
  have r: "map_remove p (hs_handles ?st) = ([h], filter (\<lambda>e. fst e \<noteq> p) (hs_handles ?st))"
    using distinct_key_filter [OF cache_okD(2) [OF ok] h] by (simp add: map_remove_def)
  have "evict capacity ?t = Some ([], ?t)" using len by (simp add: evict.simps)
  then have e: "evict capacity ?st = Some ([h], ?t)"
    using full o r by (subst evict.simps) (simp add: Let_def)
  have "cache_ok \<lparr>hc_capacity = capacity, hc_state = ?t\<rparr>"
    using ok o p(1) len by (auto simp: cache_ok_def Let_def distinct_map_filter)
  moreover have "lru \<lparr>hc_capacity = capacity, hc_state = ?t\<rparr> = tl (lru c)"
    using o p(1) by (auto simp: lru_def map_of_removed)
  moreover have "hd (lru c) = (p, h)" using o h by (simp add: lru_def)
  ultimately show ?thesis using e by blast
qed

lemma insert_new:
  assumes ok: "cache_ok c" and new: "map_of (hs_handles (hc_state c)) path = None"
  shows "cache_ok \<lparr>hc_capacity = Suc (hc_capacity c),
      hc_state = touch path ((hc_state c)\<lparr>hs_handles := hs_handles (hc_state c) @ [(path, h)]\<rparr>)\<rparr>"
    and "lru \<lparr>hc_capacity = Suc (hc_capacity c),
      hc_state = touch path ((hc_state c)\<lparr>hs_handles := hs_handles (hc_state c) @ [(path, h)]\<rparr>)\<rparr> =
      lru c @ [(path, h)]"
proof -
  have p: "path \<notin> set (hs_order (hc_state c))" using lookup_order [OF ok] new by blast
  then have f: "filter (\<lambda>k. k \<noteq> path) (hs_order (hc_state c)) = hs_order (hc_state c)"
    by (auto simp: filter_id_conv)
  have k: "path \<notin> fst ` set (hs_handles (hc_state c))" using new by (simp add: map_of_eq_None_iff)
  show "cache_ok \<lparr>hc_capacity = Suc (hc_capacity c),
      hc_state = touch path ((hc_state c)\<lparr>hs_handles := hs_handles (hc_state c) @ [(path, h)]\<rparr>)\<rparr>"
    using ok p k f by (auto simp: cache_ok_def touch_def Let_def)
  have old: "map_of (hs_handles (hc_state c) @ [(path, h)]) x = map_of (hs_handles (hc_state c)) x"
    if "x \<in> set (hs_order (hc_state c))" for x
    using lookup_order [OF ok, of x] that by (auto simp: map_add_def split: option.split)
  show "lru \<lparr>hc_capacity = Suc (hc_capacity c),
      hc_state = touch path ((hc_state c)\<lparr>hs_handles := hs_handles (hc_state c) @ [(path, h)]\<rparr>)\<rparr> =
      lru c @ [(path, h)]"
    using new old by (auto simp: lru_def touch_def f map_add_def)
qed

lemma length_lru: "cache_ok c \<Longrightarrow> length (lru c) = length (hs_handles (hc_state c))"
  using cache_okD(5) by (simp add: lru_def)

lemma insert_refines:
  assumes ok: "cache_ok c" and cap: "0 < hc_capacity c"
  shows "\<exists>r c'. insert_or_existing path h c = Some (r, c') \<and> cache_ok c' \<and> hc_capacity c' = hc_capacity c \<and>
    (r, lru c') = lru_insert (hc_capacity c) path h (lru c)"
proof (cases "map_of (hs_handles (hc_state c)) path")
  case (Some e)
  then have "path \<in> set (hs_order (hc_state c))" using lookup_order [OF ok] by blast
  from touch_ok [OF ok this] Some cap show ?thesis
    by (simp add: insert_or_existing_def lru_insert_def map_of_lru [OF ok])
next
  case None
  let ?c = "\<lparr>hc_capacity = Suc (hc_capacity c),
      hc_state = touch path ((hc_state c)\<lparr>hs_handles := hs_handles (hc_state c) @ [(path, h)]\<rparr>)\<rparr>"
  note new = insert_new [OF ok None, of h]
  have len: "length (hs_handles (hc_state ?c)) = Suc (length (lru c))"
    using length_lru [OF ok] by (simp add: touch_def)
  show ?thesis
  proof (cases "length (lru c) < hc_capacity c")
    case True
    then have "evict (hc_capacity c) (hc_state ?c) = Some ([], hc_state ?c)"
      using len by (simp add: evict.simps)
    moreover have "cache_ok (c\<lparr>hc_state := hc_state ?c\<rparr>)"
      using new(1) True len by (simp add: cache_ok_def Let_def)
    moreover have "lru (c\<lparr>hc_state := hc_state ?c\<rparr>) = lru c @ [(path, h)]" using new(2) by (simp add: lru_def)
    ultimately show ?thesis
      using None cap True by (simp add: insert_or_existing_def lru_insert_def map_of_lru [OF ok] Let_def)
  next
    case False
    then have full: "length (lru c) = hc_capacity c"
      using cache_okD(4) [OF ok] length_lru [OF ok] by simp
    from evict_once [OF new(1), of "hc_capacity c"] len full obtain p g st where e:
      "hd (lru c @ [(path, h)]) = (p, g)" "evict (hc_capacity c) (hc_state ?c) = Some ([g], st)"
      "cache_ok \<lparr>hc_capacity = hc_capacity c, hc_state = st\<rparr>"
      "lru \<lparr>hc_capacity = hc_capacity c, hc_state = st\<rparr> = tl (lru c @ [(path, h)])"
      unfolding new(2) by auto
    obtain q where q: "lru c = (p, g) # q" using e(1) full cap by (cases "lru c") auto
    have "insert_or_existing path h c = Some ((h, [g]), c\<lparr>hc_state := st\<rparr>)"
      using None cap e(2) by (simp add: insert_or_existing_def Let_def)
    moreover have "cache_ok (c\<lparr>hc_state := st\<rparr>)" using e(3) by (simp add: cache_ok_def)
    moreover have "lru (c\<lparr>hc_state := st\<rparr>) = lru \<lparr>hc_capacity = hc_capacity c, hc_state = st\<rparr>"
      by (simp add: lru_def)
    moreover have "lru_insert (hc_capacity c) path h (lru c) = ((h, [g]), tl (lru c @ [(path, h)]))"
      using None map_of_lru [OF ok] q full by (auto simp: lru_insert_def Let_def)
    ultimately show ?thesis using e(4) by simp
  qed
qed

lemma mset_lru:
  assumes ok: "cache_ok c"
  shows "mset (lru c) = mset (hs_handles (hc_state c))"
proof -
  have keys: "map fst (lru c) = hs_order (hc_state c)" by (simp add: lru_def o_def)
  then have d: "distinct (map fst (lru c))" "distinct (map fst (hs_handles (hc_state c)))"
    using cache_okD(1,2) [OF ok] by simp_all
  have "set (lru c) = set (hs_handles (hc_state c))"
    using map_of_lru [OF ok] d by (metis map_of_inject_set)
  then show ?thesis
    using d set_eq_iff_mset_eq_distinct distinct_map by blast
qed

lemma removal_refines:
  assumes ok: "cache_ok c"
  shows "cache_ok (c\<lparr>hc_state := (hc_state c)\<lparr>hs_order := filter keep (hs_order (hc_state c)),
      hs_handles := filter (\<lambda>e. keep (fst e)) (hs_handles (hc_state c))\<rparr>\<rparr>)"
    and "lru (c\<lparr>hc_state := (hc_state c)\<lparr>hs_order := filter keep (hs_order (hc_state c)),
      hs_handles := filter (\<lambda>e. keep (fst e)) (hs_handles (hc_state c))\<rparr>\<rparr>) = filter (\<lambda>e. keep (fst e)) (lru c)"
    and "mset (filter f (lru c)) = mset (filter f (hs_handles (hc_state c)))"
proof -
  have len: "length (filter (\<lambda>e. keep (fst e)) (hs_handles (hc_state c))) \<le> hc_capacity c"
    using length_filter_le cache_okD(4) [OF ok] by (rule order_trans)
  show "cache_ok (c\<lparr>hc_state := (hc_state c)\<lparr>hs_order := filter keep (hs_order (hc_state c)),
      hs_handles := filter (\<lambda>e. keep (fst e)) (hs_handles (hc_state c))\<rparr>\<rparr>)"
    using cache_okD [OF ok] len by (auto simp: cache_ok_def Let_def distinct_map_filter)
  have "map_of (filter (\<lambda>e. keep (fst e)) m) k = map_of m k" if "keep k" for k and m :: "(str \<times> 'a) list"
    using that by (induction m) auto
  then show "lru (c\<lparr>hc_state := (hc_state c)\<lparr>hs_order := filter keep (hs_order (hc_state c)),
      hs_handles := filter (\<lambda>e. keep (fst e)) (hs_handles (hc_state c))\<rparr>\<rparr>) = filter (\<lambda>e. keep (fst e)) (lru c)"
    by (simp add: lru_def filter_map o_def)
  show "mset (filter f (lru c)) = mset (filter f (hs_handles (hc_state c)))"
    using mset_lru [OF ok] by (simp add: mset_filter)
qed

section \<open>Histories of a cache\<close>

datatype 'h cache_op =
    OpGet str | OpInsert str 'h | OpInvalidate str | OpInvalidatePrefix str | OpClear
  | OpDefer 'h | OpTakeFree "'h \<Rightarrow> nat"

text \<open>What an operation finds, and the handles it hands back to be closed.\<close>

fun cache_step :: "'h cache_op \<Rightarrow> 'h handle_cache \<Rightarrow> (('h option \<times> 'h multiset) \<times> 'h handle_cache) option" where
  "cache_step (OpGet p) c = (let (found, c) = cache_get p c in Some ((found, {#}), c))"
| "cache_step (OpInsert p h) c = map_option (\<lambda>((kept, gone), c). ((Some kept, mset gone), c)) (insert_or_existing p h c)"
| "cache_step (OpInvalidate p) c = (let (gone, c) = invalidate p c in Some ((None, mset gone), c))"
| "cache_step (OpInvalidatePrefix p) c = (let (gone, c) = invalidate_prefix p c in Some ((None, mset gone), c))"
| "cache_step OpClear c = (let (gone, c) = cache_clear c in Some ((None, mset gone), c))"
| "cache_step (OpDefer h) c = Some ((None, {#}), cache_defer h c)"
| "cache_step (OpTakeFree refs) c = (let (gone, c) = take_free refs c in Some ((None, mset gone), c))"

text \<open>The same on the specification: a recency list and the parked handles.\<close>

fun spec_step ::
  "nat \<Rightarrow> 'h cache_op \<Rightarrow> (str \<times> 'h) list \<times> 'h list \<Rightarrow> ('h option \<times> 'h multiset) \<times> (str \<times> 'h) list \<times> 'h list"
where
  "spec_step cap (OpGet p) (l, parked) = ((map_of l p, {#}), lru_use p l, parked)"
| "spec_step cap (OpInsert p h) (l, parked) =
     (let ((kept, gone), l') = lru_insert cap p h l in ((Some kept, mset gone), l', parked))"
| "spec_step cap (OpInvalidate p) (l, parked) =
     ((None, image_mset snd (mset (filter (\<lambda>e. fst e = p) l))), filter (\<lambda>e. fst e \<noteq> p) l, parked)"
| "spec_step cap (OpInvalidatePrefix p) (l, parked) =
     ((None, image_mset snd (mset (filter (\<lambda>e. under (fst e) p) l))), filter (\<lambda>e. \<not> under (fst e) p) l, parked)"
| "spec_step cap OpClear (l, parked) = ((None, mset (map snd l @ parked)), [], [])"
| "spec_step cap (OpDefer h) (l, parked) = ((None, {#}), l, parked @ [h])"
| "spec_step cap (OpTakeFree refs) (l, parked) =
     ((None, mset (filter (\<lambda>h. refs h = 1) parked)), l, filter (\<lambda>h. refs h \<noteq> 1) parked)"

fun cache_runs :: "'h cache_op list \<Rightarrow> 'h handle_cache \<Rightarrow> (('h option \<times> 'h multiset) list \<times> 'h handle_cache) option" where
  "cache_runs [] c = Some ([], c)"
| "cache_runs (op # ops) c =
     (case cache_step op c of
        None \<Rightarrow> None
      | Some (out, c) \<Rightarrow> map_option (\<lambda>(outs, c). (out # outs, c)) (cache_runs ops c))"

fun spec_runs ::
  "nat \<Rightarrow> 'h cache_op list \<Rightarrow> (str \<times> 'h) list \<times> 'h list \<Rightarrow> ('h option \<times> 'h multiset) list \<times> (str \<times> 'h) list \<times> 'h list"
where
  "spec_runs cap [] s = ([], s)"
| "spec_runs cap (op # ops) s =
     (let (out, s) = spec_step cap op s; (outs, s) = spec_runs cap ops s in (out # outs, s))"

abbreviation parked :: "'h handle_cache \<Rightarrow> 'h list" where
  "parked c \<equiv> hs_deferred (hc_state c)"

lemma evict_deferred: "evict cap st = Some (g, st') \<Longrightarrow> hs_deferred st' = hs_deferred st"
proof (induction cap st arbitrary: g rule: evict.induct)
  case (1 cap st)
  show ?case
  proof (cases "length (hs_handles st) > cap")
    case False
    with 1(2) show ?thesis by (simp add: evict.simps [of cap st])
  next
    case True
    with 1(2) obtain p ps where o: "hs_order st = p # ps"
      by (cases "hs_order st") (simp_all add: evict.simps [of cap st])
    obtain gone handles where r: "map_remove p (hs_handles st) = (gone, handles)" by fastforce
    from 1(2) True o r obtain g' where
      "evict cap (st\<lparr>hs_order := ps, hs_handles := handles\<rparr>) = Some (g', st')"
      by (auto simp: evict.simps [of cap st])
    from 1(1) [OF True o r [symmetric] refl this] show ?thesis by simp
  qed
qed

lemma insert_deferred: "insert_or_existing p h c = Some (r, c') \<Longrightarrow> parked c' = parked c"
  by (auto simp: insert_or_existing_def touch_def Let_def dest!: evict_deferred split: if_splits option.splits)

lemma step_refines:
  assumes ok: "cache_ok c" and cap: "0 < hc_capacity c"
  shows "\<exists>out c'. cache_step op c = Some (out, c') \<and> cache_ok c' \<and> hc_capacity c' = hc_capacity c \<and>
    spec_step (hc_capacity c) op (lru c, parked c) = (out, lru c', parked c')"
proof (cases op)
  case (OpGet p)
  have "parked (snd (cache_get p c)) = parked c" "hc_capacity (snd (cache_get p c)) = hc_capacity c"
    by (simp_all add: cache_get_def touch_def split: option.split)
  with get_refines [OF ok, of p] OpGet show ?thesis by (simp add: case_prod_unfold)
next
  case (OpInsert p h)
  obtain r c' where i: "insert_or_existing p h c = Some (r, c')" "cache_ok c'" "hc_capacity c' = hc_capacity c"
    "(r, lru c') = lru_insert (hc_capacity c) p h (lru c)"
    using insert_refines [OF ok cap, of p h] by blast
  then show ?thesis
    using OpInsert insert_deferred [OF i(1)] by (cases r) (simp add: i(4) [symmetric])
next
  case (OpInvalidate p)
  show ?thesis
    using removal_refines(1,2) [OF ok, of "\<lambda>k. k \<noteq> p"] removal_refines(3) [OF ok, of "\<lambda>e. fst e = p"] OpInvalidate
    by (simp add: invalidate_def map_remove_def Let_def mset_map [symmetric] del: mset_map)
      (simp add: mset_map)
next
  case (OpInvalidatePrefix p)
  show ?thesis
    using removal_refines(1,2) [OF ok, of "\<lambda>k. \<not> under k p"] removal_refines(3) [OF ok, of "\<lambda>e. under (fst e) p"]
      OpInvalidatePrefix
    by (simp add: invalidate_prefix_def Let_def mset_map)
next
  case OpClear
  have "mset (map snd (lru c)) = mset (map snd (hs_handles (hc_state c)))"
    using mset_lru [OF ok] by (simp only: mset_map)
  moreover have "cache_ok (snd (cache_clear c))" by (simp add: cache_clear_def cache_ok_def)
  moreover have "lru (snd (cache_clear c)) = []" by (simp add: cache_clear_def lru_def)
  ultimately show ?thesis using OpClear by (simp add: cache_clear_def)
next
  case (OpDefer h)
  then show ?thesis using ok by (simp add: cache_defer_def cache_ok_def lru_def Let_def)
next
  case (OpTakeFree refs)
  then show ?thesis using ok by (simp add: take_free_def cache_ok_def lru_def Let_def)
qed

text \<open>The handles that come in.\<close>

fun comes_in :: "'h cache_op \<Rightarrow> 'h multiset" where
  "comes_in (OpInsert _ h) = {#h#}"
| "comes_in (OpDefer h) = {#h#}"
| "comes_in _ = {#}"

lemma mset_split: "mset (map f (filter (\<lambda>e. \<not> g e) l)) + image_mset f (mset (filter g l)) = mset (map f l)"
  by (induction l) auto

lemma spec_conserves:
  "spec_step cap op (l, p) = (out, l', p') \<Longrightarrow>
    comes_in op + mset (map snd l) + mset p = snd out + mset (map snd l') + mset p'"
proof (cases op)
  case (OpInsert path h)
  assume s: "spec_step cap op (l, p) = (out, l', p')"
  show ?thesis
  proof (cases "map_of l path")
    case None
    have "mset (map snd (take n m)) + mset (map snd (drop n m)) = mset (map snd m)" for n and m :: "(str \<times> 'a) list"
      by (metis append_take_drop_id map_append mset_append)
    from this [of "Suc (length l) - cap" "l @ [(path, h)]"] s None OpInsert show ?thesis
      by (auto simp: lru_insert_def Let_def simp del: take_append drop_append)
  next
    case (Some e)
    with s OpInsert mset_split [of snd "\<lambda>e. fst e = path" l] show ?thesis
      by (auto simp: lru_insert_def)
  qed
qed (use mset_split [of snd _ l] mset_split [of id _ p] in \<open>auto simp: union_ac\<close>)

lemma runs_refine:
  "cache_ok c \<Longrightarrow> 0 < hc_capacity c \<Longrightarrow>
    \<exists>outs c'. cache_runs ops c = Some (outs, c') \<and> cache_ok c' \<and> hc_capacity c' = hc_capacity c \<and>
      spec_runs (hc_capacity c) ops (lru c, parked c) = (outs, lru c', parked c') \<and>
      sum_list (map comes_in ops) + mset (map snd (lru c)) + mset (parked c) =
        sum_list (map snd outs) + mset (map snd (lru c')) + mset (parked c')"
proof (induction ops arbitrary: c)
  case (Cons op ops)
  obtain out c1 where 1: "cache_step op c = Some (out, c1)" "cache_ok c1" "hc_capacity c1 = hc_capacity c"
    "spec_step (hc_capacity c) op (lru c, parked c) = (out, lru c1, parked c1)"
    using step_refines [OF Cons.prems, of op] by blast
  obtain outs c2 where 2: "cache_runs ops c1 = Some (outs, c2)" "cache_ok c2" "hc_capacity c2 = hc_capacity c1"
    "spec_runs (hc_capacity c1) ops (lru c1, parked c1) = (outs, lru c2, parked c2)"
    "sum_list (map comes_in ops) + mset (map snd (lru c1)) + mset (parked c1) =
        sum_list (map snd outs) + mset (map snd (lru c2)) + mset (parked c2)"
    using Cons.IH [OF 1(2)] Cons.prems(2) 1(3) by auto
  let ?ins = "sum_list (map comes_in ops)"
  let ?in0 = "mset (map snd (lru c)) + mset (parked c)" and ?in1 = "mset (map snd (lru c1)) + mset (parked c1)"
    and ?in2 = "mset (map snd (lru c2)) + mset (parked c2)"
  have "sum_list (map comes_in (op # ops)) + ?in0 = ?ins + (comes_in op + ?in0)"
    by (simp only: list.map sum_list.Cons union_ac)
  also have "\<dots> = ?ins + (snd out + ?in1)"
    using spec_conserves [OF 1(4)] by (simp only: union_assoc)
  also have "\<dots> = snd out + (?ins + ?in1)" by (simp only: union_ac)
  also have "\<dots> = snd out + (sum_list (map snd outs) + ?in2)" using 2(5) by (simp only: union_assoc)
  finally have "sum_list (map comes_in (op # ops)) + mset (map snd (lru c)) + mset (parked c) =
        sum_list (map snd (out # outs)) + mset (map snd (lru c2)) + mset (parked c2)"
    by (simp only: list.map sum_list.Cons union_assoc)
  with 1 2 show ?case by (intro exI [of _ "out # outs"] exI [of _ c2]) simp
qed simp

text \<open>
  C28. The cache of open handles is a least-recently-used cache that loses nothing. Whatever is done
  with it and in whatever order, no operation panics; every lookup and every handle handed back to be
  closed is the one a recency list of at most \<open>capacity\<close> paths gives, the least recently used going
  first; and every handle that ever came in is cached, parked or has been handed back, exactly once.
\<close>

theorem handle_cache_is_lru:
  fixes ops :: "'h cache_op list"
  assumes "0 < capacity"
  shows "\<exists>outs c. cache_runs ops (cache_new capacity) = Some (outs, c) \<and>
     spec_runs capacity ops ([], []) = (outs, lru c, parked c) \<and> length (lru c) \<le> capacity \<and>
     sum_list (map comes_in ops) = sum_list (map snd outs) + mset (map snd (lru c)) + mset (parked c)"
proof -
  let ?c = "cache_new capacity :: 'h handle_cache"
  have new: "cache_ok ?c" "hc_capacity ?c = capacity" "lru ?c = []" "parked ?c = []"
    by (simp_all add: cache_new_def cache_ok_def lru_def)
  from runs_refine [OF new(1), of ops] assms new(2-4) obtain outs c where
    r: "cache_runs ops (cache_new capacity) = Some (outs, c)" "cache_ok c" "hc_capacity c = capacity"
    "spec_runs capacity ops ([], []) = (outs, lru c, parked c)"
    "sum_list (map comes_in ops) = sum_list (map snd outs) + mset (map snd (lru c)) + mset (parked c)"
    by auto
  with cache_okD(4) [OF r(2)] length_lru [OF r(2)] show ?thesis by auto
qed

theorem handle_cache_is_lru_witness:
  "\<exists>outs c. cache_runs [OpInsert (lit ''/a'') (Suc 0), OpInsert (lit ''/b'') 2, OpGet (lit ''/a''), OpInsert (lit ''/c'') 3]
      (cache_new 2) = Some (outs, c) \<and>
     sum_list (map snd outs) + mset (map snd (lru c)) + mset (parked c) = {#3, 2, Suc 0#}"
  using handle_cache_is_lru [of 2 "[OpInsert (lit ''/a'') (Suc 0), OpInsert (lit ''/b'') 2, OpGet (lit ''/a''),
      OpInsert (lit ''/c'') (3 :: nat)]"]
  by (auto simp del: cache_runs.simps spec_runs.simps)

end
