(* ===== verification/Pool.thy ===== *)
theory Pool
  imports Prelude
begin

text \<open>
  Reading over more than one connection (\<open>synology-filestation-smb/src/pool.rs\<close>): the backoff
  between attempts, the cutting of a read into stripes, and the pool of extra connections. What a
  connection is and how one is opened are parameters; a shared lane is its identity. Each operation
  is one step, which its locks and atomics make it up to the reads \<open>should_open\<close> makes before it
  claims the right to open.
\<close>

section \<open>Backoff\<close>

definition STRIPE :: nat where
  "STRIPE = 256 * 1024"





section \<open>Stripes\<close>

record piece =
  pc_offset :: nat
  pc_length :: nat
  pc_connection :: nat

text \<open>
  The loop of \<open>stripes\<close>. Offsets are \<open>u64\<close>: an addition or product that does not fit panics in a
  build with overflow checks, which is \<open>None\<close>.
\<close>

definition fits :: "nat \<Rightarrow> bool" where
  "fits n \<longleftrightarrow> n < 2 ^ 64"

lemma next_stripe: "at < (at div STRIPE + 1) * STRIPE"
  using dividend_less_div_times [of STRIPE at] by (simp add: STRIPE_def)

function stripes_from :: "nat \<Rightarrow> nat \<Rightarrow> nat \<Rightarrow> piece list option" where
  "stripes_from at last_end connections =
     (if at < last_end then
        let stripe = at div STRIPE in
        if \<not> fits ((stripe + 1) * STRIPE) then None
        else
          let next = min ((stripe + 1) * STRIPE) last_end in
          map_option
            (\<lambda>ps. \<lparr>pc_offset = at, pc_length = next - at, pc_connection = stripe mod connections\<rparr> # ps)
            (stripes_from next last_end connections)
      else Some [])"
  by pat_completeness auto

termination
  by (relation "measure (\<lambda>(at, last_end, connections). last_end - at)")
    (use next_stripe in \<open>auto simp: min_def intro: diff_less_mono2\<close>)

declare stripes_from.simps [simp del]

definition stripes :: "nat \<Rightarrow> nat \<Rightarrow> nat \<Rightarrow> piece list option" where
  "stripes offset len connections =
     (let connections = max connections 1 in
      if connections = 1 then Some [\<lparr>pc_offset = offset, pc_length = len, pc_connection = 0\<rparr>]
      else if \<not> fits (offset + len) then None
      else stripes_from offset (offset + len) connections)"

section \<open>The pool\<close>

record ('l, 'o) pool =
  pl_wanted :: nat
  pl_opener :: "'o option"
  pl_live :: "'l list"
  pl_opening :: bool
  pl_generation :: u64
  pl_failures :: "nat \<times> instant option"
  pl_draining :: "'l list"
  pl_reported :: nat

definition pool_with :: "nat \<Rightarrow> 'o option \<Rightarrow> ('l, 'o) pool" where
  "pool_with wanted opener =
     \<lparr>pl_wanted = wanted, pl_opener = opener, pl_live = [], pl_opening = False, pl_generation = 0,
      pl_failures = (0, None), pl_draining = [], pl_reported = 0\<rparr>"

definition pool_off :: "('l, 'o) pool" where
  "pool_off = pool_with 0 None"

definition pool_report :: "nat \<Rightarrow> ('l, 'o) pool \<Rightarrow> ('l, 'o) pool" where
  "pool_report extra p = p\<lparr>pl_reported := extra\<rparr>"


definition pool_wants :: "u64 \<Rightarrow> ('l, 'o) pool \<Rightarrow> bool" where
  "pool_wants generation p \<longleftrightarrow> pl_generation p = generation \<and> length (pl_live p) < pl_wanted p"




definition pool_all :: "('l, 'o) pool \<Rightarrow> 'l list" where
  "pool_all p = pl_live p @ pl_draining p"


definition pool_retire_all :: "('l, 'o) pool \<Rightarrow> 'l list \<times> ('l, 'o) pool" where
  "pool_retire_all p =
     (let gone = pl_live p;
          p = p\<lparr>pl_generation := pl_generation p + 1, pl_failures := (0, None), pl_live := [],
                pl_draining := pl_draining p @ gone\<rparr>
      in (gone, if gone \<noteq> [] then pool_report 0 p else p))"

section \<open>A read is cut without a gap\<close>

definition covers :: "nat \<Rightarrow> piece list \<Rightarrow> nat \<Rightarrow> bool" where
  "covers i ps j \<longleftrightarrow>
     concat (map (\<lambda>p. [pc_offset p..<pc_offset p + pc_length p]) ps) = [i..<j]"

definition in_stripe :: "nat \<Rightarrow> piece \<Rightarrow> bool" where
  "in_stripe connections p \<longleftrightarrow> 0 < pc_length p \<and>
     (pc_offset p + pc_length p - 1) div STRIPE = pc_offset p div STRIPE \<and>
     pc_connection p = pc_offset p div STRIPE mod connections"

lemma stripes_from_covers:
  assumes "at \<le> last_end" and "last_end + STRIPE \<le> 2 ^ 64"
  shows "\<exists>ps. stripes_from at last_end connections = Some ps \<and> covers at ps last_end \<and>
     list_all (in_stripe connections) ps"
  using assms
proof (induction at last_end connections rule: stripes_from.induct)
  case (1 at last_end connections)
  show ?case
  proof (cases "at < last_end")
    case False
    with 1(2) show ?thesis by (simp add: stripes_from.simps covers_def)
  next
    case True
    let ?next = "min ((at div STRIPE + 1) * STRIPE) last_end"
    have le: "(at div STRIPE + 1) * STRIPE \<le> at + STRIPE" by simp
    then have fit: "fits ((at div STRIPE + 1) * STRIPE)" using True 1(3) unfolding fits_def by linarith
    have n: "at < ?next" "?next \<le> last_end" using True next_stripe [of at] by (simp_all add: min_def)
    from 1(1) [OF True refl _ refl n(2) 1(3)] fit obtain ps where ps:
      "stripes_from ?next last_end connections = Some ps" "covers ?next ps last_end"
      "list_all (in_stripe connections) ps" by auto
    let ?p = "\<lparr>pc_offset = at, pc_length = ?next - at, pc_connection = at div STRIPE mod connections\<rparr>"
    have "stripes_from at last_end connections = Some (?p # ps)"
      using True fit ps(1) by (subst stripes_from.simps) (simp add: Let_def)
    moreover have "covers at (?p # ps) last_end"
      using ps(2) n upt_add_eq_append [of at ?next "last_end - ?next"] by (simp add: covers_def)
    moreover have "in_stripe connections ?p"
    proof -
      have "STRIPE * (at div STRIPE) \<le> at" by simp
      then have "STRIPE * (at div STRIPE) \<le> ?next - 1" using n(1) by linarith
      moreover have "?next \<le> (at div STRIPE + 1) * STRIPE" by simp
      then have "?next - 1 < STRIPE * Suc (at div STRIPE)" using n(1) by (simp add: mult.commute) linarith
      ultimately have "(?next - 1) div STRIPE = at div STRIPE" by (rule div_nat_eqI)
      with n show ?thesis by (simp add: in_stripe_def)
    qed
    ultimately show ?thesis using ps(3) by simp
  qed
qed

text \<open>
  A read is cut without a gap or an overlap: for any read that ends at least one stripe below
  2^64, the cutting ends, its pieces are in order exactly the bytes asked for, and over more than
  one connection each piece lies within one stripe and goes to the connection of that stripe, so
  the same block always travels the same way, however the read that asked for it was cut.
\<close>

theorem stripes_tile_the_read:
  assumes "offset + len + STRIPE \<le> 2 ^ 64"
  shows "\<exists>ps. stripes offset len connections = Some ps \<and> covers offset ps (offset + len) \<and>
     (1 < connections \<longrightarrow> list_all (in_stripe connections) ps) \<and>
     list_all (\<lambda>p. pc_connection p < max connections 1) ps"
proof (cases "1 < connections")
  case True
  have "fits (offset + len)" using assms by (simp add: fits_def STRIPE_def)
  moreover obtain ps where ps: "stripes_from offset (offset + len) connections = Some ps"
    "covers offset ps (offset + len)" "list_all (in_stripe connections) ps"
    using stripes_from_covers [of offset "offset + len" connections] assms by auto
  moreover have "list_all (\<lambda>p. pc_connection p < connections) ps"
    using ps(3) True by (auto simp: list_all_iff in_stripe_def)
  ultimately show ?thesis using True by (simp add: stripes_def Let_def max_def)
next
  case False
  then show ?thesis by (simp add: stripes_def Let_def max_def covers_def)
qed

theorem stripes_tile_the_read_witness:
  "\<exists>ps. stripes 200000 500000 3 = Some ps \<and> covers 200000 ps 700000 \<and> list_all (in_stripe 3) ps"
  using stripes_tile_the_read [of 200000 500000 3] by (auto simp: STRIPE_def)

section \<open>A pool that cannot connect gives up\<close>








end
