(* ===== verification/Transports.thy ===== *)
theory Transports
  imports Syno_Error
begin

text \<open>
  The backends a File Station client may be given (\<open>synology-filestation-core/src/transport.rs\<close>)
  and the health it keeps of each: the traits as records of operations over a world \<open>'w\<close>, the
  circuit breaker, what a move may replace, and the loop that offers an operation to each backend
  in turn (\<open>via_metadata!\<close> of \<open>client/mod.rs\<close>, which the other selection loops repeat). The
  world holds the backends, the network and the clock; no definition looks inside it.
\<close>

section \<open>What DSM says of a file\<close>

type_synonym i64 = "64 word"

record syno_owner =
  ow_uid :: u32
  ow_gid :: u32
  ow_user :: str
  ow_group :: str

record syno_time =
  ti_atime :: i64
  ti_mtime :: i64
  ti_ctime :: i64
  ti_crtime :: i64

record syno_perm =
  pe_posix :: u32

record syno_additional =
  ad_size :: "u64 option"
  ad_owner :: "syno_owner option"
  ad_time :: "syno_time option"
  ad_perm :: "syno_perm option"

record syno_file_info =
  fi_name :: str
  fi_path :: str
  fi_isdir :: bool
  fi_additional :: "syno_additional option"
  fi_code :: "u32 option"

section \<open>The traits\<close>

type_synonym ('w, 'a) fallible = "'w \<Rightarrow> (syno_error + 'a) \<times> 'w"

record 'w read_transport =
  rt_read :: "str \<Rightarrow> u64 \<Rightarrow> u64 \<Rightarrow> ('w, bytes) fallible"

record 'w stream_read_transport =
  sr_read_to_path :: "str \<Rightarrow> str \<Rightarrow> ('w, unit) fallible"

record 'w write_transport =
  wt_write :: "str \<Rightarrow> bytes \<Rightarrow> ('w, unit) fallible"

record 'w stream_write_transport =
  sw_write_from_path :: "str \<Rightarrow> str \<Rightarrow> ('w, unit) fallible"
  sw_write_new_from_path :: "str \<Rightarrow> str \<Rightarrow> ('w, unit) fallible"

record 'w metadata_transport =
  mt_list_shares :: "('w, syno_file_info list) fallible"
  mt_list_dir :: "str \<Rightarrow> ('w, syno_file_info list) fallible"
  mt_get_info :: "str \<Rightarrow> ('w, syno_file_info) fallible"
  mt_create_folder :: "str \<Rightarrow> str \<Rightarrow> ('w, syno_file_info) fallible"
  mt_rename :: "str \<Rightarrow> str \<Rightarrow> ('w, syno_file_info) fallible"
  mt_delete :: "str \<Rightarrow> ('w, unit) fallible"
  mt_truncate :: "str \<Rightarrow> u64 \<Rightarrow> ('w, unit) fallible"
  mt_move_to :: "str \<Rightarrow> str \<Rightarrow> ('w, unit) fallible"

datatype write_open = CreateNew | Existing

record 'w write_handle =
  wh_write_at :: "u64 \<Rightarrow> bytes \<Rightarrow> ('w, unit) fallible"
  wh_close :: "('w, unit) fallible"

record 'w open_write_transport =
  ow_open_write :: "str \<Rightarrow> write_open \<Rightarrow> ('w, 'w write_handle) fallible"

text \<open>The default methods: an operation a backend does not have is declined.\<close>

definition declined :: "('w, 'a) fallible" where
  "declined w = (Inl SynoNotSupported, w)"

definition metadata_default :: "'w metadata_transport" where
  "metadata_default =
     \<lparr>mt_list_shares = declined, mt_list_dir = (\<lambda>_. declined), mt_get_info = (\<lambda>_. declined),
      mt_create_folder = (\<lambda>_ _. declined), mt_rename = (\<lambda>_ _. declined),
      mt_delete = (\<lambda>_. declined), mt_truncate = (\<lambda>_ _. declined), mt_move_to = (\<lambda>_ _. declined)\<rparr>"

definition stream_write_of :: "(str \<Rightarrow> str \<Rightarrow> ('w, unit) fallible) \<Rightarrow> 'w stream_write_transport" where
  "stream_write_of write_from_path =
     \<lparr>sw_write_from_path = write_from_path, sw_write_new_from_path = (\<lambda>_ _. declined)\<rparr>"

definition open_write_default :: "'w open_write_transport" where
  "open_write_default = \<lparr>ow_open_write = (\<lambda>_ _. declined)\<rparr>"

section \<open>The circuit breaker\<close>

record breaker_config =
  bc_failure_threshold :: u32
  bc_cooldown :: duration

definition breaker_config_default :: breaker_config where
  "breaker_config_default = \<lparr>bc_failure_threshold = 2, bc_cooldown = secs 30\<rparr>"

datatype breaker_state = BreakerClosed | BreakerOpen instant | HalfOpen

record breaker =
  bk_config :: breaker_config
  bk_state :: breaker_state
  bk_consecutive_failures :: u32

definition breaker_new :: "breaker_config \<Rightarrow> breaker" where
  "breaker_new config = \<lparr>bk_config = config, bk_state = BreakerClosed, bk_consecutive_failures = 0\<rparr>"

text \<open>\<open>duration_since\<close> is zero for a later instant, as the subtraction of naturals is.\<close>

definition breaker_allows :: "instant \<Rightarrow> breaker \<Rightarrow> bool \<times> breaker" where
  "breaker_allows now b =
     (case bk_state b of
        BreakerClosed \<Rightarrow> (True, b)
      | BreakerOpen opened_at \<Rightarrow>
          if now - opened_at \<ge> bc_cooldown (bk_config b) then (True, b\<lparr>bk_state := HalfOpen\<rparr>)
          else (False, b)
      | HalfOpen \<Rightarrow> (False, b))"

definition is_closed :: "breaker \<Rightarrow> bool" where
  "is_closed b \<longleftrightarrow> bk_state b = BreakerClosed"

definition on_success :: "breaker \<Rightarrow> breaker" where
  "on_success b = b\<lparr>bk_state := BreakerClosed, bk_consecutive_failures := 0\<rparr>"

definition on_failure :: "instant \<Rightarrow> breaker \<Rightarrow> breaker" where
  "on_failure now b =
     (case bk_state b of
        HalfOpen \<Rightarrow> b\<lparr>bk_state := BreakerOpen now\<rparr>
      | _ \<Rightarrow>
          let n = bk_consecutive_failures b + 1; b' = b\<lparr>bk_consecutive_failures := n\<rparr>
          in if n \<ge> bc_failure_threshold (bk_config b) then b'\<lparr>bk_state := BreakerOpen now\<rparr> else b')"

section \<open>What a move may replace\<close>

datatype destination = DestAbsent | DestFile | DestDir bool

datatype move_plan = Fresh | ReplaceFile | ReplaceEmptyDir

fun plan_move :: "bool \<Rightarrow> destination \<Rightarrow> syno_error + move_plan" where
  "plan_move _ DestAbsent = Inr Fresh"
| "plan_move False DestFile = Inr ReplaceFile"
| "plan_move True (DestDir True) = Inr ReplaceEmptyDir"
| "plan_move True (DestDir False) = Inl SynoNotEmpty"
| "plan_move False (DestDir _) = Inl SynoAlreadyExists"
| "plan_move True DestFile = Inl SynoAlreadyExists"

section \<open>Offering an operation to the backends\<close>

record 't transport_entry =
  te_transport :: 't
  te_breaker :: breaker

definition with_breaker :: "'t \<Rightarrow> breaker_config \<Rightarrow> 't transport_entry" where
  "with_breaker transport config = \<lparr>te_transport = transport, te_breaker = breaker_new config\<rparr>"

definition entry_new :: "'t \<Rightarrow> 't transport_entry" where
  "entry_new transport = with_breaker transport breaker_config_default"

definition answered :: "'t transport_entry \<Rightarrow> 't transport_entry" where
  "answered e = e\<lparr>te_breaker := on_success (te_breaker e)\<rparr>"

text \<open>
  \<open>None\<close>: no backend gave an answer, and the caller goes on to HTTP. \<open>now\<close> reads the clock,
  which the calls may advance.
\<close>

fun offer ::
  "('w \<Rightarrow> instant \<times> 'w) \<Rightarrow> ('t \<Rightarrow> ('w, 'a) fallible) \<Rightarrow> 't transport_entry list \<Rightarrow> 'w \<Rightarrow>
     (syno_error + 'a) option \<times> 't transport_entry list \<times> 'w" where
  "offer now call [] w = (None, [], w)"
| "offer now call (entry # rest) w =
     (let (asked_at, w) = now w;
          (allowed, b) = breaker_allows asked_at (te_breaker entry);
          entry = entry\<lparr>te_breaker := b\<rparr>
      in if \<not> allowed then
           let (r, rest, w) = offer now call rest w in (r, entry # rest, w)
         else case call (te_transport entry) w of
           (Inr v, w) \<Rightarrow> (Some (Inr v), answered entry # rest, w)
         | (Inl e, w) \<Rightarrow>
             if category e = CatNotSupported then
               let (r, rest, w) = offer now call rest w in (r, answered entry # rest, w)
             else if category e = CatTransport then
               let (failed_at, w) = now w;
                   (r, rest, w) = offer now call rest w
               in (r, entry\<lparr>te_breaker := on_failure failed_at b\<rparr> # rest, w)
             else (Some (Inl e), answered entry # rest, w))"

section \<open>Properties of the breaker\<close>

lemma breaker_config_kept [simp]:
  "bk_config (on_success b) = bk_config b"
  "bk_config (on_failure now b) = bk_config b"
  "bk_config (snd (breaker_allows now b)) = bk_config b"
  by (simp_all add: on_success_def on_failure_def breaker_allows_def Let_def split: breaker_state.splits)

lemma answered_is_closed [simp]:
  "bk_state (on_success b) = BreakerClosed"
  "bk_state (te_breaker (answered e)) = BreakerClosed"
  "te_transport (answered e) = te_transport e"
  by (simp_all add: answered_def on_success_def)

lemma failed_is_not_half_open [simp]: "bk_state (on_failure now b) \<noteq> HalfOpen"
  by (cases "bk_state b") (simp_all add: on_failure_def Let_def)

lemma refused_unchanged: "breaker_allows now b = (False, b') \<Longrightarrow> b' = b"
  by (auto simp: breaker_allows_def split: breaker_state.splits if_splits)

lemma success_forgets_the_trial: "breaker_allows now b = (ok, b') \<Longrightarrow> on_success b' = on_success b"
  by (auto simp: breaker_allows_def on_success_def split: breaker_state.splits if_splits)

text \<open>The verdicts on a backend, in the order they are recorded.\<close>

datatype verdict = Succeeded | Failed instant

fun record_verdict :: "verdict \<Rightarrow> breaker \<Rightarrow> breaker" where
  "record_verdict Succeeded = on_success"
| "record_verdict (Failed now) = on_failure now"

definition trailing_failures :: "verdict list \<Rightarrow> nat" where
  "trailing_failures vs = length (takeWhile (\<lambda>v. v \<noteq> Succeeded) (rev vs))"

lemma trailing_failures_simps [simp]:
  "trailing_failures [] = 0"
  "trailing_failures (vs @ [Succeeded]) = 0"
  "trailing_failures (vs @ [Failed t]) = Suc (trailing_failures vs)"
  by (simp_all add: trailing_failures_def)

lemma trailing_failures_le: "trailing_failures vs \<le> length vs"
  unfolding trailing_failures_def by (metis length_rev length_takeWhile_le)

lemma breaker_after_verdicts:
  assumes "length vs < 2 ^ 32" and "0 < bc_failure_threshold config"
  shows "(let b = fold record_verdict vs (breaker_new config)
          in bk_config b = config \<and> bk_state b \<noteq> HalfOpen \<and>
             unat (bk_consecutive_failures b) = trailing_failures vs \<and>
             (bk_state b = BreakerClosed \<longleftrightarrow> trailing_failures vs < unat (bc_failure_threshold config)))"
  using assms(1)
proof (induction vs rule: rev_induct)
  case Nil
  show ?case using assms(2) by (simp add: breaker_new_def word_less_nat_alt)
next
  case (snoc v vs)
  define b where "b = fold record_verdict vs (breaker_new config)"
  have IH: "bk_config b = config" "bk_state b \<noteq> HalfOpen"
    "unat (bk_consecutive_failures b) = trailing_failures vs"
    "bk_state b = BreakerClosed \<longleftrightarrow> trailing_failures vs < unat (bc_failure_threshold config)"
    using snoc by (simp_all add: Let_def b_def)
  have "Suc (trailing_failures vs) < 2 ^ 32"
    using trailing_failures_le [of vs] snoc.prems by simp
  then have next_count: "unat (bk_consecutive_failures b + 1) = Suc (trailing_failures vs)"
    using IH(3) by (simp add: unat_word_ariths)
  have run: "fold record_verdict (vs @ [v]) (breaker_new config) = record_verdict v b"
    by (simp add: b_def)
  show ?case
  proof (cases v)
    case Succeeded
    then show ?thesis unfolding run using IH(1) assms(2)
      by (simp add: on_success_def word_less_nat_alt)
  next
    case (Failed t)
    have "on_failure t b =
      (if bc_failure_threshold config \<le> bk_consecutive_failures b + 1
       then b\<lparr>bk_consecutive_failures := bk_consecutive_failures b + 1, bk_state := BreakerOpen t\<rparr>
       else b\<lparr>bk_consecutive_failures := bk_consecutive_failures b + 1\<rparr>)"
      using IH(1,2) by (auto simp: on_failure_def Let_def split: breaker_state.splits)
    then show ?thesis unfolding run using IH next_count Failed
      by (auto simp: word_le_nat_alt)
  qed
qed

text \<open>
  A breaker trips on consecutive failures only. Whatever verdicts are recorded, fewer than
  the counter can hold, the backend is trusted exactly while the failures since its last success
  are fewer than the threshold.
\<close>

theorem breaker_trips_on_consecutive_failures:
  assumes "length vs < 2 ^ 32" and "0 < bc_failure_threshold config"
  shows "is_closed (fold record_verdict vs (breaker_new config)) \<longleftrightarrow>
    trailing_failures vs < unat (bc_failure_threshold config)"
  using breaker_after_verdicts [OF assms] by (simp add: is_closed_def Let_def)

theorem breaker_trips_on_consecutive_failures_witness:
  "\<not> is_closed (fold record_verdict [Failed 1, Succeeded, Failed 5, Failed 7] (breaker_new breaker_config_default)) \<and>
   is_closed (fold record_verdict [Failed 1, Succeeded, Failed 5] (breaker_new breaker_config_default))"
  using breaker_trips_on_consecutive_failures
      [of "[Failed 1, Succeeded, Failed 5, Failed 7]" breaker_config_default]
    breaker_trips_on_consecutive_failures [of "[Failed 1, Succeeded, Failed 5]" breaker_config_default]
  by (simp add: trailing_failures_def breaker_config_default_def)

fun asks :: "instant list \<Rightarrow> breaker \<Rightarrow> bool list \<times> breaker" where
  "asks [] b = ([], b)"
| "asks (t # ts) b =
     (let (allowed, b) = breaker_allows t b; (rest, b) = asks ts b in (allowed # rest, b))"

lemma half_open_refuses:
  "bk_state b = HalfOpen \<Longrightarrow> asks ts b = (replicate (length ts) False, b)"
  by (induction ts) (simp_all add: breaker_allows_def)

lemma cooling_refuses:
  assumes "bk_state b = BreakerOpen opened" and "\<forall>t \<in> set ts. t < opened + bc_cooldown (bk_config b)"
    and "0 < bc_cooldown (bk_config b)"
  shows "asks (ts @ rest) b = (let (answers, b') = asks rest b in (replicate (length ts) False @ answers, b'))"
  using assms(2)
proof (induction ts)
  case (Cons t ts)
  have "t - opened < bc_cooldown (bk_config b)" using Cons.prems assms(3) by auto
  then show ?case using Cons assms(1)
    by (simp add: breaker_allows_def Let_def split: prod.splits)
qed (simp add: case_prod_beta)

text \<open>
  C13. A tripped backend is tried by one caller at a time, and not before its cooldown is over.
  However many callers ask, and until a verdict on the trial is recorded, exactly the first to ask
  after the cooldown is let through. (Nothing but a verdict ever lets another through: a trial that
  is abandoned leaves the backend refused for good.)
\<close>

theorem breaker_admits_one_trial:
  assumes "bk_state b = BreakerOpen opened" and "0 < bc_cooldown (bk_config b)"
    and "\<forall>t \<in> set early. t < opened + bc_cooldown (bk_config b)"
    and "opened + bc_cooldown (bk_config b) \<le> due"
  shows "asks (early @ due # later) b =
    (replicate (length early) False @ True # replicate (length later) False, b\<lparr>bk_state := HalfOpen\<rparr>)"
proof -
  have "breaker_allows due b = (True, b\<lparr>bk_state := HalfOpen\<rparr>)"
    using assms(1,4) by (simp add: breaker_allows_def)
  then show ?thesis
    using cooling_refuses [OF assms(1,3,2)] half_open_refuses [of "b\<lparr>bk_state := HalfOpen\<rparr>" later]
    by (simp add: Let_def)
qed

definition tripped_at_7 :: breaker where
  "tripped_at_7 = \<lparr>bk_config = \<lparr>bc_failure_threshold = 2, bc_cooldown = 30\<rparr>,
     bk_state = BreakerOpen 7, bk_consecutive_failures = 2\<rparr>"

theorem breaker_admits_one_trial_witness:
  "asks [8, 36, 37, 38, 1000000] tripped_at_7 =
     ([False, False, True, False, False], tripped_at_7\<lparr>bk_state := HalfOpen\<rparr>)"
  using breaker_admits_one_trial [of tripped_at_7 7 "[8, 36]" 37 "[38, 1000000]"]
  by (simp add: tripped_at_7_def)

section \<open>Properties of the offer\<close>

text \<open>The four ways the first backend is dealt with.\<close>

lemma offer_ConsE:
  assumes "offer now call (e # es) w = (r, es', w')"
  obtains
    (refused) t w1 es2 where "now w = (t, w1)" and "\<not> fst (breaker_allows t (te_breaker e))"
      and "offer now call es w1 = (r, es2, w')" and "es' = e # es2"
  | (passed_on) t w1 b err w2 e' w3 es2 where "now w = (t, w1)" and "breaker_allows t (te_breaker e) = (True, b)"
      and "call (te_transport e) w1 = (Inl err, w2)"
      and "category err = CatNotSupported \<or> category err = CatTransport"
      and "bk_state (te_breaker e') \<noteq> HalfOpen" and "te_transport e' = te_transport e"
      and "offer now call es w3 = (r, es2, w')" and "es' = e' # es2"
  | (settled) t w1 b answer where "now w = (t, w1)" and "breaker_allows t (te_breaker e) = (True, b)"
      and "call (te_transport e) w1 = (answer, w')" and "r = Some answer"
      and "\<forall>err. answer = Inl err \<longrightarrow> category err \<noteq> CatNotSupported \<and> category err \<noteq> CatTransport"
      and "es' = answered e # es"
proof -
  obtain t w1 where clock: "now w = (t, w1)" by (cases "now w")
  obtain ok b where ask: "breaker_allows t (te_breaker e) = (ok, b)" by (cases "breaker_allows t (te_breaker e)")
  show thesis
  proof (cases ok)
    case False
    then have "e\<lparr>te_breaker := b\<rparr> = e" using refused_unchanged ask by (cases e) auto
    then show thesis using assms clock ask False
      by (auto intro!: refused split: prod.splits)
  next
    case True
    obtain answer w2 where call: "call (te_transport e) w1 = (answer, w2)"
      by (cases "call (te_transport e) w1")
    show thesis
    proof (cases answer)
      case (Inr v)
      then show thesis using assms clock ask True call
        by (intro settled [of t w1 b answer]) (auto simp: answered_def success_forgets_the_trial [OF ask])
    next
      case (Inl err)
      consider "category err = CatNotSupported" | "category err = CatTransport"
        | "category err \<noteq> CatNotSupported" "category err \<noteq> CatTransport" by blast
      then show thesis
      proof cases
        case 1
        then show thesis using assms clock ask True call Inl
          by (auto intro!: passed_on [of t w1 b err w2 "answered (e\<lparr>te_breaker := b\<rparr>)"] split: prod.splits)
      next
        case 2
        then show thesis using assms clock ask True call Inl
          by (auto intro!: passed_on [of t w1 b err w2 "e\<lparr>te_breaker := on_failure _ b\<rparr>"] split: prod.splits)
      next
        case 3
        then show thesis using assms clock ask True call Inl
          by (intro settled [of t w1 b answer]) (auto simp: answered_def success_forgets_the_trial [OF ask])
      qed
    qed
  qed
qed

lemma offer_keeps_transports:
  "offer now call es w = (r, es', w') \<Longrightarrow> map te_transport es' = map te_transport es"
proof (induction es arbitrary: w r es' w')
  case (Cons e es)
  from Cons.prems show ?case
    by (rule offer_ConsE) (auto dest: Cons.IH)
qed simp

lemma offer_answer_is_definitive:
  "offer now call es w = (Some (Inl e), es', w') \<Longrightarrow> category e \<noteq> CatNotSupported \<and> category e \<noteq> CatTransport"
proof (induction es arbitrary: w es' w')
  case (Cons e' es)
  from Cons.prems show ?case
    by (rule offer_ConsE) (auto dest: Cons.IH)
qed simp

definition half_open :: "'t transport_entry \<Rightarrow> bool" where
  "half_open e \<longleftrightarrow> bk_state (te_breaker e) = HalfOpen"

lemma not_half_open [simp]:
  "\<not> half_open (answered e)"
  "\<not> half_open (e\<lparr>te_breaker := on_failure t b\<rparr>)"
  by (simp_all add: half_open_def)

lemma offer_strands_none:
  "offer now call es w = (r, es', w') \<Longrightarrow> list_all2 (\<lambda>e e'. half_open e' \<longrightarrow> half_open e) es es'"
proof (induction es arbitrary: w r es' w')
  case (Cons e es)
  have same: "list_all2 (\<lambda>e e'. half_open e' \<longrightarrow> half_open e) es es"
    by (simp add: list_all2_refl)
  from Cons.prems show ?case
    by (rule offer_ConsE) (use Cons.IH same in \<open>auto simp: half_open_def\<close>)
qed simp

text \<open>
  Whatever backends are asked, the answer that comes back is a definitive one, and no backend
  is lost. A backend that declines, or fails for a reason that is not an answer, never decides the
  operation; the backends stay in their order; and none is left waiting for the verdict of a trial
  that this operation began, so a backend on trial either is trusted again or cools down again.
\<close>

theorem backends_answer_definitively:
  assumes "offer now call es w = (r, es', w')"
  shows "(\<forall>e. r = Some (Inl e) \<longrightarrow> category e \<noteq> CatNotSupported \<and> category e \<noteq> CatTransport) \<and>
    map te_transport es' = map te_transport es \<and>
    list_all2 (\<lambda>e e'. half_open e' \<longrightarrow> half_open e) es es'"
  using offer_keeps_transports [OF assms] offer_strands_none [OF assms] assms
  by (auto dest: offer_answer_is_definitive)

text \<open>A backend whose trial is declined, before one that does not find the file.\<close>

definition declining_then_definite :: "nat transport_entry list" where
  "declining_then_definite =
     [\<lparr>te_transport = 0, te_breaker = tripped_at_7\<rparr>, entry_new 1]"

theorem backends_answer_definitively_witness:
  "\<exists>es' w'. offer (\<lambda>w. (w, w + 1)) (\<lambda>t w. (Inl (if t = 0 then SynoNotSupported else SynoNotFound), w))
      declining_then_definite (50 :: nat) = (Some (Inl SynoNotFound :: syno_error + unit), es', w') \<and>
    map te_transport es' = [0, 1]"
proof -
  have run: "offer (\<lambda>w. (w, w + 1)) (\<lambda>t w. (Inl (if t = 0 then SynoNotSupported else SynoNotFound), w))
      declining_then_definite (50 :: nat) =
      (Some (Inl SynoNotFound :: syno_error + unit),
       [answered (declining_then_definite ! 0), answered (declining_then_definite ! 1)], 52)"
    by (simp add: declining_then_definite_def entry_new_def with_breaker_def breaker_new_def
        breaker_config_default_def tripped_at_7_def breaker_allows_def answered_def on_success_def Let_def)
  have "map te_transport declining_then_definite = [0, 1]"
    by (simp add: declining_then_definite_def entry_new_def with_breaker_def)
  then have "map te_transport [answered (declining_then_definite ! 0), answered (declining_then_definite ! 1)] = [0, 1]"
    using backends_answer_definitively [OF run] by argo
  with run show ?thesis by - (rule exI, rule exI, rule conjI)
qed

end
