(* ===== verification/Effects.thy ===== *)
theory Effects
  imports Prelude
begin

text \<open>
  Operations that change a state and may fail, composed the way an \<open>async fn\<close> composes them:
  \<open>let_op\<close> runs one after another, \<open>try_op\<close> is the \<open>?\<close> operator, \<open>give\<close> is \<open>return\<close>. The
  rules of \<open>after\<close>, the weakest precondition of such an operation, and of \<open>keeps\<close>, what every
  run of it preserves, carry the proofs about them.
\<close>

definition give :: "'a \<Rightarrow> 's \<Rightarrow> 'a \<times> 's" where
  "give a s = (a, s)"

definition let_op :: "('s \<Rightarrow> 'a \<times> 's) \<Rightarrow> ('a \<Rightarrow> 's \<Rightarrow> 'b \<times> 's) \<Rightarrow> 's \<Rightarrow> 'b \<times> 's" where
  "let_op m f s = (case m s of (a, s') \<Rightarrow> f a s')"

definition try_op ::
  "('s \<Rightarrow> ('e + 'a) \<times> 's) \<Rightarrow> ('a \<Rightarrow> 's \<Rightarrow> ('e + 'b) \<times> 's) \<Rightarrow> 's \<Rightarrow> ('e + 'b) \<times> 's" where
  "try_op m f s = (case m s of (Inl e, s') \<Rightarrow> (Inl e, s') | (Inr a, s') \<Rightarrow> f a s')"

definition get_op :: "('s \<Rightarrow> 'a) \<Rightarrow> 's \<Rightarrow> 'a \<times> 's" where
  "get_op f s = (f s, s)"

definition set_op :: "('s \<Rightarrow> 's) \<Rightarrow> 's \<Rightarrow> unit \<times> 's" where
  "set_op f s = ((), f s)"

definition when_op :: "bool \<Rightarrow> ('s \<Rightarrow> unit \<times> 's) \<Rightarrow> 's \<Rightarrow> unit \<times> 's" where
  "when_op b m = (if b then m else give ())"

lemma let_op_cong [fundef_cong]:
  "m s = m' s' \<Longrightarrow> (\<And>a t. m' s' = (a, t) \<Longrightarrow> f a t = f' a t) \<Longrightarrow> let_op m f s = let_op m' f' s'"
  by (simp add: let_op_def split: prod.splits)

lemma try_op_cong [fundef_cong]:
  "m s = m' s' \<Longrightarrow> (\<And>a t. m' s' = (Inr a, t) \<Longrightarrow> f a t = f' a t) \<Longrightarrow> try_op m f s = try_op m' f' s'"
  by (simp add: try_op_def split: prod.splits sum.splits)

section \<open>What holds after an operation\<close>

named_theorems after_simps "the weakest precondition of each operation"

definition after :: "('s \<Rightarrow> 'a \<times> 's) \<Rightarrow> ('a \<Rightarrow> 's \<Rightarrow> bool) \<Rightarrow> 's \<Rightarrow> bool" where
  "after m Q s = (case m s of (a, s') \<Rightarrow> Q a s')"

lemma afterD: "after m Q s \<Longrightarrow> m s = (a, s') \<Longrightarrow> Q a s'"
  by (simp add: after_def)

lemma afterI: "(\<And>a s'. m s = (a, s') \<Longrightarrow> Q a s') \<Longrightarrow> after m Q s"
  by (simp add: after_def split: prod.split)

lemma after_mono: "after m Q s \<Longrightarrow> (\<And>a s'. Q a s' \<Longrightarrow> R a s') \<Longrightarrow> after m R s"
  by (auto simp: after_def split: prod.splits)

lemma after_give [after_simps]: "after (give a) Q s \<longleftrightarrow> Q a s"
  by (simp add: after_def give_def)

lemma after_let [after_simps]: "after (let_op m f) Q s \<longleftrightarrow> after m (\<lambda>a. after (f a) Q) s"
  by (simp add: after_def let_op_def split: prod.split)

lemma after_try [after_simps]:
  "after (try_op m f) Q s \<longleftrightarrow>
     after m (\<lambda>r s'. (\<forall>e. r = Inl e \<longrightarrow> Q (Inl e) s') \<and> (\<forall>a. r = Inr a \<longrightarrow> after (f a) Q s')) s"
  by (auto simp: after_def try_op_def split: prod.split sum.split)

lemma after_get [after_simps]: "after (get_op f) Q s \<longleftrightarrow> Q (f s) s"
  by (simp add: after_def get_op_def)

lemma after_set [after_simps]: "after (set_op f) Q s \<longleftrightarrow> Q () (f s)"
  by (simp add: after_def set_op_def)

lemma after_when [after_simps]: "after (when_op b m) Q s \<longleftrightarrow> (if b then after m Q s else Q () s)"
  by (simp add: when_op_def after_give)

lemma after_if [after_simps]:
  "after (if b then m else m') Q s \<longleftrightarrow> (if b then after m Q s else after m' Q s)"
  by simp

section \<open>What an operation keeps\<close>

named_theorems keeps_intros "operations that keep an invariant"

text \<open>\<open>keeps R m\<close>: whatever \<open>m\<close> does, \<open>R\<close> relates its final state to the one it started in.\<close>

definition keeps :: "('s \<Rightarrow> 's \<Rightarrow> bool) \<Rightarrow> ('s \<Rightarrow> 'a \<times> 's) \<Rightarrow> bool" where
  "keeps R m \<longleftrightarrow> (\<forall>s. R s (snd (m s)))"

lemma keepsD: "keeps R m \<Longrightarrow> m s = (a, s') \<Longrightarrow> R s s'"
  by (metis keeps_def snd_conv)

lemma keepsI: "(\<And>s a s'. m s = (a, s') \<Longrightarrow> R s s') \<Longrightarrow> keeps R m"
  by (metis keeps_def prod.collapse)

locale kept =
  fixes R :: "'s \<Rightarrow> 's \<Rightarrow> bool"
  assumes same: "R s s"
    and onward: "R s t \<Longrightarrow> R t u \<Longrightarrow> R s u"
begin

lemma keeps_give: "keeps R (give a)"
  by (simp add: keeps_def give_def same)

lemma keeps_get: "keeps R (get_op f)"
  by (simp add: keeps_def get_op_def same)

lemma keeps_set: "(\<And>s. R s (f s)) \<Longrightarrow> keeps R (set_op f)"
  by (simp add: keeps_def set_op_def)

lemma keeps_let: "keeps R m \<Longrightarrow> (\<And>a. keeps R (f a)) \<Longrightarrow> keeps R (let_op m f)"
  by (rule keepsI) (auto simp: let_op_def dest!: keepsD intro: onward split: prod.splits)

lemma keeps_try: "keeps R m \<Longrightarrow> (\<And>a. keeps R (f a)) \<Longrightarrow> keeps R (try_op m f)"
  by (rule keepsI)
    (auto simp: try_op_def dest!: keepsD intro: onward split: prod.splits sum.splits)

lemma keeps_when: "keeps R m \<Longrightarrow> keeps R (when_op b m)"
  by (simp add: when_op_def keeps_give)

lemmas keeps_rules = keeps_give keeps_get keeps_let keeps_try keeps_when

end

section \<open>Operations that may not return\<close>

text \<open>
  A loop that ends only when the world lets it is a partial operation, whose value \<open>None\<close> is that
  it does not return. Whatever calls one is partial too.
\<close>

definition total_op :: "('s \<Rightarrow> 'a \<times> 's) \<Rightarrow> 's \<Rightarrow> ('a \<times> 's) option" where
  "total_op m s = Some (m s)"

definition let_run :: "('s \<Rightarrow> ('a \<times> 's) option) \<Rightarrow> ('a \<Rightarrow> 's \<Rightarrow> ('b \<times> 's) option) \<Rightarrow> 's \<Rightarrow> ('b \<times> 's) option" where
  "let_run m f s = Option.bind (m s) (\<lambda>(a, s'). f a s')"

definition try_run ::
  "('s \<Rightarrow> (('e + 'a) \<times> 's) option) \<Rightarrow> ('a \<Rightarrow> 's \<Rightarrow> (('e + 'b) \<times> 's) option) \<Rightarrow> 's \<Rightarrow> (('e + 'b) \<times> 's) option" where
  "try_run m f = let_run m (\<lambda>r. case r of Inl e \<Rightarrow> total_op (give (Inl e)) | Inr a \<Rightarrow> f a)"

lemma let_run_mono [partial_function_mono]:
  assumes "\<And>a t. mono_option (\<lambda>F. f F a t)"
  shows "mono_option (\<lambda>F. let_run m (f F) s)"
  unfolding let_run_def by (intro bind_mono option.const_mono) (auto simp: assms split: prod.split)

lemma let_run_simps [simp]:
  "let_run (total_op m) f s = (case m s of (a, s') \<Rightarrow> f a s')"
  "let_run p f s = None \<longleftrightarrow> p s = None \<or> (\<exists>a s'. p s = Some (a, s') \<and> f a s' = None)"
  by (auto simp: let_run_def total_op_def split: prod.splits Option.bind_splits)

lemma let_run_eq_Some:
  "let_run m f s = Some (b, t) \<longleftrightarrow> (\<exists>a s'. m s = Some (a, s') \<and> f a s' = Some (b, t))"
  by (auto simp: let_run_def split: Option.bind_splits)

text \<open>What holds if the operation returns.\<close>

definition after_run :: "('s \<Rightarrow> ('a \<times> 's) option) \<Rightarrow> ('a \<Rightarrow> 's \<Rightarrow> bool) \<Rightarrow> 's \<Rightarrow> bool" where
  "after_run m Q s \<longleftrightarrow> (\<forall>a s'. m s = Some (a, s') \<longrightarrow> Q a s')"

lemma after_run_total [after_simps]: "after_run (total_op m) Q s \<longleftrightarrow> after m Q s"
  by (auto simp: after_run_def total_op_def after_def split: prod.splits)

lemma after_run_let [after_simps]: "after_run (let_run m f) Q s \<longleftrightarrow> after_run m (\<lambda>a. after_run (f a) Q) s"
  by (auto simp: after_run_def let_run_eq_Some)

lemma after_run_try [after_simps]:
  "after_run (try_run m f) Q s \<longleftrightarrow>
     after_run m (\<lambda>r s'. (\<forall>e. r = Inl e \<longrightarrow> Q (Inl e) s') \<and> (\<forall>a. r = Inr a \<longrightarrow> after_run (f a) Q s')) s"
  unfolding try_run_def after_run_let
  by (auto simp: after_run_def total_op_def give_def split: sum.splits)

lemma after_run_mono: "after_run m Q s \<Longrightarrow> (\<And>a s'. Q a s' \<Longrightarrow> R a s') \<Longrightarrow> after_run m R s"
  by (auto simp: after_run_def)

lemma try_run_mono [partial_function_mono]:
  assumes "\<And>a t. mono_option (\<lambda>F. f F a t)"
  shows "mono_option (\<lambda>F. try_run m (f F) s)"
  unfolding try_run_def
proof (rule let_run_mono)
  fix a t
  show "mono_option (\<lambda>F. (case a of Inl e \<Rightarrow> total_op (give (Inl e)) | Inr x \<Rightarrow> f F x) t)"
    by (cases a) (simp_all add: assms option.const_mono)
qed

text \<open>Operations that always return.\<close>

definition returns :: "('s \<Rightarrow> ('a \<times> 's) option) \<Rightarrow> bool" where
  "returns m \<longleftrightarrow> (\<forall>s. m s \<noteq> None)"

lemma returns_rules:
  "returns (total_op m)"
  "returns p \<Longrightarrow> (\<And>a. returns (f a)) \<Longrightarrow> returns (let_run p f)"
  "returns q \<Longrightarrow> (\<And>a. returns (g a)) \<Longrightarrow> returns (try_run q g)"
  by (auto simp: returns_def total_op_def let_run_def try_run_def split: sum.split Option.bind_splits)

lemma after_keeps: "after m Q s \<Longrightarrow> keeps R m \<Longrightarrow> after m (\<lambda>a t. Q a t \<and> R s t) s"
  by (auto simp: after_def keeps_def split: prod.splits dest: spec [of _ s])

end
