(* ===== verification/Client.thy ===== *)
theory Client
  imports Transports Effects
begin

text \<open>
  The File Station client as a value (\<open>client/mod.rs\<close>): what it keeps, how it is built, and what it
  needs of the world around it. HTTP, JSON, files, the clock and timers are operations of an
  environment over an unspecified world \<open>'w\<close>; the client carries the world it lives in, so every
  method is a function from the client to its answer and the client afterwards.
\<close>

section \<open>Requests and answers\<close>

datatype http_method = HttpGet | HttpPost

record multipart_file =
  mf_name :: str
  mf_mime :: str
  mf_bytes :: bytes

text \<open>A multipart body is a list of fields with one file among them: what comes before it, the file, what comes after.\<close>

datatype http_body =
    NoBody
  | FormBody "(str \<times> str) list"
  | Multipart "(str \<times> str) list" multipart_file "(str \<times> str) list"

text \<open>\<open>rq_transfer\<close>: sent on the client for upload bodies, which has no read timeout.\<close>

record http_request =
  rq_transfer :: bool
  rq_method :: http_method
  rq_url :: str
  rq_query :: "(str \<times> str) list"
  rq_headers :: "(str \<times> str) list"
  rq_body :: http_body
  rq_timeout :: "duration option"

definition http_get :: "str \<Rightarrow> (str \<times> str) list \<Rightarrow> http_request" where
  "http_get url query =
     \<lparr>rq_transfer = False, rq_method = HttpGet, rq_url = url, rq_query = query, rq_headers = [],
      rq_body = NoBody, rq_timeout = None\<rparr>"

record http_error =
  he_text :: str
  he_sources :: "str list"
  he_is_connect :: bool

definition from_http_error :: "http_error \<Rightarrow> syno_error" where
  "from_http_error e = from_transport (he_text e) (he_sources e)"

record http_answer =
  ha_status :: nat
  ha_body :: "http_error + bytes"

type_synonym http_reply = "http_error + http_answer"

definition is_success :: "nat \<Rightarrow> bool" where
  "is_success status \<longleftrightarrow> 200 \<le> status \<and> status < 300"

section \<open>DSM's answers\<close>

record syno_api_error =
  ae_code :: u32

record 'd syno_response =
  rs_success :: bool
  rs_data :: "'d option"
  rs_error :: "syno_api_error option"

text \<open>\<open>resp.error.map(|e| e.code).unwrap_or(0)\<close>.\<close>

definition error_code :: "'d syno_response \<Rightarrow> u32" where
  "error_code resp = (case rs_error resp of None \<Rightarrow> 0 | Some e \<Rightarrow> ae_code e)"

record auth_data =
  au_sid :: str

record list_data =
  ld_files :: "syno_file_info list"
  ld_total :: "u64 option"

record upload_data =
  up_tmpfile :: "str option"

record md5_start_data =
  md_taskid :: str

record md5_status_data =
  md_finished :: bool
  md_md5 :: "str option"

record move_start_data =
  mv_taskid :: str

record move_status_data =
  mv_finished :: bool
  mv_error :: "syno_api_error option"

text \<open>
  \<open>serde_json\<close>: a parser for each type, which says why a text is none; and the encoding of a
  string. \<open>ListShareData\<close> is \<open>ListData\<close> with its entries under another name; \<open>GetInfoData\<close>,
  \<open>CreateFolderData\<close> and \<open>RenameData\<close> are lists of entries.
\<close>

record json =
  js_quote :: "str \<Rightarrow> str"
  js_value :: "bytes \<Rightarrow> str + unit syno_response"
  js_list :: "str \<Rightarrow> str + list_data syno_response"
  js_shares :: "str \<Rightarrow> str + list_data syno_response"
  js_get_info :: "str \<Rightarrow> str + syno_file_info list syno_response"
  js_create_folder :: "str \<Rightarrow> str + syno_file_info list syno_response"
  js_rename :: "str \<Rightarrow> str + syno_file_info list syno_response"
  js_upload :: "str \<Rightarrow> str + upload_data syno_response"
  js_md5_start :: "str \<Rightarrow> str + md5_start_data syno_response"
  js_md5_status :: "str \<Rightarrow> str + md5_status_data syno_response"
  js_move_start :: "str \<Rightarrow> str + move_start_data syno_response"
  js_move_status :: "str \<Rightarrow> str + move_status_data syno_response"

text \<open>\<open>serde_json::to_string(&[s])\<close>.\<close>

definition quote_list :: "json \<Rightarrow> str \<Rightarrow> str" where
  "quote_list J s = lit ''['' @ js_quote J s @ lit '']''"

section \<open>The environment\<close>

type_synonym ('w, 'a) io = "'w \<Rightarrow> (str + 'a) \<times> 'w"

text \<open>The local file system. A file is opened for reading under its path, and read onwards.\<close>

record 'w files =
  fs_create :: "str \<Rightarrow> ('w, unit) io"
  fs_write_all :: "str \<Rightarrow> bytes \<Rightarrow> ('w, unit) io"
  fs_sync_all :: "str \<Rightarrow> ('w, unit) io"
  fs_rename :: "str \<Rightarrow> str \<Rightarrow> ('w, unit) io"
  fs_remove_file :: "str \<Rightarrow> ('w, unit) io"
  fs_len :: "str \<Rightarrow> ('w, u64) io"
  fs_read :: "str \<Rightarrow> ('w, bytes) io"
  fs_modified_ms :: "str \<Rightarrow> ('w, nat) io"
  fs_open :: "str \<Rightarrow> ('w, unit) io"
  fs_read_exact :: "str \<Rightarrow> nat \<Rightarrow> ('w, bytes) io"
  fs_rewind :: "str \<Rightarrow> ('w, unit) io"
  fs_md5 :: "str \<Rightarrow> ('w, str) fallible"

record 'w env =
  env_now :: "'w \<Rightarrow> instant \<times> 'w"
  env_sleep :: "duration \<Rightarrow> 'w \<Rightarrow> unit \<times> 'w"
  env_send :: "http_request \<Rightarrow> 'w \<Rightarrow> http_reply \<times> 'w"
  env_acquire :: "'w \<Rightarrow> unit \<times> 'w"
  env_release :: "'w \<Rightarrow> unit \<times> 'w"
  env_nanos :: "'w \<Rightarrow> nat \<times> 'w"
  env_mul_f64 :: "duration \<Rightarrow> nat \<Rightarrow> duration"
  env_text :: "bytes \<Rightarrow> str"
  env_status_text :: "nat \<Rightarrow> str"
  env_auth :: "bytes \<Rightarrow> http_error + auth_data syno_response"
  env_json :: json
  env_files :: "'w files"

section \<open>The client\<close>

record throttle_config =
  tc_max_concurrency :: nat
  tc_min_interval :: duration
  tc_max_attempts :: u32
  tc_backoff_base :: duration
  tc_backoff_max :: duration

definition millis :: "nat \<Rightarrow> duration" where
  "millis n = n * 1000000"

definition throttle_config_default :: throttle_config where
  "throttle_config_default =
     \<lparr>tc_max_concurrency = 4, tc_min_interval = millis 150, tc_max_attempts = 5,
      tc_backoff_base = secs 1, tc_backoff_max = secs 60\<rparr>"

record throttle =
  th_permits :: nat
  th_min_interval :: duration
  th_next_earliest :: instant
  th_max_attempts :: u32
  th_backoff_base :: duration
  th_backoff_max :: duration

record stored_creds =
  cr_user :: str
  cr_password :: str

record upload_deadline =
  dl_grace :: duration
  dl_floor_bps :: u64

definition upload_deadline_default :: upload_deadline where
  "upload_deadline_default = \<lparr>dl_grace = secs 60, dl_floor_bps = 32 * 1024\<rparr>"

definition div_ceil :: "u64 \<Rightarrow> u64 \<Rightarrow> u64" where
  "div_ceil a b = (if a mod b = 0 then a div b else a div b + 1)"

definition deadline_for_bytes :: "upload_deadline \<Rightarrow> u64 \<Rightarrow> duration" where
  "deadline_for_bytes d n = dl_grace d + secs (unat (div_ceil n (max (dl_floor_bps d) 1)))"

definition DEFAULT_SLICE_SIZE :: nat where
  "DEFAULT_SLICE_SIZE = 10 * 1024 * 1024"

datatype session_auth = SessionAuthCookie | SessionAuthQuery

record 'w client =
  cl_world :: 'w
  cl_upload_deadline :: upload_deadline
  cl_base_url :: str
  cl_sid :: "str option"
  cl_throttle :: "throttle option"
  cl_auto_relogin :: bool
  cl_creds :: "stored_creds option"
  cl_insecure_tls :: bool
  cl_session_auth :: session_auth
  cl_read_transports :: "'w read_transport transport_entry list"
  cl_write_transports :: "'w write_transport transport_entry list"
  cl_stream_write_transports :: "'w stream_write_transport transport_entry list"
  cl_stream_read_transports :: "'w stream_read_transport transport_entry list"
  cl_metadata_transports :: "'w metadata_transport transport_entry list"
  cl_open_write_transports :: "'w open_write_transport transport_entry list"
  cl_slice_size :: nat

text \<open>\<open>SynologyClient::new\<close> in a world; the HTTP clients are the environment's.\<close>

definition client_new :: "str \<Rightarrow> u16 \<Rightarrow> bool \<Rightarrow> 'w \<Rightarrow> 'w client" where
  "client_new host port https world =
     (let scheme = if https then lit ''https'' else lit ''http'';
          base_url = scheme @ lit ''://'' @ host @ lit '':'' @ show_nat (unat port) @ lit ''/webapi''
      in \<lparr>cl_world = world, cl_upload_deadline = upload_deadline_default, cl_base_url = base_url,
          cl_sid = None, cl_throttle = None, cl_auto_relogin = False, cl_creds = None,
          cl_insecure_tls = False, cl_session_auth = SessionAuthCookie,
          cl_read_transports = [], cl_write_transports = [], cl_stream_write_transports = [],
          cl_stream_read_transports = [], cl_metadata_transports = [], cl_open_write_transports = [],
          cl_slice_size = DEFAULT_SLICE_SIZE\<rparr>)"

definition with_insecure_tls :: "'w client \<Rightarrow> 'w client" where
  "with_insecure_tls c = c\<lparr>cl_insecure_tls := True\<rparr>"

definition with_auto_relogin :: "str \<Rightarrow> u16 \<Rightarrow> bool \<Rightarrow> 'w \<Rightarrow> 'w client" where
  "with_auto_relogin host port https world = (client_new host port https world)\<lparr>cl_auto_relogin := True\<rparr>"

definition with_slice_size :: "nat \<Rightarrow> 'w client \<Rightarrow> 'w client" where
  "with_slice_size n c = c\<lparr>cl_slice_size := max n 1\<rparr>"

definition with_read_transport :: "'w read_transport \<Rightarrow> 'w client \<Rightarrow> 'w client" where
  "with_read_transport t c = c\<lparr>cl_read_transports := cl_read_transports c @ [entry_new t]\<rparr>"

definition with_write_transport :: "'w write_transport \<Rightarrow> 'w client \<Rightarrow> 'w client" where
  "with_write_transport t c = c\<lparr>cl_write_transports := cl_write_transports c @ [entry_new t]\<rparr>"

definition with_stream_write_transport :: "'w stream_write_transport \<Rightarrow> 'w client \<Rightarrow> 'w client" where
  "with_stream_write_transport t c =
     c\<lparr>cl_stream_write_transports := cl_stream_write_transports c @ [entry_new t]\<rparr>"

definition with_stream_read_transport :: "'w stream_read_transport \<Rightarrow> 'w client \<Rightarrow> 'w client" where
  "with_stream_read_transport t c =
     c\<lparr>cl_stream_read_transports := cl_stream_read_transports c @ [entry_new t]\<rparr>"

definition with_metadata_transport :: "'w metadata_transport \<Rightarrow> 'w client \<Rightarrow> 'w client" where
  "with_metadata_transport t c = c\<lparr>cl_metadata_transports := cl_metadata_transports c @ [entry_new t]\<rparr>"

definition with_open_write_transport :: "'w open_write_transport \<Rightarrow> 'w client \<Rightarrow> 'w client" where
  "with_open_write_transport t c =
     c\<lparr>cl_open_write_transports := cl_open_write_transports c @ [entry_new t]\<rparr>"

definition read_backends_healthy :: "'w client \<Rightarrow> bool" where
  "read_backends_healthy c = list_all (\<lambda>e. is_closed (te_breaker e)) (cl_read_transports c)"

section \<open>Running in the environment\<close>

definition in_world :: "('w \<Rightarrow> 'a \<times> 'w) \<Rightarrow> 'w client \<Rightarrow> 'a \<times> 'w client" where
  "in_world m c = (case m (cl_world c) of (a, w) \<Rightarrow> (a, c\<lparr>cl_world := w\<rparr>))"

text \<open>A local I/O failure is an error of the client once it has a text.\<close>

definition local_io :: "(str \<Rightarrow> str) \<Rightarrow> ('w, 'a) io \<Rightarrow> 'w client \<Rightarrow> (syno_error + 'a) \<times> 'w client" where
  "local_io describe m = let_op (in_world m) (\<lambda>r. give (map_err (\<lambda>e. SynoIo (describe e)) r))"

text \<open>The selection loops, one for each kind of backend.\<close>

definition via_read ::
  "'w env \<Rightarrow> ('w read_transport \<Rightarrow> ('w, 'a) fallible) \<Rightarrow> 'w client \<Rightarrow> (syno_error + 'a) option \<times> 'w client" where
  "via_read E call c =
     (case offer (env_now E) call (cl_read_transports c) (cl_world c) of
        (r, es, w) \<Rightarrow> (r, c\<lparr>cl_read_transports := es, cl_world := w\<rparr>))"

definition via_write ::
  "'w env \<Rightarrow> ('w write_transport \<Rightarrow> ('w, 'a) fallible) \<Rightarrow> 'w client \<Rightarrow> (syno_error + 'a) option \<times> 'w client" where
  "via_write E call c =
     (case offer (env_now E) call (cl_write_transports c) (cl_world c) of
        (r, es, w) \<Rightarrow> (r, c\<lparr>cl_write_transports := es, cl_world := w\<rparr>))"

definition via_stream_read ::
  "'w env \<Rightarrow> ('w stream_read_transport \<Rightarrow> ('w, 'a) fallible) \<Rightarrow> 'w client \<Rightarrow> (syno_error + 'a) option \<times> 'w client" where
  "via_stream_read E call c =
     (case offer (env_now E) call (cl_stream_read_transports c) (cl_world c) of
        (r, es, w) \<Rightarrow> (r, c\<lparr>cl_stream_read_transports := es, cl_world := w\<rparr>))"

definition via_stream_write ::
  "'w env \<Rightarrow> ('w stream_write_transport \<Rightarrow> ('w, 'a) fallible) \<Rightarrow> 'w client \<Rightarrow> (syno_error + 'a) option \<times> 'w client" where
  "via_stream_write E call c =
     (case offer (env_now E) call (cl_stream_write_transports c) (cl_world c) of
        (r, es, w) \<Rightarrow> (r, c\<lparr>cl_stream_write_transports := es, cl_world := w\<rparr>))"

definition via_metadata ::
  "'w env \<Rightarrow> ('w metadata_transport \<Rightarrow> ('w, 'a) fallible) \<Rightarrow> 'w client \<Rightarrow> (syno_error + 'a) option \<times> 'w client" where
  "via_metadata E call c =
     (case offer (env_now E) call (cl_metadata_transports c) (cl_world c) of
        (r, es, w) \<Rightarrow> (r, c\<lparr>cl_metadata_transports := es, cl_world := w\<rparr>))"

text \<open>\<open>open_write\<close>: no backend, no handle, and the caller buffers.\<close>

definition client_open_write ::
  "'w env \<Rightarrow> str \<Rightarrow> write_open \<Rightarrow> 'w client \<Rightarrow> (syno_error + 'w write_handle option) \<times> 'w client" where
  "client_open_write E path mode c =
     (case offer (env_now E) (\<lambda>t. ow_open_write t path mode) (cl_open_write_transports c) (cl_world c) of
        (r, es, w) \<Rightarrow>
          ((case r of None \<Rightarrow> Inr None | Some (Inl e) \<Rightarrow> Inl e | Some (Inr h) \<Rightarrow> Inr (Some h)),
           c\<lparr>cl_open_write_transports := es, cl_world := w\<rparr>))"

text \<open>The \<open>return\<close> of a backend that answered, or what follows the loop.\<close>

definition or_http ::
  "('w client \<Rightarrow> (syno_error + 'a) option \<times> 'w client) \<Rightarrow> ('w client \<Rightarrow> (syno_error + 'a) \<times> 'w client) \<Rightarrow>
     'w client \<Rightarrow> (syno_error + 'a) \<times> 'w client" where
  "or_http backends http = let_op backends (\<lambda>r. case r of Some answer \<Rightarrow> give answer | None \<Rightarrow> http)"

end
