(* ===== verification/Client_Session.thy ===== *)
theory Client_Session
  imports Client
begin

text \<open>
  The session of the File Station client (\<open>client/session.rs\<close>): how the session id travels, requests
  that are retried and requests that must not be, logging in and out, and logging in again when the
  session has expired. And the throttle of \<open>client/throttle.rs\<close>: attempts, slots and backoff.
\<close>

section \<open>Sending\<close>

definition send :: "'w env \<Rightarrow> http_request \<Rightarrow> 'w client \<Rightarrow> http_reply \<times> 'w client" where
  "send E rq = in_world (env_send E rq)"

definition sleep :: "'w env \<Rightarrow> duration \<Rightarrow> 'w client \<Rightarrow> unit \<times> 'w client" where
  "sleep E d = in_world (env_sleep E d)"

definition now :: "'w env \<Rightarrow> 'w client \<Rightarrow> instant \<times> 'w client" where
  "now E = in_world (env_now E)"

definition SID_NOT_FOUND :: u32 where
  "SID_NOT_FOUND = 119"

definition sid :: "'w client \<Rightarrow> str" where
  "sid c = (case cl_sid c of None \<Rightarrow> [] | Some s \<Rightarrow> s)"

definition attach_session :: "'w client \<Rightarrow> http_request \<Rightarrow> http_request" where
  "attach_session c rq =
     (if sid c = [] then rq
      else if cl_session_auth c = SessionAuthCookie
      then rq\<lparr>rq_headers := rq_headers rq @ [(lit ''Cookie'', lit ''id='' @ sid c)]\<rparr>
      else rq\<lparr>rq_query := rq_query rq @ [(lit ''_sid'', sid c)]\<rparr>)"

definition send_attached :: "'w env \<Rightarrow> http_request \<Rightarrow> 'w client \<Rightarrow> http_reply \<times> 'w client" where
  "send_attached E rq c = send E (attach_session c rq) c"

definition entry_cgi :: "'w client \<Rightarrow> str" where
  "entry_cgi c = cl_base_url c @ lit ''/entry.cgi''"

definition auth_cgi :: "'w client \<Rightarrow> str" where
  "auth_cgi c = cl_base_url c @ lit ''/auth.cgi''"

text \<open>\<open>resp.text()\<close>.\<close>

definition answer_text :: "'w env \<Rightarrow> http_answer \<Rightarrow> syno_error + str" where
  "answer_text E a = (case ha_body a of Inl e \<Rightarrow> Inl (from_http_error e) | Inr b \<Rightarrow> Inr (env_text E b))"

section \<open>Requests that may be repeated\<close>

fun text_attempts ::
  "'w env \<Rightarrow> str \<Rightarrow> (str \<times> str) list \<Rightarrow> nat list \<Rightarrow> syno_error \<Rightarrow> 'w client \<Rightarrow> (syno_error + str) \<times> 'w client" where
  "text_attempts E url params [] last_err = give (Inl last_err)"
| "text_attempts E url params (attempt # rest) last_err =
     let_op (when_op (0 < attempt) (sleep E (millis (200 * attempt)))) (\<lambda>_.
     let_op (send_attached E (http_get url params)) (\<lambda>reply.
       case reply of
         Inl e \<Rightarrow> text_attempts E url params rest (from_http_error e)
       | Inr resp \<Rightarrow>
           (case answer_text E resp of
              Inr t \<Rightarrow> give (Inr t)
            | Inl e \<Rightarrow> text_attempts E url params rest e)))"

definition get_text_retried ::
  "'w env \<Rightarrow> str \<Rightarrow> (str \<times> str) list \<Rightarrow> 'w client \<Rightarrow> (syno_error + str) \<times> 'w client" where
  "get_text_retried E url params = text_attempts E url params [0, 1, 2] (SynoIo (lit ''no attempts''))"

section \<open>Requests that must not be\<close>

text \<open>The loop at \<open>attempt\<close>, of which there are never more than two.\<close>

function once_from ::
  "'w env \<Rightarrow> str \<Rightarrow> (str \<times> str) list \<Rightarrow> nat \<Rightarrow> 'w client \<Rightarrow> (syno_error + str) \<times> 'w client" where
  "once_from E url params attempt =
     let_op (send_attached E (http_get url params)) (\<lambda>reply.
       case reply of
         Inr resp \<Rightarrow> give (answer_text E resp)
       | Inl e \<Rightarrow>
           if he_is_connect e \<and> attempt < 2
           then let_op (sleep E (millis (200 * (attempt + 1)))) (\<lambda>_. once_from E url params (attempt + 1))
           else give (Inl (from_http_error e)))"
  by pat_completeness auto
termination by (relation "measure (\<lambda>(E, url, params, attempt). 2 - attempt)") auto

declare once_from.simps [simp del]

definition get_text_once ::
  "'w env \<Rightarrow> str \<Rightarrow> (str \<times> str) list \<Rightarrow> 'w client \<Rightarrow> (syno_error + str) \<times> 'w client" where
  "get_text_once E url params = once_from E url params 0"

section \<open>Logging in and out\<close>

definition probe_params :: "(str \<times> str) list" where
  "probe_params =
     [(lit ''api'', lit ''SYNO.FileStation.List''), (lit ''version'', lit ''2''),
      (lit ''method'', lit ''list_share''), (lit ''limit'', lit ''1''), (lit ''offset'', lit ''0'')]"

text \<open>Did the answer to the probe say that there is no such session?\<close>

definition probe_rejected :: "'w env \<Rightarrow> http_reply \<Rightarrow> bool" where
  "probe_rejected E reply =
     (case reply of
        Inl _ \<Rightarrow> False
      | Inr resp \<Rightarrow>
          (case answer_text E resp of
             Inl _ \<Rightarrow> False
           | Inr body \<Rightarrow>
               (case js_value (env_json E) body of
                  Inl _ \<Rightarrow> False
                | Inr envelope \<Rightarrow>
                    \<not> rs_success envelope \<and>
                    (case rs_error envelope of None \<Rightarrow> False | Some e \<Rightarrow> ae_code e = SID_NOT_FOUND))))"

definition probe_session_transport :: "'w env \<Rightarrow> 'w client \<Rightarrow> unit \<times> 'w client" where
  "probe_session_transport E =
     let_op (set_op (\<lambda>c. c\<lparr>cl_session_auth := SessionAuthCookie\<rparr>)) (\<lambda>_.
     let_op (get_op entry_cgi) (\<lambda>url.
     let_op (send_attached E (http_get url probe_params)) (\<lambda>reply.
       when_op (probe_rejected E reply) (set_op (\<lambda>c. c\<lparr>cl_session_auth := SessionAuthQuery\<rparr>)))))"

definition session_in_cookie :: "'w client \<Rightarrow> bool" where
  "session_in_cookie c \<longleftrightarrow> cl_session_auth c = SessionAuthCookie"

definition login_params :: "str \<Rightarrow> str \<Rightarrow> str option \<Rightarrow> (str \<times> str) list" where
  "login_params user password otp =
     [(lit ''api'', lit ''SYNO.API.Auth''), (lit ''version'', lit ''7''), (lit ''method'', lit ''login''),
      (lit ''account'', user), (lit ''passwd'', password), (lit ''session'', lit ''FileStation''),
      (lit ''format'', lit ''sid'')] @
     (case otp of None \<Rightarrow> [] | Some code \<Rightarrow> [(lit ''otp_code'', code)])"

definition http_post_form :: "str \<Rightarrow> (str \<times> str) list \<Rightarrow> http_request" where
  "http_post_form url form = (http_get url [])\<lparr>rq_method := HttpPost, rq_body := FormBody form\<rparr>"

text \<open>The answer to a login, as \<open>json()\<close> reads it.\<close>

definition login_answer :: "'w env \<Rightarrow> http_reply \<Rightarrow> syno_error + auth_data syno_response" where
  "login_answer E reply =
     map_err from_http_error (bindE reply (\<lambda>resp. bindE (ha_body resp) (env_auth E)))"

definition login :: "'w env \<Rightarrow> str \<Rightarrow> str \<Rightarrow> str option \<Rightarrow> 'w client \<Rightarrow> (syno_error + unit) \<times> 'w client" where
  "login E user password otp =
     let_op (get_op auth_cgi) (\<lambda>url.
     let_op (send E (http_post_form url (login_params user password otp))) (\<lambda>reply.
     try_op (give (login_answer E reply)) (\<lambda>resp.
       if rs_success resp then
         try_op (give (ok_or (rs_data resp) (SynoIo (lit ''no auth data'')))) (\<lambda>data.
         let_op (set_op (\<lambda>c. c\<lparr>cl_sid := Some (au_sid data)\<rparr>)) (\<lambda>_.
         let_op (probe_session_transport E) (\<lambda>_.
         let_op (get_op cl_auto_relogin) (\<lambda>auto_relogin.
         let_op (when_op auto_relogin
             (set_op (\<lambda>c. c\<lparr>cl_creds := Some \<lparr>cr_user = user, cr_password = password\<rparr>\<rparr>))) (\<lambda>_.
         give (Inr ()))))))
       else give (Inl (ApiError (error_code resp))))))"

definition relogin :: "'w env \<Rightarrow> 'w client \<Rightarrow> (syno_error + unit) \<times> 'w client" where
  "relogin E c =
     (if \<not> cl_auto_relogin c then (Inl SynoNotSupported, c)
      else case cl_creds c of
        None \<Rightarrow> (Inl SynoNotSupported, c)
      | Some creds \<Rightarrow> login E (cr_user creds) (cr_password creds) None c)"

definition auto_relogin_enabled :: "'w client \<Rightarrow> bool" where
  "auto_relogin_enabled = cl_auto_relogin"

definition with_relogin_retry ::
  "'w env \<Rightarrow> ('w client \<Rightarrow> (syno_error + 'a) \<times> 'w client) \<Rightarrow> 'w client \<Rightarrow> (syno_error + 'a) \<times> 'w client" where
  "with_relogin_retry E op =
     let_op op (\<lambda>r.
     let_op (get_op cl_auto_relogin) (\<lambda>auto_relogin.
       if r = Inl (ApiError SID_NOT_FOUND) \<and> auto_relogin then
         try_op (let_op (relogin E) (\<lambda>again. give (map_err LoginFailed again))) (\<lambda>_. op)
       else give r))"

definition logout :: "'w env \<Rightarrow> 'w client \<Rightarrow> (syno_error + unit) \<times> 'w client" where
  "logout E =
     let_op (get_op auth_cgi) (\<lambda>url.
     let_op (send_attached E (http_get url
       [(lit ''api'', lit ''SYNO.API.Auth''), (lit ''version'', lit ''7''), (lit ''method'', lit ''logout''),
        (lit ''session'', lit ''FileStation'')])) (\<lambda>_.
     let_op (set_op (\<lambda>c. c\<lparr>cl_sid := None\<rparr>)) (\<lambda>_.
     give (Inr ()))))"

section \<open>The throttle\<close>

definition with_throttle :: "'w env \<Rightarrow> throttle_config \<Rightarrow> 'w client \<Rightarrow> 'w client" where
  "with_throttle E cfg c =
     (case now E c of (t, c) \<Rightarrow>
        c\<lparr>cl_throttle := Some \<lparr>th_permits = max (tc_max_concurrency cfg) 1,
            th_min_interval = tc_min_interval cfg, th_next_earliest = t,
            th_max_attempts = max (tc_max_attempts cfg) 1,
            th_backoff_base = tc_backoff_base cfg, th_backoff_max = tc_backoff_max cfg\<rparr>\<rparr>)"

definition http_status_is_transient :: "nat \<Rightarrow> bool" where
  "http_status_is_transient status \<longleftrightarrow> status \<in> {502, 503, 504, 407}"

datatype transfer_outcome = TransferDone bytes | TransferFatal syno_error | TransferRetry bool syno_error

definition classify_download_body :: "'w env \<Rightarrow> bytes \<Rightarrow> transfer_outcome" where
  "classify_download_body E body =
     (if length body < 1024 \<and> (body \<noteq> [] \<and> hd body = of_char (CHR ''{'')) then
        (case js_value (env_json E) body of
           Inr envelope \<Rightarrow>
             if \<not> rs_success envelope then
               (let code = error_code envelope
                in if dsm_code_to_category code = CatBusy then TransferRetry True (ApiError code)
                   else TransferFatal (ApiError code))
             else TransferDone body
         | Inl _ \<Rightarrow> TransferDone body)
      else TransferDone body)"

definition full_jitter :: "'w env \<Rightarrow> duration \<Rightarrow> 'w client \<Rightarrow> duration \<times> 'w client" where
  "full_jitter E cap =
     (if cap = 0 then give 0 else let_op (in_world (env_nanos E)) (\<lambda>nanos. give (env_mul_f64 E cap nanos)))"

definition max_transfer_attempts :: "'w client \<Rightarrow> nat" where
  "max_transfer_attempts c = (case cl_throttle c of Some t \<Rightarrow> unat (th_max_attempts t) | None \<Rightarrow> 3)"

text \<open>Whether a permit is held afterwards, which \<open>drop_slot\<close> gives back.\<close>

definition acquire_transfer_slot :: "'w env \<Rightarrow> 'w client \<Rightarrow> bool \<times> 'w client" where
  "acquire_transfer_slot E c =
     (case cl_throttle c of
        None \<Rightarrow> (False, c)
      | Some t \<Rightarrow>
          let_op (if 0 < th_min_interval t then
              let_op (now E) (\<lambda>at.
                let scheduled = max (th_next_earliest t) at; wait = scheduled - at in
                let_op (set_op (\<lambda>c. c\<lparr>cl_throttle := Some (t\<lparr>th_next_earliest := scheduled + th_min_interval t\<rparr>)\<rparr>)) (\<lambda>_.
                when_op (0 < wait) (sleep E wait)))
            else give ()) (\<lambda>_.
          let_op (in_world (env_acquire E)) (\<lambda>_. give True)) c)"

definition drop_slot :: "'w env \<Rightarrow> bool \<Rightarrow> 'w client \<Rightarrow> unit \<times> 'w client" where
  "drop_slot E held = when_op held (in_world (env_release E))"

text \<open>A block that holds a slot while it runs.\<close>

definition holding_slot :: "'w env \<Rightarrow> ('w client \<Rightarrow> 'a \<times> 'w client) \<Rightarrow> 'w client \<Rightarrow> 'a \<times> 'w client" where
  "holding_slot E m =
     let_op (acquire_transfer_slot E) (\<lambda>held. let_op m (\<lambda>a. let_op (drop_slot E held) (\<lambda>_. give a)))"

text \<open>
  The products of \<open>saturating_mul\<close> and \<open>checked_shl\<close> are cut at the configured ceiling, below
  which neither saturates.
\<close>

definition backoff_cap :: "throttle \<Rightarrow> nat \<Rightarrow> bool \<Rightarrow> duration" where
  "backoff_cap t attempt hard =
     (let base = (if hard then th_backoff_base t * 2 else th_backoff_base t);
          factor = (if attempt < 32 then 2 ^ attempt else 2 ^ 32 - 1)
      in min (base * factor) (th_backoff_max t))"

definition backoff_before_retry :: "'w env \<Rightarrow> nat \<Rightarrow> bool \<Rightarrow> 'w client \<Rightarrow> unit \<times> 'w client" where
  "backoff_before_retry E attempt hard c =
     (case cl_throttle c of
        None \<Rightarrow> ((), c)
      | Some t \<Rightarrow>
          let_op (full_jitter E (backoff_cap t attempt hard)) (\<lambda>delay.
            when_op (0 < delay) (sleep E delay)) c)"

end
