(* ===== verification/Scripted.thy ===== *)
theory Scripted
  imports Client_Session
begin

text \<open>
  What is seen of a client from outside: the requests it sends and the answers they get. A world
  is observed when it keeps that record, whatever else it does; the client's lemmas about its
  traffic are proved for every observed world. \<open>script_env\<close> is one: a NAS whose answers are
  listed beforehand, beside a local disk.
\<close>

section \<open>Observed worlds\<close>

type_synonym exchange = "http_request \<times> http_reply"

definition unseen :: "('w \<Rightarrow> exchange list) \<Rightarrow> ('w \<Rightarrow> 'a \<times> 'w) \<Rightarrow> bool" where
  "unseen sent m \<longleftrightarrow> (\<forall>w. sent (snd (m w)) = sent w)"

locale observed =
  fixes E :: "'w env" and sent :: "'w \<Rightarrow> exchange list"
  assumes sends: "sent (snd (env_send E rq w)) = sent w @ [(rq, fst (env_send E rq w))]"
    and now_unseen: "unseen sent (env_now E)"
    and sleep_unseen: "unseen sent (env_sleep E d)"
    and acquire_unseen: "unseen sent (env_acquire E)"
    and release_unseen: "unseen sent (env_release E)"
    and nanos_unseen: "unseen sent (env_nanos E)"
begin

lemma after_send:
  "after (send E rq) Q c \<longleftrightarrow>
     Q (fst (env_send E rq (cl_world c))) (c\<lparr>cl_world := snd (env_send E rq (cl_world c))\<rparr>)"
  by (simp add: after_def send_def in_world_def split: prod.splits)

end

lemma after_in_world:
  "after (in_world m) Q c \<longleftrightarrow> Q (fst (m (cl_world c))) (c\<lparr>cl_world := snd (m (cl_world c))\<rparr>)"
  by (simp add: after_def in_world_def split: prod.splits)

section \<open>A listed world\<close>

record script =
  sc_replies :: "http_reply list"
  sc_log :: "exchange list"
  sc_clock :: instant
  sc_disk :: "str \<rightharpoonup> bytes"
  sc_pos :: nat

definition no_answer :: http_reply where
  "no_answer = Inl \<lparr>he_text = lit ''no answer'', he_sources = [], he_is_connect = False\<rparr>"

definition no_connection :: http_reply where
  "no_connection = Inl \<lparr>he_text = lit ''refused'', he_sources = [], he_is_connect = True\<rparr>"

definition answers :: "str \<Rightarrow> http_reply" where
  "answers body = Inr \<lparr>ha_status = 200, ha_body = Inr body\<rparr>"

definition script_send :: "http_request \<Rightarrow> script \<Rightarrow> http_reply \<times> script" where
  "script_send rq w =
     (let reply = (case sc_replies w of [] \<Rightarrow> no_answer | r # _ \<Rightarrow> r)
      in (reply, w\<lparr>sc_replies := tl (sc_replies w), sc_log := sc_log w @ [(rq, reply)]\<rparr>))"

definition no_such_file :: str where
  "no_such_file = lit ''no such file''"

text \<open>A disk: files by name, and how far into the open file its reader is.\<close>

definition disk_create :: "str \<Rightarrow> (script, unit) io" where
  "disk_create p w = (Inr (), w\<lparr>sc_disk := (sc_disk w)(p \<mapsto> [])\<rparr>)"

definition disk_write_all :: "str \<Rightarrow> bytes \<Rightarrow> (script, unit) io" where
  "disk_write_all p bs w =
     (case sc_disk w p of
        None \<Rightarrow> (Inl no_such_file, w)
      | Some old \<Rightarrow> (Inr (), w\<lparr>sc_disk := (sc_disk w)(p \<mapsto> old @ bs)\<rparr>))"

definition disk_rename :: "str \<Rightarrow> str \<Rightarrow> (script, unit) io" where
  "disk_rename p q w =
     (case sc_disk w p of
        None \<Rightarrow> (Inl no_such_file, w)
      | Some bs \<Rightarrow> (Inr (), w\<lparr>sc_disk := ((sc_disk w)(p := None))(q \<mapsto> bs)\<rparr>))"

definition disk_remove :: "str \<Rightarrow> (script, unit) io" where
  "disk_remove p w = (Inr (), w\<lparr>sc_disk := (sc_disk w)(p := None)\<rparr>)"

definition disk_look :: "str \<Rightarrow> (bytes \<Rightarrow> 'a) \<Rightarrow> (script, 'a) io" where
  "disk_look p f w = (case sc_disk w p of None \<Rightarrow> (Inl no_such_file, w) | Some bs \<Rightarrow> (Inr (f bs), w))"

definition disk_rewind :: "str \<Rightarrow> (script, unit) io" where
  "disk_rewind p w = disk_look p (\<lambda>_. ()) (w\<lparr>sc_pos := 0\<rparr>)"

definition disk_read_exact :: "str \<Rightarrow> nat \<Rightarrow> (script, bytes) io" where
  "disk_read_exact p n w =
     (case sc_disk w p of
        None \<Rightarrow> (Inl no_such_file, w)
      | Some bs \<Rightarrow>
          if sc_pos w + n \<le> length bs
          then (Inr (take n (drop (sc_pos w) bs)), w\<lparr>sc_pos := sc_pos w + n\<rparr>)
          else (Inl (lit ''end of file''), w))"

definition disk :: "script files" where
  "disk =
     \<lparr>fs_create = disk_create, fs_write_all = disk_write_all, fs_sync_all = (\<lambda>_ w. (Inr (), w)),
      fs_rename = disk_rename, fs_remove_file = disk_remove,
      fs_len = (\<lambda>p. disk_look p (\<lambda>bs. of_nat (length bs))), fs_read = (\<lambda>p. disk_look p id),
      fs_modified_ms = (\<lambda>p. disk_look p (\<lambda>_. 0)), fs_open = disk_rewind,
      fs_read_exact = disk_read_exact, fs_rewind = disk_rewind,
      fs_md5 = (\<lambda>p w. (Inr (case sc_disk w p of None \<Rightarrow> [] | Some bs \<Rightarrow> bs), w))\<rparr>"

definition script_env :: "(bytes \<Rightarrow> http_error + auth_data syno_response) \<Rightarrow> json \<Rightarrow> script env" where
  "script_env auth J =
     \<lparr>env_now = (\<lambda>w. (sc_clock w, w)), env_sleep = (\<lambda>d w. ((), w\<lparr>sc_clock := sc_clock w + d\<rparr>)),
      env_send = script_send, env_acquire = Pair (), env_release = Pair (), env_nanos = Pair 0,
      env_mul_f64 = (\<lambda>_ _. 0), env_text = id, env_status_text = show_nat, env_auth = auth, env_json = J, env_files = disk\<rparr>"

text \<open>A DSM whose answers nothing can be read from.\<close>

definition no_login :: "bytes \<Rightarrow> http_error + auth_data syno_response" where
  "no_login _ = Inr \<lparr>rs_success = False, rs_data = None, rs_error = None\<rparr>"

definition no_json :: json where
  "no_json =
     \<lparr>js_quote = id, js_value = (\<lambda>_. Inl []), js_list = (\<lambda>_. Inl []), js_shares = (\<lambda>_. Inl []),
      js_get_info = (\<lambda>_. Inl []), js_create_folder = (\<lambda>_. Inl []), js_rename = (\<lambda>_. Inl []),
      js_upload = (\<lambda>_. Inl []), js_md5_start = (\<lambda>_. Inl []), js_md5_status = (\<lambda>_. Inl []),
      js_move_start = (\<lambda>_. Inl []), js_move_status = (\<lambda>_. Inl [])\<rparr>"

interpretation script: observed "script_env auth J" sc_log for auth J
  by unfold_locales (simp_all add: script_env_def script_send_def unseen_def Let_def)

definition script_client :: "http_reply list \<Rightarrow> script client" where
  "script_client replies =
     client_new (lit ''nas'') 5000 False \<lparr>sc_replies = replies, sc_log = [], sc_clock = 0, sc_disk = Map.empty, sc_pos = 0\<rparr>"

section \<open>A request and its repetitions\<close>

text \<open>What one attempt to get a text comes to.\<close>

definition text_outcome :: "'w env \<Rightarrow> http_reply \<Rightarrow> syno_error + str" where
  "text_outcome E reply = (case reply of Inl e \<Rightarrow> Inl (from_http_error e) | Inr resp \<Rightarrow> answer_text E resp)"

definition gives_no_text :: "'w env \<Rightarrow> exchange \<Rightarrow> bool" where
  "gives_no_text E x \<longleftrightarrow> (\<exists>e. text_outcome E (snd x) = Inl e)"

definition never_arrived :: "exchange \<Rightarrow> bool" where
  "never_arrived x \<longleftrightarrow> (\<exists>e. snd x = Inl e \<and> he_is_connect e)"

lemma attach_session_world [simp]: "attach_session (c\<lparr>cl_world := w\<rparr>) rq = attach_session c rq"
  by (simp add: attach_session_def sid_def)

text \<open>
  The same request again and again: \<open>resent outcome again n rq r xs\<close> when \<open>xs\<close> is the traffic of at
  most \<open>n\<close> sendings of \<open>rq\<close>, every one but the last failing in the way \<open>again\<close> says, and \<open>r\<close> is what
  the last one came to.
\<close>

definition resent ::
  "(http_reply \<Rightarrow> 'r) \<Rightarrow> (exchange \<Rightarrow> bool) \<Rightarrow> nat \<Rightarrow> http_request \<Rightarrow> 'r \<Rightarrow> exchange list \<Rightarrow> bool" where
  "resent outcome again n rq r xs \<longleftrightarrow>
     xs \<noteq> [] \<and> length xs \<le> n \<and> list_all (\<lambda>x. fst x = rq) xs \<and> list_all again (butlast xs) \<and>
     r = outcome (snd (last xs))"

lemma resent_once: "0 < n \<Longrightarrow> r = outcome reply \<Longrightarrow> resent outcome again n rq r [(rq, reply)]"
  by (simp add: resent_def Suc_le_eq)

lemma resent_more: "resent outcome again n rq r xs \<Longrightarrow> again (rq, reply) \<Longrightarrow> resent outcome again (Suc n) rq r ((rq, reply) # xs)"
  by (auto simp: resent_def)

text \<open>The traffic of an operation that changes nothing but the world.\<close>

definition traffic :: "('w \<Rightarrow> exchange list) \<Rightarrow> 'w client \<Rightarrow> exchange list \<Rightarrow> 'w client \<Rightarrow> bool" where
  "traffic sent c xs c' \<longleftrightarrow> (\<exists>w. c' = c\<lparr>cl_world := w\<rparr> \<and> sent w = sent (cl_world c) @ xs)"

lemma traffic_trans: "traffic sent c xs c1 \<Longrightarrow> traffic sent c1 ys c2 \<Longrightarrow> traffic sent c (xs @ ys) c2"
  by (auto simp: traffic_def)

lemma traffic_attach [simp]: "traffic sent c xs c' \<Longrightarrow> attach_session c' rq = attach_session c rq"
  by (auto simp: traffic_def)

context observed begin

lemma traffic_sleep: "after (sleep E d) (\<lambda>_. traffic sent c []) c"
  using sleep_unseen [of d] by (auto simp: sleep_def after_in_world traffic_def unseen_def)

lemma traffic_send:
  "after (send_attached E rq) (\<lambda>reply. traffic sent c [(attach_session c rq, reply)]) c"
  using sends [of "attach_session c rq" "cl_world c"]
  by (auto simp: send_attached_def after_def send_def in_world_def traffic_def split: prod.splits)

lemma text_attempts_traffic:
  assumes "attempts \<noteq> []"
  shows "after (text_attempts E url params attempts e0)
    (\<lambda>r c'. \<exists>xs. traffic sent c xs c' \<and>
       resent (text_outcome E) (gives_no_text E) (length attempts) (attach_session c (http_get url params)) r xs) c"
  using assms
proof (induction attempts arbitrary: c e0)
  case (Cons attempt rest)
  let ?rq = "attach_session c (http_get url params)"
  let ?Q = "\<lambda>c r c'. \<exists>xs. traffic sent c xs c' \<and> resent (text_outcome E) (gives_no_text E) (length (attempt # rest)) ?rq r xs"
  have again: "after (text_attempts E url params rest e) (?Q c) c2"
    if sent2: "traffic sent c [(?rq, reply)] c2" and failed: "text_outcome E reply = Inl e" for reply e c2
  proof (cases "rest = []")
    case True
    then show ?thesis using sent2 failed
      by (auto simp: after_give intro!: exI [of _ "[(?rq, reply)]"] resent_once)
  next
    case False
    show ?thesis
    proof (rule after_mono [OF Cons.IH [OF False, of e c2]], clarify)
      fix r c3 xs
      assume "traffic sent c2 xs c3"
        and "resent (text_outcome E) (gives_no_text E) (length rest) (attach_session c2 (http_get url params)) r xs"
      then show "?Q c r c3" using traffic_trans [OF sent2] sent2 failed
        by (auto simp: gives_no_text_def intro!: exI [of _ "(?rq, reply) # xs"] resent_more)
    qed
  qed
  have first: "after (send_attached E (http_get url params)) (\<lambda>reply.
      after (case reply of
         Inl e \<Rightarrow> text_attempts E url params rest (from_http_error e)
       | Inr resp \<Rightarrow>
           (case answer_text E resp of
              Inr t \<Rightarrow> give (Inr t)
            | Inl e \<Rightarrow> text_attempts E url params rest e)) (?Q c)) c1"
    if slept: "traffic sent c [] c1" for c1
  proof (rule after_mono [OF traffic_send])
    fix reply c2
    assume "traffic sent c1 [(attach_session c1 (http_get url params), reply)] c2"
    then have sent2: "traffic sent c [(?rq, reply)] c2" using traffic_trans [OF slept] slept by auto
    show "after (case reply of
         Inl e \<Rightarrow> text_attempts E url params rest (from_http_error e)
       | Inr resp \<Rightarrow>
           (case answer_text E resp of
              Inr t \<Rightarrow> give (Inr t)
            | Inl e \<Rightarrow> text_attempts E url params rest e)) (?Q c) c2"
      using again [OF sent2] sent2
      by (auto simp: text_outcome_def after_give split: sum.splits intro!: exI [of _ "[(?rq, reply)]"] resent_once)
  qed
  have here: "traffic sent c [] c" by (simp add: traffic_def exI [of _ "cl_world c"])
  show ?case
    unfolding text_attempts.simps after_let after_when
    by (cases "0 < attempt", simp only: if_True, rule after_mono [OF traffic_sleep first], assumption,
      simp only: if_False, rule first [OF here])
qed simp

lemma once_from_traffic:
  assumes "attempt \<le> 2"
  shows "after (once_from E url params attempt)
    (\<lambda>r c'. \<exists>xs. traffic sent c xs c' \<and>
       resent (text_outcome E) never_arrived (3 - attempt) (attach_session c (http_get url params)) r xs) c"
  using assms
proof (induction "2 - attempt" arbitrary: attempt c)
  case 0
  then show ?case unfolding once_from.simps [of E url params attempt] after_let
    by (intro after_mono [OF traffic_send])
      (auto simp: after_give text_outcome_def split: sum.splits intro!: exI resent_once)
next
  case (Suc n)
  let ?rq = "attach_session c (http_get url params)"
  let ?Q = "\<lambda>c r c'. \<exists>xs. traffic sent c xs c' \<and> resent (text_outcome E) never_arrived (3 - attempt) ?rq r xs"
  have less: "attempt < 2" "n = 2 - (attempt + 1)" "attempt + 1 \<le> 2" "3 - attempt = Suc (3 - (attempt + 1))"
    using Suc.hyps(2) by auto
  have again: "after (once_from E url params (attempt + 1)) (?Q c) c3"
    if sent3: "traffic sent c [(?rq, reply)] c3" and unsent: "never_arrived (?rq, reply)" for reply c3
  proof (rule after_mono [OF Suc.hyps(1) [OF less(2,3), of c3]], clarify)
    fix r c4 xs
    assume "traffic sent c3 xs c4"
      and "resent (text_outcome E) never_arrived (3 - (attempt + 1)) (attach_session c3 (http_get url params)) r xs"
    then show "?Q c r c4" using traffic_trans [OF sent3] sent3 unsent
      unfolding less(4) by (auto intro!: exI [of _ "(?rq, reply) # xs"] resent_more)
  qed
  show ?case unfolding once_from.simps [of E url params attempt] after_let
  proof (rule after_mono [OF traffic_send])
    fix reply c2
    assume sent2: "traffic sent c [(?rq, reply)] c2"
    show "after (case reply of
         Inr resp \<Rightarrow> give (answer_text E resp)
       | Inl e \<Rightarrow>
           if he_is_connect e \<and> attempt < 2
           then let_op (sleep E (millis (200 * (attempt + 1)))) (\<lambda>_. once_from E url params (attempt + 1))
           else give (Inl (from_http_error e))) (?Q c) c2"
    proof (cases reply)
      case (Inr resp)
      then show ?thesis using sent2 less(1)
        by (auto simp: after_give text_outcome_def intro!: exI [of _ "[(?rq, reply)]"] resent_once)
    next
      case (Inl e)
      show ?thesis
      proof (cases "he_is_connect e")
        case True
        have "after (sleep E d) (\<lambda>_. after (once_from E url params (attempt + 1)) (?Q c)) c2" for d
        proof (rule after_mono [OF traffic_sleep])
          fix u c3 assume "traffic sent c2 [] c3"
          then show "after (once_from E url params (attempt + 1)) (?Q c) c3"
            using again [of reply c3] traffic_trans [OF sent2] Inl True by (auto simp: never_arrived_def)
        qed
        then show ?thesis using Inl True less(1) by (simp add: after_let)
      next
        case False
        then show ?thesis using sent2 less(1) Inl
          by (auto simp: after_give text_outcome_def intro!: exI [of _ "[(?rq, reply)]"] resent_once)
      qed
    qed
  qed
qed

end

section \<open>What the session promises\<close>

text \<open>
  C12. Requests are repeated only when that is safe. A repeatable request is sent at most three
  times, the same each time, again only while no text has come back, and the answer is what the
  last sending came to. One that must not happen twice is sent again only when the connection
  was never made, so the NAS cannot have seen it.
\<close>

theorem requests_are_resent_only_when_safe:
  assumes "observed E sent"
  shows "(\<exists>xs. sent (cl_world (snd (get_text_retried E url params c))) = sent (cl_world c) @ xs \<and>
      resent (text_outcome E) (gives_no_text E) 3 (attach_session c (http_get url params))
        (fst (get_text_retried E url params c)) xs) \<and>
    (\<exists>xs. sent (cl_world (snd (get_text_once E url params c))) = sent (cl_world c) @ xs \<and>
      resent (text_outcome E) never_arrived 3 (attach_session c (http_get url params))
        (fst (get_text_once E url params c)) xs)"
proof -
  have "after (get_text_retried E url params) (\<lambda>r c'. \<exists>xs. traffic sent c xs c' \<and>
      resent (text_outcome E) (gives_no_text E) 3 (attach_session c (http_get url params)) r xs) c"
    using observed.text_attempts_traffic [OF assms, of "[0, 1, 2]"]
    by (simp add: get_text_retried_def numeral_3_eq_3)
  moreover have "after (get_text_once E url params) (\<lambda>r c'. \<exists>xs. traffic sent c xs c' \<and>
      resent (text_outcome E) never_arrived 3 (attach_session c (http_get url params)) r xs) c"
    using observed.once_from_traffic [OF assms, of 0] by (simp add: get_text_once_def)
  ultimately show ?thesis
    by (auto simp: after_def traffic_def split: prod.splits)
qed

theorem requests_are_resent_only_when_safe_witness:
  "\<exists>xs. sc_log (cl_world (snd (get_text_once (script_env no_login no_json) [] [] (script_client [no_answer])))) = xs \<and>
    length xs \<le> 3 \<and> list_all never_arrived (butlast xs)"
  using requests_are_resent_only_when_safe [OF script.observed_axioms, of no_login no_json "[]" "[]" "script_client [no_answer]"]
  by (auto simp: resent_def script_client_def client_new_def Let_def)

text \<open>
  What the two requests of a login look like on the wire. The first has the password in its body and
  nowhere else can carry it: there is no query and no header. The second asks for one share, with
  the session id in its one header, the cookie.
\<close>

definition is_login_post :: "http_request \<Rightarrow> str \<Rightarrow> str \<Rightarrow> str \<Rightarrow> str option \<Rightarrow> bool" where
  "is_login_post rq url user password otp \<longleftrightarrow>
     rq_method rq = HttpPost \<and> rq_url rq = url \<and> rq_query rq = [] \<and> rq_headers rq = [] \<and>
     (\<exists>form. rq_body rq = FormBody form \<and>
        map_of form (lit ''api'') = Some (lit ''SYNO.API.Auth'') \<and> map_of form (lit ''method'') = Some (lit ''login'') \<and>
        map_of form (lit ''account'') = Some user \<and> map_of form (lit ''passwd'') = Some password \<and>
        map_of form (lit ''otp_code'') = otp \<and> length (filter (\<lambda>(name, _). name = lit ''passwd'') form) = 1)"

definition is_cookie_probe :: "http_request \<Rightarrow> str \<Rightarrow> str \<Rightarrow> bool" where
  "is_cookie_probe rq url session \<longleftrightarrow>
     rq_method rq = HttpGet \<and> rq_url rq = url \<and> rq_body rq = NoBody \<and>
     rq_query rq = [(lit ''api'', lit ''SYNO.FileStation.List''), (lit ''version'', lit ''2''),
       (lit ''method'', lit ''list_share''), (lit ''limit'', lit ''1''), (lit ''offset'', lit ''0'')] \<and>
     rq_headers rq = (if session = [] then [] else [(lit ''Cookie'', lit ''id='' @ session)])"

definition says_no_session :: "'w env \<Rightarrow> http_reply \<Rightarrow> bool" where
  "says_no_session E reply \<longleftrightarrow>
     (\<exists>resp body envelope err. reply = Inr resp \<and> ha_body resp = Inr body \<and>
        js_value (env_json E) (env_text E body) = Inr envelope \<and> \<not> rs_success envelope \<and>
        rs_error envelope = Some err \<and> ae_code err = 119)"

lemma login_is_posted: "is_login_post (http_post_form url (login_params user password otp)) url user password otp"
  by (cases otp) (simp_all add: is_login_post_def http_post_form_def http_get_def login_params_def lit_def)

lemma rejected_says_no_session: "probe_rejected E reply \<longleftrightarrow> says_no_session E reply"
  by (auto simp: probe_rejected_def says_no_session_def answer_text_def SID_NOT_FOUND_def
      split: sum.splits option.splits)

text \<open>
  C16. A login keeps its secrets out of URLs and settles how the session id travels. The password
  goes out once, as one field of the form in the body of a POST without a query and without headers.
  A login that succeeds then sends one probe, which carries the new session id in a cookie and nothing in its query but
  the call it makes, and from then on the id travels in a query parameter exactly when DSM answers the probe that
  there is no such session (119), and in the cookie otherwise; the credentials are kept only for a
  client that may log in again by itself. A login that fails changes nothing the client keeps.
\<close>

theorem login_settles_the_session:
  assumes "observed E sent" and "login E user password otp c = (r, c')"
  shows "case r of
      Inl _ \<Rightarrow> \<exists>rq reply. is_login_post rq (cl_base_url c @ lit ''/auth.cgi'') user password otp \<and> traffic sent c [(rq, reply)] c'
    | Inr _ \<Rightarrow> \<exists>first reply resp data rq probe.
        login_answer E reply = Inr resp \<and> rs_success resp \<and> rs_data resp = Some data \<and>
        sent (cl_world c') = sent (cl_world c) @ [(first, reply), (rq, probe)] \<and>
        is_login_post first (cl_base_url c @ lit ''/auth.cgi'') user password otp \<and>
        is_cookie_probe rq (cl_base_url c @ lit ''/entry.cgi'') (au_sid data) \<and>
        cl_sid c' = Some (au_sid data) \<and>
        cl_session_auth c' = (if says_no_session E probe then SessionAuthQuery else SessionAuthCookie) \<and>
        cl_creds c' = (if cl_auto_relogin c then Some \<lparr>cr_user = user, cr_password = password\<rparr> else cl_creds c)"
proof -
  let ?rq = "http_post_form (auth_cgi c) (login_params user password otp)"
  have posted: "is_login_post ?rq (cl_base_url c @ lit ''/auth.cgi'') user password otp"
    using login_is_posted [of "auth_cgi c"] by (simp add: auth_cgi_def)
  obtain reply w where first: "env_send E ?rq (cl_world c) = (reply, w)"
    by (cases "env_send E ?rq (cl_world c)")
  then have sent1: "sent w = sent (cl_world c) @ [(?rq, reply)]"
    using observed.sends [OF assms(1), of ?rq "cl_world c"] by simp
  show ?thesis
  proof (cases "\<exists>resp data. login_answer E reply = Inr resp \<and> rs_success resp \<and> rs_data resp = Some data")
    case False
    have "r \<noteq> Inr () \<and> c' = c\<lparr>cl_world := w\<rparr>"
      using assms(2) first False
      by (auto simp: login_def let_op_def get_op_def try_op_def give_def send_def in_world_def
        split: sum.splits if_splits option.splits)
    then show ?thesis using sent1 posted by (cases r) (auto simp: traffic_def)
  next
    case True
    then obtain resp data where ok: "login_answer E reply = Inr resp" "rs_success resp" "rs_data resp = Some data"
      by blast
    define c1 where "c1 = c\<lparr>cl_world := w, cl_sid := Some (au_sid data), cl_session_auth := SessionAuthCookie\<rparr>"
    define rq where "rq = attach_session c1 (http_get (entry_cgi c1) probe_params)"
    obtain probe w2 where second: "env_send E rq w = (probe, w2)" by (cases "env_send E rq w")
    then have sent2: "sent w2 = sent w @ [(rq, probe)]"
      using observed.sends [OF assms(1), of rq w] by simp
    have rq: "is_cookie_probe rq (cl_base_url c @ lit ''/entry.cgi'') (au_sid data)"
      by (simp add: is_cookie_probe_def rq_def c1_def attach_session_def sid_def http_get_def entry_cgi_def probe_params_def)
    have probed: "probe_session_transport E (c\<lparr>cl_world := w, cl_sid := Some (au_sid data)\<rparr>) =
      ((), if says_no_session E probe then c1\<lparr>cl_world := w2, cl_session_auth := SessionAuthQuery\<rparr>
           else c1\<lparr>cl_world := w2\<rparr>)"
      using second
      by (simp add: probe_session_transport_def let_op_def set_op_def get_op_def send_attached_def send_def
        in_world_def when_op_def give_def c1_def rq_def rejected_says_no_session)
    have "r = Inr () \<and> cl_world c' = w2 \<and> cl_sid c' = Some (au_sid data) \<and>
      cl_session_auth c' = (if says_no_session E probe then SessionAuthQuery else SessionAuthCookie) \<and>
      cl_creds c' = (if cl_auto_relogin c then Some \<lparr>cr_user = user, cr_password = password\<rparr> else cl_creds c)"
      using assms(2) first ok probed
      by (auto simp: login_def let_op_def get_op_def try_op_def give_def send_def in_world_def set_op_def
        when_op_def c1_def split: if_splits)
    then show ?thesis using sent1 sent2 rq ok posted by auto
  qed
qed

text \<open>A DSM that lets everybody in and knows no cookie.\<close>

definition cookieless_env :: "script env" where
  "cookieless_env = script_env (\<lambda>_. Inr \<lparr>rs_success = True, rs_data = Some \<lparr>au_sid = [7]\<rparr>, rs_error = None\<rparr>)
     (no_json\<lparr>js_value := (\<lambda>_. Inr \<lparr>rs_success = False, rs_data = None, rs_error = Some \<lparr>ae_code = 119\<rparr>\<rparr>)\<rparr>)"

lemma cookieless_observed: "observed cookieless_env sc_log"
  unfolding cookieless_env_def by (rule script.observed_axioms)

lemma cookieless_login:
  "fst (login cookieless_env [1] [2] None (script_client [answers [], answers []])) = Inr ()"
  by (simp add: login_def let_op_def get_op_def try_op_def give_def send_def in_world_def set_op_def when_op_def
      cookieless_env_def script_env_def script_send_def script_client_def client_new_def login_answer_def
      answers_def map_err_def Let_def split: prod.split)

theorem login_settles_the_session_witness:
  "\<exists>c' rq probe. login cookieless_env [1] [2] None (script_client [answers [], answers []]) = (Inr (), c') \<and>
    sc_log (cl_world c') ! 1 = (rq, probe) \<and> rq_headers rq = [(lit ''Cookie'', lit ''id='' @ [7])] \<and>
    cl_session_auth c' = (if says_no_session cookieless_env probe then SessionAuthQuery else SessionAuthCookie)"
proof -
  obtain c' where run: "login cookieless_env [1] [2] None (script_client [answers [], answers []]) = (Inr (), c')"
    using cookieless_login by (metis prod.collapse)
  have log: "sc_log (cl_world (script_client replies)) = []" for replies
    by (simp add: script_client_def client_new_def Let_def)
  have "au_sid data = [7]" if "login_answer cookieless_env reply = Inr resp" "rs_data resp = Some data" for reply resp data
    using that by (auto simp: login_answer_def cookieless_env_def script_env_def map_err_def bindE_def split: sum.splits)
  moreover obtain first reply resp data rq probe where
    "login_answer cookieless_env reply = Inr resp" "rs_data resp = Some data"
    "sc_log (cl_world c') = [(first, reply), (rq, probe)]"
    "is_cookie_probe rq (cl_base_url (script_client [answers [], answers []]) @ lit ''/entry.cgi'') (au_sid data)"
    "cl_session_auth c' = (if says_no_session cookieless_env probe then SessionAuthQuery else SessionAuthCookie)"
    using login_settles_the_session [OF cookieless_observed run] by (auto simp only: sum.case log append_Nil)
  ultimately show ?thesis
    using run by (intro exI [of _ c'] exI [of _ rq] exI [of _ probe]) (simp add: is_cookie_probe_def)
qed

end
