(* ===== verification/Download.thy ===== *)
theory Download
  imports Scripted
begin

text \<open>
  Reading file content (\<open>client/download.rs\<close>): the ranged read of the HTTP Download API with its
  retries, the choice of a backend before it, and the download of a whole file to a local path.
\<close>

section \<open>Ranged reads over HTTP\<close>

definition download_params :: "str \<Rightarrow> (str \<times> str) list" where
  "download_params path_json =
     [(lit ''api'', lit ''SYNO.FileStation.Download''), (lit ''version'', lit ''2''),
      (lit ''method'', lit ''download''), (lit ''path'', path_json), (lit ''mode'', lit ''download'')]"

definition range_header :: "u64 \<Rightarrow> u64 \<Rightarrow> str option" where
  "range_header offset len =
     (if 0 < len
      then Some (lit ''bytes='' @ show_nat (unat offset) @ lit ''-'' @ show_nat (unat (offset + len - 1)))
      else None)"

definition with_range :: "str option \<Rightarrow> http_request \<Rightarrow> http_request" where
  "with_range asked rq =
     (case asked of None \<Rightarrow> rq | Some r \<Rightarrow> rq\<lparr>rq_headers := rq_headers rq @ [(lit ''Range'', r)]\<rparr>)"

definition download_outcome :: "'w env \<Rightarrow> http_reply \<Rightarrow> transfer_outcome" where
  "download_outcome E reply =
     (case reply of
        Inl e \<Rightarrow> TransferRetry False (from_http_error e)
      | Inr resp \<Rightarrow>
          if ha_status resp = 416 then TransferDone []
          else if \<not> is_success (ha_status resp) then
            (let err = SynoIo (lit ''download HTTP '' @ env_status_text E (ha_status resp))
             in if http_status_is_transient (ha_status resp) then TransferRetry False err
                else TransferFatal err)
          else (case ha_body resp of
              Inl e \<Rightarrow> TransferRetry False (from_http_error e)
            | Inr body \<Rightarrow> classify_download_body E body))"

definition download_attempt ::
  "'w env \<Rightarrow> http_request \<Rightarrow> str option \<Rightarrow> 'w client \<Rightarrow> transfer_outcome \<times> 'w client" where
  "download_attempt E rq asked =
     holding_slot E
       (let_op (get_op (\<lambda>c. with_range asked (attach_session c rq))) (\<lambda>rq.
        let_op (send E rq) (\<lambda>reply. give (download_outcome E reply))))"

fun download_attempts ::
  "'w env \<Rightarrow> http_request \<Rightarrow> str option \<Rightarrow> nat list \<Rightarrow> syno_error \<Rightarrow> 'w client \<Rightarrow>
     (syno_error + bytes) \<times> 'w client" where
  "download_attempts E rq asked [] last_err = give (Inl last_err)"
| "download_attempts E rq asked (attempt # rest) last_err =
     let_op (download_attempt E rq asked) (\<lambda>outcome.
       case outcome of
         TransferDone bs \<Rightarrow> give (Inr bs)
       | TransferFatal e \<Rightarrow> give (Inl e)
       | TransferRetry hard err \<Rightarrow>
           let_op (when_op (rest \<noteq> []) (backoff_before_retry E attempt hard)) (\<lambda>_.
             download_attempts E rq asked rest err))"

definition http_download ::
  "'w env \<Rightarrow> str \<Rightarrow> u64 \<Rightarrow> u64 \<Rightarrow> 'w client \<Rightarrow> (syno_error + bytes) \<times> 'w client" where
  "http_download E path offset len =
     let_op (get_op (\<lambda>c. (entry_cgi c, max_transfer_attempts c))) (\<lambda>(url, max_attempts).
       download_attempts E (http_get url (download_params (quote_list (env_json E) path)))
         (range_header offset len) [0..<max_attempts] (SynoIo (lit ''no attempts'')))"

section \<open>Backends first\<close>

definition download ::
  "'w env \<Rightarrow> str \<Rightarrow> u64 \<Rightarrow> u64 \<Rightarrow> 'w client \<Rightarrow> (syno_error + bytes) \<times> 'w client" where
  "download E path offset len =
     or_http (via_read E (\<lambda>t. rt_read t path offset len)) (http_download E path offset len)"

section \<open>Whole files\<close>

definition part_name :: "str \<Rightarrow> str" where
  "part_name local_path = local_path @ lit ''.part''"

text \<open>The closure that writes the file: the first failure ends it.\<close>

definition write_result :: "'w env \<Rightarrow> str \<Rightarrow> bytes \<Rightarrow> 'w client \<Rightarrow> (str + unit) \<times> 'w client" where
  "write_result E local_path bs =
     (let F = env_files E; tmp = part_name local_path in
      try_op (in_world (fs_create F tmp)) (\<lambda>_.
      try_op (in_world (fs_write_all F tmp bs)) (\<lambda>_.
      try_op (in_world (fs_sync_all F tmp)) (\<lambda>_.
      in_world (fs_rename F tmp local_path)))))"

definition http_download_to_path ::
  "'w env \<Rightarrow> str \<Rightarrow> str \<Rightarrow> 'w client \<Rightarrow> (syno_error + unit) \<times> 'w client" where
  "http_download_to_path E remote_path local_path =
     try_op (with_relogin_retry E (download E remote_path 0 0)) (\<lambda>bs.
     let_op (write_result E local_path bs) (\<lambda>r.
       case r of
         Inl e \<Rightarrow>
           let_op (in_world (fs_remove_file (env_files E) (part_name local_path))) (\<lambda>_.
             give (Inl (SynoIo (lit ''download_to_path: write to '' @ local_path @ lit '' failed: '' @ e))))
       | Inr _ \<Rightarrow> give (Inr ())))"

definition download_to_path ::
  "'w env \<Rightarrow> str \<Rightarrow> str \<Rightarrow> 'w client \<Rightarrow> (syno_error + unit) \<times> 'w client" where
  "download_to_path E remote_path local_path =
     or_http (via_stream_read E (\<lambda>t. sr_read_to_path t remote_path local_path))
       (http_download_to_path E remote_path local_path)"

section \<open>What a download returns\<close>

text \<open>
  The part of the client a transfer may change besides the world: when the throttle next lets a
  request start, and the backends' breakers.
\<close>

definition transfer_traffic ::
  "('w \<Rightarrow> exchange list) \<Rightarrow> 'w client \<Rightarrow> exchange list \<Rightarrow> 'w client \<Rightarrow> bool" where
  "transfer_traffic sent c xs c' \<longleftrightarrow>
     sent (cl_world c') = sent (cl_world c) @ xs \<and> cl_sid c' = cl_sid c \<and>
     cl_session_auth c' = cl_session_auth c"

lemma transfer_traffic_trans:
  "transfer_traffic sent c xs c1 \<Longrightarrow> transfer_traffic sent c1 ys c2 \<Longrightarrow> transfer_traffic sent c (xs @ ys) c2"
  by (simp add: transfer_traffic_def)

lemma transfer_traffic_attach:
  "transfer_traffic sent c xs c' \<Longrightarrow> attach_session c' rq = attach_session c rq"
  by (simp add: transfer_traffic_def attach_session_def sid_def)

text \<open>Operations that send nothing.\<close>

definition silent :: "('w \<Rightarrow> exchange list) \<Rightarrow> ('w client \<Rightarrow> 'a \<times> 'w client) \<Rightarrow> bool" where
  "silent sent m \<longleftrightarrow> keeps (\<lambda>c. transfer_traffic sent c []) m"

interpretation silent: kept "\<lambda>c. transfer_traffic sent c []" for sent
  by unfold_locales (auto simp: transfer_traffic_def)

lemma silent_after: "silent sent m \<Longrightarrow> after m (\<lambda>_ c'. transfer_traffic sent c [] c') c"
  by (metis (no_types, lifting) afterI keepsD silent_def)

lemma silent_in_world:
  assumes "unseen sent m"
  shows "silent sent (in_world m)"
  unfolding silent_def
proof (rule keepsI)
  fix c a c'
  assume "in_world m c = (a, c')"
  then have "c' = c\<lparr>cl_world := snd (m (cl_world c))\<rparr>" by (auto simp: in_world_def split: prod.splits)
  then show "transfer_traffic sent c [] c'" using assms by (simp add: transfer_traffic_def unseen_def)
qed

context observed begin

lemma silent_rules:
  "silent sent (now E)" "silent sent (sleep E d)" "silent sent (in_world (env_acquire E))"
  "silent sent (in_world (env_release E))" "silent sent (in_world (env_nanos E))"
  using now_unseen sleep_unseen acquire_unseen release_unseen nanos_unseen
  by (simp_all add: now_def sleep_def silent_in_world)

lemma silent_slot: "silent sent (acquire_transfer_slot E)"
proof -
  have "silent sent (let_op (if 0 < th_min_interval t then
              let_op (now E) (\<lambda>at.
                let scheduled = max (th_next_earliest t) at; wait = scheduled - at in
                let_op (set_op (\<lambda>c. c\<lparr>cl_throttle := Some (t\<lparr>th_next_earliest := scheduled + th_min_interval t\<rparr>)\<rparr>)) (\<lambda>_.
                when_op (0 < wait) (sleep E wait)))
            else give ()) (\<lambda>_. let_op (in_world (env_acquire E)) (\<lambda>_. give True)))" for t
    unfolding silent_def Let_def
    by (auto intro!: silent.keeps_rules silent.keeps_set silent_rules [unfolded silent_def]
      simp: transfer_traffic_def)
  then show ?thesis
    unfolding silent_def keeps_def acquire_transfer_slot_def
    by (auto simp: transfer_traffic_def split: option.splits)
qed

lemma silent_drop: "silent sent (drop_slot E held)"
  unfolding silent_def drop_slot_def by (intro silent.keeps_rules silent_rules [unfolded silent_def])

lemma silent_backoff: "silent sent (backoff_before_retry E attempt hard)"
proof -
  have "silent sent (let_op (full_jitter E cap) (\<lambda>delay. when_op (0 < delay) (sleep E delay)))" for cap
    unfolding silent_def full_jitter_def
    by (auto intro!: silent.keeps_rules silent_rules [unfolded silent_def])
  then show ?thesis
    unfolding silent_def keeps_def backoff_before_retry_def
    by (auto simp: transfer_traffic_def split: option.splits)
qed

lemma slot_traffic:
  assumes "\<And>c. after m (\<lambda>a c'. \<exists>xs. transfer_traffic sent c xs c' \<and> Q c a xs) c"
    and "\<And>c c' a xs. transfer_traffic sent c [] c' \<Longrightarrow> Q c' a xs \<Longrightarrow> Q c a xs"
  shows "after (holding_slot E m) (\<lambda>a c'. \<exists>xs. transfer_traffic sent c xs c' \<and> Q c a xs) c"
  unfolding holding_slot_def after_let after_give
proof (rule after_mono [OF silent_after [OF silent_slot]], rule after_mono [OF assms(1)], clarify)
  fix held c1 a c2 xs
  assume "transfer_traffic sent c [] c1" "transfer_traffic sent c1 xs c2" "Q c1 a xs"
  then show "after (drop_slot E held) (\<lambda>_ c'. \<exists>xs. transfer_traffic sent c xs c' \<and> Q c a xs) c2"
    using assms(2) [of c c1 a xs]
    by (intro after_mono [OF silent_after [OF silent_drop]]) (auto simp: transfer_traffic_def)
qed

end

definition download_result :: "transfer_outcome \<Rightarrow> syno_error + bytes" where
  "download_result outcome =
     (case outcome of TransferDone bs \<Rightarrow> Inr bs | TransferFatal e \<Rightarrow> Inl e | TransferRetry _ e \<Rightarrow> Inl e)"

definition worth_retrying :: "'w env \<Rightarrow> exchange \<Rightarrow> bool" where
  "worth_retrying E x \<longleftrightarrow> (\<exists>hard e. download_outcome E (snd x) = TransferRetry hard e)"

context observed begin

lemma download_attempt_traffic:
  "after (download_attempt E rq asked) (\<lambda>outcome c'. \<exists>xs. transfer_traffic sent c xs c' \<and>
     (\<exists>reply. xs = [(with_range asked (attach_session c rq), reply)] \<and> outcome = download_outcome E reply)) c"
  unfolding download_attempt_def
proof (rule slot_traffic, goal_cases)
  case (1 c)
  then show ?case
    using sends [of "with_range asked (attach_session c rq)" "cl_world c"]
    by (auto simp: after_simps after_send transfer_traffic_def)
next
  case (2 c c' a xs)
  then show ?case by (simp add: transfer_traffic_attach)
qed

lemma download_attempts_traffic:
  assumes "attempts \<noteq> []"
  shows "after (download_attempts E rq asked attempts e0)
    (\<lambda>r c'. \<exists>xs. transfer_traffic sent c xs c' \<and>
       resent (\<lambda>reply. download_result (download_outcome E reply)) (worth_retrying E) (length attempts)
         (with_range asked (attach_session c rq)) r xs) c"
  using assms
proof (induction attempts arbitrary: c e0)
  case (Cons attempt rest)
  let ?rq = "with_range asked (attach_session c rq)"
  let ?o = "\<lambda>reply. download_result (download_outcome E reply)"
  let ?Q = "\<lambda>r c'. \<exists>xs. transfer_traffic sent c xs c' \<and>
    resent ?o (worth_retrying E) (length (attempt # rest)) ?rq r xs"
  show ?case unfolding download_attempts.simps after_let
  proof (rule after_mono [OF download_attempt_traffic], clarify)
    fix c1 reply
    assume sent1: "transfer_traffic sent c [(?rq, reply)] c1"
    have ended: "?Q (?o reply) c1"
      using sent1 by (auto intro!: exI [of _ "[(?rq, reply)]"] resent_once)
    have again: "after (let_op (when_op (rest \<noteq> []) (backoff_before_retry E attempt hard)) (\<lambda>_.
        download_attempts E rq asked rest err)) ?Q c1"
      if retry: "download_outcome E reply = TransferRetry hard err" for hard err
    proof (cases "rest = []")
      case True
      then show ?thesis using ended retry by (simp add: after_simps download_result_def)
    next
      case False
      have "after (backoff_before_retry E attempt hard) (\<lambda>_. after (download_attempts E rq asked rest err) ?Q) c1"
      proof (rule after_mono [OF silent_after [OF silent_backoff]])
        fix u c2 assume waited: "transfer_traffic sent c1 [] c2"
        have sent2: "transfer_traffic sent c [(?rq, reply)] c2"
          using transfer_traffic_trans [OF sent1 waited] by simp
        show "after (download_attempts E rq asked rest err) ?Q c2"
        proof (rule after_mono [OF Cons.IH [OF False, of err c2]], clarify)
          fix r c3 xs
          assume "transfer_traffic sent c2 xs c3"
            and "resent ?o (worth_retrying E) (length rest) (with_range asked (attach_session c2 rq)) r xs"
          then show "?Q r c3"
            using transfer_traffic_trans [OF sent2] transfer_traffic_attach [OF sent2, of rq] retry
            by (auto simp: worth_retrying_def intro!: exI [of _ "(?rq, reply) # xs"] resent_more)
        qed
      qed
      then show ?thesis using False by (simp add: after_simps)
    qed
    show "after (case download_outcome E reply of
         TransferDone bs \<Rightarrow> give (Inr bs)
       | TransferFatal e \<Rightarrow> give (Inl e)
       | TransferRetry hard err \<Rightarrow>
           let_op (when_op (rest \<noteq> []) (backoff_before_retry E attempt hard)) (\<lambda>_.
             download_attempts E rq asked rest err)) ?Q c1"
      using ended again by (auto simp: after_give download_result_def split: transfer_outcome.splits)
  qed
qed simp

lemma http_download_traffic:
  assumes "0 < max_transfer_attempts c"
  shows "after (http_download E path offset len) (\<lambda>r c'. \<exists>xs. transfer_traffic sent c xs c' \<and>
     resent (\<lambda>reply. download_result (download_outcome E reply)) (worth_retrying E) (max_transfer_attempts c)
       (with_range (range_header offset len) (attach_session c
         (http_get (entry_cgi c) (download_params (quote_list (env_json E) path))))) r xs) c"
  using assms download_attempts_traffic [of "[0..<max_transfer_attempts c]"]
  by (simp add: http_download_def after_simps)

end

text \<open>A body that DSM meant as an error, sent with a status that says all is well.\<close>

definition is_error_envelope :: "'w env \<Rightarrow> bytes \<Rightarrow> bool" where
  "is_error_envelope E body \<longleftrightarrow>
     length body < 1024 \<and> starts_with (lit ''{'') body \<and>
     (\<exists>envelope. js_value (env_json E) body = Inr envelope \<and> \<not> rs_success envelope)"

lemma classify_done_iff:
  "classify_download_body E body = TransferDone bs \<longleftrightarrow> bs = body \<and> \<not> is_error_envelope E body"
  by (cases body)
    (auto simp: classify_download_body_def is_error_envelope_def starts_with_def lit_def Let_def split: sum.splits)

lemma download_done_iff:
  "download_outcome E reply = TransferDone bs \<longleftrightarrow>
     (\<exists>resp. reply = Inr resp \<and>
        (ha_status resp = 416 \<and> bs = [] \<or>
         is_success (ha_status resp) \<and> ha_body resp = Inr bs \<and> \<not> is_error_envelope E bs))"
  by (auto simp: download_outcome_def classify_done_iff is_success_def Let_def split: sum.splits)

text \<open>
  What sending a request may come to for it to be worth sending again: no answer, or one that broke off;
  a gateway's word that the NAS is not to be reached now (502, 503, 504, and 407 from the relay); or
  DSM's envelope saying that too much is going on (402).
\<close>

definition asks_again :: "'w env \<Rightarrow> http_reply \<Rightarrow> bool" where
  "asks_again E reply \<longleftrightarrow>
     (\<exists>e. reply = Inl e) \<or>
     (\<exists>resp. reply = Inr resp \<and>
        (ha_status resp \<in> {407, 502, 503, 504} \<or>
         200 \<le> ha_status resp \<and> ha_status resp < 300 \<and>
           ((\<exists>e. ha_body resp = Inl e) \<or>
            (\<exists>body envelope err. ha_body resp = Inr body \<and> length body < 1024 \<and> starts_with (lit ''{'') body \<and>
               js_value (env_json E) body = Inr envelope \<and> \<not> rs_success envelope \<and>
               rs_error envelope = Some err \<and> ae_code err = 402))))"

lemma classify_retry:
  "(\<exists>hard e. classify_download_body E body = TransferRetry hard e) \<longleftrightarrow>
     (\<exists>envelope err. length body < 1024 \<and> starts_with (lit ''{'') body \<and>
        js_value (env_json E) body = Inr envelope \<and> \<not> rs_success envelope \<and>
        rs_error envelope = Some err \<and> ae_code err = 402)"
  by (cases body)
    (auto simp: classify_download_body_def starts_with_def lit_def Let_def error_code_def dsm_code_to_category_def
      split: sum.splits option.splits if_splits)

lemma worth_retrying_asks_again: "worth_retrying E x \<longleftrightarrow> asks_again E (snd x)"
  using classify_retry [of E]
  by (auto simp: worth_retrying_def asks_again_def download_outcome_def http_status_is_transient_def is_success_def Let_def
      split: sum.splits)

section \<open>Properties\<close>

text \<open>
  C14. A download returns file content and nothing else. It sends one and the same request at most
  as often as the throttle allows, and again only after no answer, an answer that broke off, one of the
  statuses 407, 502, 503 and 504, or DSM's own word that it is busy, code 402; never after any other
  refusal. What it returns is what the last sending came to. Bytes it returns are the body of
  a successful answer, never one of DSM's error envelopes, or none at all when the range begins
  after the end of the file.
\<close>

theorem download_returns_only_content:
  assumes "observed E sent" and "0 < max_transfer_attempts c"
    and "http_download E path offset len c = (r, c')"
  shows "\<exists>xs. sent (cl_world c') = sent (cl_world c) @ xs \<and>
    resent (\<lambda>reply. download_result (download_outcome E reply)) (\<lambda>x. asks_again E (snd x)) (max_transfer_attempts c)
       (with_range (range_header offset len) (attach_session c
         (http_get (entry_cgi c) (download_params (quote_list (env_json E) path))))) r xs \<and>
    (\<forall>bs. r = Inr bs \<longrightarrow> (\<exists>resp. snd (last xs) = Inr resp \<and>
        (ha_status resp = 416 \<and> bs = [] \<or>
         is_success (ha_status resp) \<and> ha_body resp = Inr bs \<and> \<not> is_error_envelope E bs)))"
proof -
  obtain xs where xs: "transfer_traffic sent c xs c'"
    "resent (\<lambda>reply. download_result (download_outcome E reply)) (worth_retrying E) (max_transfer_attempts c)
       (with_range (range_header offset len) (attach_session c
         (http_get (entry_cgi c) (download_params (quote_list (env_json E) path))))) r xs"
    using afterD [OF observed.http_download_traffic [OF assms(1,2)] assms(3)] by blast
  have again: "worth_retrying E = (\<lambda>x. asks_again E (snd x))" by (simp add: worth_retrying_asks_again fun_eq_iff)
  have "download_outcome E (snd (last xs)) = TransferDone bs" if "r = Inr bs" for bs
    using xs(2) that by (auto simp: resent_def download_result_def split: transfer_outcome.splits)
  then show ?thesis using xs unfolding again by (auto simp: transfer_traffic_def download_done_iff)
qed

theorem download_returns_only_content_witness:
  "\<exists>r c'. http_download (script_env no_login no_json) [] 0 0 (script_client [answers [7]]) = (r, c') \<and>
    (\<exists>xs. sc_log (cl_world c') = xs \<and> 0 < length xs \<and> length xs \<le> 3)"
proof -
  obtain r c' where run: "http_download (script_env no_login no_json) [] 0 0 (script_client [answers [7]]) = (r, c')"
    by fastforce
  have "max_transfer_attempts (script_client [answers [7]]) = 3"
    "sc_log (cl_world (script_client [answers [7]])) = []"
    by (simp_all add: max_transfer_attempts_def script_client_def client_new_def Let_def)
  then show ?thesis
    using download_returns_only_content [OF script.observed_axioms _ run] run by (auto simp: resent_def)
qed

section \<open>Writing the file\<close>

text \<open>
  What the code relies on of a local file system: an operation touches the file it names, a write
  that succeeds appends what it was given to the file just created, and a rename happens whole or
  not at all.
\<close>

locale local_files =
  fixes F :: "'w files" and content :: "'w \<Rightarrow> str \<Rightarrow> bytes option"
  assumes create: "fs_create F p w = (r, w') \<Longrightarrow>
        (q \<noteq> p \<longrightarrow> content w' q = content w q) \<and> (r = Inr () \<longrightarrow> content w' p = Some [])"
    and write_all: "fs_write_all F p bs w = (r, w') \<Longrightarrow>
        (q \<noteq> p \<longrightarrow> content w' q = content w q) \<and>
        (r = Inr () \<longrightarrow> (\<exists>old. content w p = Some old \<and> content w' p = Some (old @ bs)))"
    and sync: "fs_sync_all F p w = (r, w') \<Longrightarrow> content w' = content w"
    and renames: "fs_rename F p q w = (r, w') \<Longrightarrow>
        (if r = Inr () then content w' q = content w p else content w' q = content w q)"
    and remove: "fs_remove_file F p w = (r, w') \<Longrightarrow> q \<noteq> p \<longrightarrow> content w' q = content w q"
begin

lemma write_result_atomic:
  assumes files: "env_files E = F" and run: "write_result E p bs c = (r, c')"
  shows "content (cl_world c') p = (if r = Inr () then Some bs else content (cl_world c) p)"
proof -
  have other: "p \<noteq> part_name p" by (simp add: part_name_def lit_def)
  obtain r1 w1 where 1: "fs_create F (part_name p) (cl_world c) = (r1, w1)" by fastforce
  obtain r2 w2 where 2: "fs_write_all F (part_name p) bs w1 = (r2, w2)" by fastforce
  obtain r3 w3 where 3: "fs_sync_all F (part_name p) w2 = (r3, w3)" by fastforce
  obtain r4 w4 where 4: "fs_rename F (part_name p) p w3 = (r4, w4)" by fastforce
  note steps = create [OF 1, of p] create [OF 1, of "part_name p"] write_all [OF 2, of p]
    write_all [OF 2, of "part_name p"] sync [OF 3] renames [OF 4]
  show ?thesis
    using run steps other 1 2 3 4
    by (cases r1; cases r2; cases r3; cases r4)
      (auto simp: write_result_def try_op_def in_world_def files Let_def)
qed

end

interpretation scripted_disk: local_files disk sc_disk
  by unfold_locales
    (auto simp: disk_def disk_create_def disk_write_all_def disk_rename_def disk_remove_def
      split: option.splits)

text \<open>
  C24. A download to a path is all or nothing. Once the bytes are there, the file at the path holds
  exactly those bytes if the download is reported as done, and is what it was before if any step of
  writing it failed; it is never partial. If the bytes did not come, nothing is written.
\<close>

theorem download_to_path_is_atomic:
  assumes "local_files (env_files E) content"
    and fetched: "with_relogin_retry E (download E remote_path 0 0) c = (got, c1)"
    and run: "http_download_to_path E remote_path p c = (r, c')"
  shows "case got of
      Inl e \<Rightarrow> r = Inl e \<and> c' = c1
    | Inr bs \<Rightarrow> content (cl_world c') p = (if r = Inr () then Some bs else content (cl_world c1) p)"
proof (cases got)
  case (Inl e)
  then show ?thesis using run fetched by (simp add: http_download_to_path_def try_op_def)
next
  case (Inr bs)
  obtain wr c2 where wrote: "write_result E p bs c1 = (wr, c2)" by fastforce
  note atomic = local_files.write_result_atomic [OF assms(1) refl wrote]
  have other: "p \<noteq> part_name p" by (simp add: part_name_def lit_def)
  obtain rr w3 where removed: "fs_remove_file (env_files E) (part_name p) (cl_world c2) = (rr, w3)"
    by fastforce
  note kept = local_files.remove [OF assms(1) removed, of p]
  show ?thesis
  proof (cases wr)
    case (Inl e)
    have "r \<noteq> Inr () \<and> cl_world c' = w3"
      using run fetched Inr wrote removed Inl
      by (auto simp: http_download_to_path_def try_op_def let_op_def give_def in_world_def)
    then show ?thesis using Inr atomic kept other Inl by simp
  next
    case (Inr u)
    have "r = Inr () \<and> c' = c2"
      using run fetched \<open>got = Inr bs\<close> wrote Inr
      by (auto simp: http_download_to_path_def try_op_def let_op_def give_def)
    then show ?thesis using \<open>got = Inr bs\<close> atomic Inr by simp
  qed
qed

theorem download_to_path_is_atomic_witness:
  "\<exists>got c1 r c'. with_relogin_retry (script_env no_login no_json) (download (script_env no_login no_json) [] 0 0)
      (script_client [answers [7]]) = (got, c1) \<and>
    http_download_to_path (script_env no_login no_json) [] [65] (script_client [answers [7]]) = (r, c') \<and>
    (\<forall>bs. got = Inr bs \<longrightarrow>
       sc_disk (cl_world c') [65] = (if r = Inr () then Some bs else sc_disk (cl_world c1) [65]))"
proof -
  let ?E = "script_env no_login no_json" and ?c = "script_client [answers [7]]"
  have "env_files ?E = disk" by (simp add: script_env_def)
  then have files: "local_files (env_files ?E) sc_disk" using scripted_disk.local_files_axioms by simp
  obtain got c1 where g: "with_relogin_retry ?E (download ?E [] 0 0) ?c = (got, c1)" by fastforce
  obtain r c' where r: "http_download_to_path ?E [] [65] ?c = (r, c')" by fastforce
  show ?thesis using download_to_path_is_atomic [OF files g r] g r by auto
qed

end
