(* ===== verification/Listing.thy ===== *)
theory Listing
  imports Download
begin

text \<open>
  Listings, stat and namespace operations of the client (\<open>client/metadata.rs\<close>): a listing followed
  page by page, and one request each for the rest, all of them offered to the metadata backends
  first.
\<close>

section \<open>Answers\<close>

text \<open>The text of an answer as the response of one call, or the error it stands for.\<close>

definition response :: "str \<Rightarrow> str + 'd syno_response \<Rightarrow> syno_error + 'd syno_response" where
  "response label parsed = map_err (\<lambda>e. SynoIo (label @ lit '' parse error: '' @ e)) parsed"

definition when_success :: "'d syno_response \<Rightarrow> ('d option \<Rightarrow> syno_error + 'a) \<Rightarrow> syno_error + 'a" where
  "when_success resp f = (if rs_success resp then f (rs_data resp) else Inl (ApiError (error_code resp)))"

text \<open>A repeatable call of \<open>entry.cgi\<close>.\<close>

definition call_entry :: "'w env \<Rightarrow> (str \<times> str) list \<Rightarrow> 'w client \<Rightarrow> (syno_error + str) \<times> 'w client" where
  "call_entry E params = let_op (get_op entry_cgi) (\<lambda>url. get_text_retried E url params)"

section \<open>Listings\<close>

definition LIST_PAGE_SIZE :: nat where
  "LIST_PAGE_SIZE = 1000"

definition LIST_MAX_PAGES :: nat where
  "LIST_MAX_PAGES = 10000"

definition METADATA_READ_TIMEOUT :: duration where
  "METADATA_READ_TIMEOUT = secs 30"

definition ADDITIONAL_FIELDS :: str where
  "ADDITIONAL_FIELDS = lit ''[\"real_path\",\"size\",\"owner\",\"time\",\"perm\"]''"

definition SHARE_ADDITIONAL_FIELDS :: str where
  "SHARE_ADDITIONAL_FIELDS = lit ''[\"real_path\",\"owner\",\"time\",\"perm\"]''"

definition page_params ::
  "str \<Rightarrow> (str \<times> str) list \<Rightarrow> str \<Rightarrow> nat \<Rightarrow> (str \<times> str) list" where
  "page_params method extra additional offset =
     [(lit ''api'', lit ''SYNO.FileStation.List''), (lit ''version'', lit ''2''), (lit ''method'', method)] @
     extra @
     [(lit ''additional'', additional), (lit ''limit'', show_nat LIST_PAGE_SIZE), (lit ''offset'', show_nat offset)]"

definition last_page :: "nat \<Rightarrow> nat \<Rightarrow> u64 option \<Rightarrow> bool" where
  "last_page page_len collected reported \<longleftrightarrow>
     page_len = 0 \<or> page_len < LIST_PAGE_SIZE \<or>
     (case reported of None \<Rightarrow> False | Some t \<Rightarrow> of_nat collected \<ge> t)"

text \<open>The loop with \<open>pages\<close> left of its bound.\<close>

fun list_pages ::
  "'w env \<Rightarrow> str \<Rightarrow> (str \<times> str) list \<Rightarrow> str \<Rightarrow> str \<Rightarrow> (str \<Rightarrow> str + list_data syno_response) \<Rightarrow>
     nat \<Rightarrow> syno_file_info list \<Rightarrow> 'w client \<Rightarrow> (syno_error + syno_file_info list) \<times> 'w client" where
  "list_pages E method extra additional label parse 0 collected = give (Inr collected)"
| "list_pages E method extra additional label parse (Suc pages) collected =
     try_op (call_entry E (page_params method extra additional (length collected))) (\<lambda>text.
     try_op (give (response label (parse text))) (\<lambda>resp.
       if \<not> rs_success resp then give (Inl (ApiError (error_code resp)))
       else
         let (page, reported) = (case rs_data resp of Some d \<Rightarrow> (ld_files d, ld_total d) | None \<Rightarrow> ([], None));
             collected = collected @ page
         in if last_page (length page) (length collected) reported then give (Inr collected)
            else list_pages E method extra additional label parse pages collected))"

definition list_paged ::
  "'w env \<Rightarrow> str \<Rightarrow> (str \<times> str) list \<Rightarrow> str \<Rightarrow> str \<Rightarrow> (str \<Rightarrow> str + list_data syno_response) \<Rightarrow>
     'w client \<Rightarrow> (syno_error + syno_file_info list) \<times> 'w client" where
  "list_paged E method extra additional label parse =
     list_pages E method extra additional label parse LIST_MAX_PAGES []"

definition list_shares :: "'w env \<Rightarrow> 'w client \<Rightarrow> (syno_error + syno_file_info list) \<times> 'w client" where
  "list_shares E =
     or_http (via_metadata E mt_list_shares)
       (list_paged E (lit ''list_share'') [] SHARE_ADDITIONAL_FIELDS (lit ''list_shares'') (js_shares (env_json E)))"

definition list_dir :: "'w env \<Rightarrow> str \<Rightarrow> 'w client \<Rightarrow> (syno_error + syno_file_info list) \<times> 'w client" where
  "list_dir E folder_path =
     or_http (via_metadata E (\<lambda>t. mt_list_dir t folder_path))
       (list_paged E (lit ''list'') [(lit ''folder_path'', folder_path)] ADDITIONAL_FIELDS (lit ''list_dir'')
         (js_list (env_json E)))"

section \<open>Single entries\<close>

text \<open>\<open>get_info\<close>: the last entry of the answer, unless it is an error in its place.\<close>

definition info_entry :: "syno_file_info list option \<Rightarrow> syno_error + syno_file_info" where
  "info_entry data =
     (case data of
        None \<Rightarrow> Inl SynoNotFound
      | Some files \<Rightarrow>
          if files = [] then Inl SynoNotFound
          else case fi_code (last files) of Some code \<Rightarrow> Inl (ApiError code) | None \<Rightarrow> Inr (last files))"

definition info_params :: "json \<Rightarrow> str \<Rightarrow> (str \<times> str) list" where
  "info_params J path =
     [(lit ''api'', lit ''SYNO.FileStation.List''), (lit ''version'', lit ''2''), (lit ''method'', lit ''getinfo''),
      (lit ''path'', quote_list J path), (lit ''additional'', ADDITIONAL_FIELDS)]"

definition http_get_info :: "'w env \<Rightarrow> str \<Rightarrow> 'w client \<Rightarrow> (syno_error + syno_file_info) \<times> 'w client" where
  "http_get_info E path =
     try_op (call_entry E (info_params (env_json E) path)) (\<lambda>text.
     try_op (give (response (lit ''get_info'') (js_get_info (env_json E) text))) (\<lambda>resp.
       give (when_success resp info_entry)))"

definition get_info :: "'w env \<Rightarrow> str \<Rightarrow> 'w client \<Rightarrow> (syno_error + syno_file_info) \<times> 'w client" where
  "get_info E path = or_http (via_metadata E (\<lambda>t. mt_get_info t path)) (http_get_info E path)"

text \<open>The parent and the name of a path: around its last separator, with a name at all.\<close>

definition split_parent :: "str \<Rightarrow> (str \<times> str) option" where
  "split_parent path =
     (if 47 \<notin> set path then None
      else let filename = rev (takeWhile (\<lambda>b. b \<noteq> 47) (rev path));
               parent = take (length path - length filename - 1) path
           in if filename = [] then None else Some (parent, filename))"

section \<open>Changes of the namespace\<close>

definition http_delete :: "'w env \<Rightarrow> str \<Rightarrow> 'w client \<Rightarrow> (syno_error + unit) \<times> 'w client" where
  "http_delete E path =
     try_op (call_entry E
       [(lit ''api'', lit ''SYNO.FileStation.Delete''), (lit ''version'', lit ''2''), (lit ''method'', lit ''delete''),
        (lit ''path'', quote_list (env_json E) path), (lit ''recursive'', lit ''true''),
        (lit ''accurate_progress'', lit ''false'')]) (\<lambda>text.
     try_op (give (response (lit ''delete'') (js_value (env_json E) text))) (\<lambda>resp.
       give (when_success resp (\<lambda>_. Inr ()))))"

definition delete :: "'w env \<Rightarrow> str \<Rightarrow> 'w client \<Rightarrow> (syno_error + unit) \<times> 'w client" where
  "delete E path = or_http (via_metadata E (\<lambda>t. mt_delete t path)) (http_delete E path)"

text \<open>\<open>pop\<close> of the list that an answer carries, with the texts for its absence.\<close>

definition pop_entry :: "str \<Rightarrow> str \<Rightarrow> 'a list option \<Rightarrow> syno_error + 'a" where
  "pop_entry no_data no_entry data =
     (case data of
        None \<Rightarrow> Inl (SynoIo no_data)
      | Some xs \<Rightarrow> if xs = [] then Inl (SynoIo no_entry) else Inr (last xs))"

definition http_create_folder ::
  "'w env \<Rightarrow> str \<Rightarrow> str \<Rightarrow> 'w client \<Rightarrow> (syno_error + syno_file_info) \<times> 'w client" where
  "http_create_folder E parent name =
     try_op (call_entry E
       [(lit ''api'', lit ''SYNO.FileStation.CreateFolder''), (lit ''version'', lit ''2''),
        (lit ''method'', lit ''create''), (lit ''folder_path'', quote_list (env_json E) parent),
        (lit ''name'', quote_list (env_json E) name), (lit ''additional'', ADDITIONAL_FIELDS)]) (\<lambda>text.
     try_op (give (response (lit ''create_folder'') (js_create_folder (env_json E) text))) (\<lambda>resp.
       give (when_success resp (pop_entry (lit ''no folder data'') (lit ''empty folder list'')))))"

definition create_folder ::
  "'w env \<Rightarrow> str \<Rightarrow> str \<Rightarrow> 'w client \<Rightarrow> (syno_error + syno_file_info) \<times> 'w client" where
  "create_folder E parent name =
     or_http (via_metadata E (\<lambda>t. mt_create_folder t parent name)) (http_create_folder E parent name)"

definition rename_params :: "json \<Rightarrow> str \<Rightarrow> str \<Rightarrow> (str \<times> str) list" where
  "rename_params J old_path new_name =
     [(lit ''api'', lit ''SYNO.FileStation.Rename''), (lit ''version'', lit ''2''),
      (lit ''method'', lit ''rename''), (lit ''path'', quote_list J old_path),
      (lit ''name'', quote_list J new_name), (lit ''additional'', ADDITIONAL_FIELDS)]"

definition http_rename ::
  "'w env \<Rightarrow> str \<Rightarrow> str \<Rightarrow> 'w client \<Rightarrow> (syno_error + syno_file_info) \<times> 'w client" where
  "http_rename E old_path new_name =
     try_op (call_entry E (rename_params (env_json E) old_path new_name)) (\<lambda>text.
     try_op (give (response (lit ''rename'') (js_rename (env_json E) text))) (\<lambda>resp.
       give (when_success resp (pop_entry (lit ''no rename data'') (lit ''empty file list'')))))"

definition rename ::
  "'w env \<Rightarrow> str \<Rightarrow> str \<Rightarrow> 'w client \<Rightarrow> (syno_error + syno_file_info) \<times> 'w client" where
  "rename E old_path new_name =
     or_http (via_metadata E (\<lambda>t. mt_rename t old_path new_name)) (http_rename E old_path new_name)"

section \<open>Complete listings\<close>

text \<open>
  What a request to list asks for, as the NAS reads its query: a call of the listing API with this
  method, of this folder if any, from this offset on and at most so many entries.
\<close>

definition folder_param :: "str option \<Rightarrow> (str \<times> str) list" where
  "folder_param folder = (case folder of None \<Rightarrow> [] | Some path \<Rightarrow> [(lit ''folder_path'', path)])"

definition asks_page :: "(str \<times> str) list \<Rightarrow> str \<Rightarrow> str option \<Rightarrow> nat \<Rightarrow> nat \<Rightarrow> bool" where
  "asks_page query method folder offset limit \<longleftrightarrow>
     map_of query (lit ''api'') = Some (lit ''SYNO.FileStation.List'') \<and>
     map_of query (lit ''method'') = Some method \<and> map_of query (lit ''folder_path'') = folder \<and>
     map_of query (lit ''offset'') = Some (show_nat offset) \<and> map_of query (lit ''limit'') = Some (show_nat limit)"

text \<open>
  A server that pages correctly: whatever page a request asks for, an answer that is a success holds
  exactly the entries from the offset on, as many as the limit lets, with the number of all entries or
  with none. It may leave any request unanswered, or refuse it.
\<close>

definition pages_correctly ::
  "'w env \<Rightarrow> str \<Rightarrow> str option \<Rightarrow> (str \<Rightarrow> str + list_data syno_response) \<Rightarrow> syno_file_info list \<Rightarrow> bool" where
  "pages_correctly E method folder parse es \<longleftrightarrow>
     (\<forall>rq w answer w' body resp offset limit. env_send E rq w = (Inr answer, w') \<longrightarrow>
        asks_page (rq_query rq) method folder offset limit \<longrightarrow>
        ha_body answer = Inr body \<longrightarrow> parse (env_text E body) = Inr resp \<longrightarrow> rs_success resp \<longrightarrow>
        (\<exists>reported. rs_data resp = Some \<lparr>ld_files = take limit (drop offset es), ld_total = reported\<rparr> \<and>
           reported \<in> {None, Some (of_nat (length es))}))"

text \<open>A text that a call comes to is the body of an answer to a request with its parameters.\<close>

lemma text_is_answered:
  "text_attempts E url params attempts e c = (Inr body, c') \<Longrightarrow>
    \<exists>rq w answer w' raw. env_send E rq w = (Inr answer, w') \<and> ha_body answer = Inr raw \<and> env_text E raw = body \<and>
      (\<exists>more_params. rq_query rq = params @ more_params \<and> fst ` set more_params \<subseteq> {lit ''_sid''})"
proof (induction attempts arbitrary: e c)
  case (Cons attempt rest)
  obtain c1 where w: "when_op (0 < attempt) (sleep E (millis (200 * attempt))) c = ((), c1)"
    by (cases "when_op (0 < attempt) (sleep E (millis (200 * attempt))) c") simp
  obtain reply c2 where s: "send_attached E (http_get url params) c1 = (reply, c2)" by fastforce
  then have asked: "env_send E (attach_session c1 (http_get url params)) (cl_world c1) = (reply, cl_world c2)"
    by (auto simp: send_attached_def send_def in_world_def split: prod.splits)
  have query: "\<exists>more_params. rq_query (attach_session c1 (http_get url params)) = params @ more_params \<and>
      fst ` set more_params \<subseteq> {lit ''_sid''}"
    by (simp add: attach_session_def http_get_def)
  note ran = Cons.prems [unfolded text_attempts.simps let_op_def w s prod.case]
  show ?case
  proof (cases reply)
    case (Inl x)
    with ran Cons.IH show ?thesis by simp
  next
    case (Inr answer)
    show ?thesis
    proof (cases "answer_text E answer")
      case (Inl x)
      with ran Inr Cons.IH show ?thesis by simp
    next
      case there: (Inr t)
      then obtain raw where "ha_body answer = Inr raw" "env_text E raw = body"
        using ran Inr by (auto simp: answer_text_def give_def split: sum.splits)
      with asked Inr query show ?thesis by blast
    qed
  qed
qed (simp add: give_def)

lemma call_is_answered:
  assumes "call_entry E params c = (Inr body, c')"
  obtains rq w answer w' raw more_params where "env_send E rq w = (Inr answer, w')" "ha_body answer = Inr raw"
    "env_text E raw = body" "rq_query rq = params @ more_params" "fst ` set more_params \<subseteq> {lit ''_sid''}"
  using text_is_answered [of E "entry_cgi c" params "[0, 1, 2]"] assms that
  by (force simp: call_entry_def get_text_retried_def let_op_def get_op_def)

text \<open>What the code asks for: the page behind what it has collected.\<close>

lemma asks_next_page:
  assumes "fst ` set more_params \<subseteq> {lit ''_sid''}"
  shows "asks_page (page_params method (folder_param folder) additional n @ more_params) method folder n LIST_PAGE_SIZE"
proof -
  have "map_of more_params (lit ''folder_path'') = None"
    using assms unfolding map_of_eq_None_iff by (auto simp: lit_def)
  then show ?thesis
    by (cases folder) (simp_all add: asks_page_def page_params_def folder_param_def lit_def)
qed

lemma list_pages_complete:
  assumes "pages_correctly E method folder parse es" and "length es < 2 ^ 64"
    and "length es < n + pages * LIST_PAGE_SIZE" and "n \<le> length es"
    and "list_pages E method (folder_param folder) additional label parse pages (take n es) c = (Inr xs, c')"
  shows "xs = es"
  using assms(3-5)
proof (induction pages arbitrary: n c)
  case (Suc pages)
  have n: "length (take n es) = n" using Suc.prems(2) by simp
  obtain body c1 where call: "call_entry E (page_params method (folder_param folder) additional n) c = (Inr body, c1)"
    using Suc.prems(3) n by (auto simp: try_op_def split: prod.splits sum.splits)
  obtain resp where resp: "parse body = Inr resp" "rs_success resp"
    using Suc.prems(3) n call
    by (auto simp: try_op_def give_def response_def map_err_def split: sum.splits if_splits)
  obtain reported where data:
    "rs_data resp = Some \<lparr>ld_files = take LIST_PAGE_SIZE (drop n es), ld_total = reported\<rparr>"
    and reported: "reported \<in> {None, Some (of_nat (length es))}"
  proof (rule call_is_answered [OF call])
    fix rq w answer w' raw more_params
    assume sent: "env_send E rq w = (Inr answer, w')" "ha_body answer = Inr raw" "env_text E raw = body"
      and query: "rq_query rq = page_params method (folder_param folder) additional n @ more_params"
        "fst ` set more_params \<subseteq> {lit ''_sid''}"
    have "asks_page (rq_query rq) method folder n LIST_PAGE_SIZE"
      unfolding query(1) by (rule asks_next_page [OF query(2)])
    with assms(1) [unfolded pages_correctly_def, rule_format, OF sent(1) this sent(2)] resp sent(3) that
    show thesis by blast
  qed
  have joined: "take n es @ take LIST_PAGE_SIZE (drop n es) = take (n + LIST_PAGE_SIZE) es"
    by (simp add: take_add)
  have same_length: "n + min (length es - n) LIST_PAGE_SIZE = min (length es) (n + LIST_PAGE_SIZE)"
    using Suc.prems(2) by auto
  let ?done = "last_page (length (take LIST_PAGE_SIZE (drop n es))) (length (take (n + LIST_PAGE_SIZE) es)) reported"
  have step: "(if ?done then (Inr (take (n + LIST_PAGE_SIZE) es), c1)
      else list_pages E method (folder_param folder) additional label parse pages (take (n + LIST_PAGE_SIZE) es) c1) = (Inr xs, c')"
    using Suc.prems(3) n call resp data joined same_length
    by (simp add: try_op_def give_def response_def map_err_def Let_def split: if_splits)
  have all_if_done: "length es \<le> n + LIST_PAGE_SIZE" if ?done
    using that reported assms(2)
    by (auto simp: last_page_def LIST_PAGE_SIZE_def word_le_nat_alt unat_of_nat split: if_splits)
  have more_if_not: "n + LIST_PAGE_SIZE \<le> length es" if "\<not> ?done"
    using that by (auto simp: last_page_def LIST_PAGE_SIZE_def)
  show ?case
  proof (cases ?done)
    case True
    with step have "take (n + LIST_PAGE_SIZE) es = xs" by (simp only: if_True prod.inject sum.inject)
    with all_if_done [OF True] show ?thesis by simp
  next
    case False
    have "length es < n + LIST_PAGE_SIZE + pages * LIST_PAGE_SIZE" using Suc.prems(1) by simp
    from Suc.IH [OF this more_if_not [OF False], of c1] step False show ?thesis by argo
  qed
qed simp

text \<open>
  C15. A listing is complete. Against a server that answers a request for a page with the entries from
  the offset its query names, as many as the limit its query names, whether or not it reports how
  many entries there are, a listing of fewer entries than the page cap covers is answered with all
  of them in their order, or with an error; it is never silently short.
\<close>

theorem listing_is_complete:
  assumes "pages_correctly E method folder parse es"
    and "length es < LIST_MAX_PAGES * LIST_PAGE_SIZE"
    and "list_paged E method (folder_param folder) additional label parse c = (Inr xs, c')"
  shows "xs = es"
proof -
  have "length es < 2 ^ 64" using assms(2) by (simp add: LIST_MAX_PAGES_def LIST_PAGE_SIZE_def)
  then show ?thesis
    using list_pages_complete [OF assms(1), of 0 LIST_MAX_PAGES additional label c xs c'] assms(2,3)
    by (simp add: list_paged_def)
qed

text \<open>A server that answers with the offset and the limit it was asked for, at which the parser takes the page.\<close>

definition one_entry :: syno_file_info where
  "one_entry = \<lparr>fi_name = [65], fi_path = [47, 65], fi_isdir = False, fi_additional = None, fi_code = None\<rparr>"

definition page_in :: "syno_file_info list \<Rightarrow> str \<Rightarrow> syno_file_info list" where
  "page_in es body =
     take (decimal (tl (dropWhile is_digit body))) (drop (decimal (takeWhile is_digit body)) es)"

definition paging_json :: "syno_file_info list \<Rightarrow> json" where
  "paging_json es =
     no_json\<lparr>js_list := (\<lambda>body. Inr \<lparr>rs_success = True,
       rs_data = Some \<lparr>ld_files = page_in es body, ld_total = None\<rparr>, rs_error = None\<rparr>)\<rparr>"

definition paging_env :: "syno_file_info list \<Rightarrow> script env" where
  "paging_env es =
     (script_env (\<lambda>_. Inr \<lparr>rs_success = False, rs_data = None, rs_error = None\<rparr>) (paging_json es))
       \<lparr>env_send := (\<lambda>rq w. (case (map_of (rq_query rq) (lit ''offset''), map_of (rq_query rq) (lit ''limit'')) of
          (Some offset, Some limit) \<Rightarrow> answers (offset @ [44] @ limit) | _ \<Rightarrow> no_answer, w))\<rparr>"

lemma page_in_shown: "page_in es (show_nat offset @ [44] @ show_nat limit) = take limit (drop offset es)"
proof -
  have "\<not> is_digit 44" by (simp add: is_digit_def)
  moreover have "takeWhile is_digit (ds @ 44 # rest) = ds \<and> dropWhile is_digit (ds @ 44 # rest) = 44 # rest"
    if "list_all is_digit ds" "\<not> is_digit 44" for ds rest
    using that by (induction ds) simp_all
  ultimately show ?thesis using show_nat_digits [of offset] show_nat_digits [of limit] by (simp add: page_in_def)
qed

lemma paging_env_pages: "pages_correctly (paging_env es) method folder (js_list (paging_json es)) es"
  by (auto simp: pages_correctly_def asks_page_def paging_env_def script_env_def paging_json_def answers_def
      page_in_shown [simplified])

lemma paging_call:
  "call_entry (paging_env es) (page_params method [] additional k) c =
     (Inr (show_nat k @ [44] @ show_nat LIST_PAGE_SIZE), c)"
proof -
  have "map_of (rq_query (attach_session c (http_get url (page_params method [] additional k)))) (lit ''offset'') =
        Some (show_nat k) \<and>
      map_of (rq_query (attach_session c (http_get url (page_params method [] additional k)))) (lit ''limit'') =
        Some (show_nat LIST_PAGE_SIZE)" for url
    by (simp add: attach_session_def http_get_def page_params_def lit_def)
  then show ?thesis
    by (simp add: call_entry_def get_text_retried_def let_op_def get_op_def when_op_def give_def send_attached_def
      send_def in_world_def paging_env_def script_env_def answers_def answer_text_def)
qed

theorem listing_is_complete_witness:
  "fst (list_paged (paging_env [one_entry]) [] [] [] [] (js_list (paging_json [one_entry])) (script_client [])) =
   Inr [one_entry]"
proof -
  let ?run = "list_paged (paging_env [one_entry]) [] (folder_param None) [] [] (js_list (paging_json [one_entry])) (script_client [])"
  have "\<exists>xs. fst ?run = Inr xs"
    by (simp add: list_paged_def LIST_MAX_PAGES_def list_pages.simps(2) [of _ _ _ _ _ _ 9999, simplified]
        folder_param_def paging_call try_op_def give_def response_def map_err_def paging_json_def
        last_page_def Let_def page_in_shown [simplified])
      (simp add: LIST_PAGE_SIZE_def)
  then obtain xs c' where "?run = (Inr xs, c')" by (metis prod.collapse)
  with listing_is_complete [OF paging_env_pages _ this] show ?thesis
    by (simp add: LIST_MAX_PAGES_def LIST_PAGE_SIZE_def folder_param_def)
qed

end
