(* ===== verification/Verify.thy ===== *)
theory Verify
  imports Listing
begin

text \<open>
  Proving an upload landed (\<open>client/verify.rs\<close>): the size DSM reports, the MD5 it computes in a task
  that is started, polled and stopped, and what is done with a file that is not what was sent. The
  wait for a task is partial: it ends only as the clock goes on. The stop that a dropped future
  sends (\<open>StopOnDrop\<close>) is outside the model, in which no call is abandoned.
\<close>

section \<open>Hashing on the NAS\<close>

definition VERIFY_SETTLE_DELAY :: duration where
  "VERIFY_SETTLE_DELAY = millis 500"

definition MD5_POLL_INTERVAL :: duration where
  "MD5_POLL_INTERVAL = secs 1"

definition MD5_MAX_WAIT :: duration where
  "MD5_MAX_WAIT = secs (15 * 60)"

text \<open>A task id as DSM reads it.\<close>

definition task_param :: "json \<Rightarrow> str \<Rightarrow> str" where
  "task_param J taskid = js_quote J taskid"

record md5_deadline =
  lim_at :: instant
  lim_max_wait :: duration

datatype md5_attempt = Md5Done "syno_error + str" | SessionRenewed

definition md5_start :: "'w env \<Rightarrow> str \<Rightarrow> str \<Rightarrow> 'w client \<Rightarrow> (syno_error + str) \<times> 'w client" where
  "md5_start E url path =
     try_op (get_text_retried E url
       [(lit ''api'', lit ''SYNO.FileStation.MD5''), (lit ''version'', lit ''2''), (lit ''method'', lit ''start''),
        (lit ''file_path'', path)]) (\<lambda>text.
     try_op (give (response (lit ''md5 start'') (js_md5_start (env_json E) text))) (\<lambda>resp.
       give (when_success resp
         (\<lambda>data. ok_or (map_option md_taskid data) (SynoIo (lit ''md5 start returned no taskid''))))))"

definition task_params :: "json \<Rightarrow> str \<Rightarrow> str \<Rightarrow> (str \<times> str) list" where
  "task_params J method taskid =
     [(lit ''api'', lit ''SYNO.FileStation.MD5''), (lit ''version'', lit ''2''), (lit ''method'', method),
      (lit ''taskid'', task_param J taskid)]"

text \<open>What a status answer says: \<open>None\<close> to go on waiting, or how the wait ends.\<close>

definition md5_progress :: "md5_status_data syno_response \<Rightarrow> (syno_error + str) option" where
  "md5_progress resp =
     (if \<not> rs_success resp then Some (Inl (ApiError (error_code resp)))
      else case rs_data resp of
        None \<Rightarrow> None
      | Some data \<Rightarrow>
          if md_finished data then
            Some (case md_md5 data of
                Some m \<Rightarrow> if m \<noteq> [] then Inr m else Inl (SynoIo (lit ''md5 task finished without a digest''))
              | None \<Rightarrow> Inl (SynoIo (lit ''md5 task finished without a digest'')))
          else None)"

partial_function (option) md5_wait ::
  "'w env \<Rightarrow> str \<Rightarrow> str \<Rightarrow> str \<Rightarrow> md5_deadline \<Rightarrow> 'w client \<Rightarrow> ((syno_error + str) \<times> 'w client) option" where
  "md5_wait E url path taskid limit c =
     try_run (total_op (get_text_retried E url (task_params (env_json E) (lit ''status'') taskid))) (\<lambda>text.
     try_run (total_op (give (response (lit ''md5 status'') (js_md5_status (env_json E) text)))) (\<lambda>resp c.
       case md5_progress resp of
         Some r \<Rightarrow> Some (r, c)
       | None \<Rightarrow>
           let_run (total_op (now E)) (\<lambda>t c.
             if lim_at limit - t = 0 then
               Some (Inl (SynoIo (lit ''md5 of '' @ path @ lit '' did not finish within '' @
                 show_nat (lim_max_wait limit div secs 1) @ lit ''s'')), c)
             else let_run (total_op (sleep E (min MD5_POLL_INTERVAL (lim_at limit - t)))) (\<lambda>_ c.
               md5_wait E url path taskid limit c) c) c)) c"

text \<open>One stop request; why it was refused, if it was.\<close>

definition md5_stop_once :: "'w env \<Rightarrow> str \<Rightarrow> str \<Rightarrow> 'w client \<Rightarrow> syno_error option \<times> 'w client" where
  "md5_stop_once E url taskid =
     let_op (get_text_retried E url (task_params (env_json E) (lit ''stop'') taskid)) (\<lambda>r. give (case r of
         Inl e \<Rightarrow> Some e
       | Inr text \<Rightarrow>
           (case js_value (env_json E) text of
              Inr parsed \<Rightarrow> if rs_success parsed then None else Some (ApiError (error_code parsed))
            | Inl e \<Rightarrow> Some (SynoIo (lit ''md5 stop parse error: '' @ e)))))"

text \<open>What is left of \<open>refused\<close> is only logged.\<close>

definition md5_stop :: "'w env \<Rightarrow> str \<Rightarrow> str \<Rightarrow> 'w client \<Rightarrow> unit \<times> 'w client" where
  "md5_stop E url taskid =
     let_op (md5_stop_once E url taskid) (\<lambda>refused.
     let_op (get_op cl_auto_relogin) (\<lambda>auto_relogin.
       if refused = Some (ApiError SID_NOT_FOUND) \<and> auto_relogin then
         let_op (relogin E) (\<lambda>r. case r of
           Inr _ \<Rightarrow> let_op (md5_stop_once E url taskid) (\<lambda>_. give ())
         | Inl _ \<Rightarrow> give ())
       else give ()))"

definition md5_attempt ::
  "'w env \<Rightarrow> str \<Rightarrow> str \<Rightarrow> md5_deadline \<Rightarrow> 'w client \<Rightarrow> (md5_attempt \<times> 'w client) option" where
  "md5_attempt E url path limit =
     let_run (total_op (md5_start E url path)) (\<lambda>started. case started of
       Inl e \<Rightarrow> total_op (give (Md5Done (Inl e)))
     | Inr taskid \<Rightarrow>
         let_run (md5_wait E url path taskid limit) (\<lambda>result. total_op (
         let_op (get_op cl_auto_relogin) (\<lambda>auto_relogin. case result of
           Inr digest \<Rightarrow> give (Md5Done (Inr digest))
         | Inl e \<Rightarrow>
             if e = ApiError SID_NOT_FOUND \<and> auto_relogin then
               let_op (relogin E) (\<lambda>r. case r of
                 Inl e \<Rightarrow> give (Md5Done (Inl (LoginFailed e)))
               | Inr _ \<Rightarrow> let_op (md5_stop E url taskid) (\<lambda>_. give SessionRenewed))
             else let_op (md5_stop E url taskid) (\<lambda>_. give (Md5Done (Inl e)))))))"

text \<open>A second 119 must not look to a caller like a session to renew.\<close>

definition second_result :: "str \<Rightarrow> md5_attempt \<Rightarrow> syno_error + str" where
  "second_result path a =
     (let twice = Inl (SynoIo (lit ''md5 of '' @ path @ lit '': the session expired twice while the NAS hashed it''))
      in case a of
        SessionRenewed \<Rightarrow> twice
      | Md5Done r \<Rightarrow> if r = Inl (ApiError SID_NOT_FOUND) then twice else r)"

definition md5_within ::
  "'w env \<Rightarrow> str \<Rightarrow> duration \<Rightarrow> 'w client \<Rightarrow> ((syno_error + str) \<times> 'w client) option" where
  "md5_within E path max_wait =
     let_run (total_op (acquire_transfer_slot E)) (\<lambda>held.
     let_run (total_op (get_op entry_cgi)) (\<lambda>url.
     let_run (total_op (now E)) (\<lambda>t.
       let limit = \<lparr>lim_at = t + max_wait, lim_max_wait = max_wait\<rparr> in
     let_run (let_run (md5_attempt E url path limit) (\<lambda>first. case first of
         Md5Done r \<Rightarrow> total_op (give r)
       | SessionRenewed \<Rightarrow>
           let_run (md5_attempt E url path limit) (\<lambda>second. total_op (give (second_result path second)))))
       (\<lambda>r. let_run (total_op (drop_slot E held)) (\<lambda>_. total_op (give r))))))"

definition md5 :: "'w env \<Rightarrow> str \<Rightarrow> 'w client \<Rightarrow> ((syno_error + str) \<times> 'w client) option" where
  "md5 E path = md5_within E path MD5_MAX_WAIT"

section \<open>Verifying an upload\<close>

definition info_size :: "syno_file_info \<Rightarrow> u64 option" where
  "info_size info = Option.bind (fi_additional info) ad_size"

definition landed_size :: "'w env \<Rightarrow> str \<Rightarrow> 'w client \<Rightarrow> u64 option \<times> 'w client" where
  "landed_size E full_path =
     let_op (get_info E full_path) (\<lambda>r. give (case r of Inr info \<Rightarrow> info_size info | Inl _ \<Rightarrow> None))"

definition reject_upload :: "'w env \<Rightarrow> str \<Rightarrow> str \<Rightarrow> 'w client \<Rightarrow> (syno_error + unit) \<times> 'w client" where
  "reject_upload E full_path why =
     (let msg = lit ''upload verification failed for '' @ full_path @ lit '': '' @ why in
      let_op (delete E full_path) (\<lambda>_. give (Inl (SynoIo msg))))"

text \<open>The size that contradicts the one expected, confirmed after a pause, if there is one.\<close>

definition wrong_size :: "'w env \<Rightarrow> str \<Rightarrow> u64 \<Rightarrow> 'w client \<Rightarrow> u64 option \<times> 'w client" where
  "wrong_size E full_path whole =
     let_op (landed_size E full_path) (\<lambda>landed.
       if landed \<noteq> None \<and> landed \<noteq> Some whole then
         let_op (sleep E VERIFY_SETTLE_DELAY) (\<lambda>_.
         let_op (landed_size E full_path) (\<lambda>again.
           give (if again = Some whole then None else again)))
       else give None)"

definition check_md5 ::
  "'w env \<Rightarrow> str \<Rightarrow> str \<Rightarrow> 'w client \<Rightarrow> ((syno_error + unit) \<times> 'w client) option" where
  "check_md5 E full_path local_path =
     let_run (md5 E full_path) (\<lambda>r. total_op (case r of
       Inl (ApiError _) \<Rightarrow> give (Inr ())
     | Inl e \<Rightarrow>
         give (Inl (SynoIo (lit ''upload of '' @ full_path @ lit '' could not be verified after a resend: '' @
           syno_text e)))
     | Inr remote \<Rightarrow>
         try_op (in_world (fs_md5 (env_files E) local_path)) (\<lambda>local_md5.
           if \<not> eq_ignore_ascii_case remote local_md5
           then reject_upload E full_path (lit ''md5 '' @ remote @ lit '' != '' @ local_md5)
           else give (Inr ()))))"

definition verify_upload ::
  "'w env \<Rightarrow> str \<Rightarrow> str \<Rightarrow> u64 \<Rightarrow> bool \<Rightarrow> 'w client \<Rightarrow> ((syno_error + unit) \<times> 'w client) option" where
  "verify_upload E full_path local_path whole hash_it =
     let_run (total_op (wrong_size E full_path whole)) (\<lambda>wrong. case wrong of
       Some landed \<Rightarrow>
         total_op (reject_upload E full_path
           (lit ''landed as '' @ show_nat (unat landed) @ lit '' bytes, expected '' @ show_nat (unat whole)))
     | None \<Rightarrow> if \<not> hash_it then total_op (give (Inr ())) else check_md5 E full_path local_path)"

end
