(* ===== verification/Upload.thy ===== *)
theory Upload
  imports Verify
begin

text \<open>
  Writing file content (\<open>client/upload.rs\<close>): the one-shot upload with its retries, the sliced upload
  with resends and restarts, the clearing of the ground both upload onto, and the length operation
  that is built on them. A sliced upload ends in a verification, so what contains it is partial.
\<close>

section \<open>Paths, deadlines and errors\<close>

text \<open>\<open>format!("{}/{}", folder_path.trim_end_matches('/'), filename)\<close>.\<close>

definition join_path :: "str \<Rightarrow> str \<Rightarrow> str" where
  "join_path folder filename = rev (dropWhile (\<lambda>b. b = 47) (rev folder)) @ [47] @ filename"

definition partial_was_rejected :: "syno_error \<Rightarrow> bool" where
  "partial_was_rejected err = (case err of ApiError code \<Rightarrow> dsm_code_to_category code = CatOther | _ \<Rightarrow> False)"

datatype slice_error = SliceFatal syno_error | SliceRetryable syno_error bool bool

datatype restart = AlreadyLanded | RestartReady

definition local_mtime_ms :: "'w env \<Rightarrow> str \<Rightarrow> 'w client \<Rightarrow> str option \<times> 'w client" where
  "local_mtime_ms E path =
     let_op (in_world (fs_modified_ms (env_files E) path)) (\<lambda>r.
       give (case r of Inr ms \<Rightarrow> Some (show_nat ms) | Inl _ \<Rightarrow> None))"

section \<open>Clearing the ground\<close>

fun wait_until_gone :: "'w env \<Rightarrow> str \<Rightarrow> nat \<Rightarrow> 'w client \<Rightarrow> unit \<times> 'w client" where
  "wait_until_gone E full_path 0 = give ()"
| "wait_until_gone E full_path (Suc polls) =
     let_op (get_info E full_path) (\<lambda>r. case r of
       Inr _ \<Rightarrow> let_op (sleep E (millis 50)) (\<lambda>_. wait_until_gone E full_path polls)
     | Inl _ \<Rightarrow> give ())"

definition clear_for_overwrite :: "'w env \<Rightarrow> str \<Rightarrow> str \<Rightarrow> 'w client \<Rightarrow> unit \<times> 'w client" where
  "clear_for_overwrite E folder_path filename =
     (let full_path = join_path folder_path filename in
      let_op (delete E full_path) (\<lambda>_. wait_until_gone E full_path 10))"

section \<open>The one-shot upload\<close>

definition octet_file :: "str \<Rightarrow> bytes \<Rightarrow> multipart_file" where
  "octet_file filename data = \<lparr>mf_name = filename, mf_mime = lit ''application/octet-stream'', mf_bytes = data\<rparr>"

definition upload_fields :: "str \<Rightarrow> nat \<Rightarrow> (str \<times> str) list" where
  "upload_fields folder_path len =
     [(lit ''api'', lit ''SYNO.FileStation.Upload''), (lit ''version'', lit ''3''),
      (lit ''method'', lit ''upload''), (lit ''path'', folder_path), (lit ''create_parents'', lit ''true''),
      (lit ''size'', show_nat len), (lit ''overwrite'', lit ''false'')]"

definition mtime_fields :: "str option \<Rightarrow> (str \<times> str) list" where
  "mtime_fields mtime_ms = (case mtime_ms of None \<Rightarrow> [] | Some ms \<Rightarrow> [(lit ''mtime'', ms)])"

definition upload_request :: "'w client \<Rightarrow> str \<Rightarrow> str \<Rightarrow> bytes \<Rightarrow> str option \<Rightarrow> http_request" where
  "upload_request c folder_path filename data mtime_ms =
     (attach_session c ((http_get (entry_cgi c) [])\<lparr>rq_transfer := True, rq_method := HttpPost\<rparr>))
       \<lparr>rq_timeout := Some (deadline_for_bytes (cl_upload_deadline c) (of_nat (length data))),
        rq_body := Multipart (upload_fields folder_path (length data)) (octet_file filename data) (mtime_fields mtime_ms)\<rparr>"

datatype upload_outcome = UploadText str | UploadRetry syno_error | UploadFatal syno_error

definition upload_outcome :: "'w env \<Rightarrow> http_reply \<Rightarrow> upload_outcome" where
  "upload_outcome E reply =
     (case reply of
        Inl e \<Rightarrow> UploadRetry (from_http_error e)
      | Inr resp \<Rightarrow>
          if is_success (ha_status resp) then
            (case answer_text E resp of Inr t \<Rightarrow> UploadText t | Inl e \<Rightarrow> UploadRetry e)
          else
            (let err = SynoIo (lit ''upload HTTP '' @ env_status_text E (ha_status resp))
             in if http_status_is_transient (ha_status resp) then UploadRetry err else UploadFatal err))"

definition upload_parsed :: "'w env \<Rightarrow> str \<Rightarrow> syno_error + unit" where
  "upload_parsed E text =
     bindE (response (lit ''upload'') (js_upload (env_json E) text)) (\<lambda>resp. when_success resp (\<lambda>_. Inr ()))"

fun upload_attempts ::
  "'w env \<Rightarrow> str \<Rightarrow> str \<Rightarrow> bytes \<Rightarrow> bool \<Rightarrow> str option \<Rightarrow> nat list \<Rightarrow> syno_error \<Rightarrow> 'w client \<Rightarrow>
     (syno_error + unit) \<times> 'w client" where
  "upload_attempts E folder_path filename data overwrite mtime_ms [] last_err = give (Inl last_err)"
| "upload_attempts E folder_path filename data overwrite mtime_ms (attempt # rest) last_err =
     let_op (when_op overwrite (clear_for_overwrite E folder_path filename)) (\<lambda>_.
     let_op (holding_slot E
         (let_op (get_op (\<lambda>c. upload_request c folder_path filename data mtime_ms)) (\<lambda>rq.
          let_op (send E rq) (\<lambda>reply. give (upload_outcome E reply))))) (\<lambda>outcome. case outcome of
       UploadText text \<Rightarrow> give (upload_parsed E text)
     | UploadFatal e \<Rightarrow> give (Inl e)
     | UploadRetry e \<Rightarrow>
         let_op (when_op (rest \<noteq> []) (backoff_before_retry E attempt False)) (\<lambda>_.
           upload_attempts E folder_path filename data overwrite mtime_ms rest e)))"

definition http_upload ::
  "'w env \<Rightarrow> str \<Rightarrow> str \<Rightarrow> bytes \<Rightarrow> bool \<Rightarrow> str option \<Rightarrow> 'w client \<Rightarrow> (syno_error + unit) \<times> 'w client" where
  "http_upload E folder_path filename data overwrite mtime_ms =
     let_op (get_op max_transfer_attempts) (\<lambda>max_attempts.
       upload_attempts E folder_path filename data overwrite mtime_ms [0..<max_attempts]
         (SynoIo (lit ''no attempts'')))"

definition upload ::
  "'w env \<Rightarrow> str \<Rightarrow> str \<Rightarrow> bytes \<Rightarrow> bool \<Rightarrow> 'w client \<Rightarrow> (syno_error + unit) \<times> 'w client" where
  "upload E folder_path filename data overwrite c =
     (if overwrite \<and> cl_write_transports c \<noteq> [] then
        or_http (via_write E (\<lambda>t. wt_write t (join_path folder_path filename) data))
          (http_upload E folder_path filename data overwrite None) c
      else http_upload E folder_path filename data overwrite None c)"

section \<open>One slice\<close>

definition slice_fields :: "str \<Rightarrow> str option \<Rightarrow> (str \<times> str) list" where
  "slice_fields folder_path mtime_ms =
     [(lit ''overwrite'', lit ''false''), (lit ''create_parents'', lit ''true''), (lit ''path'', folder_path)] @
     (case mtime_ms of None \<Rightarrow> [] | Some ms \<Rightarrow> [(lit ''mtime'', ms)])"

definition slice_headers :: "u64 \<Rightarrow> bool \<Rightarrow> str option \<Rightarrow> (str \<times> str) list" where
  "slice_headers whole final tmpfile =
     [(lit ''X-TYPE-NAME'', lit ''SLICEUPLOAD''), (lit ''X-FILE-SIZE'', show_nat (unat whole)),
      (lit ''X-FILE-CHUNK-END'', if final then lit ''true'' else lit ''false'')] @
     (case tmpfile of None \<Rightarrow> [] | Some t \<Rightarrow> [(lit ''X-TMP-FILE'', t)])"

definition slice_request ::
  "'w client \<Rightarrow> str \<Rightarrow> str \<Rightarrow> bytes \<Rightarrow> u64 \<Rightarrow> bool \<Rightarrow> str option \<Rightarrow> str option \<Rightarrow> http_request" where
  "slice_request c folder_path filename chunk whole final tmpfile mtime_ms =
     (let rq = attach_session c ((http_get (entry_cgi c)
            [(lit ''api'', lit ''SYNO.FileStation.Upload''), (lit ''method'', lit ''upload''),
             (lit ''version'', lit ''2'')])\<lparr>rq_transfer := True, rq_method := HttpPost\<rparr>)
      in rq\<lparr>rq_timeout := Some (deadline_for_bytes (cl_upload_deadline c) (of_nat (length chunk))),
            rq_headers := rq_headers rq @ slice_headers whole final tmpfile,
            rq_body := Multipart (slice_fields folder_path mtime_ms) (octet_file filename chunk) []\<rparr>)"

definition slice_parsed :: "'w env \<Rightarrow> str \<Rightarrow> slice_error + upload_data syno_response" where
  "slice_parsed E text =
     (case response (lit ''slice upload'') (js_upload (env_json E) text) of
        Inl e \<Rightarrow> Inl (SliceFatal e)
      | Inr parsed \<Rightarrow>
          if \<not> rs_success parsed then
            (let code = error_code parsed
             in if dsm_code_to_category code = CatBusy then Inl (SliceRetryable (ApiError code) True True)
                else Inl (SliceFatal (ApiError code)))
          else Inr parsed)"

definition slice_outcome :: "'w env \<Rightarrow> http_reply \<Rightarrow> slice_error + upload_data syno_response" where
  "slice_outcome E reply =
     (case reply of
        Inl e \<Rightarrow> Inl (SliceRetryable (from_http_error e) (\<not> he_is_connect e) False)
      | Inr resp \<Rightarrow>
          if \<not> is_success (ha_status resp) then
            (let err = SynoIo (lit ''slice upload HTTP '' @ env_status_text E (ha_status resp))
             in if http_status_is_transient (ha_status resp) then Inl (SliceRetryable err True False)
                else Inl (SliceFatal err))
          else (case answer_text E resp of
              Inl e \<Rightarrow> Inl (SliceRetryable e True False)
            | Inr text \<Rightarrow> slice_parsed E text))"

definition send_slice ::
  "'w env \<Rightarrow> str \<Rightarrow> str \<Rightarrow> bytes \<Rightarrow> u64 \<Rightarrow> bool \<Rightarrow> str option \<Rightarrow> str option \<Rightarrow> 'w client \<Rightarrow>
     (slice_error + upload_data syno_response) \<times> 'w client" where
  "send_slice E folder_path filename chunk whole final tmpfile mtime_ms =
     let_op (get_op (\<lambda>c. slice_request c folder_path filename chunk whole final tmpfile mtime_ms)) (\<lambda>rq.
       holding_slot E (let_op (send E rq) (\<lambda>reply. give (slice_outcome E reply))))"

section \<open>A file in slices\<close>

text \<open>The variables of \<open>http_slice_upload\<close> that do not change once the upload has begun.\<close>

record 'w slice_job =
  sj_local :: str
  sj_folder :: str
  sj_filename :: str
  sj_whole :: u64
  sj_slice_size :: nat
  sj_mtime_ms :: "str option"
  sj_max_attempts :: nat
  sj_progress :: "(u64 \<Rightarrow> u64 \<Rightarrow> 'w \<Rightarrow> unit \<times> 'w) option"

definition slice_count :: "u64 \<Rightarrow> nat \<Rightarrow> nat" where
  "slice_count whole slice_size = max ((unat whole + slice_size - 1) div slice_size) 1"

definition slice_len :: "'w slice_job \<Rightarrow> nat \<Rightarrow> nat" where
  "slice_len J index = min (sj_slice_size J) (unat (sj_whole J) - index * sj_slice_size J)"

definition is_last_slice :: "'w slice_job \<Rightarrow> nat \<Rightarrow> bool" where
  "is_last_slice J index \<longleftrightarrow> index + 1 = slice_count (sj_whole J) (sj_slice_size J)"

text \<open>
  The attempts to send one slice, from \<open>attempt\<close> on: it was taken, and whether some resend may have
  doubled it; the server has disowned the partial file; or the upload has failed.
\<close>

datatype slice_end = SliceTaken "upload_data syno_response" bool | PartialRejected syno_error | SliceFailed syno_error

function slice_attempts ::
  "'w env \<Rightarrow> 'w slice_job \<Rightarrow> bytes \<Rightarrow> bool \<Rightarrow> str option \<Rightarrow> nat \<Rightarrow> nat \<Rightarrow> bool \<Rightarrow> 'w client \<Rightarrow> slice_end \<times> 'w client" where
  "slice_attempts E J chunk final tmpfile restarts attempt unverified =
     let_op (send_slice E (sj_folder J) (sj_filename J) chunk (sj_whole J) final tmpfile (sj_mtime_ms J)) (\<lambda>r.
     case r of
       Inr parsed \<Rightarrow> give (SliceTaken parsed unverified)
     | Inl (SliceFatal e) \<Rightarrow>
         give (if tmpfile = None \<or> \<not> partial_was_rejected e \<or> restarts + 1 \<ge> sj_max_attempts J
               then SliceFailed e else PartialRejected e)
     | Inl (SliceRetryable err may_have_landed hard) \<Rightarrow>
         if attempt + 1 \<ge> sj_max_attempts J then give (SliceFailed err)
         else
           let_op (backoff_before_retry E attempt hard) (\<lambda>_.
             slice_attempts E J chunk final tmpfile restarts (attempt + 1)
               (unverified \<or> may_have_landed \<and> tmpfile \<noteq> None)))"
  by pat_completeness auto
termination
  by (relation "measure (\<lambda>(E, J, chunk, final, tmpfile, restarts, attempt, unverified). sj_max_attempts J - attempt)") auto

declare slice_attempts.simps [simp del]

definition report_progress :: "'w slice_job \<Rightarrow> nat \<Rightarrow> 'w client \<Rightarrow> unit \<times> 'w client" where
  "report_progress J index =
     (case sj_progress J of
        None \<Rightarrow> give ()
      | Some p \<Rightarrow> in_world (p (of_nat (index * sj_slice_size J + slice_len J index)) (sj_whole J)))"

text \<open>The handle the next slice is appended to.\<close>

definition next_tmpfile :: "upload_data syno_response \<Rightarrow> str option" where
  "next_tmpfile parsed =
     Option.bind (Option.bind (rs_data parsed) up_tmpfile) (\<lambda>t. if t = [] then None else Some t)"

text \<open>
  One slice of a pass: read, sent, and the handle for the next one; or how the pass ends with it.
\<close>

datatype pass_end = PassDone bool | PassRejected syno_error | PassFailed syno_error

definition slice_step ::
  "'w env \<Rightarrow> 'w slice_job \<Rightarrow> nat \<Rightarrow> nat \<Rightarrow> str option \<Rightarrow> bool \<Rightarrow> 'w client \<Rightarrow>
     (pass_end + str option \<times> bool) \<times> 'w client" where
  "slice_step E J restarts index tmpfile unverified =
     let_op (in_world (fs_read_exact (env_files E) (sj_local J) (slice_len J index))) (\<lambda>got. case got of
       Inl e \<Rightarrow>
         give (Inl (PassFailed (SynoIo (lit ''slice upload: read slice '' @ show_nat index @ lit '' failed: '' @ e))))
     | Inr chunk \<Rightarrow>
         let_op (slice_attempts E J chunk (is_last_slice J index) tmpfile restarts 0 unverified) (\<lambda>r. case r of
           SliceFailed e \<Rightarrow> give (Inl (PassFailed e))
         | PartialRejected e \<Rightarrow> give (Inl (PassRejected e))
         | SliceTaken parsed unverified \<Rightarrow>
             let_op (report_progress J index) (\<lambda>_. give (
               if is_last_slice J index then Inr (tmpfile, unverified)
               else case next_tmpfile parsed of
                 Some t \<Rightarrow> Inr (Some t, unverified)
               | None \<Rightarrow>
                   Inl (PassFailed (SynoIo (lit ''slice upload: server returned no tmpfile after slice '' @
                     show_nat index)))))))"

text \<open>One pass over the slices with these indices.\<close>

fun slice_pass ::
  "'w env \<Rightarrow> 'w slice_job \<Rightarrow> nat \<Rightarrow> nat list \<Rightarrow> str option \<Rightarrow> bool \<Rightarrow> 'w client \<Rightarrow> pass_end \<times> 'w client" where
  "slice_pass E J restarts [] tmpfile unverified = give (PassDone unverified)"
| "slice_pass E J restarts (index # rest) tmpfile unverified =
     let_op (slice_step E J restarts index tmpfile unverified) (\<lambda>r. case r of
       Inl e \<Rightarrow> give e
     | Inr (t, u) \<Rightarrow> slice_pass E J restarts rest t u)"

definition restart_slice_upload :: "'w env \<Rightarrow> 'w slice_job \<Rightarrow> 'w client \<Rightarrow> (syno_error + restart) \<times> 'w client" where
  "restart_slice_upload E J =
     let_op (get_info E (join_path (sj_folder J) (sj_filename J))) (\<lambda>r.
     let landed = (case r of Inr info \<Rightarrow> info_size info | Inl _ \<Rightarrow> None) in
       if landed = Some (sj_whole J) then give (Inr AlreadyLanded)
       else
         let_op (clear_for_overwrite E (sj_folder J) (sj_filename J)) (\<lambda>_.
         try_op (local_io (\<lambda>e. lit ''slice upload: rewind for restart failed: '' @ e)
             (fs_rewind (env_files E) (sj_local J))) (\<lambda>_.
         give (Inr RestartReady))))"

text \<open>The passes, until one is done, fails, or no restart is left; whether a resend went unverified.\<close>

function slice_passes ::
  "'w env \<Rightarrow> 'w slice_job \<Rightarrow> nat \<Rightarrow> 'w client \<Rightarrow> (syno_error + bool) \<times> 'w client" where
  "slice_passes E J restarts =
     let_op (slice_pass E J restarts [0..<slice_count (sj_whole J) (sj_slice_size J)] None False) (\<lambda>r. case r of
       PassDone unverified \<Rightarrow> give (Inr unverified)
     | PassFailed e \<Rightarrow> give (Inl e)
     | PassRejected e \<Rightarrow>
         if restarts + 1 \<ge> sj_max_attempts J then give (Inl e)
         else
           try_op (restart_slice_upload E J) (\<lambda>found. case found of
             AlreadyLanded \<Rightarrow> give (Inr True)
           | RestartReady \<Rightarrow> slice_passes E J (restarts + 1)))"
  by pat_completeness auto
termination
  by (relation "measure (\<lambda>(E, J, restarts). sj_max_attempts J - restarts)") auto

declare slice_passes.simps [simp del]

text \<open>\<open>http_slice_upload\<close> up to its verification.\<close>

definition send_slices ::
  "'w env \<Rightarrow> str \<Rightarrow> str \<Rightarrow> str \<Rightarrow> u64 \<Rightarrow> bool \<Rightarrow> (u64 \<Rightarrow> u64 \<Rightarrow> 'w \<Rightarrow> unit \<times> 'w) option \<Rightarrow> 'w client \<Rightarrow>
     (syno_error + bool) \<times> 'w client" where
  "send_slices E local_path folder_path filename whole overwrite progress =
     let_op (when_op overwrite (clear_for_overwrite E folder_path filename)) (\<lambda>_.
     let_op (local_mtime_ms E local_path) (\<lambda>mtime_ms.
     try_op (local_io (\<lambda>e. lit ''slice upload: open '' @ local_path @ lit '' failed: '' @ e)
         (fs_open (env_files E) local_path)) (\<lambda>_.
     let_op (get_op (\<lambda>c. (cl_slice_size c, max_transfer_attempts c))) (\<lambda>(slice_size, max_attempts).
       slice_passes E
         \<lparr>sj_local = local_path, sj_folder = folder_path, sj_filename = filename, sj_whole = whole,
          sj_slice_size = slice_size, sj_mtime_ms = mtime_ms, sj_max_attempts = max_attempts,
          sj_progress = progress\<rparr> 0))))"

definition http_slice_upload ::
  "'w env \<Rightarrow> str \<Rightarrow> str \<Rightarrow> str \<Rightarrow> u64 \<Rightarrow> bool \<Rightarrow> (u64 \<Rightarrow> u64 \<Rightarrow> 'w \<Rightarrow> unit \<times> 'w) option \<Rightarrow> 'w client \<Rightarrow>
     ((syno_error + unit) \<times> 'w client) option" where
  "http_slice_upload E local_path folder_path filename whole overwrite progress =
     let_run (total_op (send_slices E local_path folder_path filename whole overwrite progress)) (\<lambda>r. case r of
         Inl e \<Rightarrow> total_op (give (Inl e))
       | Inr unverified \<Rightarrow> verify_upload E (join_path folder_path filename) local_path whole unverified)"

section \<open>A file from a path\<close>

definition http_upload_from_path ::
  "'w env \<Rightarrow> str \<Rightarrow> str \<Rightarrow> str \<Rightarrow> bool \<Rightarrow> (u64 \<Rightarrow> u64 \<Rightarrow> 'w \<Rightarrow> unit \<times> 'w) option \<Rightarrow> 'w client \<Rightarrow>
     ((syno_error + unit) \<times> 'w client) option" where
  "http_upload_from_path E local_path folder_path filename overwrite progress =
     try_run (total_op (local_io (\<lambda>e. lit ''upload_from_path: stat '' @ local_path @ lit '' failed: '' @ e)
         (fs_len (env_files E) local_path))) (\<lambda>len.
     let_run (total_op (get_op cl_slice_size)) (\<lambda>slice_size.
       if slice_size < unat len
       then http_slice_upload E local_path folder_path filename len overwrite progress
       else total_op (
         try_op (local_io (\<lambda>e. lit ''upload_from_path: read '' @ local_path @ lit '' failed: '' @ e)
             (fs_read (env_files E) local_path)) (\<lambda>data.
         let_op (local_mtime_ms E local_path) (\<lambda>mtime_ms.
         try_op (http_upload E folder_path filename data overwrite mtime_ms) (\<lambda>_.
         let_op (case progress of None \<Rightarrow> give () | Some p \<Rightarrow> in_world (p len len)) (\<lambda>_.
           give (Inr ()))))))))"

definition upload_from_path_with_progress ::
  "'w env \<Rightarrow> str \<Rightarrow> str \<Rightarrow> str \<Rightarrow> bool \<Rightarrow> (u64 \<Rightarrow> u64 \<Rightarrow> 'w \<Rightarrow> unit \<times> 'w) option \<Rightarrow> 'w client \<Rightarrow>
     ((syno_error + unit) \<times> 'w client) option" where
  "upload_from_path_with_progress E local_path folder_path filename overwrite progress =
     (let full_path = join_path folder_path filename in
      let_run (total_op (via_stream_write E (\<lambda>t.
          if overwrite then sw_write_from_path t full_path local_path
          else sw_write_new_from_path t full_path local_path))) (\<lambda>r. case r of
        Some answer \<Rightarrow> total_op (give answer)
      | None \<Rightarrow> http_upload_from_path E local_path folder_path filename overwrite progress))"

definition upload_from_path ::
  "'w env \<Rightarrow> str \<Rightarrow> str \<Rightarrow> str \<Rightarrow> bool \<Rightarrow> 'w client \<Rightarrow> ((syno_error + unit) \<times> 'w client) option" where
  "upload_from_path E local_path folder_path filename overwrite =
     upload_from_path_with_progress E local_path folder_path filename overwrite None"

section \<open>The length of a file\<close>

text \<open>\<open>Vec::resize(len, 0)\<close>.\<close>

definition resized :: "nat \<Rightarrow> bytes \<Rightarrow> bytes" where
  "resized n bs = take n bs @ replicate (n - length bs) 0"

definition http_truncate :: "'w env \<Rightarrow> str \<Rightarrow> u64 \<Rightarrow> 'w client \<Rightarrow> (syno_error + unit) \<times> 'w client" where
  "http_truncate E path new_size =
     (case split_parent path of
        None \<Rightarrow> give (Inl SynoInvalidArg)
      | Some (parent, filename) \<Rightarrow>
          try_op (if new_size = 0 then give (Inr [])
            else
              let_op (get_info E path) (\<lambda>r.
              let current = (case r of Inr info \<Rightarrow> info_size info | Inl _ \<Rightarrow> None);
                  want = (case current of Some len \<Rightarrow> if len > new_size then new_size else 0 | None \<Rightarrow> 0) in
              try_op (download E path 0 want) (\<lambda>data. give (Inr (resized (unat new_size) data)))))
            (\<lambda>data. upload E parent filename data True))"

definition truncate :: "'w env \<Rightarrow> str \<Rightarrow> u64 \<Rightarrow> 'w client \<Rightarrow> (syno_error + unit) \<times> 'w client" where
  "truncate E path new_size = or_http (via_metadata E (\<lambda>t. mt_truncate t path new_size)) (http_truncate E path new_size)"

end
