(* ===== verification/Moves.thy ===== *)
theory Moves
  imports Upload
begin

text \<open>
  Moving a file or folder without its bytes leaving the NAS (\<open>client/moves.rs\<close>): what may be replaced,
  the rename in place that precedes a move with a new name, and the CopyMove task. The wait for the
  task is partial.
\<close>

definition MOVE_POLL_INTERVAL :: duration where
  "MOVE_POLL_INTERVAL = millis 500"

definition MOVE_MAX_WAIT :: duration where
  "MOVE_MAX_WAIT = secs (60 * 60)"

definition NEVER_STARTED :: "u32 list" where
  "NEVER_STARTED = [101, 102, 103, 104]"

record move_failure =
  mf_error :: syno_error
  mf_nothing_ran :: bool

definition has_entries :: "'w env \<Rightarrow> str \<Rightarrow> 'w client \<Rightarrow> (syno_error + bool) \<times> 'w client" where
  "has_entries E path =
     try_op (call_entry E
       [(lit ''api'', lit ''SYNO.FileStation.List''), (lit ''version'', lit ''2''), (lit ''method'', lit ''list''),
        (lit ''folder_path'', path), (lit ''limit'', lit ''1''), (lit ''offset'', lit ''0'')]) (\<lambda>text.
     try_op (give (response (lit ''move: list'') (js_list (env_json E) text))) (\<lambda>resp.
       give (when_success resp
         (\<lambda>data. Inr (case data of None \<Rightarrow> False | Some d \<Rightarrow> ld_files d \<noteq> [])))))"

text \<open>The errors by which DSM says that it shows nothing at a path.\<close>

definition not_shown :: "syno_error \<Rightarrow> bool" where
  "not_shown e \<longleftrightarrow> e \<in> {SynoNotFound, ApiError 408, ApiError 414}"

definition destination_at :: "'w env \<Rightarrow> str \<Rightarrow> 'w client \<Rightarrow> (syno_error + destination) \<times> 'w client" where
  "destination_at E path =
     let_op (get_info E path) (\<lambda>r. case r of
       Inr info \<Rightarrow>
         if fi_isdir info then try_op (has_entries E path) (\<lambda>entries. give (Inr (DestDir (\<not> entries))))
         else give (Inr DestFile)
     | Inl e \<Rightarrow> if not_shown e then give (Inr DestAbsent) else give (Inl e))"

definition copymove_params :: "json \<Rightarrow> str \<Rightarrow> str \<Rightarrow> bool \<Rightarrow> (str \<times> str) list" where
  "copymove_params J path dest_dir overwrite =
     [(lit ''api'', lit ''SYNO.FileStation.CopyMove''), (lit ''version'', lit ''3''),
      (lit ''method'', lit ''start''), (lit ''path'', quote_list J path),
      (lit ''dest_folder_path'', js_quote J dest_dir), (lit ''remove_src'', lit ''true'')] @
     (if overwrite then [(lit ''overwrite'', lit ''true'')] else [])"

definition started_task :: "move_start_data syno_response \<Rightarrow> syno_error + str" where
  "started_task started =
     (if \<not> rs_success started then
        (let code = error_code started
         in Inl (if code \<in> set NEVER_STARTED then SynoNotSupported else ApiError code))
      else ok_or (map_option mv_taskid (rs_data started)) (SynoIo (lit ''move start returned no taskid'')))"

definition copymove_start ::
  "'w env \<Rightarrow> str \<Rightarrow> str \<Rightarrow> bool \<Rightarrow> 'w client \<Rightarrow> (syno_error + str) \<times> 'w client" where
  "copymove_start E path dest_dir overwrite =
     let_op (get_op entry_cgi) (\<lambda>url.
     try_op (get_text_once E url (copymove_params (env_json E) path dest_dir overwrite)) (\<lambda>text.
     try_op (give (response (lit ''move start'') (js_move_start (env_json E) text))) (\<lambda>started.
       give (started_task started))))"

text \<open>What a status answer says: \<open>None\<close> to go on waiting, or how the task ended.\<close>

definition move_progress :: "move_status_data syno_response \<Rightarrow> (syno_error + unit) option" where
  "move_progress resp =
     (if \<not> rs_success resp then Some (Inl (ApiError (error_code resp)))
      else case rs_data resp of
        None \<Rightarrow> None
      | Some data \<Rightarrow>
          if mv_finished data then
            Some (case mv_error data of
                Some e \<Rightarrow> Inl (ApiError (if ae_code e = 0 then 1001 else ae_code e))
              | None \<Rightarrow> Inr ())
          else None)"

definition ran :: "syno_error \<Rightarrow> move_failure" where
  "ran e = \<lparr>mf_error = e, mf_nothing_ran = False\<rparr>"

definition status_params :: "json \<Rightarrow> str \<Rightarrow> (str \<times> str) list" where
  "status_params J taskid =
     [(lit ''api'', lit ''SYNO.FileStation.CopyMove''), (lit ''version'', lit ''3''),
      (lit ''method'', lit ''status''), (lit ''taskid'', task_param J taskid)]"

partial_function (option) copymove_wait ::
  "'w env \<Rightarrow> str \<Rightarrow> str \<Rightarrow> instant \<Rightarrow> 'w client \<Rightarrow> ((move_failure + unit) \<times> 'w client) option" where
  "copymove_wait E path taskid deadline c =
     try_run (total_op (let_op (call_entry E (status_params (env_json E) taskid)) (\<lambda>r. give (map_err ran r)))) (\<lambda>text.
     try_run (total_op (give (map_err ran (response (lit ''move status'') (js_move_status (env_json E) text))))) (\<lambda>resp c.
       case move_progress resp of
         Some r \<Rightarrow> Some (map_err ran r, c)
       | None \<Rightarrow>
           let_run (total_op (now E)) (\<lambda>t c.
             if deadline - t = 0 then
               Some (Inl (ran (SynoIo (lit ''move of '' @ path @
                 lit '' is still running on the NAS; it was left to finish''))), c)
             else let_run (total_op (sleep E (min MOVE_POLL_INTERVAL (deadline - t)))) (\<lambda>_ c.
               copymove_wait E path taskid deadline c) c) c)) c"

text \<open>A refusal that DSM answered means the task never started; a lost answer, that it may have.\<close>

definition start_failure :: "syno_error \<Rightarrow> move_failure" where
  "start_failure e = \<lparr>mf_error = e, mf_nothing_ran = (case e of SynoIo _ \<Rightarrow> False | _ \<Rightarrow> True)\<rparr>"

definition copymove ::
  "'w env \<Rightarrow> str \<Rightarrow> str \<Rightarrow> bool \<Rightarrow> instant \<Rightarrow> 'w client \<Rightarrow> ((move_failure + unit) \<times> 'w client) option" where
  "copymove E path dest_dir overwrite deadline =
     let_run (total_op (acquire_transfer_slot E)) (\<lambda>held.
     let_run (let_run (total_op (copymove_start E path dest_dir overwrite)) (\<lambda>started. case started of
         Inl e \<Rightarrow> total_op (give (Inl (start_failure e)))
       | Inr taskid \<Rightarrow> copymove_wait E path taskid deadline))
       (\<lambda>r. let_run (total_op (drop_slot E held)) (\<lambda>_. total_op (give r))))"

text \<open>
  The rename in place: nothing to do for the same name, the new path, or why the move is off. DSM's
  Rename never overwrites.
\<close>

definition rename_in_place ::
  "'w env \<Rightarrow> str \<Rightarrow> str \<Rightarrow> str \<Rightarrow> str \<Rightarrow> 'w client \<Rightarrow> (syno_error + str option) \<times> 'w client" where
  "rename_in_place E old_path src_dir old_name new_name =
     (if old_name = new_name then give (Inr None)
      else let_op (rename E old_path new_name) (\<lambda>r. give (case r of
          Inr _ \<Rightarrow> Inr (Some (src_dir @ lit ''/'' @ new_name))
        | Inl e \<Rightarrow> if category e = CatPermissionDenied then Inl e else Inl SynoNotSupported)))"

definition move_outcome ::
  "'w env \<Rightarrow> str \<Rightarrow> str \<Rightarrow> str \<Rightarrow> move_plan \<Rightarrow> instant \<Rightarrow> 'w client \<Rightarrow>
     ((move_failure + unit) \<times> 'w client) option" where
  "move_outcome E moving new_path dest_dir plan deadline =
     try_run (total_op (
       if plan = ReplaceEmptyDir then
         let_op (delete E new_path) (\<lambda>r. give (map_err (\<lambda>e. \<lparr>mf_error = e, mf_nothing_ran = True\<rparr>) r))
       else give (Inr ()))) (\<lambda>_.
     copymove E moving dest_dir (plan = ReplaceFile) deadline)"

text \<open>Put the name back if nothing can have run.\<close>

definition put_back ::
  "'w env \<Rightarrow> str option \<Rightarrow> str \<Rightarrow> move_failure + unit \<Rightarrow> 'w client \<Rightarrow> (syno_error + unit) \<times> 'w client" where
  "put_back E renamed old_name outcome =
     (case outcome of
        Inr _ \<Rightarrow> give (Inr ())
      | Inl failure \<Rightarrow>
          let_op (case renamed of
              Some path \<Rightarrow> when_op (mf_nothing_ran failure) (let_op (rename E path old_name) (\<lambda>_. give ()))
            | None \<Rightarrow> give ()) (\<lambda>_.
          give (Inl (mf_error failure))))"

definition http_move_within ::
  "'w env \<Rightarrow> str \<Rightarrow> str \<Rightarrow> duration \<Rightarrow> 'w client \<Rightarrow> ((syno_error + unit) \<times> 'w client) option" where
  "http_move_within E old_path new_path max_wait =
     let_run (total_op (now E)) (\<lambda>t. let deadline = t + max_wait in
     case (split_parent old_path, split_parent new_path) of
       (Some (src_dir, old_name), Some (dest, new_name)) \<Rightarrow>
         let dest_dir = (if dest = [] then lit ''/'' else dest) in
         try_run (total_op (
           try_op (get_info E old_path) (\<lambda>source.
           try_op (destination_at E new_path) (\<lambda>there.
           try_op (give (plan_move (fi_isdir source) there)) (\<lambda>plan.
           try_op (rename_in_place E old_path src_dir old_name new_name) (\<lambda>renamed.
             give (Inr (plan, renamed)))))))) (\<lambda>(plan, renamed).
         let_run (move_outcome E (case renamed of Some path \<Rightarrow> path | None \<Rightarrow> old_path) new_path dest_dir plan deadline)
           (\<lambda>outcome. total_op (put_back E renamed old_name outcome)))
     | _ \<Rightarrow> total_op (give (Inl SynoInvalidArg)))"

definition move_within ::
  "'w env \<Rightarrow> str \<Rightarrow> str \<Rightarrow> duration \<Rightarrow> 'w client \<Rightarrow> ((syno_error + unit) \<times> 'w client) option" where
  "move_within E old_path new_path max_wait =
     let_run (total_op (via_metadata E (\<lambda>t. mt_move_to t old_path new_path))) (\<lambda>r. case r of
       Some answer \<Rightarrow> total_op (give answer)
     | None \<Rightarrow> http_move_within E old_path new_path max_wait)"

definition move_to :: "'w env \<Rightarrow> str \<Rightarrow> str \<Rightarrow> 'w client \<Rightarrow> ((syno_error + unit) \<times> 'w client) option" where
  "move_to E old_path new_path = move_within E old_path new_path MOVE_MAX_WAIT"

end
