(* ===== verification/World_Steps.thy ===== *)
theory World_Steps
  imports Moves
begin

text \<open>
  What holds of the world from the beginning to the end of every call the client makes, because each
  single thing it does to the world keeps it: \<open>world_steps\<close> states this once for any such relation.
  With the clock it says that the waits for the NAS's tasks end at their deadlines.
\<close>

section \<open>Relations kept by everything the client does\<close>

locale world_steps =
  fixes E :: "'w env" and R :: "'w \<Rightarrow> 'w \<Rightarrow> bool"
  assumes stays: "R w w"
    and onwards: "R w w' \<Longrightarrow> R w' w'' \<Longrightarrow> R w w''"
    and by_send: "R w (snd (env_send E rq w))"
    and by_now: "R w (snd (env_now E w))"
    and by_sleep: "R w (snd (env_sleep E d w))"
    and by_acquire: "R w (snd (env_acquire E w))"
    and by_release: "R w (snd (env_release E w))"
    and by_nanos: "R w (snd (env_nanos E w))"

text \<open>The client's slice size is a setting: no call changes it.\<close>

definition worldwide :: "('w \<Rightarrow> 'w \<Rightarrow> bool) \<Rightarrow> 'w client \<Rightarrow> 'w client \<Rightarrow> bool" where
  "worldwide R c c' \<longleftrightarrow> R (cl_world c) (cl_world c') \<and> cl_slice_size c' = cl_slice_size c"

lemma keeps_in_world: "(\<And>w. R w (snd (m w))) \<Longrightarrow> keeps (worldwide R) (in_world m)"
  by (simp add: keeps_def worldwide_def in_world_def split: prod.split) (metis snd_conv)

sublocale world_steps \<subseteq> kept "worldwide R"
  by unfold_locales (auto simp: worldwide_def intro: stays onwards)

context world_steps begin

lemma keeps_basic:
  "keeps (worldwide R) (send E rq)" "keeps (worldwide R) (sleep E d)" "keeps (worldwide R) (now E)"
  "keeps (worldwide R) (in_world (env_acquire E))" "keeps (worldwide R) (in_world (env_release E))"
  "keeps (worldwide R) (in_world (env_nanos E))"
  by (simp_all add: send_def sleep_def now_def keeps_in_world by_send by_now by_sleep by_acquire by_release by_nanos)

lemma keeps_settings:
  "(\<And>c. cl_world (f c) = cl_world c) \<Longrightarrow> (\<And>c. cl_slice_size (f c) = cl_slice_size c) \<Longrightarrow>
    keeps (worldwide R) (set_op f)"
  by (rule keeps_set) (simp add: worldwide_def stays)

lemma keeps_pointwise: "(\<And>c. worldwide R c (snd (m c))) \<Longrightarrow> keeps (worldwide R) m"
  by (simp add: keeps_def)

lemma keeps_attached: "keeps (worldwide R) (send_attached E rq)"
  using keeps_basic(1) by (simp add: keeps_def send_attached_def)

lemma keeps_texts: "keeps (worldwide R) (text_attempts E url params attempts e)"
  by (induction attempts arbitrary: e)
    (auto intro!: keeps_rules keeps_basic keeps_attached split: sum.split)

lemma keeps_get_text_retried: "keeps (worldwide R) (get_text_retried E url params)"
  unfolding get_text_retried_def by (rule keeps_texts)

lemma keeps_once_from: "keeps (worldwide R) (once_from E url params attempt)"
proof (induction "2 - attempt" arbitrary: attempt)
  case 0
  then show ?case
    by (subst once_from.simps) (auto intro!: keeps_rules keeps_attached split: sum.split)
next
  case (Suc n)
  then have "keeps (worldwide R) (once_from E url params (attempt + 1))" by simp
  then show ?case
    by (subst once_from.simps) (auto intro!: keeps_rules keeps_attached keeps_basic split: sum.split)
qed

lemma keeps_get_text_once: "keeps (worldwide R) (get_text_once E url params)"
  by (simp add: get_text_once_def keeps_once_from)

lemma keeps_call_entry: "keeps (worldwide R) (call_entry E params)"
  by (simp add: call_entry_def keeps_rules keeps_get_text_retried)

lemma keeps_slot: "keeps (worldwide R) (acquire_transfer_slot E)"
proof (rule keeps_pointwise)
  fix c
  have "keeps (worldwide R) (let_op (if 0 < th_min_interval t then
              let_op (now E) (\<lambda>at.
                let scheduled = max (th_next_earliest t) at; wait = scheduled - at in
                let_op (set_op (\<lambda>c. c\<lparr>cl_throttle := Some (t\<lparr>th_next_earliest := scheduled + th_min_interval t\<rparr>)\<rparr>)) (\<lambda>_.
                when_op (0 < wait) (sleep E wait)))
            else give ()) (\<lambda>_. let_op (in_world (env_acquire E)) (\<lambda>_. give True)))" for t
    unfolding Let_def by (auto intro!: keeps_rules keeps_settings keeps_basic)
  then show "worldwide R c (snd (acquire_transfer_slot E c))"
    by (auto simp: acquire_transfer_slot_def keeps_def same split: option.split)
qed

lemma keeps_drop_slot: "keeps (worldwide R) (drop_slot E held)"
  by (simp add: drop_slot_def keeps_rules keeps_basic)

lemma keeps_holding: "keeps (worldwide R) m \<Longrightarrow> keeps (worldwide R) (holding_slot E m)"
  unfolding holding_slot_def by (intro keeps_rules keeps_slot keeps_drop_slot)

lemma keeps_backoff: "keeps (worldwide R) (backoff_before_retry E attempt hard)"
proof (rule keeps_pointwise)
  fix c
  have "keeps (worldwide R) (let_op (full_jitter E cap) (\<lambda>delay. when_op (0 < delay) (sleep E delay)))" for cap
    unfolding full_jitter_def by (auto intro!: keeps_rules keeps_basic)
  then show "worldwide R c (snd (backoff_before_retry E attempt hard c))"
    by (auto simp: backoff_before_retry_def keeps_def same split: option.split)
qed

lemma keeps_probe: "keeps (worldwide R) (probe_session_transport E)"
  unfolding probe_session_transport_def by (intro keeps_rules keeps_settings keeps_attached) simp_all

lemma keeps_login: "keeps (worldwide R) (login E user password otp)"
  unfolding login_def by (auto intro!: keeps_rules keeps_settings keeps_basic keeps_probe)

lemma keeps_relogin: "keeps (worldwide R) (relogin E)"
  by (rule keeps_pointwise)
    (use keeps_login in \<open>auto simp: relogin_def keeps_def same split: option.split\<close>)

lemmas keeps_calls = keeps_rules keeps_settings keeps_basic keeps_attached keeps_get_text_retried
  keeps_get_text_once keeps_call_entry keeps_slot keeps_drop_slot keeps_holding keeps_backoff
  keeps_login keeps_relogin

lemma keeps_send_slice: "keeps (worldwide R) (send_slice E folder name chunk whole final tmpfile mtime)"
  unfolding send_slice_def by (intro keeps_calls)

lemma keeps_slice_attempts:
  "keeps (worldwide R) (slice_attempts E J chunk final tmpfile restarts attempt unverified)"
proof (induction "sj_max_attempts J - attempt" arbitrary: attempt unverified)
  case 0
  then show ?case
    by (subst slice_attempts.simps)
      (auto intro!: keeps_rules keeps_send_slice split: sum.split slice_error.split)
next
  case (Suc n)
  then have "n = sj_max_attempts J - (attempt + 1)" by simp
  from Suc.hyps(1) [OF this] show ?case
    by (subst slice_attempts.simps)
      (auto intro!: keeps_rules keeps_send_slice keeps_backoff split: sum.split slice_error.split)
qed

end

text \<open>With the relation that always holds this says what calls keep of the client in any world, backends included.\<close>

interpretation any_world: world_steps E "\<lambda>_ _. True" for E
  by unfold_locales simp_all

lemma keeps_offered: "keeps (worldwide (\<lambda>_ _. True)) (via_metadata E call)"
  by (simp add: keeps_def worldwide_def via_metadata_def split: prod.split)

lemma keeps_namespace:
  "keeps (worldwide (\<lambda>_ _. True)) (get_info E path)" "keeps (worldwide (\<lambda>_ _. True)) (delete E path)"
  unfolding get_info_def delete_def or_http_def http_get_info_def http_delete_def
  by (auto intro!: any_world.keeps_rules any_world.keeps_call_entry keeps_offered split: option.split)

lemma keeps_clearing: "keeps (worldwide (\<lambda>_ _. True)) (clear_for_overwrite E folder_path filename)"
proof -
  have "keeps (worldwide (\<lambda>_ _. True)) (wait_until_gone E full_path polls)" for full_path polls
    by (induction polls) (auto intro!: any_world.keeps_rules any_world.keeps_basic keeps_namespace split: sum.split)
  then show ?thesis
    by (auto simp: clear_for_overwrite_def Let_def intro!: any_world.keeps_rules keeps_namespace)
qed

lemma keeps_local: "keeps (worldwide (\<lambda>_ _. True)) (in_world f)"
  by (rule keeps_in_world) simp

section \<open>Waits end\<close>

text \<open>
  What the code relies on of the clock: it is read as it stands, it never goes back, and a sleep lasts
  at least as long as it was asked to.
\<close>

lemma deadline_nears:
  fixes deadline :: nat
  assumes "t0 \<le> t1" and "t1 \<le> t2" and "t2 + min poll (deadline - t1) \<le> t3" and "0 < poll" and "deadline - t1 \<noteq> 0"
  shows "deadline - t3 < deadline - t0"
  using assms by (cases "poll \<le> deadline - t1") auto

locale ticking = world_steps E "\<lambda>w w'. clock w \<le> clock w'"
  for E :: "'w env" and clock :: "'w \<Rightarrow> instant" +
  assumes reads_clock: "fst (env_now E w) = clock w"
    and sleeps: "clock w + d \<le> clock (snd (env_sleep E d w))"
begin

lemma after_sleep: "after (sleep E d) (\<lambda>_ c'. clock (cl_world c) + d \<le> clock (cl_world c')) c"
  using sleeps by (simp add: sleep_def after_in_world)

lemma after_now: "after (now E) (\<lambda>t c'. t = clock (cl_world c) \<and> t \<le> clock (cl_world c')) c"
  using reads_clock by_now by (simp add: now_def after_in_world)

lemma kept_clock: "keeps (worldwide (\<lambda>w w'. clock w \<le> clock w')) m \<Longrightarrow> m c = (a, c') \<Longrightarrow> clock (cl_world c) \<le> clock (cl_world c')"
  by (metis keepsD worldwide_def)

lemma md5_wait_returns: "\<exists>r c'. md5_wait E url path taskid limit c = Some (r, c')"
proof (induction "lim_at limit - clock (cl_world c)" arbitrary: c rule: less_induct)
  case less
  obtain got c1 where asked: "get_text_retried E url (task_params (env_json E) (lit ''status'') taskid) c = (got, c1)"
    by fastforce
  have later1: "clock (cl_world c) \<le> clock (cl_world c1)"
    using kept_clock [OF keeps_get_text_retried asked] .
  obtain t c2 where read: "now E c1 = (t, c2)" by fastforce
  have t: "t = clock (cl_world c1)" "clock (cl_world c1) \<le> clock (cl_world c2)"
    using afterD [OF after_now read] by auto
  let ?d = "min MD5_POLL_INTERVAL (lim_at limit - t)"
  obtain c3 where slept: "sleep E ?d c2 = ((), c3)" by (cases "sleep E ?d c2") simp
  have c3: "clock (cl_world c2) + ?d \<le> clock (cl_world c3)" using afterD [OF after_sleep slept] by simp
  have rest: "\<exists>r c'. md5_wait E url path taskid limit c3 = Some (r, c')" if "lim_at limit - t \<noteq> 0"
  proof (rule less)
    show "lim_at limit - clock (cl_world c3) < lim_at limit - clock (cl_world c)"
      using deadline_nears [OF later1 t(2)] c3 t(1) that by (simp add: MD5_POLL_INTERVAL_def secs_def)
  qed
  show ?case
    using asked read slept rest
    by (subst md5_wait.simps)
      (auto simp: try_run_def let_run_def total_op_def give_def split: sum.split option.split prod.split)
qed

lemma copymove_wait_returns: "\<exists>r c'. copymove_wait E path taskid deadline c = Some (r, c')"
proof (induction "deadline - clock (cl_world c)" arbitrary: c rule: less_induct)
  case less
  obtain got c1 where asked: "call_entry E (status_params (env_json E) taskid) c = (got, c1)" by fastforce
  have later1: "clock (cl_world c) \<le> clock (cl_world c1)"
    using kept_clock [OF keeps_call_entry asked] .
  obtain t c2 where read: "now E c1 = (t, c2)" by fastforce
  have t: "t = clock (cl_world c1)" "clock (cl_world c1) \<le> clock (cl_world c2)"
    using afterD [OF after_now read] by auto
  let ?d = "min MOVE_POLL_INTERVAL (deadline - t)"
  obtain c3 where slept: "sleep E ?d c2 = ((), c3)" by (cases "sleep E ?d c2") simp
  have c3: "clock (cl_world c2) + ?d \<le> clock (cl_world c3)" using afterD [OF after_sleep slept] by simp
  have rest: "\<exists>r c'. copymove_wait E path taskid deadline c3 = Some (r, c')" if "deadline - t \<noteq> 0"
  proof (rule less)
    show "deadline - clock (cl_world c3) < deadline - clock (cl_world c)"
      using deadline_nears [OF later1 t(2)] c3 t(1) that by (simp add: MOVE_POLL_INTERVAL_def millis_def)
  qed
  show ?case
    using asked read slept rest
    by (subst copymove_wait.simps)
      (auto simp: try_run_def let_run_def let_op_def total_op_def give_def split: sum.split option.split prod.split)
qed

end

interpretation script_clock: ticking "script_env auth J" sc_clock for auth J
  by unfold_locales (auto simp: script_env_def script_send_def Let_def)

context ticking begin

lemma returns_waits: "returns (md5_wait E url path taskid limit)" "returns (copymove_wait E path taskid deadline)"
  using md5_wait_returns copymove_wait_returns by (fastforce simp: returns_def)+

lemma returns_md5: "returns (md5 E path)"
  unfolding md5_def md5_within_def md5_attempt_def Let_def
  by (auto intro!: returns_rules returns_waits split: sum.split md5_attempt.split)

lemma returns_verify: "returns (verify_upload E full_path local_path whole hash_it)"
  unfolding verify_upload_def check_md5_def
  by (auto intro!: returns_rules returns_md5 split: option.split)

lemma returns_upload: "returns (upload_from_path_with_progress E local_path folder_path filename overwrite progress)"
  unfolding upload_from_path_with_progress_def http_upload_from_path_def http_slice_upload_def Let_def
  by (auto intro!: returns_rules returns_verify split: sum.split option.split)

lemma returns_move: "returns (move_within E old_path new_path max_wait)"
  unfolding move_within_def http_move_within_def move_outcome_def copymove_def Let_def
  by (auto intro!: returns_rules returns_waits split: sum.split option.split prod.split)

end

text \<open>
  C25. Every transfer ends. As long as the clock is read as it stands, does not go back, and a sleep
  takes as long as it was asked to, a hash, an upload and a move of the NAS return, whatever the NAS
  answers: no task it never finishes keeps a caller waiting for ever.
\<close>

theorem transfers_always_return:
  assumes "ticking E clock"
  shows "md5 E path c \<noteq> None \<and>
    upload_from_path_with_progress E local_path folder_path filename overwrite progress c \<noteq> None \<and>
    move_to E old_path new_path c \<noteq> None"
  using ticking.returns_md5 [OF assms] ticking.returns_upload [OF assms] ticking.returns_move [OF assms]
  by (simp add: returns_def move_to_def)

theorem transfers_always_return_witness:
  "md5 (script_env no_login no_json) [65] (script_client []) \<noteq> None \<and>
   move_to (script_env no_login no_json) [47, 65] [47, 66] (script_client []) \<noteq> None"
  using transfers_always_return [OF script_clock.ticking_axioms, of no_login no_json "[65]" "script_client []"]
  by simp

end
