(* ===== verification/Upload_Props.thy ===== *)
theory Upload_Props
  imports World_Steps
begin

text \<open>
  What a sliced upload sends. DSM appends each slice that names a partial file to it, and cannot say
  how much of the partial it holds, so what matters is which requests may have reached it.
\<close>

definition sent_chunk :: "http_request \<Rightarrow> bytes" where
  "sent_chunk rq = (case rq_body rq of Multipart _ f _ \<Rightarrow> mf_bytes f | _ \<Rightarrow> [])"

definition names_partial :: "http_request \<Rightarrow> bool" where
  "names_partial rq \<longleftrightarrow> lit ''X-TMP-FILE'' \<in> fst ` set (rq_headers rq)"

text \<open>What is appended to a partial by the requests that may have arrived.\<close>

definition reached :: "exchange list \<Rightarrow> bytes" where
  "reached xs = concat (map (\<lambda>x. sent_chunk (fst x)) (filter (\<lambda>x. \<not> never_arrived x) xs))"

lemma reached_simps [simp]:
  "reached [] = []"
  "reached (x # xs) = (if never_arrived x then reached xs else sent_chunk (fst x) @ reached xs)"
  "reached (xs @ ys) = reached xs @ reached ys"
  by (simp_all add: reached_def)

lemma slice_request_sent:
  "sent_chunk (slice_request c folder name chunk whole final tmpfile mtime) = chunk"
  "names_partial (slice_request c folder name chunk whole final (Some t) mtime)"
  by (simp_all add: slice_request_def sent_chunk_def octet_file_def names_partial_def slice_headers_def Let_def)

lemma slice_taken_arrived: "slice_outcome E reply = Inr parsed \<Longrightarrow> \<not> never_arrived (rq, reply)"
  by (auto simp: slice_outcome_def never_arrived_def split: sum.splits)

lemma slice_not_landed:
  "slice_outcome E reply = Inl (SliceRetryable err False hard) \<Longrightarrow> never_arrived (rq, reply)"
  by (auto simp: slice_outcome_def never_arrived_def slice_parsed_def Let_def split: sum.splits if_splits)

text \<open>All the requests of one slice; what of it may have been appended when nothing was doubled.\<close>

definition slice_traffic :: "bytes \<Rightarrow> str option \<Rightarrow> slice_end \<Rightarrow> exchange list \<Rightarrow> bool" where
  "slice_traffic chunk tmpfile r xs \<longleftrightarrow>
     xs \<noteq> [] \<and> list_all (\<lambda>x. sent_chunk (fst x) = chunk \<and> (tmpfile \<noteq> None \<longrightarrow> names_partial (fst x))) xs \<and>
     (tmpfile \<noteq> None \<longrightarrow> (\<forall>parsed. r = SliceTaken parsed False \<longrightarrow> reached xs = chunk))"

context observed begin

lemma send_slice_traffic:
  "after (send_slice E folder name chunk whole final tmpfile mtime) (\<lambda>r c'. \<exists>xs. transfer_traffic sent c xs c' \<and>
     (\<exists>rq reply. xs = [(rq, reply)] \<and> r = slice_outcome E reply \<and> sent_chunk rq = chunk \<and>
        (tmpfile \<noteq> None \<longrightarrow> names_partial rq))) c"
  unfolding send_slice_def after_let after_get
proof (rule slot_traffic, goal_cases)
  case (1 c1)
  then show ?case
    using sends [of "slice_request c folder name chunk whole final tmpfile mtime" "cl_world c1"]
    by (auto simp: after_simps after_send transfer_traffic_def slice_request_sent)
qed

lemma slice_attempts_traffic:
  "after (slice_attempts E J chunk final tmpfile restarts attempt unverified)
     (\<lambda>r c'. (unverified \<longrightarrow> (\<forall>parsed. r \<noteq> SliceTaken parsed False)) \<and>
        (\<exists>xs. transfer_traffic sent c xs c' \<and> slice_traffic chunk tmpfile r xs)) c"
proof (induction "sj_max_attempts J - attempt" arbitrary: attempt unverified c rule: less_induct)
  case less
  let ?Q = "\<lambda>c r c'. (unverified \<longrightarrow> (\<forall>parsed. r \<noteq> SliceTaken parsed False)) \<and>
    (\<exists>xs. transfer_traffic sent c xs c' \<and> slice_traffic chunk tmpfile r xs)"
  show ?case unfolding slice_attempts.simps [of E J chunk final tmpfile restarts attempt] after_let
  proof (rule after_mono [OF send_slice_traffic], elim exE conjE)
    fix r c1 xs rq reply
    assume sent1: "transfer_traffic sent c xs c1" and xs: "xs = [(rq, reply)]"
      and r: "r = slice_outcome E reply" and rq: "sent_chunk rq = chunk" "tmpfile \<noteq> None \<longrightarrow> names_partial rq"
    have single: "slice_traffic chunk tmpfile end xs" if "\<And>parsed. end = SliceTaken parsed False \<Longrightarrow> \<not> never_arrived (rq, reply)" for "end"
      using that rq by (auto simp: slice_traffic_def xs)
    show "after (case r of
       Inr parsed \<Rightarrow> give (SliceTaken parsed unverified)
     | Inl (SliceFatal e) \<Rightarrow>
         give (if tmpfile = None \<or> \<not> partial_was_rejected e \<or> restarts + 1 \<ge> sj_max_attempts J
               then SliceFailed e else PartialRejected e)
     | Inl (SliceRetryable err may_have_landed hard) \<Rightarrow>
         if attempt + 1 \<ge> sj_max_attempts J then give (SliceFailed err)
         else
           let_op (backoff_before_retry E attempt hard) (\<lambda>_.
             slice_attempts E J chunk final tmpfile restarts (attempt + 1)
               (unverified \<or> may_have_landed \<and> tmpfile \<noteq> None))) (?Q c) c1"
    proof (cases r)
      case (Inr parsed)
      then show ?thesis
        using sent1 single [of "SliceTaken parsed unverified"] slice_taken_arrived [of E reply parsed rq] r
        by (auto simp: after_give)
    next
      case (Inl err)
      show ?thesis
      proof (cases err)
        case (SliceFatal e)
        then show ?thesis using Inl sent1 single by (auto simp: after_give)
      next
        case (SliceRetryable e may_have_landed hard)
        let ?u = "unverified \<or> may_have_landed \<and> tmpfile \<noteq> None"
        have again: "after (slice_attempts E J chunk final tmpfile restarts (attempt + 1) ?u) (?Q c) c2"
          if waited: "transfer_traffic sent c1 [] c2" and left: "attempt + 1 < sj_max_attempts J" for c2
        proof (rule after_mono [OF less [of "attempt + 1" ?u c2]], goal_cases)
          case 1
          then show ?case using left by simp
        next
          case (2 r' c3)
          then obtain ys where ys: "transfer_traffic sent c2 ys c3" "slice_traffic chunk tmpfile r' ys"
            and flag: "?u \<longrightarrow> (\<forall>parsed. r' \<noteq> SliceTaken parsed False)" by blast
          have "transfer_traffic sent c (xs @ ys) c3"
            using transfer_traffic_trans [OF sent1 transfer_traffic_trans [OF waited ys(1)]] by simp
          moreover have "slice_traffic chunk tmpfile r' (xs @ ys)"
            using ys(2) flag rq slice_not_landed [of E reply e hard rq] r Inl SliceRetryable
            by (cases may_have_landed) (auto simp: slice_traffic_def xs)
          ultimately show ?case using flag by blast
        qed
        then show ?thesis
          using Inl SliceRetryable sent1 single [of "SliceFailed e"]
          by (auto simp: after_simps not_le intro!: after_mono [OF silent_after [OF silent_backoff]])
      qed
    qed
  qed
qed

end

section \<open>A pass over the file\<close>

lemma slices_cover: "0 < z \<Longrightarrow> unat whole \<le> slice_count whole z * z"
proof -
  assume "0 < z"
  then have "unat whole \<le> ((unat whole + z - 1) div z) * z"
    using div_mult_mod_eq [of "unat whole + z - 1" z] mod_less_divisor [of z "unat whole + z - 1"] by linarith
  also have "\<dots> \<le> slice_count whole z * z" by (simp add: slice_count_def)
  finally show ?thesis .
qed

lemma inner_slice_is_full:
  assumes "0 < z" and "Suc i < slice_count whole z"
  shows "Suc i * z < unat whole"
proof -
  have "Suc (Suc i) \<le> (unat whole + z - 1) div z" using assms(2) by (simp add: slice_count_def)
  then have "Suc (Suc i) * z \<le> unat whole + z - 1"
    by (meson div_times_less_eq_dividend le_trans mult_le_mono1)
  then show ?thesis using assms(1) by simp
qed

text \<open>
  What the code relies on of the file it reads: a read gives the next bytes of the content and goes on
  from there, and nothing the client sends or waits for moves the reader.
\<close>

locale source_file = observed E sent + world_steps E "\<lambda>w w'. pos w' = pos w"
  for E :: "'w env" and sent :: "'w \<Rightarrow> exchange list" and pos :: "'w \<Rightarrow> nat" +
  fixes source :: str and content :: bytes
  assumes reads: "fs_read_exact (env_files E) source n w = (Inr bs, w') \<Longrightarrow>
      pos w + n \<le> length content \<and> bs = take n (drop (pos w) content) \<and> pos w' = pos w + n"
    and reads_unseen: "unseen sent (fs_read_exact (env_files E) source n)"
begin

lemma read_traffic:
  "after (in_world (fs_read_exact (env_files E) source n)) (\<lambda>r c'. transfer_traffic sent c [] c' \<and>
     (\<forall>bs. r = Inr bs \<longrightarrow> pos (cl_world c) + n \<le> length content \<and>
        bs = take n (drop (pos (cl_world c)) content) \<and> pos (cl_world c') = pos (cl_world c) + n)) c"
  using reads_unseen [of n] reads [of n "cl_world c" _ "snd (fs_read_exact (env_files E) source n (cl_world c))"]
  by (auto simp: after_in_world transfer_traffic_def unseen_def prod_eq_iff)

lemma slice_attempts_here:
  "after (slice_attempts E J chunk final tmpfile restarts attempt unverified)
     (\<lambda>r c'. (unverified \<longrightarrow> (\<forall>parsed. r \<noteq> SliceTaken parsed False)) \<and>
        pos (cl_world c') = pos (cl_world c) \<and>
        (\<exists>xs. transfer_traffic sent c xs c' \<and> slice_traffic chunk tmpfile r xs)) c"
  using after_keeps [OF slice_attempts_traffic keeps_slice_attempts]
  by (rule after_mono) (auto simp: worldwide_def)

text \<open>The job of uploading the content, without a progress sink.\<close>

definition job_ok :: "'w slice_job \<Rightarrow> bool" where
  "job_ok J \<longleftrightarrow> sj_local J = source \<and> sj_progress J = None \<and> 0 < sj_slice_size J \<and>
     unat (sj_whole J) = length content"

text \<open>Where a pass stands before the slice with this index.\<close>

definition stands_at :: "'w slice_job \<Rightarrow> nat \<Rightarrow> 'w client \<Rightarrow> bool" where
  "stands_at J i c \<longleftrightarrow>
     (i < slice_count (sj_whole J) (sj_slice_size J) \<longrightarrow> pos (cl_world c) = i * sj_slice_size J)"

lemma next_slice:
  assumes "job_ok J" and "i < slice_count (sj_whole J) (sj_slice_size J)"
  shows "take (slice_len J i) (drop (i * sj_slice_size J) content) @ drop (Suc i * sj_slice_size J) content =
      drop (i * sj_slice_size J) content"
    and "Suc i < slice_count (sj_whole J) (sj_slice_size J) \<Longrightarrow>
      i * sj_slice_size J + slice_len J i = Suc i * sj_slice_size J"
proof -
  have "take (slice_len J i) (drop (i * sj_slice_size J) content) =
      take (sj_slice_size J) (drop (i * sj_slice_size J) content)"
    using assms(1) by (simp add: slice_len_def job_ok_def min_def)
  then show "take (slice_len J i) (drop (i * sj_slice_size J) content) @ drop (Suc i * sj_slice_size J) content =
      drop (i * sj_slice_size J) content"
    using append_take_drop_id [of "sj_slice_size J" "drop (i * sj_slice_size J) content"]
    by (simp add: add.commute)
  assume "Suc i < slice_count (sj_whole J) (sj_slice_size J)"
  from inner_slice_is_full [OF _ this] assms(1)
  show "i * sj_slice_size J + slice_len J i = Suc i * sj_slice_size J"
    by (simp add: slice_len_def job_ok_def min_def)
qed

lemma slice_step_traffic:
  assumes job: "job_ok J" and i: "i < slice_count (sj_whole J) (sj_slice_size J)" and here: "stands_at J i c"
  shows "after (slice_step E J restarts i tmpfile unverified) (\<lambda>r c1.
      (\<forall>u. r \<noteq> Inl (PassDone u)) \<and>
      (\<forall>t u. r = Inr (t, u) \<longrightarrow> (unverified \<longrightarrow> u) \<and> stands_at J (Suc i) c1 \<and>
         (if is_last_slice J i then t = tmpfile else t \<noteq> None) \<and>
         (\<exists>xs parsed. transfer_traffic sent c xs c1 \<and>
            slice_traffic (take (slice_len J i) (drop (i * sj_slice_size J) content)) tmpfile (SliceTaken parsed u) xs))) c"
proof -
  have progress: "report_progress J i = give ()" and local: "sj_local J = source"
    using job by (simp_all add: report_progress_def job_ok_def)
  let ?chunk = "take (slice_len J i) (drop (i * sj_slice_size J) content)"
  show ?thesis unfolding slice_step_def after_let local
  proof (rule after_mono [OF read_traffic], elim conjE)
    fix got :: "str + bytes" and c1
    assume read: "transfer_traffic sent c [] c1"
      and got: "\<forall>bs. got = Inr bs \<longrightarrow> pos (cl_world c) + slice_len J i \<le> length content \<and>
        bs = take (slice_len J i) (drop (pos (cl_world c)) content) \<and>
        pos (cl_world c1) = pos (cl_world c) + slice_len J i"
    show "after (case got of
       Inl e \<Rightarrow>
         give (Inl (PassFailed (SynoIo (lit ''slice upload: read slice '' @ show_nat i @ lit '' failed: '' @ e))))
     | Inr chunk \<Rightarrow>
         let_op (slice_attempts E J chunk (is_last_slice J i) tmpfile restarts 0 unverified) (\<lambda>r. case r of
           SliceFailed e \<Rightarrow> give (Inl (PassFailed e))
         | PartialRejected e \<Rightarrow> give (Inl (PassRejected e))
         | SliceTaken parsed unverified \<Rightarrow>
             let_op (report_progress J i) (\<lambda>_. give (
               if is_last_slice J i then Inr (tmpfile, unverified)
               else case next_tmpfile parsed of
                 Some t \<Rightarrow> Inr (Some t, unverified)
               | None \<Rightarrow>
                   Inl (PassFailed (SynoIo (lit ''slice upload: server returned no tmpfile after slice '' @
                     show_nat i)))))))
       (\<lambda>r c1. (\<forall>u. r \<noteq> Inl (PassDone u)) \<and>
         (\<forall>t u. r = Inr (t, u) \<longrightarrow> (unverified \<longrightarrow> u) \<and> stands_at J (Suc i) c1 \<and>
         (if is_last_slice J i then t = tmpfile else t \<noteq> None) \<and>
         (\<exists>xs parsed. transfer_traffic sent c xs c1 \<and> slice_traffic ?chunk tmpfile (SliceTaken parsed u) xs))) c1"
    proof (cases got)
      case (Inl e)
      then show ?thesis by (simp add: after_give)
    next
      case (Inr chunk)
      have chunk: "chunk = ?chunk" and at: "pos (cl_world c1) = i * sj_slice_size J + slice_len J i"
        using got Inr here i by (simp_all add: stands_at_def)
      have stands: "stands_at J (Suc i) c2" if "pos (cl_world c2) = pos (cl_world c1)" for c2
        using that at next_slice(2) [OF job i] by (simp add: stands_at_def)
      show ?thesis unfolding Inr sum.case after_let progress
      proof (rule after_mono [OF slice_attempts_here], elim conjE exE)
        fix r c2 xs
        assume "transfer_traffic sent c1 xs c2" and "slice_traffic chunk tmpfile r xs"
          and flag: "unverified \<longrightarrow> (\<forall>parsed. r \<noteq> SliceTaken parsed False)"
          and still: "pos (cl_world c2) = pos (cl_world c1)"
        then have all: "transfer_traffic sent c xs c2" "slice_traffic ?chunk tmpfile r xs"
          using transfer_traffic_trans [OF read] chunk by auto
        then show "after (case r of
           SliceFailed e \<Rightarrow> give (Inl (PassFailed e))
         | PartialRejected e \<Rightarrow> give (Inl (PassRejected e))
         | SliceTaken parsed unverified \<Rightarrow>
             let_op (give ()) (\<lambda>_. give (
               if is_last_slice J i then Inr (tmpfile, unverified)
               else case next_tmpfile parsed of
                 Some t \<Rightarrow> Inr (Some t, unverified)
               | None \<Rightarrow>
                   Inl (PassFailed (SynoIo (lit ''slice upload: server returned no tmpfile after slice '' @
                     show_nat i))))))
          (\<lambda>r c1. (\<forall>u. r \<noteq> Inl (PassDone u)) \<and>
            (\<forall>t u. r = Inr (t, u) \<longrightarrow> (unverified \<longrightarrow> u) \<and> stands_at J (Suc i) c1 \<and>
            (if is_last_slice J i then t = tmpfile else t \<noteq> None) \<and>
            (\<exists>xs parsed. transfer_traffic sent c xs c1 \<and> slice_traffic ?chunk tmpfile (SliceTaken parsed u) xs))) c2"
          using stands [OF still] flag
          by (cases r) (auto simp: after_simps split: option.split)
      qed
    qed
  qed
qed

text \<open>A pass that ends without an unverified resend has appended what follows slice \<open>i\<close>, once.\<close>

definition sends_rest :: "'w slice_job \<Rightarrow> nat \<Rightarrow> 'w client \<Rightarrow> bool \<Rightarrow> pass_end \<Rightarrow> 'w client \<Rightarrow> bool" where
  "sends_rest J i c unverified r c' \<longleftrightarrow>
     (r = PassDone False \<longrightarrow> \<not> unverified \<and>
        (\<exists>xs. transfer_traffic sent c xs c' \<and> list_all (\<lambda>x. names_partial (fst x)) xs \<and>
           reached xs = drop (i * sj_slice_size J) content))"

lemma sends_rest_step:
  assumes "job_ok J" and "i < slice_count (sj_whole J) (sj_slice_size J)" and "unverified \<longrightarrow> u"
    and "transfer_traffic sent c xs c1"
    and "slice_traffic (take (slice_len J i) (drop (i * sj_slice_size J) content)) (Some t) (SliceTaken parsed u) xs"
    and "sends_rest J (Suc i) c1 u r c2"
  shows "sends_rest J i c unverified r c2"
  unfolding sends_rest_def
proof
  assume "r = PassDone False"
  with assms(6) obtain ys where u: "\<not> u" and ys: "transfer_traffic sent c1 ys c2"
    "list_all (\<lambda>x. names_partial (fst x)) ys" "reached ys = drop (Suc i * sj_slice_size J) content"
    unfolding sends_rest_def by blast
  have "reached (xs @ ys) = drop (i * sj_slice_size J) content"
    using assms(5) u ys(3) next_slice(1) [OF assms(1,2)] by (simp add: slice_traffic_def)
  moreover have "list_all (\<lambda>x. names_partial (fst x)) (xs @ ys)"
    using assms(5) ys(2) by (auto simp: slice_traffic_def list_all_iff)
  ultimately show "\<not> unverified \<and>
      (\<exists>xs. transfer_traffic sent c xs c2 \<and> list_all (\<lambda>x. names_partial (fst x)) xs \<and>
         reached xs = drop (i * sj_slice_size J) content)"
    using transfer_traffic_trans [OF assms(4) ys(1)] assms(3) u by blast
qed

lemma pass_tail:
  assumes "job_ok J" and "i \<le> slice_count (sj_whole J) (sj_slice_size J)" and "stands_at J i c"
  shows "after (slice_pass E J restarts [i..<slice_count (sj_whole J) (sj_slice_size J)] (Some t) unverified)
     (sends_rest J i c unverified) c"
  using assms(2,3)
proof (induction "slice_count (sj_whole J) (sj_slice_size J) - i" arbitrary: i t unverified c)
  case 0
  have "length content \<le> slice_count (sj_whole J) (sj_slice_size J) * sj_slice_size J"
    using slices_cover [of "sj_slice_size J" "sj_whole J"] assms(1) by (simp add: job_ok_def)
  with 0 show ?case
    by (auto simp: after_give transfer_traffic_def sends_rest_def)
next
  case (Suc k)
  let ?n = "slice_count (sj_whole J) (sj_slice_size J)"
  have i: "i < ?n" using Suc.hyps(2) by simp
  show ?case unfolding upt_conv_Cons [OF i] slice_pass.simps after_let
  proof (rule after_mono [OF slice_step_traffic [OF assms(1) i Suc.prems(2)]], elim conjE)
    fix r c1
    assume ended: "\<forall>u. r \<noteq> Inl (PassDone u)"
      and taken: "\<forall>t' u. r = Inr (t', u) \<longrightarrow> (unverified \<longrightarrow> u) \<and> stands_at J (Suc i) c1 \<and>
         (if is_last_slice J i then t' = Some t else t' \<noteq> None) \<and>
         (\<exists>xs parsed. transfer_traffic sent c xs c1 \<and>
            slice_traffic (take (slice_len J i) (drop (i * sj_slice_size J) content)) (Some t) (SliceTaken parsed u) xs)"
    show "after (case r of Inl e \<Rightarrow> give e | Inr (t, u) \<Rightarrow> slice_pass E J restarts [Suc i..<?n] t u)
       (sends_rest J i c unverified) c1"
    proof (cases r)
      case (Inl e)
      then show ?thesis using ended by (auto simp: after_give sends_rest_def)
    next
      case (Inr tu)
      then obtain t' u where tu: "tu = (Some t', u)" using taken by (cases tu) (fastforce split: if_splits)
      then have "after (slice_pass E J restarts [Suc i..<?n] (Some t') u) (sends_rest J (Suc i) c1 u) c1"
        using Suc.hyps(1) [of "Suc i" c1 t' u] Suc.hyps(2) i taken Inr by simp
      moreover obtain xs parsed where "unverified \<longrightarrow> u" and "transfer_traffic sent c xs c1"
        and "slice_traffic (take (slice_len J i) (drop (i * sj_slice_size J) content)) (Some t) (SliceTaken parsed u) xs"
        using taken Inr tu by blast
      ultimately have "after (slice_pass E J restarts [Suc i..<?n] (Some t') u) (sends_rest J i c unverified) c1"
        by (auto elim!: after_mono intro: sends_rest_step [OF assms(1) i])
      then show ?thesis using Inr tu by simp
    qed
  qed
qed

text \<open>The whole pass: the requests that open the partial, and those that are appended to it.\<close>

lemma pass_sends_whole:
  assumes job: "job_ok J" and start: "pos (cl_world c) = 0"
  shows "after (slice_pass E J restarts [0..<slice_count (sj_whole J) (sj_slice_size J)] None False)
     (\<lambda>r c'. r = PassDone False \<longrightarrow> (\<exists>opening appending. transfer_traffic sent c (opening @ appending) c' \<and>
        opening \<noteq> [] \<and> list_all (\<lambda>x. sent_chunk (fst x) = take (sj_slice_size J) content) opening \<and>
        list_all (\<lambda>x. names_partial (fst x)) appending \<and>
        take (sj_slice_size J) content @ reached appending = content)) c"
proof -
  let ?n = "slice_count (sj_whole J) (sj_slice_size J)"
  have n: "0 < ?n" by (simp add: slice_count_def)
  have here: "stands_at J 0 c" using start by (simp add: stands_at_def)
  have first: "take (slice_len J 0) (drop (0 * sj_slice_size J) content) = take (sj_slice_size J) content"
    using job by (simp add: slice_len_def job_ok_def min_def)
  show ?thesis unfolding upt_conv_Cons [OF n] slice_pass.simps after_let
  proof (rule after_mono [OF slice_step_traffic [OF job n here]], unfold first, elim conjE)
    fix r :: "pass_end + str option \<times> bool" and c1
    assume ended: "\<forall>u. r \<noteq> Inl (PassDone u)"
      and taken: "\<forall>t u. r = Inr (t, u) \<longrightarrow> (False \<longrightarrow> u) \<and> stands_at J (Suc 0) c1 \<and>
         (if is_last_slice J 0 then t = None else t \<noteq> None) \<and>
         (\<exists>xs parsed. transfer_traffic sent c xs c1 \<and>
            slice_traffic (take (sj_slice_size J) content) None (SliceTaken parsed u) xs)"
    let ?Q = "\<lambda>r c'. r = PassDone False \<longrightarrow> (\<exists>opening appending. transfer_traffic sent c (opening @ appending) c' \<and>
        opening \<noteq> [] \<and> list_all (\<lambda>x. sent_chunk (fst x) = take (sj_slice_size J) content) opening \<and>
        list_all (\<lambda>x. names_partial (fst x)) appending \<and>
        take (sj_slice_size J) content @ reached appending = content)"
    have "after (slice_pass E J restarts [Suc 0..<?n] t u) ?Q c1" if r: "r = Inr (t, u)" for t u
    proof -
      obtain xs parsed where xs: "transfer_traffic sent c xs c1"
        "slice_traffic (take (sj_slice_size J) content) None (SliceTaken parsed u) xs" using taken r by blast
      show ?thesis
      proof (cases "is_last_slice J 0")
        case True
        then have one: "?n = 1" by (simp add: is_last_slice_def)
        then have short: "length content \<le> sj_slice_size J" and done_here: "[Suc 0..<?n] = []"
          using slices_cover [of "sj_slice_size J" "sj_whole J"] job by (simp_all add: job_ok_def)
        have "?Q (PassDone u) c1"
          using xs short
          by (intro impI exI [of _ xs] exI [of _ "[] :: exchange list"]) (auto simp: slice_traffic_def)
        then show ?thesis by (simp only: done_here slice_pass.simps after_give)
      next
        case False
        then obtain t' where t: "t = Some t'" using taken r by auto
        have "Suc 0 \<le> ?n" using n by simp
        from pass_tail [OF job this] taken r
        have "after (slice_pass E J restarts [Suc 0..<?n] (Some t') u) (sends_rest J (Suc 0) c1 u) c1" by blast
        then show ?thesis unfolding t
        proof (rule after_mono, intro impI)
          fix r' c2
          assume "sends_rest J (Suc 0) c1 u r' c2" and "r' = PassDone False"
          then obtain ys where "transfer_traffic sent c1 ys c2" "list_all (\<lambda>x. names_partial (fst x)) ys"
            "reached ys = drop (sj_slice_size J) content" unfolding sends_rest_def by auto
          then show "\<exists>opening appending. transfer_traffic sent c (opening @ appending) c2 \<and>
              opening \<noteq> [] \<and> list_all (\<lambda>x. sent_chunk (fst x) = take (sj_slice_size J) content) opening \<and>
              list_all (\<lambda>x. names_partial (fst x)) appending \<and>
              take (sj_slice_size J) content @ reached appending = content"
            using xs transfer_traffic_trans [OF xs(1)]
            by (intro exI [of _ xs] exI [of _ ys]) (auto simp: slice_traffic_def)
        qed
      qed
    qed
    then show "after (case r of Inl e \<Rightarrow> give e | Inr (t, u) \<Rightarrow> slice_pass E J restarts [Suc 0..<?n] t u) ?Q c1"
      using ended by (cases r) (auto simp: after_give)
  qed
qed

end

section \<open>Properties\<close>

text \<open>
  C8. A sliced upload that needs no hash has sent every byte once. When a pass over the file ends
  without a resend that may have doubled a slice, the requests that opened the partial file all
  carried the first slice, and what was appended to it by requests that may have reached the NAS is
  exactly the rest of the file, in order, nothing missing and nothing twice.
\<close>

theorem unhashed_upload_sent_each_byte_once:
  assumes "source_file E sent pos source content"
    and "sj_local J = source" and "sj_progress J = None" and "0 < sj_slice_size J"
    and "unat (sj_whole J) = length content" and "pos (cl_world c) = 0"
    and "slice_pass E J restarts [0..<slice_count (sj_whole J) (sj_slice_size J)] None False c = (PassDone False, c')"
  shows "\<exists>opening appending. sent (cl_world c') = sent (cl_world c) @ opening @ appending \<and>
    opening \<noteq> [] \<and> list_all (\<lambda>x. sent_chunk (fst x) = take (sj_slice_size J) content) opening \<and>
    list_all (\<lambda>x. names_partial (fst x)) appending \<and>
    take (sj_slice_size J) content @ reached appending = content"
proof -
  have "source_file.job_ok source content J"
    using assms(2-5) source_file.job_ok_def [OF assms(1)] by simp
  from afterD [OF source_file.pass_sends_whole [OF assms(1) this assms(6)] assms(7)]
  show ?thesis by (auto simp: transfer_traffic_def)
qed

text \<open>A world with one file on its disk, which nothing but reading it can change.\<close>

definition one_file_env :: "json \<Rightarrow> bytes \<Rightarrow> script env" where
  "one_file_env J content =
     (script_env (\<lambda>_. Inr \<lparr>rs_success = False, rs_data = None, rs_error = None\<rparr>) J)
       \<lparr>env_files := disk\<lparr>fs_read_exact := \<lambda>p n w.
          if sc_pos w + n \<le> length content
          then (Inr (take n (drop (sc_pos w) content)), w\<lparr>sc_pos := sc_pos w + n\<rparr>)
          else (Inl (lit ''end of file''), w)\<rparr>\<rparr>"

interpretation one_file: source_file "one_file_env J content" sc_log sc_pos source content for J source content
  by unfold_locales
    (auto simp: one_file_env_def script_env_def script_send_def unseen_def Let_def split: if_splits)

definition taking_json :: json where
  "taking_json = no_json\<lparr>js_upload := \<lambda>_. Inr \<lparr>rs_success = True, rs_data = Some \<lparr>up_tmpfile = Some [84]\<rparr>,
     rs_error = None\<rparr>\<rparr>"

definition three_bytes_job :: "script slice_job" where
  "three_bytes_job = \<lparr>sj_local = [65], sj_folder = [47], sj_filename = [66], sj_whole = 3, sj_slice_size = 2,
     sj_mtime_ms = None, sj_max_attempts = 3, sj_progress = None\<rparr>"

lemma three_bytes_pass:
  "fst (slice_pass (one_file_env taking_json [1, 2, 3]) three_bytes_job 0 [0, 1] None False
     (script_client [answers [], no_connection, answers []])) = PassDone False"
  by (simp add: slice_step_def slice_attempts.simps send_slice_def holding_slot_def acquire_transfer_slot_def
      drop_slot_def let_op_def get_op_def when_op_def give_def send_def in_world_def one_file_env_def
      script_env_def script_send_def script_client_def client_new_def three_bytes_job_def slice_len_def
      slice_outcome_def answers_def no_connection_def answer_text_def is_success_def slice_parsed_def
      taking_json_def response_def map_err_def report_progress_def is_last_slice_def slice_count_def
      next_tmpfile_def backoff_before_retry_def Let_def)

theorem unhashed_upload_sent_each_byte_once_witness:
  "\<exists>(c' :: script client) opening appending. sc_log (cl_world c') = opening @ appending \<and>
    fst (slice_pass (one_file_env taking_json [1, 2, 3]) three_bytes_job 0 [0, 1] None False
     (script_client [answers [], no_connection, answers []])) = PassDone False \<and>
    reached appending = [3]"
proof -
  let ?c = "script_client [answers [], no_connection, answers []]"
  obtain c' where run: "slice_pass (one_file_env taking_json [1, 2, 3]) three_bytes_job 0
      [0..<slice_count (sj_whole three_bytes_job) (sj_slice_size three_bytes_job)] None False ?c = (PassDone False, c')"
    using three_bytes_pass by (simp add: three_bytes_job_def slice_count_def upt_rec prod_eq_iff)
  have "sc_log (cl_world ?c) = []" and "sc_pos (cl_world ?c) = 0"
    by (simp_all add: script_client_def client_new_def Let_def)
  then obtain xs ys where log: "sc_log (cl_world c') = xs @ ys"
    and whole: "take (sj_slice_size three_bytes_job) [1, 2, 3] @ reached ys = [1, 2, 3]"
    using unhashed_upload_sent_each_byte_once [OF one_file.source_file_axioms _ _ _ _ _ run, of "[65]"]
    by (auto simp: three_bytes_job_def)
  from whole have "reached ys = [3]" by (simp add: three_bytes_job_def)
  with log three_bytes_pass show ?thesis
    by blast
qed



















end
