(* ===== verification/Moves_Props.thy ===== *)
theory Moves_Props
  imports Upload_Props
begin

text \<open>
  What a move says when it was refused. \<open>NotSupported\<close> is documented to mean that nothing was moved;
  the rename that precedes a move is a repeatable request all the same.
\<close>

text \<open>A NAS whose answers are a file, nothing there, and a refusal to rename.\<close>

definition renaming_json :: json where
  "renaming_json = no_json\<lparr>
     js_get_info := (\<lambda>body.
       if body = [1] then Inr \<lparr>rs_success = True, rs_data = Some [one_entry], rs_error = None\<rparr>
       else Inr \<lparr>rs_success = False, rs_data = None, rs_error = Some \<lparr>ae_code = 408\<rparr>\<rparr>),
     js_rename := (\<lambda>_. Inr \<lparr>rs_success = False, rs_data = None, rs_error = Some \<lparr>ae_code = 1200\<rparr>\<rparr>)\<rparr>"

abbreviation renaming_env :: "script env" where
  "renaming_env \<equiv> script_env (\<lambda>_. Inr \<lparr>rs_success = False, rs_data = None, rs_error = None\<rparr>) renaming_json"

text \<open>What the next call of \<open>entry.cgi\<close> gets from a client without backends and without a session.\<close>

lemma scripted_call:
  assumes "sc_replies (cl_world c) = answers body # rest" and "cl_sid c = None"
  shows "call_entry (script_env auth J) params c = (Inr body, c\<lparr>cl_world := (cl_world c)\<lparr>sc_replies := rest,
    sc_log := sc_log (cl_world c) @ [(http_get (entry_cgi c) params, answers body)]\<rparr>\<rparr>)"
  using assms
  by (simp add: call_entry_def get_text_retried_def let_op_def get_op_def when_op_def give_def send_attached_def
      attach_session_def sid_def send_def in_world_def script_env_def script_send_def answers_def answer_text_def Let_def)

text \<open>A call whose first answer is lost, so that it is sent again.\<close>

lemma scripted_repeated_call:
  assumes "sc_replies (cl_world c) = no_answer # answers body # rest" and "cl_sid c = None"
  shows "call_entry (script_env auth J) params c = (Inr body, c\<lparr>cl_world := (cl_world c)\<lparr>sc_replies := rest,
    sc_log := sc_log (cl_world c) @ [(http_get (entry_cgi c) params, no_answer), (http_get (entry_cgi c) params, answers body)],
    sc_clock := sc_clock (cl_world c) + millis 200\<rparr>\<rparr>)"
  using assms
  by (simp add: call_entry_def get_text_retried_def let_op_def get_op_def when_op_def give_def send_attached_def
      attach_session_def sid_def send_def sleep_def in_world_def script_env_def script_send_def answers_def
      no_answer_def answer_text_def entry_cgi_def Let_def)

lemma no_backends: "cl_metadata_transports c = [] \<Longrightarrow> or_http (via_metadata E call) http c = http c"
  by (cases c) (simp add: or_http_def via_metadata_def let_op_def)

lemma script_env_json [simp]: "env_json (script_env auth J) = J"
  by (simp add: script_env_def)

definition moving_client :: "script client" where
  "moving_client = script_client [answers [1], answers [2], no_answer, answers [3]]"

text \<open>
  A move that says nothing was moved may have renamed. The rename in place is sent again when its
  answer is lost, so when it is carried out and the repetition is refused, as a second rename of the
  same file is, the caller is told \<open>NotSupported\<close> although a rename had reached the NAS.
\<close>

theorem refused_move_may_have_renamed:
  "\<exists>c' x. move_to renaming_env [47, 65] [47, 66] moving_client = Some (Inl SynoNotSupported, c') \<and>
     x \<in> set (sc_log (cl_world c')) \<and>
     rq_query (fst x) = rename_params (env_json renaming_env) [47, 65] [66] \<and> \<not> never_arrived x"
proof -
  have 0: "sc_replies (cl_world moving_client) = [answers [1], answers [2], no_answer, answers [3]]"
    "cl_sid moving_client = None" "cl_metadata_transports moving_client = []"
    by (simp_all add: moving_client_def script_client_def client_new_def Let_def)
  obtain c1 where old: "get_info renaming_env [47, 65] moving_client = (Inr one_entry, c1)"
    and 1: "sc_replies (cl_world c1) = [answers [2], no_answer, answers [3]]" "cl_sid c1 = None"
      "cl_metadata_transports c1 = []"
    using 0 by (simp add: get_info_def no_backends http_get_info_def try_op_def scripted_call give_def response_def
        map_err_def when_success_def info_entry_def renaming_json_def one_entry_def)
  obtain c2 where there: "destination_at renaming_env [47, 66] c1 = (Inr DestAbsent, c2)"
    and 2: "sc_replies (cl_world c2) = [no_answer, answers [3]]" "cl_sid c2 = None" "cl_metadata_transports c2 = []"
    using 1 by (simp add: destination_at_def let_op_def get_info_def no_backends http_get_info_def try_op_def
        scripted_call give_def response_def map_err_def when_success_def error_code_def renaming_json_def not_shown_def)
  let ?rq = "http_get (entry_cgi c2) (rename_params renaming_json [47, 65] [66])"
  obtain c3 where renamed: "rename_in_place renaming_env [47, 65] [] [65] [66] c2 = (Inl SynoNotSupported, c3)"
    and 3: "sc_log (cl_world c3) = sc_log (cl_world c2) @ [(?rq, no_answer), (?rq, answers [3])]"
    using 2 by (simp add: rename_in_place_def let_op_def rename_def no_backends http_rename_def try_op_def
        scripted_repeated_call give_def response_def map_err_def when_success_def error_code_def renaming_json_def
        dsm_code_to_category_def)
  have none: "via_metadata renaming_env call moving_client = (None, moving_client)" for call :: "script metadata_transport \<Rightarrow> (script, unit) fallible"
    using 0(3) by (cases moving_client) (simp add: via_metadata_def)
  have clock: "now renaming_env moving_client = (sc_clock (cl_world moving_client), moving_client)"
    by (simp add: now_def in_world_def script_env_def)
  have split: "split_parent [47, 65] = Some ([], [65])" "split_parent [47, 66] = Some ([], [66])"
    by (simp_all add: split_parent_def)
  have "fi_isdir one_entry = False" by (simp add: one_entry_def)
  then have "move_to renaming_env [47, 65] [47, 66] moving_client = Some (Inl SynoNotSupported, c3)"
    using old there renamed
    by (simp add: move_to_def move_within_def http_move_within_def none clock split try_run_def try_op_def
        let_run_def total_op_def give_def Let_def)
  moreover have "rq_query ?rq = rename_params (env_json renaming_env) [47, 65] [66]" "\<not> never_arrived (?rq, no_answer)"
    by (simp_all add: http_get_def never_arrived_def no_answer_def)
  ultimately show ?thesis using 3 by (intro exI [of _ c3] exI [of _ "(?rq, no_answer)"]) auto
qed

end
