(* ===== verification/Moka.thy ===== *)
theory Moka
  imports Prelude "HOL-Library.AList"
begin

text \<open>
  The cache of the \<open>moka\<close> crate, which the mount keeps attributes, listings and file blocks in. It
  is a parameter: a record of its operations over a store, and its documented promise as a locale.
  A cache may forget an entry at any time (its capacity, its time to live or to idle), so the
  promise only bounds what it can answer: the last value inserted under the key and not invalidated
  since, or nothing.
\<close>

record ('m, 'k, 'v) moka =
  mk_build :: "nat \<Rightarrow> duration option \<Rightarrow> duration option \<Rightarrow> 'm"
  mk_get :: "'k \<Rightarrow> 'm \<Rightarrow> 'v option \<times> 'm"
  mk_insert :: "'k \<Rightarrow> 'v \<Rightarrow> 'm \<Rightarrow> 'm"
  mk_invalidate :: "'k \<Rightarrow> 'm \<Rightarrow> 'm"
  mk_contains :: "'k \<Rightarrow> 'm \<Rightarrow> bool"
  mk_keys :: "'m \<Rightarrow> 'k list"

lemma map_leD: "m \<subseteq>\<^sub>m m' \<Longrightarrow> m k = Some v \<Longrightarrow> m' k = Some v"
  by (auto simp: map_le_def dom_def)

text \<open>\<open>held m\<close>: what the store may still answer with.\<close>

locale moka_laws =
  fixes M :: "('m, 'k, 'v) moka" and held :: "'m \<Rightarrow> 'k \<Rightarrow> 'v option"
  assumes built: "held (mk_build M capacity ttl tti) = Map.empty"
    and gets: "mk_get M k m = (r, m') \<Longrightarrow> (r = None \<or> r = held m k) \<and> held m' \<subseteq>\<^sub>m held m"
    and inserts: "held (mk_insert M k v m) \<subseteq>\<^sub>m (held m)(k \<mapsto> v)"
    and invalidates: "held (mk_invalidate M k m) \<subseteq>\<^sub>m (held m)(k := None)"
    and contains: "mk_contains M k m \<Longrightarrow> k \<in> dom (held m)"
    and listed: "dom (held m) \<subseteq> set (mk_keys M m)"
begin

lemma got: "mk_get M k m = (Some v, m') \<Longrightarrow> held m k = Some v"
  using gets by force

lemma kept_on_get: "mk_get M k m = (r, m') \<Longrightarrow> held m' k' = Some v \<Longrightarrow> held m k' = Some v"
  by (metis domI gets map_le_def)

lemma kept_on_insert:
  "held (mk_insert M k v m) k' = Some v' \<Longrightarrow> (if k' = k then v' = v else held m k' = Some v')"
  by (auto dest!: map_leD [OF inserts] split: if_splits)

lemma kept_on_invalidate:
  "held (mk_invalidate M k m) k' = Some v \<Longrightarrow> k' \<noteq> k \<and> held m k' = Some v"
  by (auto dest!: map_leD [OF invalidates] split: if_splits)

lemma invalidated [simp]: "held (mk_invalidate M k m) k = None"
  by (metis kept_on_invalidate not_None_eq)

lemma not_inserted: "k' \<noteq> k \<Longrightarrow> held m k' = None \<Longrightarrow> held (mk_insert M k v m) k' = None"
  by (metis kept_on_insert not_None_eq option.distinct(1))

lemma forgets: "held m k = None \<Longrightarrow> fst (mk_get M k m) = None"
  by (metis got not_Some_eq prod.collapse)

text \<open>Invalidating a list of keys, one after the other.\<close>

lemma kept_on_sweep:
  "held (fold (mk_invalidate M) ks m) k = Some v \<Longrightarrow> k \<notin> set ks \<and> held m k = Some v"
  by (induction ks arbitrary: m) (auto dest: kept_on_invalidate)

end

section \<open>A cache that drops its oldest entries\<close>

definition bounded_insert :: "'k \<Rightarrow> 'v \<Rightarrow> nat \<times> ('k \<times> 'v) list \<Rightarrow> nat \<times> ('k \<times> 'v) list" where
  "bounded_insert k v m = (fst m, take (fst m) ((k, v) # AList.delete k (snd m)))"

definition bounded_moka :: "(nat \<times> ('k \<times> 'v) list, 'k, 'v) moka" where
  "bounded_moka =
     \<lparr>mk_build = (\<lambda>capacity _ _. (capacity, [])), mk_get = (\<lambda>k m. (map_of (snd m) k, m)),
      mk_insert = bounded_insert, mk_invalidate = (\<lambda>k m. (fst m, AList.delete k (snd m))),
      mk_contains = (\<lambda>k m. k \<in> fst ` set (snd m)), mk_keys = (\<lambda>m. map fst (snd m))\<rparr>"

lemma map_of_take: "map_of (take n xs) \<subseteq>\<^sub>m map_of xs"
  by (induction xs arbitrary: n) (auto simp: map_le_def take_Cons split: nat.splits)

lemma bounded_insert_held: "map_of (snd (bounded_insert k v m)) \<subseteq>\<^sub>m (map_of (snd m))(k \<mapsto> v)"
proof -
  have "map_of (take (fst m) ((k, v) # AList.delete k (snd m))) \<subseteq>\<^sub>m map_of ((k, v) # AList.delete k (snd m))"
    by (rule map_of_take)
  also have "\<dots> = (map_of (snd m))(k \<mapsto> v)" by (simp add: delete_conv' fun_eq_iff)
  finally show ?thesis by (simp only: bounded_insert_def snd_conv)
qed

interpretation bounded: moka_laws bounded_moka "\<lambda>m. map_of (snd m)"
  by unfold_locales
    (auto simp: bounded_moka_def bounded_insert_held delete_conv' dom_map_of_conv_image_fst
      map_of_eq_None_iff [symmetric])

end
