(* ===== verification/Inode_Cache.thy ===== *)
theory Inode_Cache
  imports Moka Effects Transports
begin

text \<open>
  What the mount remembers of the NAS's tree (\<open>synology-filestation-fuse/src/cache.rs\<close>): inode
  numbers and their paths, which last, the details of a file, which age out, and directory
  listings, which do too. A hash map is an association list, whose order is one the map may have.
  \<open>low\<close> is \<open>str::to_lowercase\<close>; DSM treats two spellings of one path as one.
\<close>

section \<open>Inodes\<close>

record inode_entry =
  ie_ino :: u64
  ie_path :: str
  ie_info :: syno_file_info

record 'm inode_cache =
  ic_next_ino :: u64
  ic_by_ino :: 'm
  ic_path_to_ino :: "(str \<times> u64) list"
  ic_ino_to_path :: "(u64 \<times> str) list"

type_synonym 'm inode_moka = "('m, u64, inode_entry) moka"

definition inode_cache_new :: "'m inode_moka \<Rightarrow> nat \<Rightarrow> 'm inode_cache" where
  "inode_cache_new M ttl_secs =
     \<lparr>ic_next_ino = 2, ic_by_ino = mk_build M 10000 (Some (secs ttl_secs)) None,
      ic_path_to_ino = [], ic_ino_to_path = []\<rparr>"

definition get_or_alloc_ino :: "(str \<Rightarrow> str) \<Rightarrow> str \<Rightarrow> 'm inode_cache \<Rightarrow> u64 \<times> 'm inode_cache" where
  "get_or_alloc_ino low path c =
     (let key = low path
      in case map_of (ic_path_to_ino c) key of
        Some ino \<Rightarrow> (ino, c)
      | None \<Rightarrow>
          let ino = ic_next_ino c
          in (ino, c\<lparr>ic_next_ino := ino + 1, ic_path_to_ino := AList.update key ino (ic_path_to_ino c)\<rparr>))"

definition inode_insert ::
  "'m inode_moka \<Rightarrow> (str \<Rightarrow> str) \<Rightarrow> u64 \<Rightarrow> syno_file_info \<Rightarrow> 'm inode_cache \<Rightarrow> 'm inode_cache" where
  "inode_insert M low ino info c =
     (let path = fi_path info; entry = \<lparr>ie_ino = ino, ie_path = path, ie_info = info\<rparr>
      in c\<lparr>ic_by_ino := mk_insert M ino entry (ic_by_ino c),
           ic_path_to_ino := AList.update (low path) ino (ic_path_to_ino c),
           ic_ino_to_path := AList.update ino path (ic_ino_to_path c)\<rparr>)"

definition seed_root :: "'m inode_moka \<Rightarrow> (str \<Rightarrow> str) \<Rightarrow> syno_file_info \<Rightarrow> 'm inode_cache \<Rightarrow> 'm inode_cache" where
  "seed_root M low info c =
     (let path = fi_path info; entry = \<lparr>ie_ino = 1, ie_path = path, ie_info = info\<rparr>
      in c\<lparr>ic_by_ino := mk_insert M 1 entry (ic_by_ino c),
           ic_path_to_ino := AList.update (low path) 1 (ic_path_to_ino c),
           ic_ino_to_path := AList.update 1 path (ic_ino_to_path c)\<rparr>)"

definition get_by_ino :: "'m inode_moka \<Rightarrow> u64 \<Rightarrow> 'm inode_cache \<Rightarrow> inode_entry option \<times> 'm inode_cache" where
  "get_by_ino M ino c = (case mk_get M ino (ic_by_ino c) of (r, m) \<Rightarrow> (r, c\<lparr>ic_by_ino := m\<rparr>))"

definition get_path_for_ino :: "'m inode_moka \<Rightarrow> u64 \<Rightarrow> 'm inode_cache \<Rightarrow> str option \<times> 'm inode_cache" where
  "get_path_for_ino M ino c =
     (case get_by_ino M ino c of
        (Some entry, c) \<Rightarrow> (Some (ie_path entry), c)
      | (None, c) \<Rightarrow> (map_of (ic_ino_to_path c) ino, c))"

text \<open>The body of the loop that forgets the keys found.\<close>

definition forget_key :: "'m inode_moka \<Rightarrow> str \<Rightarrow> 'm inode_cache \<Rightarrow> 'm inode_cache" where
  "forget_key M path c =
     (let c = (case map_of (ic_path_to_ino c) path of
          Some ino \<Rightarrow>
            c\<lparr>ic_by_ino := mk_invalidate M ino (ic_by_ino c), ic_ino_to_path := AList.delete ino (ic_ino_to_path c)\<rparr>
        | None \<Rightarrow> c)
      in c\<lparr>ic_path_to_ino := AList.delete path (ic_path_to_ino c)\<rparr>)"

definition inode_invalidate_prefix :: "'m inode_moka \<Rightarrow> (str \<Rightarrow> str) \<Rightarrow> str \<Rightarrow> 'm inode_cache \<Rightarrow> 'm inode_cache" where
  "inode_invalidate_prefix M low prefix c =
     (let to_remove = filter (starts_with (low prefix)) (map fst (ic_path_to_ino c))
      in fold (forget_key M) to_remove c)"

definition invalidate_path :: "'m inode_moka \<Rightarrow> (str \<Rightarrow> str) \<Rightarrow> str \<Rightarrow> 'm inode_cache \<Rightarrow> 'm inode_cache" where
  "invalidate_path M low path c =
     (let key = low path
      in case map_of (ic_path_to_ino c) key of
        Some ino \<Rightarrow>
          c\<lparr>ic_by_ino := mk_invalidate M ino (ic_by_ino c), ic_ino_to_path := AList.delete ino (ic_ino_to_path c),
            ic_path_to_ino := AList.delete key (ic_path_to_ino c)\<rparr>
      | None \<Rightarrow> c)"

definition get_ino_for_path :: "(str \<Rightarrow> str) \<Rightarrow> str \<Rightarrow> 'm inode_cache \<Rightarrow> u64 option" where
  "get_ino_for_path low path c = map_of (ic_path_to_ino c) (low path)"

definition get_size_for_ino :: "'m inode_moka \<Rightarrow> u64 \<Rightarrow> 'm inode_cache \<Rightarrow> u64 option \<times> 'm inode_cache" where
  "get_size_for_ino M ino c =
     (case get_by_ino M ino c of (entry, c) \<Rightarrow>
        (Option.bind entry (\<lambda>e. Option.bind (fi_additional (ie_info e)) ad_size), c))"

section \<open>Listings\<close>

record 'd dir_cache =
  dc_listings :: 'd
  dc_enabled :: bool

type_synonym 'd dir_moka = "('d, str, syno_file_info list) moka"

definition dir_cache_new :: "'d dir_moka \<Rightarrow> nat \<Rightarrow> 'd dir_cache" where
  "dir_cache_new D ttl_secs =
     \<lparr>dc_listings = mk_build D 1000 (Some (secs ttl_secs)) None, dc_enabled = (0 < ttl_secs)\<rparr>"

definition dir_get ::
  "'d dir_moka \<Rightarrow> (str \<Rightarrow> str) \<Rightarrow> str \<Rightarrow> 'd dir_cache \<Rightarrow> syno_file_info list option \<times> 'd dir_cache" where
  "dir_get D low path c =
     (if \<not> dc_enabled c then (None, c)
      else case mk_get D (low path) (dc_listings c) of (r, m) \<Rightarrow> (r, c\<lparr>dc_listings := m\<rparr>))"

definition dir_insert ::
  "'d dir_moka \<Rightarrow> (str \<Rightarrow> str) \<Rightarrow> str \<Rightarrow> syno_file_info list \<Rightarrow> 'd dir_cache \<Rightarrow> syno_file_info list \<times> 'd dir_cache" where
  "dir_insert D low path entries c =
     (entries,
      if dc_enabled c then c\<lparr>dc_listings := mk_insert D (low path) entries (dc_listings c)\<rparr> else c)"

definition dir_invalidate :: "'d dir_moka \<Rightarrow> (str \<Rightarrow> str) \<Rightarrow> str \<Rightarrow> 'd dir_cache \<Rightarrow> 'd dir_cache" where
  "dir_invalidate D low path c = c\<lparr>dc_listings := mk_invalidate D (low path) (dc_listings c)\<rparr>"

definition dir_invalidate_prefix :: "'d dir_moka \<Rightarrow> (str \<Rightarrow> str) \<Rightarrow> str \<Rightarrow> 'd dir_cache \<Rightarrow> 'd dir_cache" where
  "dir_invalidate_prefix D low prefix c =
     (let prefix = low prefix; under = prefix @ lit ''/''
      in c\<lparr>dc_listings :=
             fold (mk_invalidate D) (filter (\<lambda>key. key = prefix \<or> starts_with under key) (mk_keys D (dc_listings c)))
               (dc_listings c)\<rparr>)"

section \<open>Paths keep their numbers\<close>

text \<open>
  The life of the cache: the steps the mount takes on it, in any order and from any thread, with
  every pair of a path and the number that was given out for it. A number is asked for while there are numbers
  left. What is inserted under a number is details of a path that was given it at some time: a
  lookup inserts at once, a truncate after it has made the cache forget the path, and in between another
  thread may have had the path numbered anew. (The details carry the path the NAS answers with; that it
  is, but for its spelling, the one it was asked about, is what the mount relies on.)
\<close>

inductive inode_run ::
  "'m inode_moka \<Rightarrow> (str \<Rightarrow> str) \<Rightarrow> syno_file_info \<Rightarrow> nat \<Rightarrow> (str \<times> u64) set \<Rightarrow> 'm inode_cache \<Rightarrow> bool"
  for M low root ttl where
  begun: "inode_run M low root ttl {(low (fi_path root), 1)} (seed_root M low root (inode_cache_new M ttl))"
| alloc: "inode_run M low root ttl (insert (low path, ino) given) c'" if "inode_run M low root ttl given c"
    and "ic_next_ino c \<noteq> - 1" and "get_or_alloc_ino low path c = (ino, c')"
| insert: "inode_run M low root ttl given (inode_insert M low ino info c)" if "inode_run M low root ttl given c"
    and "(low (fi_path info), ino) \<in> given"
| look: "inode_run M low root ttl given (snd (get_by_ino M ino c))" if "inode_run M low root ttl given c"
| forget: "inode_run M low root ttl given (invalidate_path M low path c)" if "inode_run M low root ttl given c"
| sweep: "inode_run M low root ttl given (inode_invalidate_prefix M low path c)" if "inode_run M low root ttl given c"

lemma get_path_looks: "snd (get_path_for_ino M ino c) = snd (get_by_ino M ino c)"
  by (simp add: get_path_for_ino_def split: prod.split option.split)

lemma get_size_looks: "snd (get_size_for_ino M ino c) = snd (get_by_ino M ino c)"
  by (simp add: get_size_for_ino_def split: prod.split)

text \<open>
  What holds of the numbers given out and of the three maps: numbers lie below the next one, none was
  given to two paths, and wherever a number and a path stand together the one was given to the other.
\<close>

definition inodes_ok ::
  "('m \<Rightarrow> u64 \<Rightarrow> inode_entry option) \<Rightarrow> (str \<Rightarrow> str) \<Rightarrow> (str \<times> u64) set \<Rightarrow> 'm inode_cache \<Rightarrow> bool" where
  "inodes_ok held low given c \<longleftrightarrow>
     (\<forall>key ino. (key, ino) \<in> given \<longrightarrow> ino < ic_next_ino c) \<and>
     (\<forall>key key' ino. (key, ino) \<in> given \<longrightarrow> (key', ino) \<in> given \<longrightarrow> key' = key) \<and>
     (\<forall>key ino. map_of (ic_path_to_ino c) key = Some ino \<longrightarrow> (key, ino) \<in> given) \<and>
     (\<forall>ino p. map_of (ic_ino_to_path c) ino = Some p \<longrightarrow> (low p, ino) \<in> given) \<and>
     (\<forall>ino e. held (ic_by_ino c) ino = Some e \<longrightarrow> ie_ino e = ino \<and> (low (ie_path e), ino) \<in> given)"

lemma inodes_okD:
  assumes "inodes_ok held low given c"
  shows "(key, ino) \<in> given \<Longrightarrow> ino < ic_next_ino c"
    and "(key, ino) \<in> given \<Longrightarrow> (key', ino) \<in> given \<Longrightarrow> key' = key"
    and "map_of (ic_path_to_ino c) key = Some ino \<Longrightarrow> (key, ino) \<in> given"
    and "map_of (ic_ino_to_path c) ino = Some p \<Longrightarrow> (low p, ino) \<in> given"
    and "held (ic_by_ino c) ino = Some e \<Longrightarrow> ie_ino e = ino \<and> (low (ie_path e), ino) \<in> given"
  using assms unfolding inodes_ok_def by blast+

lemma next_ino_fresh: "ic_next_ino c \<noteq> - 1 \<Longrightarrow> ino < ic_next_ino c + 1 \<longleftrightarrow> ino < ic_next_ino c \<or> ino = ic_next_ino c"
proof -
  assume "ic_next_ino c \<noteq> - 1"
  then have "1 + ic_next_ino c \<noteq> 0" by (simp add: add_eq_0_iff)
  then have "unat (ic_next_ino c + 1) = Suc (unat (ic_next_ino c))"
    using unatSuc [of "ic_next_ino c"] by (simp add: add.commute)
  then show ?thesis by (auto simp: word_less_nat_alt less_Suc_eq word_unat_eq_iff)
qed

locale inode_laws = moka_laws M held
  for M :: "('m, u64, inode_entry) moka" and held :: "'m \<Rightarrow> u64 \<Rightarrow> inode_entry option"
begin

lemma alloc_ok:
  assumes ok: "inodes_ok held low given c" and left: "ic_next_ino c \<noteq> - 1"
    and got: "get_or_alloc_ino low path c = (ino, c')"
  shows "inodes_ok held low (insert (low path, ino) given) c'"
proof (cases "map_of (ic_path_to_ino c) (low path)")
  case None
  then have c': "ino = ic_next_ino c" "c' = c\<lparr>ic_next_ino := ic_next_ino c + 1,
      ic_path_to_ino := AList.update (low path) (ic_next_ino c) (ic_path_to_ino c)\<rparr>"
    using got by (auto simp: get_or_alloc_ino_def Let_def)
  have fresh: "(key, ic_next_ino c) \<notin> given" for key using inodes_okD(1) [OF ok] by blast
  note below = next_ino_fresh [OF left]
  show ?thesis
    using fresh inodes_okD [OF ok] unfolding c' inodes_ok_def
    by (simp add: update_conv' below)
next
  case (Some known)
  then have "c' = c" "ino = known" using got by (simp_all add: get_or_alloc_ino_def)
  moreover have "insert (low path, known) given = given" using inodes_okD(3) [OF ok Some] by blast
  ultimately show ?thesis using ok by simp
qed

lemma insert_ok:
  assumes ok: "inodes_ok held low given c" and own: "(low (fi_path info), ino) \<in> given"
  shows "inodes_ok held low given (inode_insert M low ino info c)"
proof -
  have "ie_ino e = i \<and> (low (ie_path e), i) \<in> given"
    if "held (mk_insert M ino \<lparr>ie_ino = ino, ie_path = fi_path info, ie_info = info\<rparr> (ic_by_ino c)) i = Some e" for i e
    using kept_on_insert [OF that] own inodes_okD(5) [OF ok] by (auto split: if_splits)
  then show ?thesis
    using own inodes_okD [OF ok] unfolding inodes_ok_def inode_insert_def
    by (simp add: update_conv' Let_def)
qed

lemma look_ok: "inodes_ok held low given c \<Longrightarrow> inodes_ok held low given (snd (get_by_ino M ino c))"
  unfolding inodes_ok_def get_by_ino_def
  by (auto simp: Let_def split: prod.splits dest: kept_on_get)

lemma forget_key_ok: "inodes_ok held low given c \<Longrightarrow> inodes_ok held low given (forget_key M key c)"
  unfolding inodes_ok_def forget_key_def
  by (auto simp: delete_conv' Let_def split: option.splits if_splits dest!: kept_on_invalidate)

lemma sweep_ok: "inodes_ok held low given c \<Longrightarrow> inodes_ok held low given (fold (forget_key M) keys c)"
  by (induction keys arbitrary: c) (simp_all add: forget_key_ok)

lemma invalidate_path_forgets:
  "invalidate_path M low path c =
     (if get_ino_for_path low path c = None then c else forget_key M (low path) c)"
  by (auto simp: invalidate_path_def forget_key_def get_ino_for_path_def Let_def split: option.splits)

lemma begun_ok: "inodes_ok held low {(low (fi_path root), 1)} (seed_root M low root (inode_cache_new M ttl))"
  by (auto simp: inodes_ok_def seed_root_def inode_cache_new_def built not_inserted Let_def
      dest!: kept_on_insert split: if_splits)

lemma inodes_along_run: "inode_run M low root ttl given c \<Longrightarrow> inodes_ok held low given c"
  by (induction rule: inode_run.induct)
    (auto simp: begun_ok insert_ok look_ok invalidate_path_forgets forget_key_ok
      inode_invalidate_prefix_def sweep_ok Let_def intro: alloc_ok)

text \<open>The path a number leads back to is one that was given the number.\<close>

lemma path_of_number:
  assumes ok: "inodes_ok held low given c" and path: "fst (get_path_for_ino M ino c) = Some p"
  shows "(low p, ino) \<in> given"
proof -
  obtain r m where look: "mk_get M ino (ic_by_ino c) = (r, m)" by fastforce
  show ?thesis
  proof (cases r)
    case None
    with look path show ?thesis by (simp add: get_path_for_ino_def get_by_ino_def inodes_okD(4) [OF ok])
  next
    case (Some e)
    with look path inodes_okD(5) [OF ok got, of ino e m] show ?thesis
      by (simp add: get_path_for_ino_def get_by_ino_def)
  qed
qed

text \<open>
  So what a truncate does is a part of such a life: it looks up the path of a number, forgets that path, and
  inserts what the NAS then says of it under the number again.
\<close>

lemma truncate_is_a_run:
  assumes run: "inode_run M low root ttl given c" and path: "get_path_for_ino M ino c = (Some path, c1)"
    and said: "low (fi_path info) = low path"
  shows "inode_run M low root ttl given (inode_insert M low ino info (invalidate_path M low path c1))"
proof (rule inode_run.insert)
  have "c1 = snd (get_by_ino M ino c)" using get_path_looks [of M ino c] path by simp
  then show "inode_run M low root ttl given (invalidate_path M low path c1)"
    by (simp add: inode_run.look inode_run.forget run)
  show "(low (fi_path info), ino) \<in> given"
    using path_of_number [OF inodes_along_run [OF run], of ino path] path said by simp
qed

end

section \<open>Forgotten listings\<close>

locale dir_laws = moka_laws D held
  for D :: "('d, str, syno_file_info list) moka" and held :: "'d \<Rightarrow> str \<Rightarrow> syno_file_info list option"
begin

lemma dir_get_none: "held (dc_listings c) (low path) = None \<Longrightarrow> fst (dir_get D low path c) = None"
  using forgets [of "dc_listings c" "low path"] by (auto simp: dir_get_def split: prod.splits)

lemma dir_forgotten: "fst (dir_get D low path (dir_invalidate D low path c)) = None"
  by (rule dir_get_none) (simp add: dir_invalidate_def)

text \<open>A sweep takes the directory and everything under it.\<close>

lemma dir_swept:
  assumes "low path = low prefix \<or> starts_with (low prefix @ lit ''/'') (low path)"
  shows "fst (dir_get D low path (dir_invalidate_prefix D low prefix c)) = None"
proof (rule dir_get_none, rule ccontr)
  let ?keys = "filter (\<lambda>key. key = low prefix \<or> starts_with (low prefix @ lit ''/'') key) (mk_keys D (dc_listings c))"
  assume "held (dc_listings (dir_invalidate_prefix D low prefix c)) (low path) \<noteq> None"
  then obtain v where "held (fold (mk_invalidate D) ?keys (dc_listings c)) (low path) = Some v"
    by (auto simp: dir_invalidate_prefix_def Let_def)
  then have "low path \<notin> set ?keys" "held (dc_listings c) (low path) = Some v"
    by (rule kept_on_sweep [THEN conjunct1], rule kept_on_sweep [THEN conjunct2])
  then show False using assms listed [of "dc_listings c"] by auto
qed

text \<open>What a sweep does not name, it does not drop.\<close>

lemma dir_not_swept:
  assumes "low path \<noteq> low prefix" and "\<not> starts_with (low prefix @ lit ''/'') (low path)"
    and "\<And>k m. k \<noteq> low path \<Longrightarrow> held (mk_invalidate D k m) (low path) = held m (low path)"
  shows "held (dc_listings (dir_invalidate_prefix D low prefix c)) (low path) = held (dc_listings c) (low path)"
proof -
  have "held (fold (mk_invalidate D) ks m) (low path) = held m (low path)" if "low path \<notin> set ks" for ks m
    using that by (induction ks arbitrary: m) (auto simp: assms(3))
  then show ?thesis using assms(1,2) by (simp add: dir_invalidate_prefix_def Let_def)
qed

end

section \<open>Properties\<close>

text \<open>
  C27. An inode number never changes hands. The kernel keeps numbers for as long as it likes; once a
  path has been given one, that number leads back to that path (in some spelling) or to none, and is
  given to no other, whatever the mount allocates, forgets and inserts afterwards, also under
  a number whose path it has just forgotten, and whatever its caches drop.
\<close>

theorem inode_number_stays_with_its_path:
  assumes "moka_laws M held"
    and "inode_run M low root ttl given c" and "(low p, ino) \<in> given"
  shows "(\<forall>q. fst (get_path_for_ino M ino c) = Some q \<longrightarrow> low q = low p) \<and>
    (\<forall>q. fst (get_or_alloc_ino low q c) = ino \<longrightarrow> low q = low p)"
proof -
  note laws = inode_laws.intro [OF assms(1)]
  note ok = inode_laws.inodes_along_run [OF laws assms(2)]
  have "low q = low p" if "fst (get_path_for_ino M ino c) = Some q" for q
    using inodes_okD(2) [OF ok assms(3) inode_laws.path_of_number [OF laws ok that]] .
  moreover have "low q = low p" if q: "fst (get_or_alloc_ino low q c) = ino" for q
  proof (cases "map_of (ic_path_to_ino c) (low q)")
    case None
    with q inodes_okD(1) [OF ok assms(3)] show ?thesis by (simp add: get_or_alloc_ino_def Let_def)
  next
    case (Some known)
    with q have "(low q, ino) \<in> given" using inodes_okD(3) [OF ok Some] by (simp add: get_or_alloc_ino_def)
    then show ?thesis by (rule inodes_okD(2) [OF ok assms(3)])
  qed
  ultimately show ?thesis by blast
qed

text \<open>
  A file looked up as \<open>/A\<close>, which the NAS calls \<open>/a\<close>; a truncate has it forgotten, another thread looks it
  up in between, and the truncate inserts it under its old number.
\<close>

definition plain_info :: "str \<Rightarrow> syno_file_info" where
  "plain_info path = \<lparr>fi_name = path, fi_path = path, fi_isdir = False, fi_additional = None, fi_code = None\<rparr>"

definition rooted :: "(nat \<times> (u64 \<times> inode_entry) list) inode_cache" where
  "rooted = seed_root bounded_moka to_ascii_lowercase (plain_info []) (inode_cache_new bounded_moka 30)"

definition looked_up :: "(nat \<times> (u64 \<times> inode_entry) list) inode_cache" where
  "looked_up = snd (get_or_alloc_ino to_ascii_lowercase [47, 65] rooted)"

definition looked_up_again :: "(nat \<times> (u64 \<times> inode_entry) list) inode_cache" where
  "looked_up_again =
     snd (get_or_alloc_ino to_ascii_lowercase [47, 97]
       (invalidate_path bounded_moka to_ascii_lowercase [47, 65] looked_up))"

definition truncated_late :: "(nat \<times> (u64 \<times> inode_entry) list) inode_cache" where
  "truncated_late = inode_insert bounded_moka to_ascii_lowercase 2 (plain_info [47, 97]) looked_up_again"

theorem inode_number_stays_with_its_path_witness:
  "inode_run bounded_moka to_ascii_lowercase (plain_info []) 30 {([], 1), ([47, 97], 2), ([47, 97], 3)} truncated_late \<and>
   fst (get_path_for_ino bounded_moka 2 truncated_late) = Some [47, 97] \<and>
   to_ascii_lowercase [47, 97] = to_ascii_lowercase [47, 65]"
proof -
  note defs = truncated_late_def looked_up_again_def looked_up_def rooted_def plain_info_def seed_root_def inode_cache_new_def
    inode_insert_def invalidate_path_def get_or_alloc_ino_def get_ino_for_path_def get_path_for_ino_def
    get_by_ino_def bounded_moka_def bounded_insert_def Let_def to_ascii_lowercase_def to_ascii_lower_def
  let ?run = "inode_run bounded_moka to_ascii_lowercase (plain_info []) 30"
  have low: "to_ascii_lowercase [47, 65] = [47, 97]" "to_ascii_lowercase [47, 97] = [47, 97]" "to_ascii_lowercase [] = []"
    by (simp_all add: to_ascii_lowercase_def to_ascii_lower_def)
  have 0: "?run {([], 1)} rooted"
    using inode_run.begun [of bounded_moka to_ascii_lowercase "plain_info []" 30]
    by (simp add: rooted_def low plain_info_def)
  have 1: "?run (insert ([47, 97], 2) {([], 1)}) looked_up"
    using inode_run.alloc [OF 0, of "[47, 65]" 2 looked_up] by (simp add: low) (simp add: defs)
  have 2: "?run (insert ([47, 97], 2) {([], 1)}) (invalidate_path bounded_moka to_ascii_lowercase [47, 65] looked_up)"
    by (rule inode_run.forget [OF 1])
  have 3: "?run (insert ([47, 97], 3) (insert ([47, 97], 2) {([], 1)})) looked_up_again"
    using inode_run.alloc [OF 2, of "[47, 97]" 3 looked_up_again] by (simp add: low) (simp add: defs)
  have "?run (insert ([47, 97], 3) (insert ([47, 97], 2) {([], 1)})) truncated_late"
    unfolding truncated_late_def by (rule inode_run.insert [OF 3]) (simp add: low plain_info_def)
  moreover have "insert ([47, 97], 3) (insert ([47, 97], 2) {([], 1)}) = {([], 1), ([47, 97], 2 :: u64), ([47, 97 :: u8], 3)}"
    by auto
  ultimately have run: "?run {([], 1), ([47, 97], 2), ([47, 97], 3)} truncated_late" by simp
  have path: "fst (get_path_for_ino bounded_moka 2 truncated_late) = Some [47, 97]" by (simp add: defs)
  have "to_ascii_lowercase [47, 97] = to_ascii_lowercase [47, 65]"
    using inode_number_stays_with_its_path [OF bounded.moka_laws_axioms run, of "[47, 65]" 2] path by (simp add: low)
  with run path show ?thesis by blast
qed

end
