(* ===== verification/Read_Cache.thy ===== *)
theory Read_Cache
  imports Moka Effects
begin

text \<open>
  The cache of file blocks (\<open>ReadCache\<close> of \<open>synology-filestation-fuse/src/cache.rs\<close>): blocks, the
  claims of the downloads under way, and the wait of a reader for somebody else's download. A
  claim's slot is shared with its waiters and outlives its entry in the map, so slots are numbered,
  and those that are resolved are kept.
\<close>

definition READ_BLOCK_SIZE :: u64 where
  "READ_BLOCK_SIZE = 256 * 1024"

definition BLOCK_WAIT_TIMEOUT :: duration where
  "BLOCK_WAIT_TIMEOUT = secs 60"

type_synonym block = "u64 \<times> u64"
type_synonym 'b block_moka = "('b, block, bytes) moka"

record 'b read_cache =
  rc_blocks :: 'b
  rc_ino_blocks :: "(u64 \<times> u64 list) list"
  rc_in_flight :: "(block \<times> nat) list"
  rc_next_slot :: nat
  rc_resolved :: "nat list"
  rc_block_size :: u64
  rc_max_blocks :: u64

definition read_cache_new :: "'b block_moka \<Rightarrow> u64 \<Rightarrow> u64 \<Rightarrow> 'b read_cache" where
  "read_cache_new B block_size max_blocks =
     \<lparr>rc_blocks = mk_build B (unat max_blocks) None (Some (secs 300)), rc_ino_blocks = [], rc_in_flight = [],
      rc_next_slot = 0, rc_resolved = [], rc_block_size = block_size, rc_max_blocks = max_blocks\<rparr>"

definition capacity_blocks :: "'b read_cache \<Rightarrow> u64" where
  "capacity_blocks rc = rc_max_blocks rc"

definition read_get :: "'b block_moka \<Rightarrow> u64 \<Rightarrow> u64 \<Rightarrow> 'b read_cache \<Rightarrow> bytes option \<times> 'b read_cache" where
  "read_get B ino idx rc = (case mk_get B (ino, idx) (rc_blocks rc) of (r, m) \<Rightarrow> (r, rc\<lparr>rc_blocks := m\<rparr>))"

definition read_contains :: "'b block_moka \<Rightarrow> u64 \<Rightarrow> u64 \<Rightarrow> 'b read_cache \<Rightarrow> bool" where
  "read_contains B ino idx rc = mk_contains B (ino, idx) (rc_blocks rc)"

definition resolve :: "u64 \<Rightarrow> u64 \<Rightarrow> 'b read_cache \<Rightarrow> 'b read_cache" where
  "resolve ino idx rc =
     (let slot = map_of (rc_in_flight rc) (ino, idx);
          rc = rc\<lparr>rc_in_flight := AList.delete (ino, idx) (rc_in_flight rc)\<rparr>
      in case slot of
        Some slot \<Rightarrow> rc\<lparr>rc_resolved := slot # rc_resolved rc\<rparr>
      | None \<Rightarrow> rc)"

definition cancel_inflight :: "u64 \<Rightarrow> u64 \<Rightarrow> 'b read_cache \<Rightarrow> 'b read_cache" where
  "cancel_inflight ino idx rc = resolve ino idx rc"

definition or_default :: "'v \<Rightarrow> 'k \<Rightarrow> ('k \<times> 'v) list \<Rightarrow> 'v" where
  "or_default v k m = (case map_of m k of None \<Rightarrow> v | Some v' \<Rightarrow> v')"

definition read_insert :: "'b block_moka \<Rightarrow> u64 \<Rightarrow> u64 \<Rightarrow> bytes \<Rightarrow> 'b read_cache \<Rightarrow> 'b read_cache" where
  "read_insert B ino idx data rc =
     resolve ino idx (rc\<lparr>rc_blocks := mk_insert B (ino, idx) data (rc_blocks rc),
       rc_ino_blocks := AList.update ino (List.insert idx (or_default [] ino (rc_ino_blocks rc))) (rc_ino_blocks rc)\<rparr>)"

definition claim_inflight :: "u64 \<Rightarrow> u64 \<Rightarrow> 'b read_cache \<Rightarrow> bool \<times> 'b read_cache" where
  "claim_inflight ino idx rc =
     (case map_of (rc_in_flight rc) (ino, idx) of
        Some _ \<Rightarrow> (False, rc)
      | None \<Rightarrow>
          (True, rc\<lparr>rc_in_flight := AList.update (ino, idx) (rc_next_slot rc) (rc_in_flight rc),
                   rc_next_slot := rc_next_slot rc + 1\<rparr>))"

definition invalidate_block :: "'b block_moka \<Rightarrow> u64 \<Rightarrow> u64 \<Rightarrow> 'b read_cache \<Rightarrow> 'b read_cache" where
  "invalidate_block B ino idx rc =
     rc\<lparr>rc_blocks := mk_invalidate B (ino, idx) (rc_blocks rc),
        rc_ino_blocks :=
          (case map_of (rc_ino_blocks rc) ino of
             Some idxs \<Rightarrow> AList.update ino (removeAll idx idxs) (rc_ino_blocks rc)
           | None \<Rightarrow> rc_ino_blocks rc)\<rparr>"

text \<open>Dropping a file's blocks: those that arrived, then the claims of those on their way.\<close>

definition drop_block :: "'b block_moka \<Rightarrow> u64 \<Rightarrow> u64 \<Rightarrow> 'b read_cache \<Rightarrow> 'b read_cache" where
  "drop_block B ino idx rc = resolve ino idx (rc\<lparr>rc_blocks := mk_invalidate B (ino, idx) (rc_blocks rc)\<rparr>)"

definition claimed_of :: "u64 \<Rightarrow> 'b read_cache \<Rightarrow> u64 list" where
  "claimed_of ino rc = map snd (filter (\<lambda>(i, _). i = ino) (map fst (rc_in_flight rc)))"

definition invalidate_ino :: "'b block_moka \<Rightarrow> u64 \<Rightarrow> 'b read_cache \<Rightarrow> 'b read_cache" where
  "invalidate_ino B ino rc =
     (let indices = or_default [] ino (rc_ino_blocks rc);
          rc = rc\<lparr>rc_ino_blocks := AList.delete ino (rc_ino_blocks rc)\<rparr>;
          rc = fold (drop_block B ino) indices rc
      in fold (resolve ino) (claimed_of ino rc) rc)"

section \<open>Waiting for a block\<close>

text \<open>
  The loop on the condition variable. \<open>s\<close> is everything the threads share; \<open>sleep\<close> lets the others
  run until the bell rings, the time is up, or for no reason, and reads the clock.
\<close>

partial_function (option) wait_loop ::
  "('s \<Rightarrow> bool) \<Rightarrow> ('s \<Rightarrow> instant \<times> 's) \<Rightarrow> (duration \<Rightarrow> 's \<Rightarrow> unit \<times> 's) \<Rightarrow> instant \<Rightarrow> 's \<Rightarrow> (unit \<times> 's) option" where
  "wait_loop resolved now sleep deadline s =
     (if resolved s then Some ((), s)
      else case now s of (t, s) \<Rightarrow>
        if deadline - t = 0 then Some ((), s)
        else case sleep (deadline - t) s of (_, s) \<Rightarrow> wait_loop resolved now sleep deadline s)"

end
