(* ===== verification/Prefetch.thy ===== *)
theory Prefetch
  imports Text
begin

text \<open>
  What the mount fetches before it is asked (\<open>synology-filestation-fuse/src/fs/prefetch.rs\<close>): the
  window at open for containers that keep their index at the end, the ramp behind a sequential
  reader, and the budget both draw on.
\<close>

definition TAIL_BLOCKS :: u64 where
  "TAIL_BLOCKS = 4"

definition RAMP_START :: u64 where
  "RAMP_START = 2"

definition MAX_PREFETCH_SPAN :: nat where
  "MAX_PREFETCH_SPAN = 16"

definition ASF :: bytes where
  "ASF =
     [0x30, 0x26, 0xB2, 0x75, 0x8E, 0x66, 0xCF, 0x11, 0xA6, 0xD9, 0x00, 0xAA, 0x00, 0x62, 0xCE, 0x6C]"

definition is_indexed_media :: "bytes \<Rightarrow> bool" where
  "is_indexed_media head \<longleftrightarrow>
     (length head \<ge> 8 \<and>
        take 4 (drop 4 head) \<in> {lit ''ftyp'', lit ''moov'', lit ''mdat'', lit ''wide'', lit ''skip''}) \<or>
     starts_with [0x1A, 0x45, 0xDF, 0xA3] head \<or>
     (length head \<ge> 12 \<and> take 4 head = lit ''RIFF'' \<and> take 4 (drop 8 head) = lit ''AVI '') \<or>
     starts_with ASF head"

text \<open>The range \<open>a..b\<close> of Rust, and \<open>saturating_sub\<close>, \<open>saturating_mul\<close>.\<close>

definition u64_range :: "u64 \<Rightarrow> u64 \<Rightarrow> u64 list" where
  "u64_range a b = map of_nat [unat a..<unat b]"

definition saturating_sub :: "u64 \<Rightarrow> u64 \<Rightarrow> u64" where
  "saturating_sub a b = (if b \<le> a then a - b else 0)"

definition saturating_mul :: "u64 \<Rightarrow> nat \<Rightarrow> u64" where
  "saturating_mul a n = (if unat a * n < 2 ^ 64 then a * of_nat n else - 1)"

definition open_window :: "u64 \<Rightarrow> u64 \<Rightarrow> bool \<Rightarrow> u64 list" where
  "open_window total_blocks depth media =
     (if \<not> media \<or> depth = 0 \<or> total_blocks = 0 then []
      else
        let head_end = min depth total_blocks;
            blocks = u64_range 1 head_end
        in if total_blocks > head_end then
             let tail_start = max (saturating_sub total_blocks TAIL_BLOCKS) head_end
             in blocks @ u64_range tail_start total_blocks
           else blocks)"

record read_ahead =
  ra_next_offset :: "u64 option"
  ra_window :: u64

definition read_ahead_default :: read_ahead where
  "read_ahead_default = \<lparr>ra_next_offset = None, ra_window = 0\<rparr>"

definition advance ::
  "u64 \<Rightarrow> u64 \<Rightarrow> u64 \<Rightarrow> u64 option \<Rightarrow> u64 \<Rightarrow> read_ahead \<Rightarrow> u64 list \<times> read_ahead" where
  "advance offset len block_size total_blocks depth ra =
     (if len = 0 then ([], ra)
      else
        let sequential = (ra_next_offset ra = Some offset);
            ra = ra\<lparr>ra_next_offset := Some (offset + len)\<rparr>
        in if \<not> sequential \<or> depth = 0 then ([], ra\<lparr>ra_window := 0\<rparr>)
           else
             let ra = ra\<lparr>ra_window := (if ra_window ra = 0 then min RAMP_START depth else min (ra_window ra * 2) depth)\<rparr>;
                 last_block = (offset + len - 1) div block_size
             in (takeWhile (\<lambda>idx. \<not> (case total_blocks of Some t \<Rightarrow> idx \<ge> t | None \<Rightarrow> False))
                   (map of_nat [unat (last_block + 1)..<unat (last_block + ra_window ra) + 1]), ra))"

definition MAX_INFLIGHT_PREFETCH_BLOCKS :: nat where
  "MAX_INFLIGHT_PREFETCH_BLOCKS = 32"

text \<open>A budget is the number of blocks on the wire; a claim is the number it took.\<close>

definition try_claim :: "nat \<Rightarrow> nat \<Rightarrow> nat \<Rightarrow> bool \<times> nat" where
  "try_claim blocks limit in_flight =
     (if in_flight + blocks < 2 ^ 64 \<and> in_flight + blocks \<le> limit then (True, in_flight + blocks)
      else (False, in_flight))"

definition drop_claim :: "nat \<Rightarrow> nat \<Rightarrow> nat" where
  "drop_claim blocks in_flight = in_flight - blocks"

definition streaming_depth :: "u64 \<Rightarrow> nat \<Rightarrow> u64 \<Rightarrow> u64" where
  "streaming_depth depth connections cache_blocks =
     min (saturating_mul depth connections) (max depth (cache_blocks div 2))"

section \<open>The windows\<close>

lemma unat_below: "x < unat b \<Longrightarrow> unat (of_nat x :: u64) = x" for b :: u64
proof -
  assume "x < unat b"
  moreover have "unat b < 2 ^ LENGTH(64)" by (rule unsigned_less)
  ultimately show ?thesis by (simp add: unat_of_nat)
qed

lemma set_u64_range: "set (u64_range a b) = {i. a \<le> i \<and> i < b}"
proof -
  have "i \<in> of_nat ` {unat a..<unat b} \<longleftrightarrow> a \<le> i \<and> i < b" for i :: u64
    by (auto simp: word_le_nat_alt word_less_nat_alt unat_below image_iff intro!: bexI [of _ "unat i"])
  then show ?thesis by (auto simp: u64_range_def)
qed

lemma distinct_u64_range: "distinct (u64_range a b)"
proof -
  have "inj_on (of_nat :: nat \<Rightarrow> u64) {unat a..<unat b}"
    by (rule inj_onI) (metis atLeastLessThan_iff unat_below)
  then show ?thesis by (simp add: u64_range_def distinct_map)
qed

text \<open>
  The window at open is the head and the tail of the file, no more. A container that keeps its
  index at the end gets the blocks up to the depth and the last four of the file, each once; block 0,
  which is in hand, is not among them, nor anything past the end; and any other file gets nothing.
\<close>

theorem open_window_is_head_and_tail:
  "distinct (open_window total_blocks depth media) \<and>
   set (open_window total_blocks depth media) =
     (if media \<and> depth \<noteq> 0 then {i. 0 < i \<and> i < total_blocks \<and> (i < depth \<or> unat total_blocks \<le> unat i + 4)} else {})"
proof -
  let ?h = "min depth total_blocks"
  let ?t = "max (saturating_sub total_blocks TAIL_BLOCKS) ?h"
  have tail: "saturating_sub total_blocks TAIL_BLOCKS \<le> i \<longleftrightarrow> unat total_blocks \<le> unat i + 4" for i
    by (auto simp: saturating_sub_def TAIL_BLOCKS_def word_le_nat_alt unat_sub)
  have one: "1 \<le> i \<longleftrightarrow> 0 < i" for i :: u64
    by (simp add: word_le_nat_alt word_less_nat_alt Suc_le_eq)
  show ?thesis
  proof (cases "depth < total_blocks")
    case True
    then have "?h = depth" "total_blocks \<noteq> 0" by (auto simp: min_def)
    with True show ?thesis unfolding open_window_def Let_def
      by (auto simp: distinct_u64_range set_u64_range tail one word_gt_0 not_le not_less)
  next
    case False
    then have "?h = total_blocks" by (simp add: min_def)
    with False show ?thesis unfolding open_window_def Let_def
      by (auto simp: distinct_u64_range set_u64_range one word_gt_0)
  qed
qed

text \<open>Reads of these lengths, each where the one before ended.\<close>

fun reads_on :: "u64 \<Rightarrow> u64 option \<Rightarrow> u64 \<Rightarrow> u64 \<Rightarrow> u64 list \<Rightarrow> read_ahead \<Rightarrow> read_ahead" where
  "reads_on block_size total_blocks depth offset [] ra = ra"
| "reads_on block_size total_blocks depth offset (len # lens) ra =
     reads_on block_size total_blocks depth (offset + len) lens
       (snd (advance offset len block_size total_blocks depth ra))"

lemma advance_next: "len \<noteq> 0 \<Longrightarrow> ra_next_offset (snd (advance offset len bs t depth ra)) = Some (offset + len)"
  by (simp add: advance_def Let_def)

lemma advance_ramp:
  assumes "ra_next_offset ra = Some offset" and "len \<noteq> 0" and "0 < depth" and "unat depth < 2 ^ 63"
    and "unat (ra_window ra) \<le> unat depth"
  shows "unat (ra_window (snd (advance offset len bs t depth ra))) =
    min (if ra_window ra = 0 then 2 else 2 * unat (ra_window ra)) (unat depth)"
proof -
  have "unat (ra_window ra * 2) = unat (ra_window ra) * 2"
    using assms(4,5) by (simp add: unat_word_ariths)
  moreover have "unat (min a b) = min (unat a) (unat b)" for a b :: u64
    by (simp add: min_def word_le_nat_alt)
  ultimately show ?thesis
    using assms(1-3) by (simp add: advance_def RAMP_START_def Let_def word_gt_0 mult.commute)
qed

lemma ramp_doubles:
  assumes "ra_next_offset ra = Some offset" and "0 \<notin> set lens" and "0 < depth" and "unat depth < 2 ^ 63"
    and "unat (ra_window ra) = (if k = 0 then 0 else min (2 ^ k) (unat depth))"
  shows "unat (ra_window (reads_on bs t depth offset lens ra)) =
    (if k + length lens = 0 then 0 else min (2 ^ (k + length lens)) (unat depth))"
  using assms(1,2,5)
proof (induction lens arbitrary: offset ra k)
  case (Cons len lens)
  let ?ra = "snd (advance offset len bs t depth ra)"
  have "0 < unat depth" using assms(3) by (simp add: word_less_nat_alt)
  then have "ra_window ra = 0 \<longleftrightarrow> k = 0"
    using Cons.prems(3) by (auto simp: unat_eq_0 [symmetric] simp del: unat_eq_0)
  then have "unat (ra_window ?ra) = min (2 ^ Suc k) (unat depth)"
    using advance_ramp [OF Cons.prems(1) _ assms(3,4), of len bs t] Cons.prems(2,3) by (auto simp: min_def)
  then show ?case
    using Cons.IH [of ?ra "offset + len" "Suc k"] Cons.prems(2) advance_next [of len offset bs t depth ra] by simp
qed simp

text \<open>
  Reading ahead is earned. A first read, or one after a seek, fetches nothing beyond what it asked
  for; each read that goes on where the last one ended doubles the window, from two blocks up to the
  depth.
\<close>

theorem read_ahead_is_earned:
  assumes "ra_next_offset ra \<noteq> Some offset" and "0 < depth" and "unat depth < 2 ^ 63"
    and "0 \<notin> set (len # lens)"
  shows "fst (advance offset len block_size total_blocks depth ra) = [] \<and>
    unat (ra_window (reads_on block_size total_blocks depth offset (len # lens) ra)) =
      (if lens = [] then 0 else min (2 ^ length lens) (unat depth))"
proof -
  have "ra_window (snd (advance offset len block_size total_blocks depth ra)) = 0"
    and "fst (advance offset len block_size total_blocks depth ra) = []"
    using assms(1,4) by (simp_all add: advance_def Let_def)
  moreover have "unat (ra_window (reads_on block_size total_blocks depth (offset + len) lens
      (snd (advance offset len block_size total_blocks depth ra)))) =
      (if 0 + length lens = 0 then 0 else min (2 ^ (0 + length lens)) (unat depth))"
    by (rule ramp_doubles [OF advance_next _ assms(2,3)]) (use assms(4) calculation in auto)
  ultimately show ?thesis by simp
qed

theorem read_ahead_is_earned_witness:
  "ra_window (reads_on 262144 None 16 0 [4096, 4096, 4096] read_ahead_default) = 4"
proof -
  have "unat (ra_window (reads_on 262144 None 16 0 [4096, 4096, 4096] read_ahead_default)) = 4"
    using read_ahead_is_earned [of read_ahead_default 0 16 4096 "[4096, 4096]" 262144 None]
    by (simp add: read_ahead_default_def)
  then show ?thesis by (metis of_nat_numeral of_nat_unat ucast_id)
qed

end
