(* ===== verification/Spill.thy ===== *)
theory Spill
  imports Upload
begin

text \<open>
  The write buffer of an open file (\<open>synology-filestation-fuse/src/spill.rs\<close>): in memory while it is
  small, in a temporary file once it has grown. A local file is open under its path; the process
  number and the operations on files are the environment's, on Unix. The process-wide counter of
  buffers is an argument of the constructors.
\<close>

section \<open>The file system under the buffer\<close>

record 'w spill_files =
  sf_temp_dir :: "'w \<Rightarrow> str \<times> 'w"
  sf_is_dir :: "str \<Rightarrow> 'w \<Rightarrow> bool \<times> 'w"
  sf_process_id :: nat
  sf_create_new :: "str \<Rightarrow> ('w, unit) io"
  sf_seek :: "str \<Rightarrow> u64 \<Rightarrow> ('w, unit) io"
  sf_write_all :: "str \<Rightarrow> bytes \<Rightarrow> ('w, unit) io"
  sf_set_len :: "str \<Rightarrow> u64 \<Rightarrow> ('w, unit) io"
  sf_flush :: "str \<Rightarrow> ('w, unit) io"
  sf_read_to_end :: "str \<Rightarrow> ('w, bytes) io"
  sf_metadata_len :: "str \<Rightarrow> ('w, u64) io"
  sf_remove_file :: "str \<Rightarrow> ('w, unit) io"

definition SPILL_NAME_ATTEMPTS :: nat where
  "SPILL_NAME_ATTEMPTS = 8"

definition DEFAULT_SPILL_AT :: nat where
  "DEFAULT_SPILL_AT = 8 * 1024 * 1024"

definition FALLBACK_SPILL_DIR :: "str option" where
  "FALLBACK_SPILL_DIR = Some (lit ''/tmp'')"

definition path_join :: "str \<Rightarrow> str \<Rightarrow> str" where
  "path_join dir name = (if dir = [] \<or> last dir = 47 then dir @ name else dir @ [47] @ name)"

definition temp_path :: "'w spill_files \<Rightarrow> str \<Rightarrow> u64 \<Rightarrow> nat \<Rightarrow> str" where
  "temp_path F dir seq attempt =
     path_join dir (lit ''synofs-write-'' @ show_nat (sf_process_id F) @ lit ''-'' @ show_nat (unat seq) @
       lit ''-'' @ show_nat attempt @ lit ''.tmp'')"

definition usable_or_fallback :: "'w spill_files \<Rightarrow> str \<Rightarrow> 'w \<Rightarrow> str \<times> 'w" where
  "usable_or_fallback F candidate w =
     (case sf_is_dir F candidate w of (is_dir, w) \<Rightarrow>
        if is_dir then (candidate, w)
        else case FALLBACK_SPILL_DIR of
          None \<Rightarrow> (candidate, w)
        | Some fallback \<Rightarrow> (fallback, w))"

definition spill_dir :: "'w spill_files \<Rightarrow> 'w \<Rightarrow> str \<times> 'w" where
  "spill_dir F = let_op (sf_temp_dir F) (usable_or_fallback F)"

section \<open>The buffer\<close>

datatype spill_store = InMemory bytes | Spilled str

record spill_buffer =
  sp_store :: spill_store
  sp_seq :: u64
  sp_len :: u64
  sp_spill_at :: nat
  sp_dir :: str

definition with_spill_at_in :: "nat \<Rightarrow> str \<Rightarrow> u64 \<Rightarrow> spill_buffer \<times> u64" where
  "with_spill_at_in spill_at dir counter =
     (\<lparr>sp_store = InMemory [], sp_seq = counter, sp_len = 0, sp_spill_at = spill_at, sp_dir = dir\<rparr>, counter + 1)"

definition with_spill_at :: "'w spill_files \<Rightarrow> nat \<Rightarrow> u64 \<Rightarrow> 'w \<Rightarrow> (spill_buffer \<times> u64) \<times> 'w" where
  "with_spill_at F spill_at counter = let_op (spill_dir F) (\<lambda>dir. give (with_spill_at_in spill_at dir counter))"

definition spill_buffer_new :: "'w spill_files \<Rightarrow> u64 \<Rightarrow> 'w \<Rightarrow> (spill_buffer \<times> u64) \<times> 'w" where
  "spill_buffer_new F = with_spill_at F DEFAULT_SPILL_AT"

definition spill_is_empty :: "spill_buffer \<Rightarrow> bool" where
  "spill_is_empty b \<longleftrightarrow> sp_len b = 0"

definition is_spilled :: "spill_buffer \<Rightarrow> bool" where
  "is_spilled b \<longleftrightarrow> (case sp_store b of Spilled _ \<Rightarrow> True | InMemory _ \<Rightarrow> False)"

text \<open>An operation on the buffer and the files, which may fail with the text of an I/O error.\<close>

type_synonym ('w, 'a) spill_op = "spill_buffer \<times> 'w \<Rightarrow> (str + 'a) \<times> spill_buffer \<times> 'w"

definition on_files :: "('w \<Rightarrow> 'a \<times> 'w) \<Rightarrow> spill_buffer \<times> 'w \<Rightarrow> 'a \<times> spill_buffer \<times> 'w" where
  "on_files m s = (case m (snd s) of (a, w) \<Rightarrow> (a, fst s, w))"

definition on_buffer :: "(spill_buffer \<Rightarrow> spill_buffer) \<Rightarrow> spill_buffer \<times> 'w \<Rightarrow> unit \<times> spill_buffer \<times> 'w" where
  "on_buffer f s = ((), f (fst s), snd s)"

text \<open>
  The attempts to find a name: the bytes are in \<open>existing\<close> meanwhile, and go back into the buffer
  whenever the move fails.
\<close>

fun spill_attempts :: "'w spill_files \<Rightarrow> bytes \<Rightarrow> nat list \<Rightarrow> str option \<Rightarrow> ('w, unit) spill_op" where
  "spill_attempts F existing [] last_err =
     let_op (on_buffer (\<lambda>b. b\<lparr>sp_store := InMemory existing\<rparr>)) (\<lambda>_.
       give (Inl (case last_err of Some e \<Rightarrow> e | None \<Rightarrow> lit ''no spill path available'')))"
| "spill_attempts F existing (attempt # rest) last_err =
     let_op (get_op (\<lambda>(b, _). temp_path F (sp_dir b) (sp_seq b) attempt)) (\<lambda>path.
     let_op (on_files (sf_create_new F path)) (\<lambda>opened. case opened of
       Inl e \<Rightarrow> spill_attempts F existing rest (Some e)
     | Inr _ \<Rightarrow>
         let_op (on_files (sf_write_all F path existing)) (\<lambda>written. case written of
           Inr _ \<Rightarrow> let_op (on_buffer (\<lambda>b. b\<lparr>sp_store := Spilled path\<rparr>)) (\<lambda>_. give (Inr ()))
         | Inl e \<Rightarrow>
             let_op (on_files (sf_remove_file F path)) (\<lambda>_.
             let_op (on_buffer (\<lambda>b. b\<lparr>sp_store := InMemory existing\<rparr>)) (\<lambda>_. give (Inl e))))))"

definition spill :: "'w spill_files \<Rightarrow> ('w, unit) spill_op" where
  "spill F =
     let_op (get_op (\<lambda>(b, _). sp_store b)) (\<lambda>store. case store of
       Spilled _ \<Rightarrow> give (Inr ())
     | InMemory v \<Rightarrow>
         let_op (on_buffer (\<lambda>b. b\<lparr>sp_store := InMemory []\<rparr>)) (\<lambda>_.
           spill_attempts F v [0..<SPILL_NAME_ATTEMPTS] None))"

text \<open>\<open>if matches!(self.store, Memory) && len > spill_at { self.spill()? }\<close>.\<close>

definition spill_if_past :: "'w spill_files \<Rightarrow> u64 \<Rightarrow> ('w, unit) spill_op" where
  "spill_if_past F len =
     let_op (get_op (\<lambda>(b, _). \<not> is_spilled b \<and> unat len > sp_spill_at b)) (\<lambda>past.
       if past then spill F else give (Inr ()))"

definition resize :: "nat \<Rightarrow> bytes \<Rightarrow> bytes" where
  "resize n v = take n v @ replicate (n - length v) 0"

text \<open>\<open>v[offset..end].copy_from_slice(data)\<close> on a vector made long enough.\<close>

definition overlay :: "nat \<Rightarrow> bytes \<Rightarrow> bytes \<Rightarrow> bytes" where
  "overlay offset data v =
     (let v = (if offset + length data > length v then resize (offset + length data) v else v)
      in take offset v @ data @ drop (offset + length data) v)"

definition spill_set_len :: "'w spill_files \<Rightarrow> u64 \<Rightarrow> ('w, unit) spill_op" where
  "spill_set_len F new_len =
     try_op (spill_if_past F new_len) (\<lambda>_.
     let_op (get_op (\<lambda>(b, _). sp_store b)) (\<lambda>store.
     try_op (case store of
         InMemory v \<Rightarrow> let_op (on_buffer (\<lambda>b. b\<lparr>sp_store := InMemory (resize (unat new_len) v)\<rparr>)) (\<lambda>_. give (Inr ()))
       | Spilled path \<Rightarrow> on_files (sf_set_len F path new_len)) (\<lambda>_.
     let_op (on_buffer (\<lambda>b. b\<lparr>sp_len := new_len\<rparr>)) (\<lambda>_. give (Inr ())))))"

text \<open>The bytes into the store, wherever it is.\<close>

definition store_bytes :: "'w spill_files \<Rightarrow> u64 \<Rightarrow> bytes \<Rightarrow> spill_store \<Rightarrow> ('w, unit) spill_op" where
  "store_bytes F offset data store =
     (case store of
        InMemory v \<Rightarrow>
          let_op (on_buffer (\<lambda>b. b\<lparr>sp_store := InMemory (overlay (unat offset) data v)\<rparr>)) (\<lambda>_. give (Inr ()))
      | Spilled path \<Rightarrow>
          try_op (on_files (sf_seek F path offset)) (\<lambda>_. on_files (sf_write_all F path data)))"

definition spill_write_at :: "'w spill_files \<Rightarrow> u64 \<Rightarrow> bytes \<Rightarrow> ('w, unit) spill_op" where
  "spill_write_at F offset data =
     (let end = offset + of_nat (length data) in
      try_op (spill_if_past F end) (\<lambda>_.
      let_op (get_op (\<lambda>(b, _). sp_store b)) (\<lambda>store.
      try_op (store_bytes F offset data store) (\<lambda>_.
      let_op (on_buffer (\<lambda>b. b\<lparr>sp_len := max (sp_len b) end\<rparr>)) (\<lambda>_. give (Inr ()))))))"

definition as_bytes :: "'w spill_files \<Rightarrow> ('w, bytes) spill_op" where
  "as_bytes F =
     let_op (get_op (\<lambda>(b, _). sp_store b)) (\<lambda>store. case store of
       InMemory v \<Rightarrow> give (Inr v)
     | Spilled path \<Rightarrow> try_op (on_files (sf_seek F path 0)) (\<lambda>_. on_files (sf_read_to_end F path)))"

definition spilled_path :: "'w spill_files \<Rightarrow> ('w, str option) spill_op" where
  "spilled_path F =
     let_op (get_op (\<lambda>(b, _). sp_store b)) (\<lambda>store. case store of
       InMemory _ \<Rightarrow> give (Inr None)
     | Spilled path \<Rightarrow> try_op (on_files (sf_flush F path)) (\<lambda>_. give (Inr (Some path))))"

text \<open>\<open>Drop\<close>.\<close>

definition drop_spill :: "'w spill_files \<Rightarrow> spill_buffer \<Rightarrow> 'w \<Rightarrow> 'w" where
  "drop_spill F b w = (case sp_store b of Spilled path \<Rightarrow> snd (sf_remove_file F path w) | InMemory _ \<Rightarrow> w)"

section \<open>What goes to the NAS\<close>

datatype payload = PayloadMemory bytes | PayloadFile str

definition payload_len :: "'w spill_files \<Rightarrow> payload \<Rightarrow> 'w \<Rightarrow> u64 \<times> 'w" where
  "payload_len F p w =
     (case p of
        PayloadMemory d \<Rightarrow> (of_nat (length d), w)
      | PayloadFile path \<Rightarrow>
          (case sf_metadata_len F path w of (r, w) \<Rightarrow> ((case r of Inr n \<Rightarrow> n | Inl _ \<Rightarrow> 0), w)))"

definition payload_for :: "'w spill_files \<Rightarrow> ('w, payload) spill_op" where
  "payload_for F =
     try_op (spilled_path F) (\<lambda>p. case p of
       Some path \<Rightarrow> give (Inr (PayloadFile path))
     | None \<Rightarrow> try_op (as_bytes F) (\<lambda>v. give (Inr (PayloadMemory v))))"

definition upload_payload ::
  "'w env \<Rightarrow> str \<Rightarrow> str \<Rightarrow> payload \<Rightarrow> bool \<Rightarrow> 'w client \<Rightarrow> ((syno_error + unit) \<times> 'w client) option" where
  "upload_payload E parent filename payload overwrite =
     (case payload of
        PayloadMemory data \<Rightarrow> total_op (upload E parent filename data overwrite)
      | PayloadFile path \<Rightarrow> upload_from_path E path parent filename overwrite)"

section \<open>What the buffer holds\<close>

text \<open>
  What the buffer relies on of a file system: a file it has just created is empty, a write replaces
  the bytes at the position, zeroes filling a gap, and nothing touches a file but operations on it.
\<close>

locale spill_disk =
  fixes F :: "'w spill_files" and content :: "'w \<Rightarrow> str \<Rightarrow> bytes option" and pos :: "'w \<Rightarrow> str \<Rightarrow> nat"
  assumes creates: "sf_create_new F p w = (Inr (), w') \<Longrightarrow> content w' p = Some [] \<and> pos w' p = 0"
    and seeks: "sf_seek F p offset w = (Inr (), w') \<Longrightarrow> content w' p = content w p \<and> pos w' p = unat offset"
    and writes: "sf_write_all F p data w = (Inr (), w') \<Longrightarrow> content w p = Some v \<Longrightarrow>
      content w' p = Some (overlay (pos w p) data v)"
    and flushes: "sf_flush F p w = (r, w') \<Longrightarrow> content w' p = content w p"

definition stored :: "('w \<Rightarrow> str \<Rightarrow> bytes option) \<Rightarrow> spill_buffer \<times> 'w \<Rightarrow> bytes option" where
  "stored content s = (case sp_store (fst s) of InMemory v \<Rightarrow> Some v | Spilled path \<Rightarrow> content (snd s) path)"

lemma after_on_files [after_simps]: "after (on_files m) Q s \<longleftrightarrow> after m (\<lambda>a w. Q a (fst s, w)) (snd s)"
  by (simp add: after_def on_files_def split: prod.splits)

lemma after_on_buffer [after_simps]: "after (on_buffer f) Q s \<longleftrightarrow> Q () (f (fst s), snd s)"
  by (simp add: after_def on_buffer_def)

lemma after_ran: "m s = (a, s') \<Longrightarrow> after m Q s \<longleftrightarrow> Q a s'"
  by (simp add: after_def)

lemma overlay_start: "overlay 0 data [] = data"
  by (simp add: overlay_def resize_def)

lemma length_overlay: "length (overlay offset data v) = max (offset + length data) (length v)"
  by (simp add: overlay_def resize_def Let_def)

text \<open>Byte for byte: the data where it was written, what was there before around it, zeroes in a gap.\<close>

lemma nth_overlay:
  "i < max (offset + length data) (length v) \<Longrightarrow> overlay offset data v ! i =
     (if offset \<le> i \<and> i < offset + length data then data ! (i - offset) else if i < length v then v ! i else 0)"
  by (auto simp: overlay_def resize_def Let_def nth_append not_less min_def)

text \<open>Writes one after the other, until one fails; what they come to; the bytes of a payload.\<close>

fun spill_writes :: "'w spill_files \<Rightarrow> (u64 \<times> bytes) list \<Rightarrow> ('w, unit) spill_op" where
  "spill_writes F [] = give (Inr ())"
| "spill_writes F ((offset, data) # ws) = try_op (spill_write_at F offset data) (\<lambda>_. spill_writes F ws)"

definition put_at :: "bytes \<Rightarrow> u64 \<times> bytes \<Rightarrow> bytes" where
  "put_at v w = overlay (unat (fst w)) (snd w) v"

definition payload_bytes :: "('w \<Rightarrow> str \<Rightarrow> bytes option) \<Rightarrow> 'w \<Rightarrow> payload \<Rightarrow> bytes option" where
  "payload_bytes content w p = (case p of PayloadMemory d \<Rightarrow> Some d | PayloadFile path \<Rightarrow> content w path)"

context spill_disk begin

lemma spill_attempts_stored:
  "after (spill_attempts F v attempts last_err)
     (\<lambda>r s'. stored content s' = Some v \<and> (\<forall>e. r = Inl e \<longrightarrow> sp_store (fst s') = InMemory v)) s"
proof (induction attempts arbitrary: last_err s)
  case Nil
  then show ?case by (simp add: after_simps stored_def)
next
  case (Cons attempt attempts last_err s)
  obtain b w where s: "s = (b, w)" by fastforce
  let ?p = "temp_path F (sp_dir b) (sp_seq b) attempt"
  obtain opened w1 where opened: "sf_create_new F ?p w = (opened, w1)" by fastforce
  show ?case
  proof (cases opened)
    case (Inl e)
    with Cons.IH [of "Some e" "(b, w1)"] opened show ?thesis
      by (simp add: s after_simps after_ran [of "sf_create_new F ?p" w, OF opened])
  next
    case (Inr u)
    obtain written w2 where written: "sf_write_all F ?p v w1 = (written, w2)" by fastforce
    obtain removed w3 where removed: "sf_remove_file F ?p w2 = (removed, w3)" by fastforce
    note ran = after_ran [of "sf_create_new F ?p" w, OF opened] after_ran [of "sf_write_all F ?p v" w1, OF written]
      after_ran [of "sf_remove_file F ?p" w2, OF removed]
    show ?thesis
      using Inr opened written creates [of ?p w w1] writes [of ?p v w1 w2 "[]"]
      by (cases written) (simp_all add: s after_simps ran stored_def overlay_start)
  qed
qed

lemma spill_stored:
  assumes "stored content s = Some v"
  shows "after (spill F) (\<lambda>r s'. stored content s' = Some v \<and>
    (\<forall>e. r = Inl e \<longrightarrow> sp_store (fst s') = InMemory v)) s"
proof (cases "sp_store (fst s)")
  case (InMemory v')
  with assms have "v' = v" by (simp add: stored_def)
  with InMemory show ?thesis
    using spill_attempts_stored [of v "[0..<SPILL_NAME_ATTEMPTS]" None]
    by (simp add: spill_def after_simps case_prod_beta)
next
  case (Spilled path)
  with assms show ?thesis by (simp add: spill_def after_simps case_prod_beta)
qed

lemma store_bytes_stored:
  assumes "stored content s = Some v"
  shows "after (store_bytes F offset data (sp_store (fst s))) (\<lambda>r s'.
    (r = Inr () \<longrightarrow> stored content s' = Some (overlay (unat offset) data v)) \<and>
    (\<forall>e. r = Inl e \<longrightarrow> is_spilled (fst s'))) s"
proof -
  obtain b w where s: "s = (b, w)" by fastforce
  show ?thesis
  proof (cases "sp_store b")
    case (InMemory v')
    with assms s show ?thesis by (simp add: store_bytes_def after_simps stored_def)
  next
    case (Spilled path)
    with assms s have held: "content w path = Some v" by (simp add: stored_def)
    obtain sought w1 where sought: "sf_seek F path offset w = (sought, w1)" by fastforce
    obtain written w2 where "sf_write_all F path data w1 = (written, w2)" by fastforce
    with Spilled s held sought show ?thesis
      using seeks [of path offset w w1] writes [of path data w1 w2 v]
      by (cases sought; cases written)
        (auto simp: store_bytes_def after_def try_op_def on_files_def stored_def is_spilled_def)
  qed
qed

lemma write_stored:
  assumes "stored content s = Some v"
  shows "after (spill_write_at F offset data) (\<lambda>r s'.
    (r = Inr () \<longrightarrow> stored content s' = Some (overlay (unat offset) data v)) \<and>
    (\<forall>e. r = Inl e \<longrightarrow> is_spilled (fst s') \<or> stored content s' = Some v)) s"
proof -
  have len: "stored content (b\<lparr>sp_len := n\<rparr>, w) = stored content (b, w)" for b n w
    by (simp add: stored_def split: spill_store.split)
  have spilt: "after (spill_if_past F n) (\<lambda>r s'. stored content s' = Some v) s" for n
    using spill_stored [OF assms] assms
    by (auto simp: spill_if_past_def after_simps case_prod_beta elim: after_mono)
  have rest: "after (let_op (get_op (\<lambda>(b, _). sp_store b)) (\<lambda>store. try_op (store_bytes F offset data store) (\<lambda>_.
      let_op (on_buffer (\<lambda>b. b\<lparr>sp_len := max (sp_len b) n\<rparr>)) (\<lambda>_. give (Inr ()))))) (\<lambda>r s'.
        (r = Inr () \<longrightarrow> stored content s' = Some (overlay (unat offset) data v)) \<and>
        (\<forall>e. r = Inl e \<longrightarrow> is_spilled (fst s'))) s'" if "stored content s' = Some v" for s' n
    using store_bytes_stored [OF that, of offset data]
    by (auto simp: after_simps case_prod_beta len elim!: after_mono)
  show ?thesis
    unfolding spill_write_at_def Let_def after_try
    by (rule after_mono [OF spilt]) (auto elim!: after_mono dest!: rest)
qed

lemma payload_stored:
  assumes "stored content s = Some v"
  shows "after (payload_for F) (\<lambda>r s'. \<forall>p. r = Inr p \<longrightarrow> payload_bytes content (snd s') p = Some v \<and>
    (\<forall>d. p = PayloadMemory d \<longrightarrow> sp_store (fst s) = InMemory d)) s"
proof -
  obtain b w where s: "s = (b, w)" by fastforce
  show ?thesis
  proof (cases "sp_store b")
    case (InMemory v')
    with assms s show ?thesis
      by (simp add: payload_for_def spilled_path_def as_bytes_def after_simps payload_bytes_def stored_def)
  next
    case (Spilled path)
    obtain r w1 where flushed: "sf_flush F path w = (r, w1)" by fastforce
    with Spilled assms s flushes [OF flushed] show ?thesis
      by (cases r) (simp_all add: payload_for_def spilled_path_def after_simps payload_bytes_def stored_def
          after_ran [of "sf_flush F path" w, OF flushed])
  qed
qed

lemma writes_stored:
  "stored content s = Some v \<Longrightarrow>
   after (spill_writes F ws) (\<lambda>r s'. r = Inr () \<longrightarrow> stored content s' = Some (foldl put_at v ws)) s"
proof (induction ws arbitrary: s v)
  case (Cons w ws)
  then show ?case
    by (cases w) (auto simp: after_try put_at_def elim!: after_mono [OF write_stored])
qed (simp add: after_simps)

end

section \<open>What stays in memory\<close>

definition small :: "nat \<Rightarrow> spill_buffer \<times> 'w \<Rightarrow> bool" where
  "small n s \<longleftrightarrow> sp_spill_at (fst s) = n \<and> (\<forall>v. sp_store (fst s) = InMemory v \<longrightarrow> length v \<le> n)"

lemma spill_attempts_small:
  "length v \<le> n \<Longrightarrow> sp_spill_at (fst s) = n \<Longrightarrow>
   after (spill_attempts F v attempts last_err) (\<lambda>r s'. small n s' \<and> (r = Inr () \<longrightarrow> is_spilled (fst s'))) s"
proof (induction attempts arbitrary: last_err s)
  case Nil
  then show ?case by (simp add: after_simps small_def)
next
  case (Cons attempt attempts last_err s)
  obtain b w where s: "s = (b, w)" by fastforce
  let ?p = "temp_path F (sp_dir b) (sp_seq b) attempt"
  obtain opened w1 where opened: "sf_create_new F ?p w = (opened, w1)" by fastforce
  obtain written w2 where written: "sf_write_all F ?p v w1 = (written, w2)" by fastforce
  obtain removed w3 where removed: "sf_remove_file F ?p w2 = (removed, w3)" by fastforce
  note ran = after_ran [of "sf_create_new F ?p" w, OF opened] after_ran [of "sf_write_all F ?p v" w1, OF written]
    after_ran [of "sf_remove_file F ?p" w2, OF removed]
  show ?case
    using Cons.prems Cons.IH [of "(b, w1)"]
    by (cases opened; cases written) (simp_all add: s after_simps ran small_def is_spilled_def)
qed

lemma spill_past_small:
  assumes "small n s"
  shows "after (spill_if_past F len) (\<lambda>r s'. small n s' \<and> (r = Inr () \<longrightarrow> unat len \<le> n \<or> is_spilled (fst s'))) s"
proof -
  obtain b w where s: "s = (b, w)" by fastforce
  show ?thesis
  proof (cases "sp_store b")
    case (InMemory v)
    then show ?thesis
      using assms spill_attempts_small [of v n "(b\<lparr>sp_store := InMemory []\<rparr>, w)" F]
      by (auto simp: s small_def spill_if_past_def spill_def after_simps is_spilled_def not_less elim!: after_mono)
  next
    case (Spilled path)
    then show ?thesis using assms
      by (simp add: s small_def spill_if_past_def spill_def after_simps is_spilled_def)
  qed
qed

lemma write_small:
  fixes s :: "spill_buffer \<times> 'w"
  assumes "small n s" and "unat offset + length data < 2 ^ 64"
  shows "after (spill_write_at F offset data) (\<lambda>_. small n) s"
proof -
  have "length data < 2 ^ 64" using assms(2) by simp
  then have len: "unat (of_nat (length data) :: u64) = length data"
    by (simp add: unat_of_nat take_bit_nat_eq_self)
  have "unat (offset + of_nat (length data)) = unat offset + length data"
    using assms(2) by (simp add: unat_word_ariths len)
  moreover have "small n (b\<lparr>sp_len := m\<rparr>, w) \<longleftrightarrow> small n (b, w)" for b m and w :: 'w
    by (simp add: small_def)
  moreover have bytes: "after (store_bytes F offset data (sp_store b)) (\<lambda>_. small n) (b, w)"
    if "small n (b, w)" "unat offset + length data \<le> n \<or> is_spilled b" for b and w :: 'w
    using that by (cases "sp_store b")
      (auto simp: store_bytes_def after_def small_def length_overlay is_spilled_def on_files_def let_op_def
        on_buffer_def give_def try_op_def split: prod.splits sum.splits)
  ultimately show ?thesis
    unfolding spill_write_at_def Let_def after_try
    by (intro after_mono [OF spill_past_small [OF assms(1)]])
      (auto simp: after_simps case_prod_beta intro!: after_mono [OF bytes])
qed

lemma writes_small:
  "small n s \<Longrightarrow> \<forall>(offset, data) \<in> set ws. unat offset + length data < 2 ^ 64 \<Longrightarrow>
   spill_writes F ws s = (Inr (), s') \<Longrightarrow> small n s'"
proof (induction ws arbitrary: s)
  case (Cons w ws)
  obtain offset data where w: "w = (offset, data)" by fastforce
  obtain s1 where first: "spill_write_at F offset data s = (Inr (), s1)" and rest: "spill_writes F ws s1 = (Inr (), s')"
    using Cons.prems(3) by (auto simp: w try_op_def split: prod.splits sum.splits)
  have "small n s1"
    using afterD [OF write_small first] Cons.prems(1,2) by (simp add: w)
  then show ?case using Cons.IH [OF _ _ rest] Cons.prems(2) by simp
qed (simp add: give_def)

section \<open>Properties\<close>

text \<open>
  What an open file uploads is what was written to it. Whatever succession of writes went well,
  in memory, across the move to a temporary file or after it, the payload handed to the upload holds
  their bytes where they were written, a later write over an earlier one and zeroes in the gaps; and
  a payload is in memory only up to the size it may have there.
\<close>

theorem payload_is_what_was_written:
  assumes "spill_disk F content pos"
    and "\<forall>(offset, data) \<in> set ws. unat offset + length data < 2 ^ 64"
    and written: "spill_writes F ws (fst (with_spill_at_in spill_at dir counter), w) = (Inr (), s)"
    and payload: "payload_for F s = (Inr p, s')"
  shows "payload_bytes content (snd s') p = Some (foldl put_at [] ws) \<and>
    (\<forall>d. p = PayloadMemory d \<longrightarrow> length d \<le> spill_at)"
proof -
  let ?s = "(fst (with_spill_at_in spill_at dir counter), w)"
  have "stored content ?s = Some []" by (simp add: stored_def with_spill_at_in_def)
  then have stored: "stored content s = Some (foldl put_at [] ws)"
    using afterD [OF spill_disk.writes_stored [OF assms(1)] written] by simp
  have small: "small spill_at s"
    by (rule writes_small [OF _ assms(2) written]) (simp add: small_def with_spill_at_in_def)
  show ?thesis
    using afterD [OF spill_disk.payload_stored [OF assms(1) stored] payload] small
    by (auto simp: small_def)
qed

text \<open>A file system in memory, and a buffer that moves to it with its second write.\<close>

type_synonym memory_disk = "(str \<Rightarrow> bytes option) \<times> (str \<Rightarrow> nat)"

definition memory_files :: "memory_disk spill_files" where
  "memory_files =
     \<lparr>sf_temp_dir = Pair [47], sf_is_dir = (\<lambda>_. Pair True), sf_process_id = 1,
      sf_create_new = (\<lambda>p (d, q). if d p = None then (Inr (), d(p \<mapsto> []), q(p := 0)) else (Inl [], d, q)),
      sf_seek = (\<lambda>p n (d, q). (Inr (), d, q(p := unat n))),
      sf_write_all = (\<lambda>p data (d, q). case d p of
          Some v \<Rightarrow> (Inr (), d(p \<mapsto> overlay (q p) data v), q(p := q p + length data))
        | None \<Rightarrow> (Inl [], d, q)),
      sf_set_len = (\<lambda>p n (d, q). (Inr (), d(p := map_option (resize (unat n)) (d p)), q)),
      sf_flush = (\<lambda>_. Pair (Inr ())),
      sf_read_to_end = (\<lambda>p (d, q). (case d p of Some v \<Rightarrow> Inr (drop (q p) v) | None \<Rightarrow> Inl [], d, q)),
      sf_metadata_len = (\<lambda>p (d, q). (case d p of Some v \<Rightarrow> Inr (of_nat (length v)) | None \<Rightarrow> Inl [], d, q)),
      sf_remove_file = (\<lambda>p (d, q). (Inr (), d(p := None), q))\<rparr>"

interpretation memory_disk: spill_disk memory_files fst snd
  by unfold_locales (auto simp: memory_files_def split: if_splits option.splits)

theorem payload_is_what_was_written_witness:
  "\<exists>s p s'. spill_writes memory_files [(0, [1, 2]), (3, [9, 9])]
      (fst (with_spill_at_in 4 [47] 0), (Map.empty, \<lambda>_. 0)) = (Inr (), s) \<and>
    payload_for memory_files s = (Inr p, s') \<and> payload_bytes fst (snd s') p = Some [1, 2, 0, 9, 9]"
proof -
  let ?path = "temp_path memory_files [47] 0 0"
  let ?disk = "([?path \<mapsto> [1, 2, 0, 9, 9]], (\<lambda>_. 0)(?path := 5)) :: memory_disk"
  let ?s = "(\<lparr>sp_store = Spilled ?path, sp_seq = 0, sp_len = 5, sp_spill_at = 4, sp_dir = [47]\<rparr>, ?disk)"
  have written: "spill_writes memory_files [(0, [1, 2]), (3, [9, 9])]
      (fst (with_spill_at_in 4 [47] 0), (Map.empty, \<lambda>_. 0)) = (Inr (), ?s)"
    by (simp add: spill_write_at_def spill_if_past_def is_spilled_def store_bytes_def spill_def
        SPILL_NAME_ATTEMPTS_def upt_rec with_spill_at_in_def memory_files_def overlay_def resize_def
        try_op_def let_op_def get_op_def give_def on_files_def on_buffer_def max_def)
  have payload: "payload_for memory_files ?s = (Inr (PayloadFile ?path), ?s)"
    by (simp add: payload_for_def spilled_path_def memory_files_def try_op_def let_op_def get_op_def give_def
        on_files_def)
  have "payload_bytes fst (snd ?s) (PayloadFile ?path) = Some (foldl put_at [] [(0, [1, 2]), (3, [9, 9])])"
    using payload_is_what_was_written [OF memory_disk.spill_disk_axioms _ written payload] by simp
  with written payload show ?thesis
    by (auto simp: put_at_def overlay_def resize_def)
qed

end
