(* ===== verification/Walks.thy ===== *)
theory Walks
  imports Spill Utf8 "HOL-Library.AList"
begin

text \<open>
  Noticing a process that walks the whole mount (\<open>synology-filestation-fuse/src/walks.rs\<close>): what is
  counted of every process that opens directories, when it counts as walking, and stopping one. What
  is known of processes and done to them is the environment's; \<open>/proc\<close> is read through it too. Log
  lines are not modelled, but what they would report is.
\<close>

definition WALK_FOR :: duration where
  "WALK_FOR = secs (10 * 60)"

definition WALK_DIRS :: nat where
  "WALK_DIRS = 5000"

definition HELD_DIRS :: nat where
  "HELD_DIRS = 1000"

definition QUIET :: duration where
  "QUIET = secs (5 * 60)"

definition RESOLVE_EVERY :: duration where
  "RESOLVE_EVERY = secs 60"

definition PRUNE_EVERY :: duration where
  "PRUNE_EVERY = secs 1"

record walker =
  wk_pid :: u32
  wk_program :: str
  wk_command :: str
  wk_walking_secs :: nat
  wk_dirs_opened :: nat
  wk_dirs_open :: nat
  wk_latest :: str

text \<open>A failure to signal: the process is gone, or the text of the error.\<close>

datatype kill_error = KillNotFound | KillFailed str

datatype stop_error = NotWalking | Gone | StopIo str

record proc_id =
  pr_pid :: u32
  pr_started :: u64

record cmdline =
  cm_program :: str
  cm_line :: str

definition no_cmdline :: cmdline where
  "no_cmdline = \<lparr>cm_program = [], cm_line = []\<rparr>"

record 'w procs =
  ps_identify :: "u32 \<Rightarrow> 'w \<Rightarrow> proc_id option \<times> 'w"
  ps_command :: "u32 \<Rightarrow> 'w \<Rightarrow> cmdline \<times> 'w"
  ps_terminate :: "proc_id \<Rightarrow> 'w \<Rightarrow> (kill_error + unit) \<times> 'w"

definition MAX_COMMAND :: nat where
  "MAX_COMMAND = 200"

text \<open>Characters of a UTF-8 string: the bytes that do not continue one. The ellipsis is U+2026.\<close>

definition chars :: "str \<Rightarrow> nat" where
  "chars s = length (filter (\<lambda>b. \<not> cont b) s)"

fun take_chars :: "nat \<Rightarrow> str \<Rightarrow> str" where
  "take_chars n [] = []"
| "take_chars n (b # s) =
     (if cont b then b # take_chars n s else if n = 0 then [] else b # take_chars (n - 1) s)"

definition shorten :: "str \<Rightarrow> str" where
  "shorten command =
     (if chars command \<le> MAX_COMMAND then command
      else take_chars (MAX_COMMAND - 1) command @ [0xE2, 0x80, 0xA6])"

section \<open>Processes in /proc\<close>

text \<open>What is asked of the system: the files of \<open>/proc\<close>, and signalling through a pidfd.\<close>

datatype sys_error = ESRCH | OtherErrno str

record 'w proc_files =
  pf_read_to_string :: "str \<Rightarrow> 'w \<Rightarrow> str option \<times> 'w"
  pf_read :: "str \<Rightarrow> 'w \<Rightarrow> bytes option \<times> 'w"
  pf_pidfd_open :: "u32 \<Rightarrow> 'w \<Rightarrow> (sys_error + nat) \<times> 'w"
  pf_pidfd_terminate :: "nat \<Rightarrow> 'w \<Rightarrow> (sys_error + unit) \<times> 'w"
  pf_close :: "nat \<Rightarrow> 'w \<Rightarrow> unit \<times> 'w"

definition proc_path :: "u32 \<Rightarrow> str \<Rightarrow> str" where
  "proc_path pid name = lit ''/proc/'' @ show_nat (unat pid) @ lit ''/'' @ name"

text \<open>What follows the last occurrence, as \<open>&stat[stat.rfind(')')? + 1..]\<close> does.\<close>

definition after_last :: "u8 \<Rightarrow> str \<Rightarrow> str option" where
  "after_last c s = (if c \<in> set s then Some (rev (takeWhile (\<lambda>b. b \<noteq> c) (rev s))) else None)"

definition started_in :: "str \<Rightarrow> u64 option" where
  "started_in stat =
     Option.bind (after_last 41 stat) (\<lambda>rest.
     let parts = split_whitespace rest in
       if 19 < length parts then map_option of_nat (parse_uint (2 ^ 64 - 1) (parts ! 19)) else None)"

definition started :: "'w proc_files \<Rightarrow> u32 \<Rightarrow> 'w \<Rightarrow> u64 option \<times> 'w" where
  "started P pid = let_op (pf_read_to_string P (proc_path pid (lit ''stat''))) (\<lambda>stat. give (Option.bind stat started_in))"

definition tgid_in :: "str \<Rightarrow> u32 option" where
  "tgid_in status =
     (case List.map_filter (strip_prefix (lit ''Tgid:'')) (lines_of status) of
        [] \<Rightarrow> None
      | tgid # _ \<Rightarrow> map_option of_nat (parse_uint (2 ^ 32 - 1) (trim tgid)))"

definition identify :: "'w proc_files \<Rightarrow> u32 \<Rightarrow> 'w \<Rightarrow> proc_id option \<times> 'w" where
  "identify P tid =
     (if tid = 0 then give None
      else
        let_op (pf_read_to_string P (proc_path tid (lit ''status''))) (\<lambda>status.
        case Option.bind status tgid_in of
          None \<Rightarrow> give None
        | Some pid \<Rightarrow> let_op (started P pid) (\<lambda>s. give (map_option (\<lambda>s. \<lparr>pr_pid = pid, pr_started = s\<rparr>) s))))"

text \<open>\<open>Path::file_name\<close>: the last component, unless it is \<open>..\<close> or there is none.\<close>

definition file_name :: "str \<Rightarrow> str option" where
  "file_name path =
     (case rev (filter (\<lambda>p. p \<noteq> [] \<and> p \<noteq> [46]) (split_on 47 path)) of
        [] \<Rightarrow> None
      | name # _ \<Rightarrow> if name = [46, 46] then None else Some name)"

fun join_spaced :: "str list \<Rightarrow> str" where
  "join_spaced [] = []"
| "join_spaced [a] = a"
| "join_spaced (a # as) = a @ [32] @ join_spaced as"

definition process_command :: "'w proc_files \<Rightarrow> u32 \<Rightarrow> 'w \<Rightarrow> cmdline \<times> 'w" where
  "process_command P pid =
     let_op (pf_read P (proc_path pid (lit ''cmdline''))) (\<lambda>raw.
     let args = map utf8_lossy (filter (\<lambda>a. a \<noteq> []) (split_on 0 (case raw of Some r \<Rightarrow> r | None \<Rightarrow> []))) in
     case args of
       first # _ \<Rightarrow>
         give \<lparr>cm_program = (case file_name first of Some n \<Rightarrow> n | None \<Rightarrow> first), cm_line = join_spaced args\<rparr>
     | [] \<Rightarrow>
         let_op (pf_read_to_string P (proc_path pid (lit ''comm''))) (\<lambda>comm.
         let name = lit ''['' @ trim (case comm of Some c \<Rightarrow> c | None \<Rightarrow> []) @ lit '']'' in
           give \<lparr>cm_program = name, cm_line = name\<rparr>))"

text \<open>\<open>pid_t::try_from\<close> fails on ids past the sign; the descriptor is closed on every way out.\<close>

definition kill_of :: "sys_error \<Rightarrow> kill_error" where
  "kill_of e = (case e of ESRCH \<Rightarrow> KillNotFound | OtherErrno t \<Rightarrow> KillFailed t)"

definition terminate :: "'w proc_files \<Rightarrow> proc_id \<Rightarrow> 'w \<Rightarrow> (kill_error + unit) \<times> 'w" where
  "terminate P p =
     (if unat (pr_pid p) \<ge> 2 ^ 31 then give (Inl (KillFailed (lit ''invalid input'')))
      else
        let_op (pf_pidfd_open P (pr_pid p)) (\<lambda>opened. case opened of
          Inl e \<Rightarrow> give (Inl (kill_of e))
        | Inr fd \<Rightarrow>
            let_op (started P (pr_pid p)) (\<lambda>s.
            let_op (if s \<noteq> Some (pr_started p) then give (Inl KillNotFound)
                    else let_op (pf_pidfd_terminate P fd) (\<lambda>sent. give (map_err kill_of sent))) (\<lambda>r.
            let_op (pf_close P fd) (\<lambda>_. give r)))))"

definition linux_procs :: "'w proc_files \<Rightarrow> 'w procs" where
  "linux_procs P = \<lparr>ps_identify = identify P, ps_command = process_command P, ps_terminate = terminate P\<rparr>"

section \<open>What is known of each process\<close>

text \<open>The counters are unbounded: the source's are 64 bits wide and count directory opens.\<close>

record track =
  tk_started :: u64
  tk_command :: cmdline
  tk_first :: instant
  tk_last :: instant
  tk_opened :: nat
  tk_open :: nat
  tk_latest :: str
  tk_reported :: bool

definition held_open :: "track \<Rightarrow> bool" where
  "held_open t \<longleftrightarrow> tk_open t \<ge> HELD_DIRS"

definition walking :: "instant \<Rightarrow> track \<Rightarrow> bool" where
  "walking tm t \<longleftrightarrow>
     held_open t \<or> tm - tk_last t < QUIET \<and> tk_opened t \<ge> WALK_DIRS \<and> tm - tk_first t \<ge> WALK_FOR"

definition track_finished :: "instant \<Rightarrow> track \<Rightarrow> bool" where
  "track_finished tm t \<longleftrightarrow> tk_open t = 0 \<and> tm - tk_last t \<ge> QUIET"

record inner =
  in_threads :: "(u32 \<times> proc_id \<times> instant) list"
  in_handles :: "(u64 \<times> u32) list"
  in_tracks :: "(u32 \<times> track) list"
  in_pruned :: "instant option"

definition inner_new :: inner where
  "inner_new = \<lparr>in_threads = [], in_handles = [], in_tracks = [], in_pruned = None\<rparr>"

text \<open>What a call found, in the order it was found.\<close>

datatype walk_news = Started proc_id | Stopped walker

record walks_core =
  wc_own :: u32
  wc_mountpoint :: str

definition walker_of :: "walks_core \<Rightarrow> u32 \<Rightarrow> track \<Rightarrow> instant \<Rightarrow> walker" where
  "walker_of C pid t tm =
     \<lparr>wk_pid = pid, wk_program = cm_program (tk_command t), wk_command = shorten (cm_line (tk_command t)),
      wk_walking_secs = (tm - tk_first t) div secs 1, wk_dirs_opened = tk_opened t, wk_dirs_open = tk_open t,
      wk_latest = path_join (wc_mountpoint C) (dropWhile (\<lambda>b. b = 47) (tk_latest t))\<rparr>"

section \<open>Sweeping\<close>

definition settle_track :: "walks_core \<Rightarrow> instant \<Rightarrow> u32 \<times> track \<Rightarrow> (u32 \<times> track) \<times> walk_news list" where
  "settle_track C tm = (\<lambda>(pid, t).
     if tk_reported t \<and> \<not> walking tm t then
       ((pid, t\<lparr>tk_reported := False\<rparr>), [Stopped (walker_of C pid t (tk_last t))])
     else if \<not> tk_reported t \<and> walking tm t then
       ((pid, t\<lparr>tk_reported := True\<rparr>), [Started \<lparr>pr_pid = pid, pr_started = tk_started t\<rparr>])
     else ((pid, t), []))"

definition prune :: "walks_core \<Rightarrow> instant \<Rightarrow> bool \<Rightarrow> inner \<Rightarrow> walk_news list \<times> inner" where
  "prune C tm force s =
     (if \<not> force \<and> (case in_pruned s of Some at \<Rightarrow> tm - at < PRUNE_EVERY | None \<Rightarrow> False) then ([], s)
      else
        let settled = map (settle_track C tm) (in_tracks s) in
          (concat (map snd settled),
           s\<lparr>in_pruned := Some tm,
             in_tracks := filter (\<lambda>(_, t). \<not> track_finished tm t) (map fst settled),
             in_threads := filter (\<lambda>(_, _, at). tm - at < RESOLVE_EVERY) (in_threads s)\<rparr>))"

text \<open>Reading the command of a walk that started: what is listed and logged of it, if it is still there.\<close>

fun announce_started ::
  "'w procs \<Rightarrow> walks_core \<Rightarrow> instant \<Rightarrow> walk_news list \<Rightarrow> inner \<times> 'w \<Rightarrow> walker list \<times> inner \<times> 'w" where
  "announce_started P C tm [] s = ([], s)"
| "announce_started P C tm (Stopped _ # news) s = announce_started P C tm news s"
| "announce_started P C tm (Started p # news) (s, w) =
     (case ps_command P (pr_pid p) w of (command, w) \<Rightarrow>
        case map_of (in_tracks s) (pr_pid p) of
          Some t \<Rightarrow>
            if tk_started t = pr_started p then
              (let t = t\<lparr>tk_command := command\<rparr>;
                   (ws, s) = announce_started P C tm news (s\<lparr>in_tracks := AList.update (pr_pid p) t (in_tracks s)\<rparr>, w)
               in (walker_of C (pr_pid p) t tm # ws, s))
            else announce_started P C tm news (s, w)
        | None \<Rightarrow> announce_started P C tm news (s, w))"

definition announce_walks ::
  "'w procs \<Rightarrow> walks_core \<Rightarrow> walk_news list \<Rightarrow> instant \<Rightarrow> inner \<times> 'w \<Rightarrow> walker list \<times> inner \<times> 'w" where
  "announce_walks P C news tm = announce_started P C tm news"

section \<open>Opening and closing directories\<close>

definition new_track :: "proc_id \<Rightarrow> instant \<Rightarrow> track" where
  "new_track p tm =
     \<lparr>tk_started = pr_started p, tk_command = no_cmdline, tk_first = tm, tk_last = tm, tk_opened = 0, tk_open = 0,
      tk_latest = [], tk_reported = False\<rparr>"

text \<open>The id has been given to a new process: the walk of the old one is over.\<close>

definition forget_earlier :: "walks_core \<Rightarrow> proc_id \<Rightarrow> inner \<Rightarrow> walk_news list \<times> inner" where
  "forget_earlier C p s =
     (case map_of (in_tracks s) (pr_pid p) of
        Some old \<Rightarrow>
          if tk_started old \<noteq> pr_started p then
            (if tk_reported old then [Stopped (walker_of C (pr_pid p) old (tk_last old))] else [],
             s\<lparr>in_tracks := AList.delete (pr_pid p) (in_tracks s),
               in_handles := filter (\<lambda>(_, pid). pid \<noteq> pr_pid p) (in_handles s)\<rparr>)
          else ([], s)
      | None \<Rightarrow> ([], s))"

definition count_open :: "walks_core \<Rightarrow> proc_id \<Rightarrow> str \<Rightarrow> instant \<Rightarrow> track \<Rightarrow> walk_news list \<times> track" where
  "count_open C p path tm t =
     (let (ended, t) =
            (if tm - tk_last t \<ge> QUIET \<and> \<not> held_open t then
               (if tk_reported t then [Stopped (walker_of C (pr_pid p) t (tk_last t))] else [],
                t\<lparr>tk_first := tm, tk_opened := 0, tk_reported := False\<rparr>)
             else ([], t));
          t = t\<lparr>tk_last := tm, tk_opened := tk_opened t + 1, tk_open := tk_open t + 1, tk_latest := path\<rparr>
      in if \<not> tk_reported t \<and> walking tm t then (ended @ [Started p], t\<lparr>tk_reported := True\<rparr>)
         else (ended, t))"

definition record_open :: "walks_core \<Rightarrow> proc_id \<Rightarrow> u64 \<Rightarrow> str \<Rightarrow> instant \<Rightarrow> inner \<Rightarrow> walk_news list \<times> inner" where
  "record_open C p fh path tm s =
     (let (earlier, s) = forget_earlier C p s;
          s = s\<lparr>in_handles := AList.update fh (pr_pid p) (in_handles s)\<rparr>;
          t = (case map_of (in_tracks s) (pr_pid p) of Some t \<Rightarrow> t | None \<Rightarrow> new_track p tm);
          (news, t) = count_open C p path tm t
      in (earlier @ news, s\<lparr>in_tracks := AList.update (pr_pid p) t (in_tracks s)\<rparr>))"

definition known_process :: "u32 \<Rightarrow> instant \<Rightarrow> inner \<Rightarrow> proc_id option" where
  "known_process tid tm s =
     (case map_of (in_threads s) tid of
        Some (p, at) \<Rightarrow> if tm - at < RESOLVE_EVERY then Some p else None
      | None \<Rightarrow> None)"

definition tracked :: "proc_id \<Rightarrow> inner \<Rightarrow> bool" where
  "tracked p s \<longleftrightarrow> (case map_of (in_tracks s) (pr_pid p) of Some t \<Rightarrow> tk_started t = pr_started p | None \<Rightarrow> False)"

text \<open>
  What an open finds, before it is announced: whether there is a walker to answer with, the news,
  and the state. Not known, or known as a process its id no longer names, the thread is asked for.
\<close>

definition ask_again ::
  "'w procs \<Rightarrow> walks_core \<Rightarrow> u64 \<Rightarrow> u32 \<Rightarrow> str \<Rightarrow> instant \<Rightarrow> walk_news list \<Rightarrow> inner \<times> 'w \<Rightarrow>
     bool \<times> walk_news list \<times> inner \<times> 'w" where
  "ask_again P C fh tid path tm swept = (\<lambda>(s, w).
     case ps_identify P tid w of
       (None, w) \<Rightarrow> (False, swept, s, w)
     | (Some p, w) \<Rightarrow>
         let s = s\<lparr>in_threads := AList.update tid (p, tm) (in_threads s)\<rparr> in
           if pr_pid p = wc_own C then (True, swept, s, w)
           else let (news, s) = record_open C p fh path tm s in (True, swept @ news, s, w))"

definition open_news ::
  "'w procs \<Rightarrow> walks_core \<Rightarrow> u64 \<Rightarrow> u32 \<Rightarrow> str \<Rightarrow> instant \<Rightarrow> inner \<times> 'w \<Rightarrow> bool \<times> walk_news list \<times> inner \<times> 'w" where
  "open_news P C fh tid path tm = (\<lambda>(s, w).
     let (swept, s) = prune C tm False s in
       case known_process tid tm s of
         Some p \<Rightarrow>
           if pr_pid p = wc_own C then (False, swept, s, w)
           else if tracked p s then
             let (news, s) = record_open C p fh path tm s in (True, swept @ news, s, w)
           else ask_again P C fh tid path tm swept (s, w)
       | None \<Rightarrow> ask_again P C fh tid path tm swept (s, w))"

definition opened_at ::
  "'w procs \<Rightarrow> walks_core \<Rightarrow> u64 \<Rightarrow> u32 \<Rightarrow> str \<Rightarrow> instant \<Rightarrow> inner \<times> 'w \<Rightarrow> walker option \<times> inner \<times> 'w" where
  "opened_at P C fh tid path tm s =
     (if tid = 0 then (None, s)
      else case open_news P C fh tid path tm s of
        (replies, news, s) \<Rightarrow>
          case announce_walks P C news tm s of
            (ws, s) \<Rightarrow> (if replies \<and> ws \<noteq> [] then Some (hd ws) else None, s))"

definition walks_released :: "u64 \<Rightarrow> inner \<Rightarrow> inner" where
  "walks_released fh s =
     (case map_of (in_handles s) fh of
        None \<Rightarrow> s
      | Some pid \<Rightarrow>
          s\<lparr>in_handles := AList.delete fh (in_handles s),
            in_tracks := AList.map_entry pid (\<lambda>t. t\<lparr>tk_open := tk_open t - 1\<rparr>) (in_tracks s)\<rparr>)"

definition tick :: "'w procs \<Rightarrow> walks_core \<Rightarrow> instant \<Rightarrow> bool \<Rightarrow> inner \<times> 'w \<Rightarrow> walker list \<times> inner \<times> 'w" where
  "tick P C tm force = (\<lambda>(s, w). case prune C tm force s of (news, s) \<Rightarrow> announce_walks P C news tm (s, w))"

section \<open>Listing and stopping\<close>

definition walkers_at :: "walks_core \<Rightarrow> instant \<Rightarrow> inner \<Rightarrow> walker list" where
  "walkers_at C tm s =
     sort_key wk_pid (map (\<lambda>(pid, t). walker_of C pid t tm) (filter (\<lambda>(_, t). tk_reported t \<and> walking tm t) (in_tracks s)))"

text \<open>It exited on its own: the walk is over, unless the id is another process's by now.\<close>

definition forget_gone :: "walks_core \<Rightarrow> proc_id \<Rightarrow> inner \<Rightarrow> walk_news list \<times> inner" where
  "forget_gone C p s =
     (case map_of (in_tracks s) (pr_pid p) of
        Some t \<Rightarrow>
          if tk_started t = pr_started p then
            (if tk_reported t then [Stopped (walker_of C (pr_pid p) t (tk_last t))] else [],
             s\<lparr>in_tracks := AList.delete (pr_pid p) (in_tracks s),
               in_handles := filter (\<lambda>(_, pid). pid \<noteq> pr_pid p) (in_handles s)\<rparr>)
          else ([], s)
      | None \<Rightarrow> ([], s))"

definition stop_at ::
  "'w procs \<Rightarrow> walks_core \<Rightarrow> u32 \<Rightarrow> instant \<Rightarrow> inner \<times> 'w \<Rightarrow> (stop_error + unit) \<times> inner \<times> 'w" where
  "stop_at P C pid tm = (\<lambda>(s, w).
     case map_of (in_tracks s) pid of
       None \<Rightarrow> (Inl NotWalking, s, w)
     | Some t \<Rightarrow>
         if \<not> (tk_reported t \<and> walking tm t) then (Inl NotWalking, s, w)
         else
           let p = \<lparr>pr_pid = pid, pr_started = tk_started t\<rparr> in
           case ps_terminate P p w of
             (Inr _, w) \<Rightarrow> (Inr (), s, w)
           | (Inl KillNotFound, w) \<Rightarrow>
               (case forget_gone C p s of (news, s) \<Rightarrow> (Inl Gone, snd (announce_walks P C news tm (s, w))))
           | (Inl (KillFailed e), w) \<Rightarrow> (Inl (StopIo e), s, w))"

section \<open>The thread behind it\<close>

datatype walk_event = Opened u64 u32 str instant | Released u64

text \<open>A turn of the loop: an event, or none for \<open>PRUNE_EVERY\<close>, when the clock is read.\<close>

definition walks_turn ::
  "('w \<Rightarrow> instant \<times> 'w) \<Rightarrow> 'w procs \<Rightarrow> walks_core \<Rightarrow> walk_event option \<Rightarrow> inner \<times> 'w \<Rightarrow> inner \<times> 'w" where
  "walks_turn clock P C e = (\<lambda>(s, w). case e of
       Some (Opened fh tid path at) \<Rightarrow> snd (opened_at P C fh tid path at (s, w))
     | Some (Released fh) \<Rightarrow> (walks_released fh s, w)
     | None \<Rightarrow> (case clock w of (tm, w) \<Rightarrow> snd (tick P C tm False (s, w))))"

definition walks_run ::
  "('w \<Rightarrow> instant \<times> 'w) \<Rightarrow> 'w procs \<Rightarrow> walks_core \<Rightarrow> walk_event option list \<Rightarrow> inner \<times> 'w \<Rightarrow> inner \<times> 'w" where
  "walks_run clock P C es s = fold (walks_turn clock P C) es s"

text \<open>The other side of the channel, on the mount: a directory opened or closed.\<close>

definition walks_opened :: "u64 \<Rightarrow> u32 \<Rightarrow> str \<Rightarrow> instant \<Rightarrow> walk_event list \<Rightarrow> walk_event list" where
  "walks_opened fh tid path at sent = sent @ [Opened fh tid path at]"

definition walks_closed :: "u64 \<Rightarrow> walk_event list \<Rightarrow> walk_event list" where
  "walks_closed fh sent = sent @ [Released fh]"

end
