(* ===== verification/Mount.thy ===== *)
theory Mount
  imports Inode_Cache Read_Cache Prefetch Walks Moves
begin

text \<open>
  The state of the FUSE mount (\<open>synology-filestation-fuse/src/fs/mod.rs\<close>) and what it needs around
  it; how a file is shown to the kernel (\<open>fs/attr.rs\<close>). What the source shares between threads
  through \<open>Arc\<close>s is one record here, and an operation is a function on it; what other threads do
  while one of them waits is an operation of the environment. A lock that is taken and let go
  within one operation leaves no trace; the lock of a write buffer, which others look at, is a flag.
\<close>

section \<open>How files are shown\<close>

definition dir_open_flags :: "bool \<Rightarrow> bool" where
  "dir_open_flags may_cache = may_cache"

datatype fuse_errno = Errno errno | ENODATA | EBUSY | ERANGE

definition rfind_slash :: "str \<Rightarrow> nat option" where
  "rfind_slash path =
     (if 47 \<notin> set path then None
      else Some (length path - length (takeWhile (\<lambda>b. b \<noteq> 47) (rev path)) - 1))"

definition split_nas_path :: "str \<Rightarrow> (str \<times> str) option" where
  "split_nas_path path = map_option (\<lambda>idx. (take idx path, drop (idx + 1) path)) (rfind_slash path)"

text \<open>\<open>trim_end_matches('/')\<close>.\<close>

definition trim_end_slashes :: "str \<Rightarrow> str" where
  "trim_end_slashes path = rev (dropWhile (\<lambda>b. b = 47) (rev path))"

record ownership =
  os_uid :: u32
  os_gid :: u32
  os_umask :: u16

definition ownership_perm :: "ownership \<Rightarrow> bool \<Rightarrow> u16" where
  "ownership_perm owner isdir = (let base = if isdir then 511 else 438 in base AND NOT (os_umask owner))"

datatype file_kind = Directory | RegularFile

text \<open>A \<open>SystemTime\<close> is its distance from the epoch, in seconds.\<close>

record kernel_attr =
  fa_ino :: u64
  fa_size :: u64
  fa_blocks :: u64
  fa_atime :: nat
  fa_mtime :: nat
  fa_ctime :: nat
  fa_crtime :: nat
  fa_kind :: file_kind
  fa_perm :: u16
  fa_nlink :: nat
  fa_uid :: u32
  fa_gid :: u32
  fa_rdev :: nat
  fa_blksize :: nat
  fa_flags :: nat

definition ts_to_system :: "i64 \<Rightarrow> nat" where
  "ts_to_system ts = (if sint ts \<ge> 0 then unat ts else 0)"

definition size_or_zero :: "syno_file_info \<Rightarrow> u64" where
  "size_or_zero info =
     (case Option.bind (fi_additional info) ad_size of Some n \<Rightarrow> n | None \<Rightarrow> 0)"

definition file_attr :: "ownership \<Rightarrow> u64 \<Rightarrow> syno_file_info \<Rightarrow> kernel_attr" where
  "file_attr owner ino info =
     (let kind = (if fi_isdir info then Directory else RegularFile);
          len = size_or_zero info;
          (atime, mtime, ctime, crtime) =
            (case Option.bind (fi_additional info) ad_time of
               Some t \<Rightarrow> (ts_to_system (ti_atime t), ts_to_system (ti_mtime t), ts_to_system (ti_ctime t),
                          ts_to_system (ti_crtime t))
             | None \<Rightarrow> (0, 0, 0, 0))
      in \<lparr>fa_ino = ino, fa_size = len, fa_blocks = div_ceil len 512, fa_atime = atime, fa_mtime = mtime,
          fa_ctime = ctime, fa_crtime = crtime, fa_kind = kind, fa_perm = ownership_perm owner (fi_isdir info),
          fa_nlink = (if fi_isdir info then 2 else 1), fa_uid = os_uid owner, fa_gid = os_gid owner,
          fa_rdev = 0, fa_blksize = 4096, fa_flags = 0\<rparr>)"

section \<open>Open files\<close>

text \<open>\<open>None\<close> once closed, or once a write failed.\<close>

datatype 'w write_sink = StreamedSink "'w write_handle option" | BufferedSink spill_buffer

record 'w write_buffer =
  wb_nas_path :: str
  wb_ino :: u64
  wb_sink :: "'w write_sink"
  wb_dirty :: bool
  wb_new_file :: bool
  wb_streamed :: bool
  wb_broken :: bool

text \<open>
  The buffer an \<open>Arc\<close> shares: whether somebody holds its lock, and how many hold on to it. The path
  of a handle is kept outside the lock.
\<close>

record 'w shared_buffer =
  sb_locked :: bool
  sb_holders :: nat
  sb_buffer :: "'w write_buffer"

record open_handle =
  oh_path :: str
  oh_buffer :: nat

section \<open>The mount\<close>

text \<open>
  A speculative download: the run of blocks it owns, the blocks whose claims its guards still hold,
  and, once the NAS has answered, the bytes to publish.
\<close>

record prefetch_task =
  pt_path :: str
  pt_first :: u64
  pt_blocks :: "u64 list"
  pt_guards :: "u64 list"
  pt_claim :: nat
  pt_data :: "bytes option"
  pt_finished :: bool

record snapshot =
  sn_listing :: "syno_file_info list"
  sn_ino :: u64
  sn_parent_ino :: u64

text \<open>A listing being fetched: its value once there is one, and how many readers hold on to it.\<close>

record flight =
  fl_value :: "syno_file_info list option"
  fl_holders :: nat

record ('w, 'i, 'd, 'b) mount =
  mo_client :: "'w client"
  mo_cache :: "'i inode_cache"
  mo_dir_cache :: "'d dir_cache"
  mo_read_cache :: "'b read_cache"
  mo_write_buffers :: "(u64 \<times> open_handle) list"
  mo_buffers :: "(nat \<times> 'w shared_buffer) list"
  mo_next_buffer :: nat
  mo_rewrites :: "(str \<times> nat) list"
  mo_hashes :: "(str \<times> nat list) list"
  mo_next_fh :: u64
  mo_owner :: ownership
  mo_prefetch_budget :: nat
  mo_prefetch_blocks :: u64
  mo_read_ahead :: "(u64 \<times> u64 \<times> read_ahead) list"
  mo_prefetch_tasks :: "(u64 \<times> prefetch_task list) list"
  mo_dir_handles :: "(u64 \<times> snapshot option) list"
  mo_flights :: "(str \<times> nat) list"
  mo_cells :: "(nat \<times> flight) list"
  mo_next_cell :: nat
  mo_walks :: "walk_event list option"
  mo_spill_seq :: u64

text \<open>
  What the mount runs in: the client's environment, \<open>str::to_lowercase\<close>, the three moka caches, the
  local files buffers spill to, the connections reads go over, the semaphores, and the other threads.
\<close>

datatype limit = TransferLimit | HashLimit

record ('w, 'i, 'd, 'b) mount_env =
  me_env :: "'w env"
  me_low :: "str \<Rightarrow> str"
  me_inodes :: "'i inode_moka"
  me_listings :: "'d dir_moka"
  me_blocks :: "'b block_moka"
  me_spill :: "'w spill_files"
  me_parallel :: "'w \<Rightarrow> nat \<times> 'w"
  me_acquire :: "limit \<Rightarrow> 'w \<Rightarrow> unit \<times> 'w"
  me_release :: "limit \<Rightarrow> 'w \<Rightarrow> unit \<times> 'w"
  me_others :: "duration \<Rightarrow> ('w, 'i, 'd, 'b) mount \<Rightarrow> unit \<times> ('w, 'i, 'd, 'b) mount"

type_synonym ('w, 'i, 'd, 'b, 'a) mount_op = "('w, 'i, 'd, 'b) mount \<Rightarrow> 'a \<times> ('w, 'i, 'd, 'b) mount"
type_synonym ('w, 'i, 'd, 'b, 'a) mount_run =
  "('w, 'i, 'd, 'b) mount \<Rightarrow> ('a \<times> ('w, 'i, 'd, 'b) mount) option"

definition ROOT_INO :: u64 where
  "ROOT_INO = 1"

definition VIRTUAL_ROOT_PATH :: str where
  "VIRTUAL_ROOT_PATH = []"

definition mount_new ::
  "'w client \<Rightarrow> 'i inode_cache \<Rightarrow> 'd dir_cache \<Rightarrow> 'b read_cache \<Rightarrow> ownership \<Rightarrow> u64 \<Rightarrow> u64 \<Rightarrow>
     ('w, 'i, 'd, 'b) mount" where
  "mount_new client cache dir_cache read_cache owner prefetch_blocks spill_seq =
     \<lparr>mo_client = client, mo_cache = cache, mo_dir_cache = dir_cache, mo_read_cache = read_cache,
      mo_write_buffers = [], mo_buffers = [], mo_next_buffer = 0, mo_rewrites = [], mo_hashes = [], mo_next_fh = 1, mo_owner = owner,
      mo_prefetch_budget = 0, mo_prefetch_blocks = prefetch_blocks, mo_read_ahead = [],
      mo_prefetch_tasks = [], mo_dir_handles = [], mo_flights = [], mo_cells = [], mo_next_cell = 0, mo_walks = None,
      mo_spill_seq = spill_seq\<rparr>"

definition open_handle_new :: "'w write_buffer \<Rightarrow> ('w, 'i, 'd, 'b, open_handle) mount_op" where
  "open_handle_new buffer m =
     (let b = mo_next_buffer m
      in (\<lparr>oh_path = wb_nas_path buffer, oh_buffer = b\<rparr>,
          m\<lparr>mo_next_buffer := b + 1,
            mo_buffers := AList.update b \<lparr>sb_locked = False, sb_holders = 1, sb_buffer = buffer\<rparr> (mo_buffers m)\<rparr>))"

text \<open>Operations of the parts, run on the mount.\<close>

definition on_client :: "('w client \<Rightarrow> 'a \<times> 'w client) \<Rightarrow> ('w, 'i, 'd, 'b, 'a) mount_op" where
  "on_client f m = (case f (mo_client m) of (a, c) \<Rightarrow> (a, m\<lparr>mo_client := c\<rparr>))"

definition run_client :: "('w client \<Rightarrow> ('a \<times> 'w client) option) \<Rightarrow> ('w, 'i, 'd, 'b, 'a) mount_run" where
  "run_client f m = map_option (\<lambda>(a, c). (a, m\<lparr>mo_client := c\<rparr>)) (f (mo_client m))"

definition on_cache :: "('i inode_cache \<Rightarrow> 'a \<times> 'i inode_cache) \<Rightarrow> ('w, 'i, 'd, 'b, 'a) mount_op" where
  "on_cache f m = (case f (mo_cache m) of (a, c) \<Rightarrow> (a, m\<lparr>mo_cache := c\<rparr>))"

definition on_dir_cache :: "('d dir_cache \<Rightarrow> 'a \<times> 'd dir_cache) \<Rightarrow> ('w, 'i, 'd, 'b, 'a) mount_op" where
  "on_dir_cache f m = (case f (mo_dir_cache m) of (a, c) \<Rightarrow> (a, m\<lparr>mo_dir_cache := c\<rparr>))"

definition on_read_cache :: "('b read_cache \<Rightarrow> 'a \<times> 'b read_cache) \<Rightarrow> ('w, 'i, 'd, 'b, 'a) mount_op" where
  "on_read_cache f m = (case f (mo_read_cache m) of (a, c) \<Rightarrow> (a, m\<lparr>mo_read_cache := c\<rparr>))"

definition set_cache :: "('i inode_cache \<Rightarrow> 'i inode_cache) \<Rightarrow> ('w, 'i, 'd, 'b, unit) mount_op" where
  "set_cache f = on_cache (\<lambda>c. ((), f c))"

definition set_dir_cache :: "('d dir_cache \<Rightarrow> 'd dir_cache) \<Rightarrow> ('w, 'i, 'd, 'b, unit) mount_op" where
  "set_dir_cache f = on_dir_cache (\<lambda>c. ((), f c))"

definition set_read_cache :: "('b read_cache \<Rightarrow> 'b read_cache) \<Rightarrow> ('w, 'i, 'd, 'b, unit) mount_op" where
  "set_read_cache f = on_read_cache (\<lambda>c. ((), f c))"

text \<open>\<open>connections\<close>: never less than one.\<close>

definition connections :: "('w, 'i, 'd, 'b) mount_env \<Rightarrow> ('w, 'i, 'd, 'b, nat) mount_op" where
  "connections G = let_op (on_client (in_world (me_parallel G))) (\<lambda>n. give (max n 1))"

text \<open>\<open>next_fh.fetch_add(1)\<close>.\<close>

definition take_fh :: "('w, 'i, 'd, 'b, u64) mount_op" where
  "take_fh = let_op (get_op mo_next_fh) (\<lambda>fh. let_op (set_op (\<lambda>m. m\<lparr>mo_next_fh := fh + 1\<rparr>)) (\<lambda>_. give fh))"

definition mount_path_for_ino :: "('w, 'i, 'd, 'b) mount_env \<Rightarrow> u64 \<Rightarrow> ('w, 'i, 'd, 'b, str option) mount_op" where
  "mount_path_for_ino G ino = on_cache (get_path_for_ino (me_inodes G) ino)"

text \<open>A permit of a semaphore, held while an operation runs.\<close>

definition permitted ::
  "('w, 'i, 'd, 'b) mount_env \<Rightarrow> limit \<Rightarrow> ('w, 'i, 'd, 'b, 'a) mount_run \<Rightarrow> ('w, 'i, 'd, 'b, 'a) mount_run" where
  "permitted G l run =
     let_run (total_op (on_client (in_world (me_acquire G l)))) (\<lambda>_.
     let_run run (\<lambda>a.
     let_run (total_op (on_client (in_world (me_release G l)))) (\<lambda>_. total_op (give a))))"

end
