(* ===== verification/Mount_Read.thy ===== *)
theory Mount_Read
  imports Mount Download
begin

text \<open>
  Reading through the mount (\<open>synology-filestation-fuse/src/fs/mod.rs\<close>): a range assembled from cached
  blocks, the downloads that fill the cache, and the speculation behind them. A speculative download
  runs on the runtime in two steps, the request and the publication of its answer; between them, and
  while a reader waits, other threads run. Aborting it drops its guards and its share of the budget.
\<close>

section \<open>Blocks\<close>

definition mount_total_blocks :: "('w, 'i, 'd, 'b) mount_env \<Rightarrow> u64 \<Rightarrow> ('w, 'i, 'd, 'b, u64 option) mount_op" where
  "mount_total_blocks G ino =
     let_op (on_cache (get_size_for_ino (me_inodes G) ino)) (\<lambda>len.
     let_op (get_op (\<lambda>m. rc_block_size (mo_read_cache m))) (\<lambda>block_size.
       give (case len of Some n \<Rightarrow> if 0 < n then Some (div_ceil n block_size) else None | None \<Rightarrow> None)))"

definition block_get :: "('w, 'i, 'd, 'b) mount_env \<Rightarrow> u64 \<Rightarrow> u64 \<Rightarrow> ('w, 'i, 'd, 'b, bytes option) mount_op" where
  "block_get G ino idx = on_read_cache (read_get (me_blocks G) ino idx)"

definition block_insert :: "('w, 'i, 'd, 'b) mount_env \<Rightarrow> u64 \<Rightarrow> u64 \<Rightarrow> bytes \<Rightarrow> ('w, 'i, 'd, 'b, unit) mount_op" where
  "block_insert G ino idx data = set_read_cache (read_insert (me_blocks G) ino idx data)"

definition block_claim :: "u64 \<Rightarrow> u64 \<Rightarrow> ('w, 'i, 'd, 'b, bool) mount_op" where
  "block_claim ino idx = on_read_cache (claim_inflight ino idx)"

definition block_cancel :: "u64 \<Rightarrow> u64 \<Rightarrow> ('w, 'i, 'd, 'b, unit) mount_op" where
  "block_cancel ino idx = set_read_cache (cancel_inflight ino idx)"

definition wait_for_block ::
  "('w, 'i, 'd, 'b) mount_env \<Rightarrow> u64 \<Rightarrow> u64 \<Rightarrow> duration \<Rightarrow> ('w, 'i, 'd, 'b, bytes option) mount_run" where
  "wait_for_block G ino idx timeout =
     let_run (total_op (get_op (\<lambda>m. map_of (rc_in_flight (mo_read_cache m)) (ino, idx)))) (\<lambda>slot.
     case slot of
       None \<Rightarrow> total_op (block_get G ino idx)
     | Some slot \<Rightarrow>
         let clock = on_client (now (me_env G)) in
         let_run (total_op clock) (\<lambda>t.
         let_run (wait_loop (\<lambda>m. slot \<in> set (rc_resolved (mo_read_cache m))) clock (me_others G) (t + timeout)) (\<lambda>_.
           total_op (block_get G ino idx))))"

section \<open>A range\<close>

text \<open>The part of a block that overlaps the range.\<close>

definition block_part :: "u64 \<Rightarrow> u64 \<Rightarrow> u64 \<Rightarrow> u64 \<Rightarrow> bytes \<Rightarrow> bytes" where
  "block_part block_size offset len block_idx block =
     (let block_start = block_idx * block_size;
          local_start = unat (saturating_sub offset block_start);
          local_end = unat (min (min (saturating_sub (offset + len) block_start) block_size) (of_nat (length block)))
      in if local_start < local_end then take (local_end - local_start) (drop local_start block) else [])"

text \<open>
  A block of the range, or \<open>None\<close> where the file has ended: from the cache, from the NAS when the
  claim is ours (the guard gives it back on every way out but the insertion), or from whoever is
  downloading it.
\<close>

definition fetch_block ::
  "('w, 'i, 'd, 'b) mount_env \<Rightarrow> u64 \<Rightarrow> str \<Rightarrow> u64 \<Rightarrow> u64 \<Rightarrow> ('w, 'i, 'd, 'b, syno_error + bytes option) mount_run" where
  "fetch_block G ino path block_size block_idx =
     let_run (total_op (block_get G ino block_idx)) (\<lambda>cached. case cached of
       Some b \<Rightarrow> total_op (give (Inr (if b = [] then None else Some b)))
     | None \<Rightarrow>
         let_run (total_op (block_claim ino block_idx)) (\<lambda>ours.
         if ours then
           let_run (total_op (on_client (download (me_env G) path (block_idx * block_size) block_size))) (\<lambda>got.
           case got of
             Inr b \<Rightarrow>
               let_run (total_op (block_insert G ino block_idx b)) (\<lambda>_.
                 total_op (give (Inr (if b = [] then None else Some b))))
           | Inl e \<Rightarrow> let_run (total_op (block_cancel ino block_idx)) (\<lambda>_. total_op (give (Inl e))))
         else
           let_run (wait_for_block G ino block_idx BLOCK_WAIT_TIMEOUT) (\<lambda>waited. total_op (give (
             case waited of
               Some b \<Rightarrow> Inr (if b = [] then None else Some b)
             | None \<Rightarrow> Inl (SynoIo (lit ''block download failed'')))))))"

fun range_blocks ::
  "('w, 'i, 'd, 'b) mount_env \<Rightarrow> u64 \<Rightarrow> str \<Rightarrow> u64 \<Rightarrow> u64 \<Rightarrow> u64 \<Rightarrow> u64 list \<Rightarrow> bytes \<Rightarrow>
     ('w, 'i, 'd, 'b, syno_error + bytes) mount_run" where
  "range_blocks G ino path block_size offset len [] result = total_op (give (Inr result))"
| "range_blocks G ino path block_size offset len (block_idx # rest) result =
     try_run (fetch_block G ino path block_size block_idx) (\<lambda>got. case got of
       None \<Rightarrow> total_op (give (Inr result))
     | Some block \<Rightarrow>
         let result = result @ block_part block_size offset len block_idx block in
         if length block < unat block_size then total_op (give (Inr result))
         else range_blocks G ino path block_size offset len rest result)"

definition read_range ::
  "('w, 'i, 'd, 'b) mount_env \<Rightarrow> u64 \<Rightarrow> str \<Rightarrow> u64 \<Rightarrow> u64 \<Rightarrow> ('w, 'i, 'd, 'b, syno_error + bytes) mount_run" where
  "read_range G ino path offset len =
     let_run (total_op (get_op (\<lambda>m. rc_block_size (mo_read_cache m)))) (\<lambda>block_size.
     let first_block = offset div block_size; last_block = (offset + len - 1) div block_size in
       range_blocks G ino path block_size offset len (map of_nat [unat first_block..<unat last_block + 1]) [])"

section \<open>Speculation\<close>

definition release_guards :: "u64 \<Rightarrow> u64 list \<Rightarrow> 'b read_cache \<Rightarrow> 'b read_cache" where
  "release_guards ino guards rc = fold (cancel_inflight ino) guards rc"

definition tasks_of :: "u64 \<Rightarrow> ('w, 'i, 'd, 'b) mount \<Rightarrow> prefetch_task list" where
  "tasks_of ino m = or_default [] ino (mo_prefetch_tasks m)"

definition spawn_run :: "u64 \<Rightarrow> str \<Rightarrow> u64 list \<Rightarrow> nat \<Rightarrow> ('w, 'i, 'd, 'b, unit) mount_op" where
  "spawn_run ino path blocks conns m =
     (case blocks of
        [] \<Rightarrow> ((), m)
      | first # _ \<Rightarrow>
          let limit = min (MAX_INFLIGHT_PREFETCH_BLOCKS * conns) (2 ^ 64 - 1);
              (granted, budget) = try_claim (length blocks) limit (mo_prefetch_budget m)
          in if \<not> granted then set_read_cache (release_guards ino blocks) m
             else
               let task = \<lparr>pt_path = path, pt_first = first, pt_blocks = blocks, pt_guards = blocks,
                           pt_claim = length blocks, pt_data = None, pt_finished = False\<rparr>;
                   tasks = filter (\<lambda>t. \<not> pt_finished t) (tasks_of ino m) @ [task]
               in ((), m\<lparr>mo_prefetch_budget := budget,
                        mo_prefetch_tasks := AList.update ino tasks (mo_prefetch_tasks m)\<rparr>))"

fun prefetch_loop ::
  "('w, 'i, 'd, 'b) mount_env \<Rightarrow> u64 \<Rightarrow> str \<Rightarrow> nat \<Rightarrow> u64 list \<Rightarrow> u64 list \<Rightarrow> ('w, 'i, 'd, 'b, unit) mount_op" where
  "prefetch_loop G ino path conns run [] = spawn_run ino path run conns"
| "prefetch_loop G ino path conns run (block_idx # rest) =
     let_op (get_op (\<lambda>m. read_contains (me_blocks G) ino block_idx (mo_read_cache m))) (\<lambda>cached.
     let_op (if cached then give False else block_claim ino block_idx) (\<lambda>ours.
     let continues = run \<noteq> [] \<and> last run + 1 = block_idx \<and> length run < MAX_PREFETCH_SPAN in
       if \<not> ours \<or> \<not> continues then
         let_op (spawn_run ino path run conns) (\<lambda>_.
           prefetch_loop G ino path conns (if ours then [block_idx] else []) rest)
       else prefetch_loop G ino path conns (run @ [block_idx]) rest))"

definition spawn_prefetch ::
  "('w, 'i, 'd, 'b) mount_env \<Rightarrow> u64 \<Rightarrow> str \<Rightarrow> u64 list \<Rightarrow> nat \<Rightarrow> ('w, 'i, 'd, 'b, unit) mount_op" where
  "spawn_prefetch G ino path blocks conns = prefetch_loop G ino path conns [] blocks"

text \<open>The end of a task, whichever it is: what its guards still hold and its claim are given back.\<close>

definition finished_task :: "prefetch_task \<Rightarrow> prefetch_task" where
  "finished_task t = t\<lparr>pt_guards := [], pt_claim := 0, pt_finished := True\<rparr>"

definition end_task :: "u64 \<Rightarrow> prefetch_task \<Rightarrow> ('w, 'i, 'd, 'b) mount \<Rightarrow> ('w, 'i, 'd, 'b) mount" where
  "end_task ino t m =
     m\<lparr>mo_read_cache := release_guards ino (pt_guards t) (mo_read_cache m),
       mo_prefetch_budget := drop_claim (pt_claim t) (mo_prefetch_budget m)\<rparr>"

definition set_task :: "u64 \<Rightarrow> nat \<Rightarrow> prefetch_task \<Rightarrow> ('w, 'i, 'd, 'b) mount \<Rightarrow> ('w, 'i, 'd, 'b) mount" where
  "set_task ino k t m =
     m\<lparr>mo_prefetch_tasks := AList.update ino ((tasks_of ino m)[k := t]) (mo_prefetch_tasks m)\<rparr>"

text \<open>The spawned task, as the \<open>k\<close>-th of its inode: its download, then the publication.\<close>

definition task_download :: "('w, 'i, 'd, 'b) mount_env \<Rightarrow> u64 \<Rightarrow> nat \<Rightarrow> ('w, 'i, 'd, 'b, unit) mount_op" where
  "task_download G ino k m =
     (let t = tasks_of ino m ! k;
          block_size = rc_block_size (mo_read_cache m);
          span = of_nat (length (pt_blocks t)) * block_size
      in case on_client (download (me_env G) (pt_path t) (pt_first t * block_size) span) m of
        (Inr data, m) \<Rightarrow> ((), set_task ino k (t\<lparr>pt_data := Some data\<rparr>) m)
      | (Inl _, m) \<Rightarrow> ((), set_task ino k (finished_task t) (end_task ino t m)))"

text \<open>The \<open>n\<close>-th block of an answer; past its end, the empty block that marks the end of the file.\<close>

definition piece :: "u64 \<Rightarrow> bytes \<Rightarrow> nat \<Rightarrow> bytes" where
  "piece block_size data n =
     (let from = n * unat block_size
      in if from \<ge> length data then []
         else take (min (from + unat block_size) (length data) - from) (drop from data))"

definition publish_pieces ::
  "('w, 'i, 'd, 'b) mount_env \<Rightarrow> u64 \<Rightarrow> u64 \<Rightarrow> u64 \<Rightarrow> bytes \<Rightarrow> nat \<Rightarrow> 'b read_cache \<Rightarrow> 'b read_cache" where
  "publish_pieces G ino first block_size data guards rc =
     fold (\<lambda>n. read_insert (me_blocks G) ino (first + of_nat n) (piece block_size data n)) [0..<guards] rc"

definition task_publish :: "('w, 'i, 'd, 'b) mount_env \<Rightarrow> u64 \<Rightarrow> nat \<Rightarrow> ('w, 'i, 'd, 'b, unit) mount_op" where
  "task_publish G ino k m =
     (let t = tasks_of ino m ! k in
      case pt_data t of
        None \<Rightarrow> ((), m)
      | Some data \<Rightarrow>
          let rc = mo_read_cache m;
              m = m\<lparr>mo_read_cache :=
                    publish_pieces G ino (pt_first t) (rc_block_size rc) data (length (pt_guards t)) rc\<rparr>
          in ((), set_task ino k (finished_task t) (end_task ino (t\<lparr>pt_guards := []\<rparr>) m)))"

section \<open>Opening, reading on, closing\<close>

definition prime_open :: "('w, 'i, 'd, 'b) mount_env \<Rightarrow> u64 \<Rightarrow> u64 \<Rightarrow> str \<Rightarrow> ('w, 'i, 'd, 'b, unit) mount_op" where
  "prime_open G fh ino path =
     let_op (set_op (\<lambda>m. m\<lparr>mo_read_ahead := AList.update fh (ino, read_ahead_default) (mo_read_ahead m)\<rparr>)) (\<lambda>_.
     let_op (get_op (\<lambda>m. rc_block_size (mo_read_cache m))) (\<lambda>block_size.
     let_op (mount_total_blocks G ino) (\<lambda>blocks. case blocks of
       None \<Rightarrow> give ()
     | Some total_blocks \<Rightarrow>
         let_op (block_get G ino 0) (\<lambda>b.
         let_op (when_op (b = Some []) (set_read_cache (invalidate_block (me_blocks G) ino 0))) (\<lambda>_.
         let_op (get_op (\<lambda>m. read_contains (me_blocks G) ino 0 (mo_read_cache m))) (\<lambda>cached.
         let_op (if cached then give False else block_claim ino 0) (\<lambda>ours.
         let_op (when_op ours
             (let_op (on_client (download (me_env G) path 0 block_size)) (\<lambda>got. case got of
                Inr data \<Rightarrow> if data \<noteq> [] then block_insert G ino 0 data else block_cancel ino 0
              | Inl _ \<Rightarrow> block_cancel ino 0))) (\<lambda>_.
         let_op (block_get G ino 0) (\<lambda>head. case head of
           None \<Rightarrow> give ()
         | Some head \<Rightarrow>
             let_op (get_op mo_prefetch_blocks) (\<lambda>depth.
             let_op (connections G) (\<lambda>n.
               spawn_prefetch G ino path (open_window total_blocks depth (is_indexed_media head)) n))))))))))) "

definition mount_read_ahead ::
  "('w, 'i, 'd, 'b) mount_env \<Rightarrow> u64 \<Rightarrow> u64 \<Rightarrow> str \<Rightarrow> u64 \<Rightarrow> u64 \<Rightarrow> ('w, 'i, 'd, 'b, unit) mount_op" where
  "mount_read_ahead G fh ino path offset len =
     let_op (get_op (\<lambda>m. rc_block_size (mo_read_cache m))) (\<lambda>block_size.
     let_op (mount_total_blocks G ino) (\<lambda>total_blocks.
     let_op (connections G) (\<lambda>n.
     let_op (get_op (\<lambda>m. or_default (ino, read_ahead_default) fh (mo_read_ahead m))) (\<lambda>(other, state).
     let_op (get_op (\<lambda>m. streaming_depth (mo_prefetch_blocks m) n (capacity_blocks (mo_read_cache m)))) (\<lambda>depth.
     let (blocks, state) = advance offset len block_size total_blocks depth state in
     let_op (set_op (\<lambda>m. m\<lparr>mo_read_ahead := AList.update fh (other, state) (mo_read_ahead m)\<rparr>)) (\<lambda>_.
       spawn_prefetch G ino path blocks n))))))"

definition end_read :: "u64 \<Rightarrow> u64 \<Rightarrow> ('w, 'i, 'd, 'b, unit) mount_op" where
  "end_read fh ino m =
     (let m = m\<lparr>mo_read_ahead := AList.delete fh (mo_read_ahead m)\<rparr>;
          last_handle = (\<forall>(_, other, _) \<in> set (mo_read_ahead m). other \<noteq> ino)
      in ((), if last_handle then
                (fold (end_task ino) (tasks_of ino m) m)
                  \<lparr>mo_prefetch_tasks := AList.delete ino (mo_prefetch_tasks m)\<rparr>
              else m))"

end
