(* ===== verification/Mount_Write.thy ===== *)
theory Mount_Write
  imports Mount
begin

text \<open>
  Writing through the mount (\<open>synology-filestation-fuse/src/fs/mod.rs\<close>, \<open>fs/transfer.rs\<close>): the
  buffer of an open file, its upload, truncation, and moves between folders. The lock of a buffer
  is waited for, and other threads run meanwhile.
\<close>

section \<open>Shared buffers\<close>

text \<open>\<open>buffer\<close>: another hold on the buffer of a handle.\<close>

definition change_buffer :: "nat \<Rightarrow> ('w shared_buffer \<Rightarrow> 'w shared_buffer) \<Rightarrow> ('w, 'i, 'd, 'b, unit) mount_op" where
  "change_buffer b f = set_op (\<lambda>m. m\<lparr>mo_buffers := AList.map_entry b f (mo_buffers m)\<rparr>)"

definition set_buffer :: "nat \<Rightarrow> ('w write_buffer \<Rightarrow> 'w write_buffer) \<Rightarrow> ('w, 'i, 'd, 'b, unit) mount_op" where
  "set_buffer b f = change_buffer b (\<lambda>s. s\<lparr>sb_buffer := f (sb_buffer s)\<rparr>)"

definition buffer_of :: "u64 \<Rightarrow> ('w, 'i, 'd, 'b, nat option) mount_op" where
  "buffer_of fh =
     let_op (get_op (\<lambda>m. map_of (mo_write_buffers m) fh)) (\<lambda>h. case h of
       None \<Rightarrow> give None
     | Some h \<Rightarrow>
         let_op (change_buffer (oh_buffer h) (\<lambda>s. s\<lparr>sb_holders := sb_holders s + 1\<rparr>)) (\<lambda>_.
           give (Some (oh_buffer h))))"

text \<open>Letting go of a hold; the last one drops the buffer, and with it its temporary file.\<close>

definition let_go :: "('w, 'i, 'd, 'b) mount_env \<Rightarrow> nat \<Rightarrow> ('w, 'i, 'd, 'b, unit) mount_op" where
  "let_go G b =
     let_op (get_op (\<lambda>m. map_of (mo_buffers m) b)) (\<lambda>s. case s of
       None \<Rightarrow> give ()
     | Some s \<Rightarrow>
         if sb_holders s > 1 then change_buffer b (\<lambda>s. s\<lparr>sb_holders := sb_holders s - 1\<rparr>)
         else
           let_op (set_op (\<lambda>m. m\<lparr>mo_buffers := AList.delete b (mo_buffers m)\<rparr>)) (\<lambda>_.
           case wb_sink (sb_buffer s) of
             BufferedSink sp \<Rightarrow> on_client (in_world (\<lambda>w. ((), drop_spill (me_spill G) sp w)))
           | StreamedSink _ \<Rightarrow> give ()))"

definition locked :: "nat \<Rightarrow> ('w, 'i, 'd, 'b) mount \<Rightarrow> bool" where
  "locked b m \<longleftrightarrow> (case map_of (mo_buffers m) b of Some s \<Rightarrow> sb_locked s | None \<Rightarrow> False)"

partial_function (option) await_lock :: "('s \<Rightarrow> bool) \<Rightarrow> ('s \<Rightarrow> unit \<times> 's) \<Rightarrow> 's \<Rightarrow> (unit \<times> 's) option" where
  "await_lock taken others s =
     (if taken s then (case others s of (_, s) \<Rightarrow> await_lock taken others s) else Some ((), s))"

definition with_buffer ::
  "('w, 'i, 'd, 'b) mount_env \<Rightarrow> nat \<Rightarrow> ('w write_buffer \<Rightarrow> ('w, 'i, 'd, 'b, 'a) mount_run) \<Rightarrow> ('w, 'i, 'd, 'b, 'a) mount_run" where
  "with_buffer G b run =
     let_run (await_lock (locked b) (me_others G 0)) (\<lambda>_.
     let_run (total_op (change_buffer b (\<lambda>s. s\<lparr>sb_locked := True\<rparr>))) (\<lambda>_.
     let_run (total_op (get_op (\<lambda>m. sb_buffer (the (map_of (mo_buffers m) b))))) (\<lambda>buf.
     let_run (run buf) (\<lambda>a.
     let_run (total_op (change_buffer b (\<lambda>s. s\<lparr>sb_locked := False\<rparr>))) (\<lambda>_. total_op (give a))))))"

section \<open>Writing\<close>

definition new_spill :: "('w, 'i, 'd, 'b) mount_env \<Rightarrow> ('w, 'i, 'd, 'b, spill_buffer) mount_op" where
  "new_spill G =
     let_op (get_op mo_spill_seq) (\<lambda>seq.
     let_op (on_client (in_world (spill_buffer_new (me_spill G) seq))) (\<lambda>(sp, seq).
     let_op (set_op (\<lambda>m. m\<lparr>mo_spill_seq := seq\<rparr>)) (\<lambda>_. give sp)))"

text \<open>An operation on the local buffer of a handle, whose new state is kept whatever it answers.\<close>

definition on_spill :: "nat \<Rightarrow> spill_buffer \<Rightarrow> ('w, 'a) spill_op \<Rightarrow> ('w, 'i, 'd, 'b, str + 'a) mount_op" where
  "on_spill b sp f =
     let_op (on_client (in_world (\<lambda>w. case f (sp, w) of (r, sp, w) \<Rightarrow> ((r, sp), w)))) (\<lambda>(r, sp).
     let_op (set_buffer b (\<lambda>buf. buf\<lparr>wb_sink := BufferedSink sp\<rparr>)) (\<lambda>_. give r))"

definition write_buffered ::
  "('w, 'i, 'd, 'b) mount_env \<Rightarrow> nat \<Rightarrow> spill_buffer \<Rightarrow> u64 \<Rightarrow> bytes \<Rightarrow> ('w, 'i, 'd, 'b, syno_error + unit) mount_op" where
  "write_buffered G b sp offset data =
     let_op (on_spill b sp (spill_write_at (me_spill G) offset data)) (\<lambda>r. case r of
       Inl e \<Rightarrow> let_op (set_buffer b (\<lambda>buf. buf\<lparr>wb_broken := True\<rparr>)) (\<lambda>_. give (Inl (SynoIo e)))
     | Inr _ \<Rightarrow> let_op (set_buffer b (\<lambda>buf. buf\<lparr>wb_dirty := True\<rparr>)) (\<lambda>_. give (Inr ())))"

definition write_streamed ::
  "('w, 'i, 'd, 'b) mount_env \<Rightarrow> nat \<Rightarrow> 'w write_buffer \<Rightarrow> 'w write_handle \<Rightarrow> u64 \<Rightarrow> bytes \<Rightarrow>
     ('w, 'i, 'd, 'b, syno_error + unit) mount_op" where
  "write_streamed G b buf stream offset data =
     let_op (on_client (in_world (wh_write_at stream offset data))) (\<lambda>r. case r of
       Inr _ \<Rightarrow> let_op (set_buffer b (\<lambda>buf. buf\<lparr>wb_streamed := True, wb_dirty := True\<rparr>)) (\<lambda>_. give (Inr ()))
     | Inl e \<Rightarrow>
         let_op (set_buffer b (\<lambda>buf. buf\<lparr>wb_sink := StreamedSink None\<rparr>)) (\<lambda>_.
         if wb_streamed buf \<or> \<not> wb_new_file buf then
           let_op (set_buffer b (\<lambda>buf. buf\<lparr>wb_broken := True\<rparr>)) (\<lambda>_. give (Inl e))
         else
           let_op (new_spill G) (\<lambda>sp.
           let_op (set_buffer b (\<lambda>buf. buf\<lparr>wb_sink := BufferedSink sp\<rparr>)) (\<lambda>_.
             write_buffered G b sp offset data))))"

definition write_to ::
  "('w, 'i, 'd, 'b) mount_env \<Rightarrow> nat \<Rightarrow> u64 \<Rightarrow> bytes \<Rightarrow> 'w write_buffer \<Rightarrow> ('w, 'i, 'd, 'b, syno_error + unit) mount_op" where
  "write_to G b offset data buf =
     (case wb_sink buf of
        StreamedSink None \<Rightarrow> give (Inl (SynoIo (lit ''write to a closed handle'')))
      | StreamedSink (Some stream) \<Rightarrow> write_streamed G b buf stream offset data
      | BufferedSink sp \<Rightarrow> write_buffered G b sp offset data)"

definition write_buffer_at ::
  "('w, 'i, 'd, 'b) mount_env \<Rightarrow> u64 \<Rightarrow> u64 \<Rightarrow> bytes \<Rightarrow> ('w, 'i, 'd, 'b, syno_error + unit) mount_run" where
  "write_buffer_at G fh offset data =
     let_run (total_op (buffer_of fh)) (\<lambda>b. case b of
       None \<Rightarrow> total_op (give (Inl (SynoIo (lit ''write to unknown file handle '' @ show_nat (unat fh)))))
     | Some b \<Rightarrow>
         let_run (with_buffer G b (\<lambda>buf. total_op (write_to G b offset data buf))) (\<lambda>r.
         let_run (total_op (let_go G b)) (\<lambda>_. total_op (give r))))"

section \<open>Opening\<close>

definition open_sink :: "('w, 'i, 'd, 'b) mount_env \<Rightarrow> str \<Rightarrow> ('w, 'i, 'd, 'b, 'w write_sink) mount_op" where
  "open_sink G path =
     let_op (on_client (client_open_write (me_env G) path Existing)) (\<lambda>r. case r of
       Inr (Some stream) \<Rightarrow> give (StreamedSink (Some stream))
     | _ \<Rightarrow> let_op (new_spill G) (\<lambda>sp. give (BufferedSink sp)))"

text \<open>\<open>flags & O_ACCMODE != O_RDONLY\<close>, on Linux.\<close>

definition is_writable :: "32 word \<Rightarrow> bool" where
  "is_writable flags \<longleftrightarrow> flags AND 3 \<noteq> 0"

definition add_write_buffer ::
  "('w, 'i, 'd, 'b) mount_env \<Rightarrow> u64 \<Rightarrow> str \<Rightarrow> u64 \<Rightarrow> bool \<Rightarrow> bool \<Rightarrow> ('w, 'i, 'd, 'b, unit) mount_op" where
  "add_write_buffer G fh nas_path ino new_file writable =
     let_op (if writable then open_sink G nas_path
             else let_op (new_spill G) (\<lambda>sp. give (BufferedSink sp))) (\<lambda>sink.
     let_op (open_handle_new \<lparr>wb_nas_path = nas_path, wb_ino = ino, wb_sink = sink, wb_dirty = new_file,
               wb_new_file = new_file, wb_streamed = False, wb_broken = False\<rparr>) (\<lambda>h.
     let_op (get_op (\<lambda>m. map_of (mo_write_buffers m) fh)) (\<lambda>replaced.
     let_op (set_op (\<lambda>m. m\<lparr>mo_write_buffers := AList.update fh h (mo_write_buffers m)\<rparr>)) (\<lambda>_.
       case replaced of None \<Rightarrow> give () | Some old \<Rightarrow> let_go G (oh_buffer old)))))"

section \<open>Uploading\<close>

definition forget_parent_listing :: "('w, 'i, 'd, 'b) mount_env \<Rightarrow> str \<Rightarrow> ('w, 'i, 'd, 'b, unit) mount_op" where
  "forget_parent_listing G path =
     (let parent = (case rfind_slash path of
          None \<Rightarrow> VIRTUAL_ROOT_PATH
        | Some idx \<Rightarrow> if idx = 0 then VIRTUAL_ROOT_PATH else take idx path)
      in set_dir_cache (dir_invalidate (me_listings G) (me_low G) parent))"

definition busy :: "str \<Rightarrow> ('w, 'i, 'd, 'b) mount \<Rightarrow> bool" where
  "busy path m \<longleftrightarrow>
     path \<in> fst ` set (mo_rewrites m) \<or>
     (\<exists>(_, h) \<in> set (mo_write_buffers m). oh_path h = path \<and>
        (case map_of (mo_buffers m) (oh_buffer h) of
           Some s \<Rightarrow> sb_locked s \<or> wb_dirty (sb_buffer s) \<or> wb_broken (sb_buffer s)
         | None \<Rightarrow> False))"

text \<open>The part of an upload that talks to the NAS: closing the stream, or sending the buffer.\<close>

definition finish_stream ::
  "('w, 'i, 'd, 'b) mount_env \<Rightarrow> nat \<Rightarrow> 'w write_handle option \<Rightarrow> ('w, 'i, 'd, 'b, syno_error + unit) mount_run" where
  "finish_stream G b slot =
     let_run (total_op (set_buffer b (\<lambda>buf. buf\<lparr>wb_sink := StreamedSink None\<rparr>))) (\<lambda>_.
     case slot of
       None \<Rightarrow> total_op (give (Inr ()))
     | Some stream \<Rightarrow> permitted G TransferLimit (total_op (on_client (in_world (wh_close stream)))))"

definition send_payload_of ::
  "('w, 'i, 'd, 'b) mount_env \<Rightarrow> str \<Rightarrow> bool \<Rightarrow> payload \<Rightarrow> ('w, 'i, 'd, 'b, syno_error + unit) mount_run" where
  "send_payload_of G nas_path overwrite payload =
     (case split_nas_path nas_path of
        None \<Rightarrow> total_op (give (Inl SynoInvalidArg))
      | Some (parent, filename) \<Rightarrow>
          permitted G TransferLimit (run_client (upload_payload (me_env G) parent filename payload overwrite)))"

definition finish_buffered ::
  "('w, 'i, 'd, 'b) mount_env \<Rightarrow> nat \<Rightarrow> 'w write_buffer \<Rightarrow> spill_buffer \<Rightarrow> ('w, 'i, 'd, 'b, syno_error + unit) mount_run" where
  "finish_buffered G b buf sp =
     let_run (total_op (on_spill b sp (payload_for (me_spill G)))) (\<lambda>r. case r of
       Inl e \<Rightarrow> total_op (give (Inl (SynoIo e)))
     | Inr payload \<Rightarrow> send_payload_of G (wb_nas_path buf) (\<not> wb_new_file buf) payload)"

text \<open>\<open>Some\<close> once the NAS has the data and the caches have to forget what it replaced.\<close>

definition upload_locked ::
  "('w, 'i, 'd, 'b) mount_env \<Rightarrow> nat \<Rightarrow> 'w write_buffer \<Rightarrow> ('w, 'i, 'd, 'b, syno_error + (str \<times> u64) option) mount_run" where
  "upload_locked G b buf =
     (if wb_broken buf then
        total_op (give (Inl (SynoIo (lit ''close '' @ wb_nas_path buf @ lit '': an earlier write to this file failed''))))
      else if \<not> wb_dirty buf then total_op (give (Inr None))
      else
        try_run (case wb_sink buf of
            StreamedSink slot \<Rightarrow> finish_stream G b slot
          | BufferedSink sp \<Rightarrow> finish_buffered G b buf sp) (\<lambda>_.
        let_run (total_op (set_buffer b (\<lambda>buf. buf\<lparr>wb_dirty := False, wb_new_file := False\<rparr>))) (\<lambda>_.
          total_op (give (Inr (Some (wb_nas_path buf, wb_ino buf)))))))"

definition transfer_upload ::
  "('w, 'i, 'd, 'b) mount_env \<Rightarrow> u64 \<Rightarrow> ('w, 'i, 'd, 'b, syno_error + unit) mount_run" where
  "transfer_upload G fh =
     let_run (total_op (buffer_of fh)) (\<lambda>b. case b of
       None \<Rightarrow> total_op (give (Inr ()))
     | Some b \<Rightarrow>
         let_run (with_buffer G b (upload_locked G b)) (\<lambda>r.
         let_run (total_op (case r of
             Inr (Some (nas_path, ino)) \<Rightarrow>
               let_op (set_cache (invalidate_path (me_inodes G) (me_low G) nas_path)) (\<lambda>_.
               let_op (forget_parent_listing G nas_path) (\<lambda>_.
                 set_read_cache (invalidate_ino (me_blocks G) ino)))
           | _ \<Rightarrow> give ())) (\<lambda>_.
         let_run (total_op (let_go G b)) (\<lambda>_.
           total_op (give (map_sum id (\<lambda>_. ()) r))))))"

section \<open>Truncating\<close>

text \<open>A \<open>Rewriting\<close> guard: the path is registered while an operation runs.\<close>

definition begin_rewriting :: "str \<Rightarrow> ('w, 'i, 'd, 'b, unit) mount_op" where
  "begin_rewriting path =
     set_op (\<lambda>m. m\<lparr>mo_rewrites := AList.update path (or_default 0 path (mo_rewrites m) + 1) (mo_rewrites m)\<rparr>)"

definition end_rewriting :: "str \<Rightarrow> ('w, 'i, 'd, 'b, unit) mount_op" where
  "end_rewriting path =
     set_op (\<lambda>m. m\<lparr>mo_rewrites :=
       (case map_of (mo_rewrites m) path of
          None \<Rightarrow> mo_rewrites m
        | Some n \<Rightarrow> if n - 1 = 0 then AList.delete path (mo_rewrites m)
                    else AList.update path (n - 1) (mo_rewrites m))\<rparr>)"

definition rewriting :: "str \<Rightarrow> ('w, 'i, 'd, 'b, 'a) mount_run \<Rightarrow> ('w, 'i, 'd, 'b, 'a) mount_run" where
  "rewriting path run =
     let_run (total_op (begin_rewriting path)) (\<lambda>_.
     let_run run (\<lambda>a.
     let_run (total_op (end_rewriting path)) (\<lambda>_. total_op (give a))))"

definition transfer_truncate ::
  "('w, 'i, 'd, 'b) mount_env \<Rightarrow> u64 \<Rightarrow> str \<Rightarrow> u64 \<Rightarrow> ('w, 'i, 'd, 'b, syno_error + syno_file_info) mount_run" where
  "transfer_truncate G ino path new_size =
     rewriting path (
       try_run (permitted G TransferLimit (total_op (on_client (Upload.truncate (me_env G) path new_size)))) (\<lambda>_.
       let_run (total_op (set_read_cache (invalidate_ino (me_blocks G) ino))) (\<lambda>_.
       let_run (total_op (set_cache (invalidate_path (me_inodes G) (me_low G) path))) (\<lambda>_.
         total_op (on_client (get_info (me_env G) path))))))"

definition start_truncate ::
  "('w, 'i, 'd, 'b) mount_env \<Rightarrow> u64 \<Rightarrow> str \<Rightarrow> u64 \<Rightarrow>
     (syno_error + syno_file_info \<Rightarrow> ('w, 'i, 'd, 'b, 'a) mount_op) \<Rightarrow> ('w, 'i, 'd, 'b, 'a) mount_run" where
  "start_truncate G ino path new_size answer =
     rewriting path (let_run (transfer_truncate G ino path new_size) (\<lambda>r. total_op (answer r)))"

section \<open>Moving between folders\<close>

definition forget_path :: "('w, 'i, 'd, 'b) mount_env \<Rightarrow> str \<Rightarrow> ('w, 'i, 'd, 'b, unit) mount_op" where
  "forget_path G path =
     let_op (get_op (\<lambda>m. get_ino_for_path (me_low G) path (mo_cache m))) (\<lambda>ino.
     let_op (case ino of Some ino \<Rightarrow> set_read_cache (invalidate_ino (me_blocks G) ino) | None \<Rightarrow> give ()) (\<lambda>_.
     let_op (set_cache (invalidate_path (me_inodes G) (me_low G) path)) (\<lambda>_.
     let_op (set_cache (inode_invalidate_prefix (me_inodes G) (me_low G) (trim_end_slashes path @ lit ''/''))) (\<lambda>_.
     let_op (set_dir_cache (dir_invalidate_prefix (me_listings G) (me_low G) path)) (\<lambda>_.
       forget_parent_listing G path)))))"

definition forget_moved :: "('w, 'i, 'd, 'b) mount_env \<Rightarrow> str \<Rightarrow> str \<Rightarrow> ('w, 'i, 'd, 'b, unit) mount_op" where
  "forget_moved G old_path new_path = let_op (forget_path G old_path) (\<lambda>_. forget_path G new_path)"

definition copy_across_dirs ::
  "('w, 'i, 'd, 'b) mount_env \<Rightarrow> str \<Rightarrow> str \<Rightarrow> str \<Rightarrow> ('w, 'i, 'd, 'b, syno_error + unit) mount_run" where
  "copy_across_dirs G old_path new_parent new_name =
     try_run (permitted G TransferLimit (total_op (on_client (download (me_env G) old_path 0 0)))) (\<lambda>data.
     try_run (permitted G TransferLimit (total_op (on_client (upload (me_env G) new_parent new_name data True)))) (\<lambda>_.
     let_run (total_op (on_client (delete (me_env G) old_path))) (\<lambda>_. total_op (give (Inr ())))))"

definition move_or_copy ::
  "('w, 'i, 'd, 'b) mount_env \<Rightarrow> str \<Rightarrow> str \<Rightarrow> str \<Rightarrow> str \<Rightarrow> ('w, 'i, 'd, 'b, syno_error + unit) mount_run" where
  "move_or_copy G old_path new_parent new_name new_path =
     let_run (permitted G TransferLimit (run_client (move_to (me_env G) old_path new_path))) (\<lambda>moved. case moved of
       Inr _ \<Rightarrow> total_op (give (Inr ()))
     | Inl SynoNotSupported \<Rightarrow>
         let_run (total_op (let_op (get_op (\<lambda>m. get_ino_for_path (me_low G) old_path (mo_cache m))) (\<lambda>ino. case ino of
             None \<Rightarrow> give None
           | Some ino \<Rightarrow> let_op (on_cache (get_by_ino (me_inodes G) ino)) (\<lambda>e. give (map_option (\<lambda>e. fi_isdir (ie_info e)) e))))) (\<lambda>cached.
         let_run (total_op (case cached of
             Some isdir \<Rightarrow> give isdir
           | None \<Rightarrow> let_op (on_client (get_info (me_env G) old_path)) (\<lambda>r.
               give (case r of Inr info \<Rightarrow> fi_isdir info | Inl _ \<Rightarrow> False)))) (\<lambda>is_dir.
           if is_dir then total_op (give (Inl SynoNotSupported))
           else copy_across_dirs G old_path new_parent new_name))
     | Inl e \<Rightarrow> total_op (give (Inl e)))"

definition moved_to :: "str \<Rightarrow> str \<Rightarrow> str" where
  "moved_to new_parent new_name = trim_end_slashes new_parent @ lit ''/'' @ new_name"

definition transfer_move_across_dirs ::
  "('w, 'i, 'd, 'b) mount_env \<Rightarrow> str \<Rightarrow> str \<Rightarrow> str \<Rightarrow> ('w, 'i, 'd, 'b, syno_error + unit) mount_run" where
  "transfer_move_across_dirs G old_path new_parent new_name =
     (let new_path = moved_to new_parent new_name in
      rewriting old_path (rewriting new_path (
        let_run (move_or_copy G old_path new_parent new_name new_path) (\<lambda>outcome.
        let_run (total_op (forget_moved G old_path new_path)) (\<lambda>_. total_op (give outcome))))))"

definition start_move_across_dirs ::
  "('w, 'i, 'd, 'b) mount_env \<Rightarrow> str \<Rightarrow> str \<Rightarrow> str \<Rightarrow> ('w, 'i, 'd, 'b, syno_error + unit) mount_run" where
  "start_move_across_dirs G old_path new_parent new_name =
     rewriting old_path (rewriting (moved_to new_parent new_name)
       (transfer_move_across_dirs G old_path new_parent new_name))"

end
