(* ===== verification/Mount_Dirs.thy ===== *)
theory Mount_Dirs
  imports Mount
begin

text \<open>
  Reading directories through the mount (\<open>synology-filestation-fuse/src/fs/dirs.rs\<close>): the listing of
  a directory, fetched once for all who wait for it, and the snapshot one pass over it reads. A
  flight is the cell (\<open>tokio::sync::OnceCell\<close>) its readers share; fetching into it excludes
  the others, so it is one step.
\<close>

section \<open>One listing for all who ask\<close>

text \<open>Joining the flight of a directory, or starting one.\<close>

definition join_flight :: "str \<Rightarrow> ('w, 'i, 'd, 'b, nat) mount_op" where
  "join_flight key m =
     (let (cell, m) = (case map_of (mo_flights m) key of
            Some cell \<Rightarrow> (cell, m)
          | None \<Rightarrow>
              (mo_next_cell m,
               m\<lparr>mo_flights := AList.update key (mo_next_cell m) (mo_flights m),
                 mo_cells := AList.update (mo_next_cell m) \<lparr>fl_value = None, fl_holders = 0\<rparr> (mo_cells m),
                 mo_next_cell := mo_next_cell m + 1\<rparr>))
      in (cell, m\<lparr>mo_cells := AList.map_entry cell (\<lambda>f. f\<lparr>fl_holders := fl_holders f + 1\<rparr>) (mo_cells m)\<rparr>))"

definition fetch_listing ::
  "('w, 'i, 'd, 'b) mount_env \<Rightarrow> str \<Rightarrow> ('w, 'i, 'd, 'b, syno_error + syno_file_info list) mount_op" where
  "fetch_listing G path =
     try_op (on_client (if path = VIRTUAL_ROOT_PATH then list_shares (me_env G) else list_dir (me_env G) path)) (\<lambda>entries.
     let_op (on_dir_cache (dir_insert (me_listings G) (me_low G) path entries)) (\<lambda>entries. give (Inr entries)))"

definition init_flight ::
  "('w, 'i, 'd, 'b) mount_env \<Rightarrow> str \<Rightarrow> nat \<Rightarrow> ('w, 'i, 'd, 'b, syno_error + syno_file_info list) mount_op" where
  "init_flight G path cell =
     let_op (get_op (\<lambda>m. Option.bind (map_of (mo_cells m) cell) fl_value)) (\<lambda>v. case v of
       Some entries \<Rightarrow> give (Inr entries)
     | None \<Rightarrow>
         try_op (fetch_listing G path) (\<lambda>entries.
         let_op (set_op (\<lambda>m. m\<lparr>mo_cells := AList.map_entry cell (\<lambda>f. f\<lparr>fl_value := Some entries\<rparr>) (mo_cells m)\<rparr>)) (\<lambda>_.
           give (Inr entries))))"

text \<open>Letting go of a flight; the cell itself goes with its last holder.\<close>

definition leave_flight :: "str \<Rightarrow> nat \<Rightarrow> bool \<Rightarrow> ('w, 'i, 'd, 'b, unit) mount_op" where
  "leave_flight key cell ok m =
     (let ours = (map_of (mo_flights m) key = Some cell);
          holders = (case map_of (mo_cells m) cell of Some f \<Rightarrow> fl_holders f - 1 | None \<Rightarrow> 0);
          m = m\<lparr>mo_cells := AList.map_entry cell (\<lambda>f. f\<lparr>fl_holders := fl_holders f - 1\<rparr>) (mo_cells m)\<rparr>;
          m = (if ours \<and> (ok \<or> holders = 0) then m\<lparr>mo_flights := AList.delete key (mo_flights m)\<rparr> else m)
      in ((), if holders = 0 then m\<lparr>mo_cells := AList.delete cell (mo_cells m)\<rparr> else m))"

definition lister_get ::
  "('w, 'i, 'd, 'b) mount_env \<Rightarrow> str \<Rightarrow> ('w, 'i, 'd, 'b, syno_error + syno_file_info list) mount_op" where
  "lister_get G path =
     let_op (on_dir_cache (dir_get (me_listings G) (me_low G) path)) (\<lambda>cached. case cached of
       Some entries \<Rightarrow> give (Inr entries)
     | None \<Rightarrow>
         let_op (join_flight (me_low G path)) (\<lambda>cell.
         let_op (init_flight G path cell) (\<lambda>r.
         let_op (leave_flight (me_low G path) cell (\<not> isl r)) (\<lambda>_. give r))))"

section \<open>Snapshots\<close>

record dir_entry =
  de_ino :: u64
  de_kind :: file_kind
  de_name :: str

definition snapshot_new ::
  "('w, 'i, 'd, 'b) mount_env \<Rightarrow> u64 \<Rightarrow> str \<Rightarrow> syno_file_info list \<Rightarrow> ('w, 'i, 'd, 'b, snapshot) mount_op" where
  "snapshot_new G ino path listing =
     let_op (if path = VIRTUAL_ROOT_PATH then give ROOT_INO
             else case rfind_slash path of
               None \<Rightarrow> give ROOT_INO
             | Some i \<Rightarrow> if take i path = [] then give ROOT_INO else on_cache (get_or_alloc_ino (me_low G) (take i path))) (\<lambda>parent.
       give \<lparr>sn_listing = listing, sn_ino = ino, sn_parent_ino = parent\<rparr>)"

definition snapshot_len :: "snapshot \<Rightarrow> nat" where
  "snapshot_len sn = length (sn_listing sn) + 2"

definition snapshot_entry ::
  "('w, 'i, 'd, 'b) mount_env \<Rightarrow> snapshot \<Rightarrow> nat \<Rightarrow> ('w, 'i, 'd, 'b, dir_entry option) mount_op" where
  "snapshot_entry G sn i =
     (if i = 0 then give (Some \<lparr>de_ino = sn_ino sn, de_kind = Directory, de_name = lit ''.''\<rparr>)
      else if i = 1 then give (Some \<lparr>de_ino = sn_parent_ino sn, de_kind = Directory, de_name = lit ''..''\<rparr>)
      else if i - 2 < length (sn_listing sn) then
        let info = sn_listing sn ! (i - 2) in
        let_op (on_cache (get_or_alloc_ino (me_low G) (fi_path info))) (\<lambda>ino.
        let_op (set_cache (inode_insert (me_inodes G) (me_low G) ino info)) (\<lambda>_.
          give (Some \<lparr>de_ino = ino, de_kind = (if fi_isdir info then Directory else RegularFile), de_name = fi_name info\<rparr>)))
      else give None)"

section \<open>Directory handles\<close>

text \<open>The watcher is told of an open at the moment it happens.\<close>

definition open_dir :: "('w, 'i, 'd, 'b) mount_env \<Rightarrow> u32 \<Rightarrow> str \<Rightarrow> ('w, 'i, 'd, 'b, u64) mount_op" where
  "open_dir G tid path =
     let_op take_fh (\<lambda>fh.
     let_op (set_op (\<lambda>m. m\<lparr>mo_dir_handles := AList.update fh None (mo_dir_handles m)\<rparr>)) (\<lambda>_.
     let_op (get_op mo_walks) (\<lambda>walks.
     let_op (case walks of
         None \<Rightarrow> give ()
       | Some sent \<Rightarrow>
           let_op (on_client (now (me_env G))) (\<lambda>at.
             set_op (\<lambda>m. m\<lparr>mo_walks := Some (walks_opened fh tid path at sent)\<rparr>))) (\<lambda>_.
       give fh))))"

definition release_dir :: "u64 \<Rightarrow> ('w, 'i, 'd, 'b, unit) mount_op" where
  "release_dir fh =
     let_op (set_op (\<lambda>m. m\<lparr>mo_dir_handles := AList.delete fh (mo_dir_handles m)\<rparr>)) (\<lambda>_.
       set_op (\<lambda>m. m\<lparr>mo_walks := map_option (walks_closed fh) (mo_walks m)\<rparr>))"

definition fetch_snapshot ::
  "('w, 'i, 'd, 'b) mount_env \<Rightarrow> u64 \<Rightarrow> u64 \<Rightarrow> str \<Rightarrow> ('w, 'i, 'd, 'b, syno_error + snapshot) mount_op" where
  "fetch_snapshot G fh ino path =
     try_op (lister_get G path) (\<lambda>listing.
     let_op (snapshot_new G ino path listing) (\<lambda>sn.
     let_op (set_op (\<lambda>m. m\<lparr>mo_dir_handles := AList.map_entry fh (\<lambda>_. Some sn) (mo_dir_handles m)\<rparr>)) (\<lambda>_.
       give (Inr sn))))"

definition kept_snapshot :: "u64 \<Rightarrow> ('w, 'i, 'd, 'b) mount \<Rightarrow> snapshot option" where
  "kept_snapshot fh m = Option.bind (map_of (mo_dir_handles m) fh) id"

definition start_readdir ::
  "('w, 'i, 'd, 'b) mount_env \<Rightarrow> u64 \<Rightarrow> u64 \<Rightarrow> str \<Rightarrow> u64 \<Rightarrow> ('w, 'i, 'd, 'b, syno_error + snapshot) mount_op" where
  "start_readdir G fh ino path offset =
     let_op (get_op (kept_snapshot fh)) (\<lambda>kept.
     case kept of
       Some sn \<Rightarrow> if 0 < offset then give (Inr sn) else fetch_snapshot G fh ino path
     | None \<Rightarrow> fetch_snapshot G fh ino path)"

text \<open>What a \<open>readdir\<close> hands over, as far as the kernel's buffer takes it.\<close>

fun readdir_entries ::
  "('w, 'i, 'd, 'b) mount_env \<Rightarrow> (dir_entry list \<Rightarrow> dir_entry \<Rightarrow> bool) \<Rightarrow> snapshot \<Rightarrow> nat list \<Rightarrow> dir_entry list \<Rightarrow>
     ('w, 'i, 'd, 'b, dir_entry list) mount_op" where
  "readdir_entries G full sn [] taken = give taken"
| "readdir_entries G full sn (i # rest) taken =
     let_op (snapshot_entry G sn i) (\<lambda>entry. case entry of
       None \<Rightarrow> give taken
     | Some e \<Rightarrow> if full taken e then give taken else readdir_entries G full sn rest (taken @ [e]))"

definition mount_readdir ::
  "('w, 'i, 'd, 'b) mount_env \<Rightarrow> (dir_entry list \<Rightarrow> dir_entry \<Rightarrow> bool) \<Rightarrow> u64 \<Rightarrow> u64 \<Rightarrow> u64 \<Rightarrow>
     ('w, 'i, 'd, 'b, fuse_errno + dir_entry list) mount_op" where
  "mount_readdir G full ino fh offset =
     let_op (mount_path_for_ino G ino) (\<lambda>path. case path of
       None \<Rightarrow> give (Inl (Errno ENOENT))
     | Some path \<Rightarrow>
         let_op (start_readdir G fh ino path offset) (\<lambda>listed. case listed of
           Inl e \<Rightarrow> give (Inl (Errno (to_errno e)))
         | Inr sn \<Rightarrow> let_op (readdir_entries G full sn [unat offset..<snapshot_len sn] []) (\<lambda>es. give (Inr es))))"

end
