(* ===== verification/Mount_Xattr.thy ===== *)
theory Mount_Xattr
  imports Mount_Write
begin

text \<open>
  The one extended attribute of the mount, the NAS's MD5 of a file
  (\<open>synology-filestation-fuse/src/fs/xattr.rs\<close>). A waiter is the number of the request it answers;
  what is answered is the list of the requests with their answers.
\<close>

definition MD5_XATTR :: bytes where
  "MD5_XATTR = lit ''user.synology.md5''"

definition MD5_HEX_LEN :: u32 where
  "MD5_HEX_LEN = 32"

definition MAX_CONCURRENT_HASHES :: nat where
  "MAX_CONCURRENT_HASHES = 2"

datatype xattr_answer = XattrSize u32 | XattrValue bytes | XattrError fuse_errno

definition is_ascii_hexdigit :: "u8 \<Rightarrow> bool" where
  "is_ascii_hexdigit b \<longleftrightarrow> 48 \<le> b \<and> b \<le> 57 \<or> 65 \<le> b \<and> b \<le> 70 \<or> 97 \<le> b \<and> b \<le> 102"

definition is_md5_hex :: "str \<Rightarrow> bool" where
  "is_md5_hex digest \<longleftrightarrow> length digest = unat MD5_HEX_LEN \<and> list_all is_ascii_hexdigit digest"

section \<open>Answered from memory\<close>

text \<open>What is left to a task: the path, and whether its details are known.\<close>

definition getxattr_now ::
  "('w, 'i, 'd, 'b) mount_env \<Rightarrow> u64 \<Rightarrow> bytes \<Rightarrow> u32 \<Rightarrow> ('w, 'i, 'd, 'b, xattr_answer + str \<times> bool option) mount_op" where
  "getxattr_now G ino name len =
     (if name \<noteq> MD5_XATTR \<or> ino = ROOT_INO then give (Inl (XattrError ENODATA))
      else
        let_op (mount_path_for_ino G ino) (\<lambda>path. case path of
          None \<Rightarrow> give (Inl (XattrError (Errno ENOENT)))
        | Some path \<Rightarrow>
            let_op (on_cache (get_by_ino (me_inodes G) ino)) (\<lambda>entry.
            let cached_dir = map_option (\<lambda>e. fi_isdir (ie_info e)) entry in
            if cached_dir = Some True then give (Inl (XattrError ENODATA))
            else
              let_op (get_op (busy path)) (\<lambda>writing.
              if writing then give (Inl (XattrError EBUSY))
              else if len \<noteq> 0 \<and> len < MD5_HEX_LEN then give (Inl (XattrError ERANGE))
              else if len = 0 \<and> cached_dir = Some False then give (Inl (XattrSize MD5_HEX_LEN))
              else give (Inr (path, cached_dir))))))"

section \<open>The task\<close>

definition getxattr_check ::
  "('w, 'i, 'd, 'b) mount_env \<Rightarrow> str \<Rightarrow> bool option \<Rightarrow> u32 \<Rightarrow> ('w, 'i, 'd, 'b, xattr_answer option) mount_op" where
  "getxattr_check G path cached_dir len =
     let_op (if cached_dir = None then
               let_op (on_client (get_info (me_env G) path)) (\<lambda>r. give (case r of
                 Inr info \<Rightarrow> if fi_isdir info then Some (XattrError ENODATA) else None
               | Inl e \<Rightarrow> Some (XattrError (Errno (to_errno e)))))
             else give None) (\<lambda>refused.
       give (case refused of
         Some a \<Rightarrow> Some a
       | None \<Rightarrow> if len = 0 then Some (XattrSize MD5_HEX_LEN) else None))"

text \<open>Joining the hash running for a file, or leading one: whether this request leads.\<close>

definition join_hash :: "str \<Rightarrow> nat \<Rightarrow> ('w, 'i, 'd, 'b, bool) mount_op" where
  "join_hash path req m =
     (case map_of (mo_hashes m) path of
        Some waiting \<Rightarrow> (False, m\<lparr>mo_hashes := AList.update path (waiting @ [req]) (mo_hashes m)\<rparr>)
      | None \<Rightarrow> (True, m\<lparr>mo_hashes := AList.update path [req] (mo_hashes m)\<rparr>))"

definition md5_answer :: "syno_error + str \<Rightarrow> xattr_answer" where
  "md5_answer r =
     (case r of
        Inr digest \<Rightarrow> if is_md5_hex digest then XattrValue (to_ascii_lowercase digest) else XattrError (Errno EIO)
      | Inl e \<Rightarrow> XattrError (Errno (to_errno e)))"

definition lead_hash :: "('w, 'i, 'd, 'b) mount_env \<Rightarrow> str \<Rightarrow> ('w, 'i, 'd, 'b, xattr_answer) mount_run" where
  "lead_hash G path =
     permitted G HashLimit (
       let_run (total_op (get_op (busy path))) (\<lambda>writing.
       if writing then total_op (give (XattrError EBUSY))
       else
         let_run (run_client (md5 (me_env G) path)) (\<lambda>r. total_op (give (md5_answer r)))))"

definition answer_waiters :: "str \<Rightarrow> xattr_answer \<Rightarrow> ('w, 'i, 'd, 'b, (nat \<times> xattr_answer) list) mount_op" where
  "answer_waiters path answer m =
     (map (\<lambda>w. (w, answer)) (or_default [] path (mo_hashes m)), m\<lparr>mo_hashes := AList.delete path (mo_hashes m)\<rparr>)"

text \<open>The task from its start to its end, when nothing else runs meanwhile.\<close>

definition getxattr_task ::
  "('w, 'i, 'd, 'b) mount_env \<Rightarrow> nat \<Rightarrow> str \<Rightarrow> bool option \<Rightarrow> u32 \<Rightarrow> ('w, 'i, 'd, 'b, (nat \<times> xattr_answer) list) mount_run" where
  "getxattr_task G req path cached_dir len =
     let_run (total_op (getxattr_check G path cached_dir len)) (\<lambda>refused. case refused of
       Some a \<Rightarrow> total_op (give [(req, a)])
     | None \<Rightarrow>
         let_run (total_op (join_hash path req)) (\<lambda>leads.
         if \<not> leads then total_op (give [])
         else let_run (lead_hash G path) (\<lambda>answer. total_op (answer_waiters path answer))))"

definition start_getxattr ::
  "('w, 'i, 'd, 'b) mount_env \<Rightarrow> nat \<Rightarrow> u64 \<Rightarrow> bytes \<Rightarrow> u32 \<Rightarrow> ('w, 'i, 'd, 'b, (nat \<times> xattr_answer) list) mount_run" where
  "start_getxattr G req ino name len =
     let_run (total_op (getxattr_now G ino name len)) (\<lambda>r. case r of
       Inl a \<Rightarrow> total_op (give [(req, a)])
     | Inr (path, cached_dir) \<Rightarrow> getxattr_task G req path cached_dir len)"

end
