(* ===== verification/Mount_Calls.thy ===== *)
theory Mount_Calls
  imports Mount_Read Mount_Write Mount_Dirs Mount_Xattr Utf8
begin

text \<open>
  The kernel's entry points into the mount (\<open>synology-filestation-fuse/src/fs/callbacks.rs\<close>):
  each is a function from the arguments the mount reads to what is replied, an error number or a
  value. The reply of \<open>readdir\<close> is in \<open>Mount_Dirs\<close>, that of \<open>getxattr\<close> in \<open>Mount_Xattr\<close>.
\<close>

section \<open>Names and paths\<close>

text \<open>\<open>OsStr::to_str\<close>.\<close>

definition os_to_str :: "bytes \<Rightarrow> str option" where
  "os_to_str name = (if list_all fst (utf8_pieces name) then Some name else None)"

definition with_path ::
  "('w, 'i, 'd, 'b) mount_env \<Rightarrow> u64 \<Rightarrow> (str \<Rightarrow> ('w, 'i, 'd, 'b, fuse_errno + 'a) mount_run) \<Rightarrow>
     ('w, 'i, 'd, 'b, fuse_errno + 'a) mount_run" where
  "with_path G ino f =
     let_run (total_op (mount_path_for_ino G ino)) (\<lambda>path. case path of
       None \<Rightarrow> total_op (give (Inl (Errno ENOENT)))
     | Some path \<Rightarrow> f path)"

definition with_name ::
  "bytes \<Rightarrow> (str \<Rightarrow> ('w, 'i, 'd, 'b, fuse_errno + 'a) mount_run) \<Rightarrow> ('w, 'i, 'd, 'b, fuse_errno + 'a) mount_run" where
  "with_name name f = (case os_to_str name of None \<Rightarrow> total_op (give (Inl (Errno ENOENT))) | Some name \<Rightarrow> f name)"

definition child_path :: "str \<Rightarrow> str \<Rightarrow> str" where
  "child_path parent name = trim_end_slashes parent @ lit ''/'' @ name"

section \<open>Attributes\<close>

definition virtual_root_attr :: "ownership \<Rightarrow> kernel_attr" where
  "virtual_root_attr owner =
     \<lparr>fa_ino = ROOT_INO, fa_size = 0, fa_blocks = 0, fa_atime = 0, fa_mtime = 0, fa_ctime = 0, fa_crtime = 0,
      fa_kind = Directory, fa_perm = ownership_perm owner True, fa_nlink = 2, fa_uid = os_uid owner, fa_gid = os_gid owner,
      fa_rdev = 0, fa_blksize = 4096, fa_flags = 0\<rparr>"

text \<open>An inode's details, kept and shown.\<close>

definition show_attr :: "u64 \<Rightarrow> syno_file_info \<Rightarrow> ('w, 'i, 'd, 'b, kernel_attr) mount_op" where
  "show_attr ino info = let_op (get_op mo_owner) (\<lambda>owner. give (file_attr owner ino info))"

definition keep_info ::
  "('w, 'i, 'd, 'b) mount_env \<Rightarrow> u64 \<Rightarrow> syno_file_info \<Rightarrow> ('w, 'i, 'd, 'b, fuse_errno + kernel_attr) mount_op" where
  "keep_info G ino info =
     let_op (show_attr ino info) (\<lambda>attr.
     let_op (set_cache (inode_insert (me_inodes G) (me_low G) ino info)) (\<lambda>_. give (Inr attr)))"

definition mount_init :: "('w, 'i, 'd, 'b) mount_env \<Rightarrow> ('w, 'i, 'd, 'b, unit) mount_op" where
  "mount_init G =
     set_cache (seed_root (me_inodes G) (me_low G)
       \<lparr>fi_name = [], fi_path = VIRTUAL_ROOT_PATH, fi_isdir = True, fi_additional = None, fi_code = None\<rparr>)"

definition lookup_share ::
  "('w, 'i, 'd, 'b) mount_env \<Rightarrow> str \<Rightarrow> ('w, 'i, 'd, 'b, fuse_errno + kernel_attr) mount_op" where
  "lookup_share G name =
     let_op (lister_get G VIRTUAL_ROOT_PATH) (\<lambda>r. case r of
       Inl e \<Rightarrow> give (Inl (Errno (to_errno e)))
     | Inr shares \<Rightarrow>
         (case find (\<lambda>s. fi_name s = name) shares of
            Some info \<Rightarrow> let_op (on_cache (get_or_alloc_ino (me_low G) (fi_path info))) (\<lambda>ino. keep_info G ino info)
          | None \<Rightarrow> give (Inl (Errno ENOENT))))"

definition lookup_child ::
  "('w, 'i, 'd, 'b) mount_env \<Rightarrow> str \<Rightarrow> ('w, 'i, 'd, 'b, fuse_errno + kernel_attr) mount_op" where
  "lookup_child G path =
     let_op (on_cache (get_or_alloc_ino (me_low G) path)) (\<lambda>ino.
     let_op (on_cache (get_by_ino (me_inodes G) ino)) (\<lambda>entry. case entry of
       Some e \<Rightarrow> let_op (show_attr (ie_ino e) (ie_info e)) (\<lambda>attr. give (Inr attr))
     | None \<Rightarrow>
         let_op (on_client (get_info (me_env G) path)) (\<lambda>r. case r of
           Inr info \<Rightarrow> let_op (on_cache (get_or_alloc_ino (me_low G) path)) (\<lambda>ino. keep_info G ino info)
         | Inl e \<Rightarrow>
             give (Inl (Errno (if e = SynoNotFound \<or> e \<in> {ApiError 408, ApiError 414, ApiError 415} then ENOENT
                               else to_errno e))))))"

definition mount_lookup ::
  "('w, 'i, 'd, 'b) mount_env \<Rightarrow> u64 \<Rightarrow> bytes \<Rightarrow> ('w, 'i, 'd, 'b, fuse_errno + kernel_attr) mount_run" where
  "mount_lookup G parent name =
     with_name name (\<lambda>name. with_path G parent (\<lambda>parent_path.
       total_op (if parent_path = VIRTUAL_ROOT_PATH then lookup_share G name
                 else lookup_child G (child_path parent_path name))))"

definition mount_getattr ::
  "('w, 'i, 'd, 'b) mount_env \<Rightarrow> u64 \<Rightarrow> ('w, 'i, 'd, 'b, fuse_errno + kernel_attr) mount_run" where
  "mount_getattr G ino =
     (if ino = ROOT_INO then total_op (let_op (get_op mo_owner) (\<lambda>owner. give (Inr (virtual_root_attr owner))))
      else
        let_run (total_op (on_cache (get_by_ino (me_inodes G) ino))) (\<lambda>entry. case entry of
          Some e \<Rightarrow> total_op (let_op (show_attr ino (ie_info e)) (\<lambda>attr. give (Inr attr)))
        | None \<Rightarrow>
            with_path G ino (\<lambda>path.
              total_op (let_op (on_client (get_info (me_env G) path)) (\<lambda>r. case r of
                Inr info \<Rightarrow> keep_info G ino info
              | Inl e \<Rightarrow> give (Inl (Errno (to_errno e))))))))"

text \<open>Sizes and counts of the file system, none of which is asked of the NAS.\<close>

definition mount_statfs :: "u64 list" where
  "mount_statfs = [- 1 div 4096, - 1 div 4096, - 1 div 4096, - 1, - 1, 4096, 255, 4096]"

section \<open>Directories\<close>

definition mount_opendir ::
  "('w, 'i, 'd, 'b) mount_env \<Rightarrow> u32 \<Rightarrow> u64 \<Rightarrow> ('w, 'i, 'd, 'b, fuse_errno + u64 \<times> bool) mount_run" where
  "mount_opendir G tid ino =
     with_path G ino (\<lambda>path. total_op (
       let_op (open_dir G tid path) (\<lambda>fh.
       let_op (get_op (\<lambda>m. dc_enabled (mo_dir_cache m))) (\<lambda>enabled. give (Inr (fh, dir_open_flags enabled))))))"

definition mount_releasedir :: "u64 \<Rightarrow> ('w, 'i, 'd, 'b, unit) mount_op" where
  "mount_releasedir fh = release_dir fh"

section \<open>Open files\<close>

definition mount_read ::
  "('w, 'i, 'd, 'b) mount_env \<Rightarrow> u64 \<Rightarrow> u64 \<Rightarrow> u64 \<Rightarrow> u32 \<Rightarrow> ('w, 'i, 'd, 'b, fuse_errno + bytes) mount_run" where
  "mount_read G ino fh offset len =
     (if len = 0 then total_op (give (Inr []))
      else with_path G ino (\<lambda>path.
        let_run (read_range G ino path offset (ucast len)) (\<lambda>r. case r of
          Inl e \<Rightarrow> total_op (give (Inl (Errno (to_errno e))))
        | Inr data \<Rightarrow>
            let_run (total_op (mount_read_ahead G fh ino path offset (ucast len))) (\<lambda>_. total_op (give (Inr data))))))"

text \<open>The file handle, which keeps what the kernel cached of the file.\<close>

definition mount_open ::
  "('w, 'i, 'd, 'b) mount_env \<Rightarrow> u64 \<Rightarrow> 32 word \<Rightarrow> ('w, 'i, 'd, 'b, fuse_errno + u64) mount_run" where
  "mount_open G ino flags =
     with_path G ino (\<lambda>path. total_op (
       let_op take_fh (\<lambda>fh.
       let_op (prime_open G fh ino path) (\<lambda>_.
       let_op (add_write_buffer G fh path ino False (is_writable flags)) (\<lambda>_. give (Inr fh))))))"

definition mount_write ::
  "('w, 'i, 'd, 'b) mount_env \<Rightarrow> u64 \<Rightarrow> u64 \<Rightarrow> bytes \<Rightarrow> ('w, 'i, 'd, 'b, fuse_errno + u32) mount_run" where
  "mount_write G fh offset data =
     let_run (write_buffer_at G fh offset data) (\<lambda>r. total_op (give (case r of
       Inr _ \<Rightarrow> Inr (of_nat (length data))
     | Inl _ \<Rightarrow> Inl (Errno EIO))))"

definition mount_listxattr :: "u32 \<Rightarrow> xattr_answer" where
  "mount_listxattr len = (if len = 0 then XattrSize 0 else XattrValue [])"

definition mount_flush ::
  "('w, 'i, 'd, 'b) mount_env \<Rightarrow> u64 \<Rightarrow> ('w, 'i, 'd, 'b, fuse_errno + unit) mount_run" where
  "mount_flush G fh =
     let_run (transfer_upload G fh) (\<lambda>r. total_op (give (map_sum (\<lambda>e. Errno (to_errno e)) id r)))"

definition forget_handle :: "('w, 'i, 'd, 'b) mount_env \<Rightarrow> u64 \<Rightarrow> ('w, 'i, 'd, 'b, unit) mount_op" where
  "forget_handle G fh =
     let_op (get_op (\<lambda>m. map_of (mo_write_buffers m) fh)) (\<lambda>h.
     let_op (set_op (\<lambda>m. m\<lparr>mo_write_buffers := AList.delete fh (mo_write_buffers m)\<rparr>)) (\<lambda>_.
       case h of None \<Rightarrow> give () | Some h \<Rightarrow> let_go G (oh_buffer h)))"

definition mount_release ::
  "('w, 'i, 'd, 'b) mount_env \<Rightarrow> u64 \<Rightarrow> u64 \<Rightarrow> ('w, 'i, 'd, 'b, fuse_errno + unit) mount_run" where
  "mount_release G ino fh =
     let_run (total_op (end_read fh ino)) (\<lambda>_.
     let_run (transfer_upload G fh) (\<lambda>r.
     let_run (total_op (forget_handle G fh)) (\<lambda>_.
       total_op (give (map_sum (\<lambda>e. Errno (to_errno e)) id r)))))"

definition mount_create ::
  "('w, 'i, 'd, 'b) mount_env \<Rightarrow> u64 \<Rightarrow> bytes \<Rightarrow> 32 word \<Rightarrow> ('w, 'i, 'd, 'b, fuse_errno + kernel_attr \<times> u64) mount_run" where
  "mount_create G parent name flags =
     with_name name (\<lambda>name. with_path G parent (\<lambda>parent_path. total_op (
       let new_path = child_path parent_path name;
           info = \<lparr>fi_name = name, fi_path = new_path, fi_isdir = False, fi_additional = None, fi_code = None\<rparr> in
       let_op (set_dir_cache (dir_invalidate (me_listings G) (me_low G) parent_path)) (\<lambda>_.
       let_op (on_cache (get_or_alloc_ino (me_low G) new_path)) (\<lambda>ino.
       try_op (keep_info G ino info) (\<lambda>attr.
       let_op take_fh (\<lambda>fh.
       let_op (add_write_buffer G fh new_path ino True (is_writable flags)) (\<lambda>_.
         give (Inr (attr, fh))))))))))"

section \<open>Changing the tree\<close>

text \<open>The blocks of the file at a path, when it has an inode, and the inode itself.\<close>

definition forget_file :: "('w, 'i, 'd, 'b) mount_env \<Rightarrow> str \<Rightarrow> ('w, 'i, 'd, 'b, unit) mount_op" where
  "forget_file G path =
     let_op (get_op (\<lambda>m. get_ino_for_path (me_low G) path (mo_cache m))) (\<lambda>ino.
     let_op (case ino of Some ino \<Rightarrow> set_read_cache (invalidate_ino (me_blocks G) ino) | None \<Rightarrow> give ()) (\<lambda>_.
     let_op (set_cache (invalidate_path (me_inodes G) (me_low G) path)) (\<lambda>_.
       forget_parent_listing G path)))"

definition mount_unlink ::
  "('w, 'i, 'd, 'b) mount_env \<Rightarrow> u64 \<Rightarrow> bytes \<Rightarrow> ('w, 'i, 'd, 'b, fuse_errno + unit) mount_run" where
  "mount_unlink G parent name =
     with_name name (\<lambda>name. with_path G parent (\<lambda>parent_path. total_op (
       let path = child_path parent_path name in
       let_op (on_client (delete (me_env G) path)) (\<lambda>r. case r of
         Inl e \<Rightarrow> give (Inl (Errno (to_errno e)))
       | Inr _ \<Rightarrow> let_op (forget_file G path) (\<lambda>_. give (Inr ()))))))"

definition mount_rmdir ::
  "('w, 'i, 'd, 'b) mount_env \<Rightarrow> u64 \<Rightarrow> bytes \<Rightarrow> ('w, 'i, 'd, 'b, fuse_errno + unit) mount_run" where
  "mount_rmdir G parent name =
     with_name name (\<lambda>name. with_path G parent (\<lambda>parent_path. total_op (
       let path = child_path parent_path name in
       let_op (on_client (delete (me_env G) path)) (\<lambda>r. case r of
         Inl e \<Rightarrow> give (Inl (Errno (to_errno e)))
       | Inr _ \<Rightarrow>
           let_op (set_cache (inode_invalidate_prefix (me_inodes G) (me_low G) path)) (\<lambda>_.
           let_op (set_dir_cache (dir_invalidate_prefix (me_listings G) (me_low G) path)) (\<lambda>_.
           let_op (forget_parent_listing G path) (\<lambda>_. give (Inr ()))))))))"

definition mount_mkdir ::
  "('w, 'i, 'd, 'b) mount_env \<Rightarrow> u64 \<Rightarrow> bytes \<Rightarrow> ('w, 'i, 'd, 'b, fuse_errno + kernel_attr) mount_run" where
  "mount_mkdir G parent name =
     with_name name (\<lambda>name. with_path G parent (\<lambda>parent_path. total_op (
       let_op (on_client (create_folder (me_env G) parent_path name)) (\<lambda>r. case r of
         Inl e \<Rightarrow> give (Inl (Errno (to_errno e)))
       | Inr info \<Rightarrow>
           let_op (on_cache (get_or_alloc_ino (me_low G) (fi_path info))) (\<lambda>ino.
           try_op (keep_info G ino info) (\<lambda>attr.
           let_op (set_dir_cache (dir_invalidate (me_listings G) (me_low G) parent_path)) (\<lambda>_.
             give (Inr attr))))))))"

text \<open>Within a folder the destination is deleted first: the NAS does not overwrite on renaming.\<close>

definition rename_here ::
  "('w, 'i, 'd, 'b) mount_env \<Rightarrow> str \<Rightarrow> str \<Rightarrow> str \<Rightarrow> ('w, 'i, 'd, 'b, fuse_errno + unit) mount_op" where
  "rename_here G old_path new_path new_name =
     let_op (when_op (old_path \<noteq> new_path)
         (let_op (forget_file G new_path) (\<lambda>_.
          let_op (on_client (delete (me_env G) new_path)) (\<lambda>_. give ())))) (\<lambda>_.
     let_op (on_client (rename (me_env G) old_path new_name)) (\<lambda>r. case r of
       Inl e \<Rightarrow> give (Inl (Errno (to_errno e)))
     | Inr info \<Rightarrow>
         let_op (forget_file G old_path) (\<lambda>_.
         let_op (on_cache (get_or_alloc_ino (me_low G) new_path)) (\<lambda>ino.
         let_op (set_cache (inode_insert (me_inodes G) (me_low G) ino info)) (\<lambda>_. give (Inr ()))))))"

definition mount_rename ::
  "('w, 'i, 'd, 'b) mount_env \<Rightarrow> u64 \<Rightarrow> bytes \<Rightarrow> u64 \<Rightarrow> bytes \<Rightarrow> ('w, 'i, 'd, 'b, fuse_errno + unit) mount_run" where
  "mount_rename G parent name new_parent new_name =
     with_name name (\<lambda>name. with_name new_name (\<lambda>new_name.
     with_path G parent (\<lambda>parent_path. with_path G new_parent (\<lambda>new_parent_path.
       let old_path = child_path parent_path name; new_path = child_path new_parent_path new_name in
       if parent = new_parent then total_op (rename_here G old_path new_path new_name)
       else
         let_run (start_move_across_dirs G old_path new_parent_path new_name) (\<lambda>r.
           total_op (give (map_sum (\<lambda>e. Errno (to_errno e)) id r)))))))"

definition mount_setattr ::
  "('w, 'i, 'd, 'b) mount_env \<Rightarrow> u64 \<Rightarrow> u64 option \<Rightarrow> ('w, 'i, 'd, 'b, fuse_errno + kernel_attr) mount_run" where
  "mount_setattr G ino len =
     (case len of
        Some new_size \<Rightarrow>
          with_path G ino (\<lambda>path.
            let_run (start_truncate G ino path new_size (\<lambda>r. case r of
                Inr info \<Rightarrow> keep_info G ino info
              | Inl e \<Rightarrow> give (Inl (Errno (to_errno e))))) (\<lambda>r. total_op (give r)))
      | None \<Rightarrow>
          total_op (let_op (on_cache (get_by_ino (me_inodes G) ino)) (\<lambda>entry. case entry of
            Some e \<Rightarrow> let_op (show_attr ino (ie_info e)) (\<lambda>attr. give (Inr attr))
          | None \<Rightarrow> give (Inl (Errno ENOENT)))))"

section \<open>Unmounting\<close>

fun finish_uploads :: "('w, 'i, 'd, 'b) mount_env \<Rightarrow> u64 list \<Rightarrow> ('w, 'i, 'd, 'b, unit) mount_run" where
  "finish_uploads G [] = total_op (give ())"
| "finish_uploads G (fh # fhs) = let_run (transfer_upload G fh) (\<lambda>_. finish_uploads G fhs)"

definition mount_destroy :: "('w, 'i, 'd, 'b) mount_env \<Rightarrow> ('w, 'i, 'd, 'b, unit) mount_run" where
  "mount_destroy G =
     let_run (total_op (get_op (\<lambda>m. map fst (mo_write_buffers m)))) (\<lambda>fhs.
     let_run (finish_uploads G fhs) (\<lambda>_.
     let_run (total_op (on_client (logout (me_env G)))) (\<lambda>_. total_op (give ()))))"

end
