(* ===== verification/Mount_Script.thy ===== *)
theory Mount_Script
  imports Mount Download
begin

text \<open>
  A concrete mount for the witnesses: over the scripted world of \<open>Scripted\<close>, with caches that drop
  their oldest entries, temporary files on the script's disk, and no other threads.
\<close>

definition script_spill :: "script spill_files" where
  "script_spill =
     \<lparr>sf_temp_dir = Pair (lit ''/tmp''), sf_is_dir = (\<lambda>_. Pair True), sf_process_id = 1,
      sf_create_new = (\<lambda>p w. if sc_disk w p = None
        then (Inr (), w\<lparr>sc_disk := (sc_disk w)(p \<mapsto> []), sc_pos := 0\<rparr>) else (Inl [], w)),
      sf_seek = (\<lambda>p n w. (Inr (), w\<lparr>sc_pos := unat n\<rparr>)),
      sf_write_all = (\<lambda>p data w. case sc_disk w p of
          Some v \<Rightarrow> (Inr (), w\<lparr>sc_disk := (sc_disk w)(p \<mapsto> overlay (sc_pos w) data v), sc_pos := sc_pos w + length data\<rparr>)
        | None \<Rightarrow> (Inl [], w)),
      sf_set_len = (\<lambda>p n w. (Inr (), w\<lparr>sc_disk := (sc_disk w)(p := map_option (resize (unat n)) (sc_disk w p))\<rparr>)),
      sf_flush = (\<lambda>_. Pair (Inr ())),
      sf_read_to_end = (\<lambda>p w. (case sc_disk w p of Some v \<Rightarrow> Inr (drop (sc_pos w) v) | None \<Rightarrow> Inl [], w)),
      sf_metadata_len = (\<lambda>p w. (case sc_disk w p of Some v \<Rightarrow> Inr (of_nat (length v)) | None \<Rightarrow> Inl [], w)),
      sf_remove_file = (\<lambda>p w. (Inr (), w\<lparr>sc_disk := (sc_disk w)(p := None)\<rparr>))\<rparr>"

interpretation script_spill: spill_disk script_spill sc_disk "\<lambda>w _. sc_pos w"
  by unfold_locales (auto simp: script_spill_def split: if_splits option.splits)

type_synonym script_mount =
  "(script, nat \<times> (u64 \<times> inode_entry) list, nat \<times> (str \<times> syno_file_info list) list, nat \<times> (block \<times> bytes) list) mount"

definition quiet_mount_env ::
  "(script, nat \<times> (u64 \<times> inode_entry) list, nat \<times> (str \<times> syno_file_info list) list, nat \<times> (block \<times> bytes) list) mount_env" where
  "quiet_mount_env =
     \<lparr>me_env = script_env no_login no_json, me_low = to_ascii_lowercase, me_inodes = bounded_moka,
      me_listings = bounded_moka, me_blocks = bounded_moka, me_spill = script_spill,
      me_parallel = (\<lambda>w. (1, w)), me_acquire = (\<lambda>_ w. ((), w)), me_release = (\<lambda>_ w. ((), w)),
      me_others = (\<lambda>_ m. ((), m))\<rparr>"

text \<open>A mount that has just started, with read blocks of three bytes.\<close>

definition mount_over :: "script client \<Rightarrow> script_mount" where
  "mount_over c =
     mount_new c (inode_cache_new bounded_moka 30) (dir_cache_new bounded_moka 30) (read_cache_new bounded_moka 3 8)
       \<lparr>os_uid = 0, os_gid = 0, os_umask = 18\<rparr> 4 0"

text \<open>The definitions a mount is run by; the rules that evaluate one of its operations.\<close>

lemmas effect_defs =
  let_op_def try_op_def give_def get_op_def set_op_def when_op_def total_op_def let_run_def try_run_def
  on_client_def in_world_def run_client_def permitted_def on_cache_def on_dir_cache_def on_read_cache_def
  set_cache_def set_dir_cache_def set_read_cache_def Let_def

lemmas script_mount_defs =
  quiet_mount_env_def mount_over_def mount_new_def script_client_def client_new_def script_env_def
  bounded_moka_def bounded_insert_def inode_cache_new_def dir_cache_new_def read_cache_new_def
  entry_new_def with_breaker_def breaker_new_def breaker_config_default_def
  or_http_def via_write_def via_read_def breaker_allows_def answered_def on_success_def

end
