(* ===== verification/Mount_Read_Props.thy ===== *)
theory Mount_Read_Props
  imports Mount_Read Mount_Script
begin

text \<open>
  That the mount reads what is on the NAS: a range comes out as the bytes of the file, whichever of
  its blocks were cached, downloaded or waited for.
\<close>

section \<open>Blocks of a file\<close>

definition block_of :: "u64 \<Rightarrow> bytes \<Rightarrow> u64 \<Rightarrow> bytes" where
  "block_of bs file idx = take (unat bs) (drop (unat idx * unat bs) file)"

definition blocks_true ::
  "('b \<Rightarrow> block \<Rightarrow> bytes option) \<Rightarrow> ('w client \<Rightarrow> bool) \<Rightarrow> u64 \<Rightarrow> u64 \<Rightarrow> bytes \<Rightarrow>
     ('w, 'i, 'd, 'b) mount \<Rightarrow> bool" where
  "blocks_true held J bs ino file m \<longleftrightarrow>
     J (mo_client m) \<and> rc_block_size (mo_read_cache m) = bs \<and>
     (\<forall>idx v. held (rc_blocks (mo_read_cache m)) (ino, idx) = Some v \<longrightarrow> v = block_of bs file idx)"

text \<open>
  What a download of a part of the file may answer, from every state of the client that \<open>J\<close>
  describes; the client stays in such a state.
\<close>

definition serves :: "('w client \<Rightarrow> bool) \<Rightarrow> 'w env \<Rightarrow> str \<Rightarrow> bytes \<Rightarrow> bool" where
  "serves J E path file \<longleftrightarrow>
     (\<forall>c. J c \<longrightarrow> J (snd (now E c)) \<and>
       (\<forall>offset len r c'. 0 < len \<longrightarrow> download E path offset len c = (r, c') \<longrightarrow>
          J c' \<and> (\<forall>v. r = Inr v \<longrightarrow> v = take (unat len) (drop (unat offset) file))))"

lemma cut_arith:
  fixes start n b ib l :: nat
  shows "min (min (min (start + n - ib) b) (min b (l - ib)) - (start - ib)) (l - max start ib) =
    min (min (start + n) (ib + b) - max start ib) (l - max start ib)"
proof (cases "start \<le> ib")
  case True
  then show ?thesis by (cases "l \<le> ib") (simp_all add: max_def min_def)
next
  case False
  then show ?thesis by (cases "l \<le> start") (simp_all add: max_def min_def, arith?)
qed

lemma take_upto_length: "min j (length xs) = min k (length xs) \<Longrightarrow> take j xs = take k xs"
  by (metis min.commute take_all_iff take_take order_refl)

lemma part_of_block:
  fixes start n b i :: nat and blk :: bytes
  assumes "blk = take b (drop (i * b) file)"
  shows "(if start - i * b < min (min (start + n - i * b) b) (length blk)
      then take (min (min (start + n - i * b) b) (length blk) - (start - i * b)) (drop (start - i * b) blk) else []) =
    take (min (start + n) (i * b + b) - max start (i * b)) (drop (max start (i * b)) file)"
proof -
  let ?e = "min (min (start + n - i * b) b) (length blk)"
  let ?x = "drop (max start (i * b)) file"
  have pos: "i * b + (start - i * b) = max start (i * b)" by simp
  have len: "length blk = min b (length file - i * b)" using assms by simp
  have cut: "drop (start - i * b) blk = take (b - (start - i * b)) ?x"
    using assms pos by (simp add: drop_take add.commute)
  have "?e \<le> b" by simp
  then have "take (?e - (start - i * b)) (take (b - (start - i * b)) ?x) = take (?e - (start - i * b)) ?x"
    by (simp add: min_absorb1 diff_le_mono)
  moreover have "take (?e - (start - i * b)) ?x = take (min (start + n) (i * b + b) - max start (i * b)) ?x"
    by (rule take_upto_length) (simp only: len length_drop cut_arith)
  ultimately show ?thesis unfolding cut by auto
qed

lemma unat_block_part:
  assumes "unat idx * unat bs \<le> unat offset + unat n" and "unat offset + unat n < 2 ^ 64"
    and "block = block_of bs file idx"
  shows "block_part bs offset n idx block =
    take (min (unat offset + unat n) (unat idx * unat bs + unat bs) - max (unat offset) (unat idx * unat bs))
      (drop (max (unat offset) (unat idx * unat bs)) file)"
proof -
  have start: "unat (idx * bs) = unat idx * unat bs"
    using assms(1,2) by (simp add: unat_word_ariths)
  have end_: "unat (offset + n) = unat offset + unat n" using assms(2) by (simp add: unat_word_ariths)
  have sub: "unat (saturating_sub a b) = unat a - unat b" for a b
    by (auto simp: saturating_sub_def unat_sub word_le_nat_alt)
  have "length block \<le> unat bs" using assms(3) by (simp add: block_of_def)
  moreover have "unat bs < 2 ^ LENGTH(64)" by (rule unsigned_less)
  ultimately have len: "unat (of_nat (length block) :: u64) = length block"
    by (simp add: unat_of_nat)
  have least: "unat (min a b) = min (unat a) (unat b)" for a b :: u64
    by (simp add: min_def word_le_nat_alt)
  show ?thesis
    using part_of_block [of block "unat bs" "unat idx" "file" "unat offset" "unat n"] assms(3)
    unfolding block_part_def Let_def least sub start end_ len by (simp add: block_of_def)
qed

section \<open>Reading blocks\<close>

lemma wait_loop_keeps:
  assumes clock: "\<And>s. I s \<Longrightarrow> I (snd (clock s))" and nap: "\<And>d s. I s \<Longrightarrow> I (snd (nap d s))"
    and "I s" and ret: "wait_loop resolved clock nap deadline s = Some (u, s')"
  shows "I s'"
proof -
  have "clock = clock \<and> nap = nap \<longrightarrow> I s \<longrightarrow> I (snd (u, s'))"
  proof (rule wait_loop.raw_induct [where P = "\<lambda>_ clock' nap' _ s y. clock' = clock \<and> nap' = nap \<longrightarrow> I s \<longrightarrow> I (snd y)",
      OF _ ret], intro impI, elim conjE)
    fix F :: "('a \<Rightarrow> bool) \<Rightarrow> ('a \<Rightarrow> nat \<times> 'a) \<Rightarrow> (nat \<Rightarrow> 'a \<Rightarrow> unit \<times> 'a) \<Rightarrow> nat \<Rightarrow> 'a \<Rightarrow> (unit \<times> 'a) option"
      and resolved' clock' nap' deadline' s y
    assume IH: "\<And>r n sl d t y. F r n sl d t = Some y \<Longrightarrow> n = clock \<and> sl = nap \<longrightarrow> I t \<longrightarrow> I (snd y)"
      and run: "(if resolved' s then Some ((), s)
        else case clock' s of (t, s) \<Rightarrow> if deadline' - t = 0 then Some ((), s)
          else case nap' (deadline' - t) s of (_, s) \<Rightarrow> F resolved' clock' nap' deadline' s) = Some y"
      and same: "clock' = clock" "nap' = nap" and "I s"
    obtain t s1 where read: "clock s = (t, s1)" by fastforce
    obtain s2 where slept: "nap (deadline' - t) s1 = ((), s2)" by (cases "nap (deadline' - t) s1") simp
    have "I s1" using clock [OF \<open>I s\<close>] read by simp
    moreover then have "I s2" using nap [of s1 "deadline' - t"] slept by simp
    ultimately show "I (snd y)"
      using run IH [of resolved' clock nap deadline' s2 y] same \<open>I s\<close> read slept by (auto split: if_splits)
  qed
  with \<open>I s\<close> show ?thesis by simp
qed

text \<open>The cache operations on one file's true blocks.\<close>

locale mount_blocks = moka_laws "me_blocks G" held
  for G :: "('w, 'i, 'd, 'b) mount_env" and held :: "'b \<Rightarrow> block \<Rightarrow> bytes option"
begin

lemma true_resolve: "blocks_true held J bs ino file (m\<lparr>mo_read_cache := resolve i idx rc\<rparr>) \<longleftrightarrow>
    blocks_true held J bs ino file (m\<lparr>mo_read_cache := rc\<rparr>)"
  by (simp add: blocks_true_def resolve_def Let_def split: option.split)

lemma true_get:
  assumes "blocks_true held J bs ino file m" and "block_get G ino idx m = (r, m')"
  shows "blocks_true held J bs ino file m' \<and> (\<forall>v. r = Some v \<longrightarrow> v = block_of bs file idx)"
  using assms
  by (auto simp: block_get_def on_read_cache_def read_get_def blocks_true_def dest: kept_on_get got split: prod.splits)

lemma true_insert:
  assumes "blocks_true held J bs ino file m" and "v = block_of bs file idx"
  shows "blocks_true held J bs ino file (snd (block_insert G ino idx v m))"
  using assms unfolding block_insert_def set_read_cache_def on_read_cache_def read_insert_def
  by (simp add: true_resolve) (auto simp: blocks_true_def dest!: kept_on_insert split: if_splits)

lemma true_claim:
  "blocks_true held J bs ino file m \<Longrightarrow> block_claim i idx m = (r, m') \<Longrightarrow> blocks_true held J bs ino file m'"
  by (auto simp: block_claim_def on_read_cache_def claim_inflight_def blocks_true_def split: option.splits)

lemma true_cancel: "blocks_true held J bs ino file m \<Longrightarrow> blocks_true held J bs ino file (snd (block_cancel i idx m))"
  unfolding block_cancel_def set_read_cache_def on_read_cache_def cancel_inflight_def
  by (simp add: true_resolve)

lemma true_client: "blocks_true held J bs ino file m \<Longrightarrow> J (snd (f (mo_client m))) \<Longrightarrow>
    blocks_true held J bs ino file (snd (on_client f m))"
  by (cases "f (mo_client m)") (simp add: on_client_def blocks_true_def)

lemma fetch_true:
  assumes "blocks_true held J bs ino file m" and "serves J (me_env G) path file" and "0 < bs"
    and idx: "unat idx * unat bs < 2 ^ 64"
    and others: "\<And>d m. blocks_true held J bs ino file m \<Longrightarrow> blocks_true held J bs ino file (snd (me_others G d m))"
  shows "after_run (fetch_block G ino path bs idx) (\<lambda>r m'. blocks_true held J bs ino file m' \<and>
    (\<forall>v. r = Inr (Some v) \<longrightarrow> v = block_of bs file idx) \<and> (r = Inr None \<longrightarrow> block_of bs file idx = [])) m"
proof -
  let ?T = "blocks_true held J bs ino file"
  have get: "after (block_get G ino idx) (\<lambda>r m'. ?T m' \<and> (\<forall>v. r = Some v \<longrightarrow> v = block_of bs file idx)) m'"
    if "?T m'" for m' using true_get [OF that] by (intro afterI) blast
  have claim: "after (block_claim ino idx) (\<lambda>_. ?T) m'" if "?T m'" for m'
    using true_claim [OF that] by (intro afterI) blast
  have cancel: "after (block_cancel ino idx) (\<lambda>_. ?T) m'" if "?T m'" for m'
    using true_cancel [OF that, of ino idx] by (intro afterI) (metis snd_conv)
  have insert: "after (block_insert G ino idx v) (\<lambda>_. ?T) m'" if "?T m'" "v = block_of bs file idx" for m' v
    using true_insert [OF that] by (intro afterI) (metis snd_conv)
  have start: "unat (idx * bs) = unat idx * unat bs" using idx by (simp add: unat_word_ariths)
  have fetched: "after (on_client (download (me_env G) path (idx * bs) bs))
      (\<lambda>r m'. ?T m' \<and> (\<forall>v. r = Inr v \<longrightarrow> v = block_of bs file idx)) m'" if T: "?T m'" for m'
  proof (rule afterI)
    fix r m2 assume ran: "on_client (download (me_env G) path (idx * bs) bs) m' = (r, m2)"
    then obtain c where down: "download (me_env G) path (idx * bs) bs (mo_client m') = (r, c)"
        and m2: "m2 = m'\<lparr>mo_client := c\<rparr>"
      by (auto simp: on_client_def split: prod.splits)
    have J: "J (mo_client m')" using T by (simp add: blocks_true_def)
    with assms(2,3) down have "J c \<and> (\<forall>v. r = Inr v \<longrightarrow> v = take (unat bs) (drop (unat (idx * bs)) file))"
      unfolding serves_def by blast
    then show "?T m2 \<and> (\<forall>v. r = Inr v \<longrightarrow> v = block_of bs file idx)"
      using T by (simp add: m2 blocks_true_def block_of_def start)
  qed
  have clock: "?T (snd (on_client (now (me_env G)) m'))" if "?T m'" for m'
    using true_client [OF that, of "now (me_env G)"] that assms(2) by (simp add: blocks_true_def serves_def)
  have waited: "after_run (wait_for_block G ino idx t)
      (\<lambda>r m'. ?T m' \<and> (\<forall>v. r = Some v \<longrightarrow> v = block_of bs file idx)) m'" if T: "?T m'" for m' t
  proof (cases "map_of (rc_in_flight (mo_read_cache m')) (ino, idx)")
    case None
    then show ?thesis using get [OF T] by (simp add: wait_for_block_def after_simps)
  next
    case (Some slot)
    obtain t0 m1 where read: "on_client (now (me_env G)) m' = (t0, m1)" by fastforce
    have T1: "?T m1" using clock [OF T] read by simp
    have loop: "after_run (wait_loop (\<lambda>m. slot \<in> set (rc_resolved (mo_read_cache m)))
        (on_client (now (me_env G))) (me_others G) (t0 + t)) (\<lambda>_. ?T) m1"
      unfolding after_run_def
    proof (intro allI impI)
      fix u m2
      assume "wait_loop (\<lambda>m. slot \<in> set (rc_resolved (mo_read_cache m))) (on_client (now (me_env G)))
        (me_others G) (t0 + t) m1 = Some (u, m2)"
      then show "?T m2"
        by (rule wait_loop_keeps [rotated 3]) (use clock others T1 in blast)+
    qed
    show ?thesis
      unfolding wait_for_block_def after_run_let after_run_total after_get Some option.case Let_def
        after_ran [of "on_client (now (me_env G))" m', OF read]
      by (rule after_run_mono [OF loop]) (rule get)
  qed
  show ?thesis
    unfolding fetch_block_def
    by (auto simp: after_simps split: option.split sum.split
      intro!: after_mono [OF get [OF assms(1)]] after_mono [OF claim] after_mono [OF fetched]
        after_mono [OF insert] after_mono [OF cancel] after_run_mono [OF waited])
qed

lemma range_true:
  assumes "serves J (me_env G) path file" and "0 < bs"
    and others: "\<And>d m. blocks_true held J bs ino file m \<Longrightarrow> blocks_true held J bs ino file (snd (me_others G d m))"
    and nat: "o' = unat offset" "n = unat len" "b = unat bs" and "o' + n < 2 ^ 64"
    and "o' + n \<le> j * b" and below: "\<And>k. k < j \<Longrightarrow> k * b < o' + n"
    and "i \<le> j" and "o' < i * b + b"
    and "blocks_true held J bs ino file m" and "result = take (min (o' + n) (i * b) - o') (drop o' file)"
  shows "after_run (range_blocks G ino path bs offset len (map of_nat [i..<j]) result)
    (\<lambda>r m'. blocks_true held J bs ino file m' \<and> (\<forall>data. r = Inr data \<longrightarrow> data = take n (drop o' file))) m"
  using assms(10-)
proof (induction "j - i" arbitrary: i m result)
  case 0
  then have "min (o' + n) (i * b) - o' = n" using assms(8) by simp
  with 0 show ?case by (simp add: after_simps)
next
  case (Suc d)
  then have "i < j" by simp
  then have list: "[i..<j] = i # [Suc i..<j]" by (rule upt_conv_Cons)
  have ib: "i * b < o' + n" using below [OF \<open>i < j\<close>] .
  have "0 < b" using assms(2) nat(3) by (simp add: word_less_nat_alt)
  then have "i \<le> i * b" by simp
  then have "i < 2 ^ 64" using ib assms(7) by linarith
  then have i: "unat (of_nat i :: u64) = i" by (simp add: unat_of_nat)
  have step: "result @ block_part bs offset len (of_nat i) (block_of bs file (of_nat i)) =
      take (min (o' + n) (Suc i * b) - o') (drop o' file)"
  proof -
    have part: "block_part bs offset len (of_nat i) (block_of bs file (of_nat i)) =
        take (min (o' + n) (i * b + b) - max o' (i * b)) (drop (max o' (i * b)) file)"
      using unat_block_part [of "of_nat i" bs offset len "block_of bs file (of_nat i)" "file"] ib assms(7)
      by (simp add: i nat)
    have "drop (max o' (i * b)) file = drop (i * b - o') (drop o' file)" by (simp add: max_def)
    moreover have "min (o' + n) (i * b) - o' = i * b - o'" using ib by simp
    moreover have "i * b - o' + (min (o' + n) (i * b + b) - max o' (i * b)) = min (o' + n) (Suc i * b) - o'"
      using ib Suc.prems(2) by (auto simp: min_def max_def)
    ultimately show ?thesis unfolding part Suc.prems(4) by (metis take_add)
  qed
  have ended: "take (min (o' + n) (k * b) - o') (drop o' file) = take n (drop o' file)" if "length file \<le> k * b" for k
    by (rule take_upto_length) (use that in auto)
  have short: "length file \<le> Suc i * b" if "length (block_of bs file (of_nat i)) < b"
    using that by (auto simp: block_of_def i nat(3))
  have fetch: "after_run (fetch_block G ino path bs (of_nat i)) (\<lambda>r m'. blocks_true held J bs ino file m' \<and>
      (\<forall>v. r = Inr (Some v) \<longrightarrow> v = block_of bs file (of_nat i)) \<and>
      (r = Inr None \<longrightarrow> block_of bs file (of_nat i) = [])) m"
    by (rule fetch_true [OF Suc.prems(3) assms(1,2) _ others]) (use ib assms(7) i nat(3) in simp_all)
  show ?case
    unfolding list list.map range_blocks.simps after_run_try
  proof (rule after_run_mono [OF fetch], intro conjI allI impI)
    fix r m' e assume "r = Inl e" "blocks_true held J bs ino file m' \<and>
      (\<forall>v. r = Inr (Some v) \<longrightarrow> v = block_of bs file (of_nat i)) \<and> (r = Inr None \<longrightarrow> block_of bs file (of_nat i) = [])"
    then show "blocks_true held J bs ino file m'" by simp
  next
    fix r m' and e :: syno_error and data assume "(Inl e :: syno_error + bytes) = Inr data"
    then show "data = take n (drop o' file)" by simp
  next
    fix r got and m' :: "('w, 'i, 'd, 'b) mount" assume r: "r = Inr got" and post: "blocks_true held J bs ino file m' \<and>
      (\<forall>v. r = Inr (Some v) \<longrightarrow> v = block_of bs file (of_nat i)) \<and> (r = Inr None \<longrightarrow> block_of bs file (of_nat i) = [])"
    show "after_run (case got of None \<Rightarrow> total_op (give (Inr result))
        | Some block \<Rightarrow> let result = result @ block_part bs offset len (of_nat i) block in
            if length block < unat bs then total_op (give (Inr result))
            else range_blocks G ino path bs offset len (map of_nat [Suc i..<j]) result)
      (\<lambda>r m'. blocks_true held J bs ino file m' \<and> (\<forall>data. r = Inr data \<longrightarrow> data = take n (drop o' file))) m'"
    proof (cases got)
      case None
      then have "block_of bs file (of_nat i) = []" using r post by simp
      then have "length file \<le> i * b" using \<open>0 < b\<close> by (simp add: block_of_def i nat(3))
      then show ?thesis using None post ended [of i] Suc.prems(4) by (simp add: after_simps)
    next
      case (Some block)
      then have block: "block = block_of bs file (of_nat i)" using r post by simp
      show ?thesis
      proof (cases "length block < b")
        case True
        then show ?thesis
          using Some block post ended [OF short] step nat(3) by (simp add: after_simps Let_def)
      next
        case False
        have "after_run (range_blocks G ino path bs offset len (map of_nat [Suc i..<j])
            (result @ block_part bs offset len (of_nat i) block))
          (\<lambda>r m'. blocks_true held J bs ino file m' \<and> (\<forall>data. r = Inr data \<longrightarrow> data = take n (drop o' file))) m'"
          by (rule Suc.hyps) (use Suc.hyps(2) \<open>i < j\<close> post Suc.prems(2) step block in simp_all)
        then show ?thesis using Some False nat(3) by (simp add: Let_def)
      qed
    qed
  qed
qed

end

text \<open>
  C26. Reading a range through the mount: when the cached blocks of a file are the file's, the NAS
  answers with its bytes and the threads that run while a reader waits publish nothing else, a read
  that succeeds is exactly the range, cut off at the end of the file, whichever of its blocks were
  cached, downloaded here or waited for; and the cache is still true.
\<close>

theorem read_returns_the_file:
  assumes "moka_laws (me_blocks G) held" and "serves J (me_env G) path content"
    and "blocks_true held J bs ino content m" and "0 < bs"
    and "\<And>d m. blocks_true held J bs ino content m \<Longrightarrow> blocks_true held J bs ino content (snd (me_others G d m))"
    and "0 < len" and "unat offset + unat len < 2 ^ 64"
    and "read_range G ino path offset len m = Some (r, m')"
  shows "blocks_true held J bs ino content m' \<and>
    (\<forall>data. r = Inr data \<longrightarrow> data = take (unat len) (drop (unat offset) content))"
proof -
  have blocks: "mount_blocks G held" using assms(1) by (rule mount_blocks.intro)
  let ?o = "unat offset" and ?n = "unat len" and ?b = "unat bs"
  let ?i = "?o div ?b" and ?j = "(?o + ?n - 1) div ?b + 1"
  have pos: "0 < ?b" "0 < ?n" using assms(4,6) by (simp_all add: word_less_nat_alt)
  have size: "rc_block_size (mo_read_cache m) = bs" using assms(3) by (simp add: blocks_true_def)
  have i: "unat (offset div bs) = ?i" by (rule unat_div)
  have "unat (offset + len - 1) = ?o + ?n - 1"
    using assms(7) pos(2) by (simp add: unat_word_ariths unat_sub word_le_nat_alt)
  then have j: "unat ((offset + len - 1) div bs) + 1 = ?j" by (simp add: unat_div)
  have ran: "range_blocks G ino path bs offset len (map of_nat [?i..<?j]) [] m = Some (r, m')"
    using assms(8) 
    by (simp add: read_range_def Let_def get_op_def size i j [simplified] del: upt_Suc)
  have "after_run (range_blocks G ino path bs offset len (map of_nat [?i..<?j]) [])
      (\<lambda>r m'. blocks_true held J bs ino content m' \<and>
        (\<forall>data. r = Inr data \<longrightarrow> data = take ?n (drop ?o content))) m"
  proof (rule mount_blocks.range_true [OF blocks assms(2,4,5) refl refl refl assms(7)])
    have "(?o + ?n - 1) mod ?b < ?b" using pos(1) by simp
    moreover have "?j * ?b = (?o + ?n - 1) div ?b * ?b + ?b" by (simp only: add_mult_distrib mult_1)
    ultimately show "?o + ?n \<le> ?j * ?b" using div_mult_mod_eq [of "?o + ?n - 1" ?b] by linarith
    show "k * ?b < ?o + ?n" if "k < ?j" for k
    proof -
      have "k * ?b \<le> (?o + ?n - 1) div ?b * ?b" using that by simp
      also have "\<dots> \<le> ?o + ?n - 1" by (rule div_times_less_eq_dividend)
      finally show ?thesis using pos(2) by simp
    qed
    show "?i \<le> ?j" using pos(2) by (simp add: div_le_mono le_SucI)
    show "?o < ?i * ?b + ?b" using pos(1) div_mult_mod_eq [of ?o ?b] mod_less_divisor [OF pos(1), of ?o] by linarith
    show "[] = take (min (?o + ?n) (?i * ?b) - ?o) (drop ?o content)"
      using div_times_less_eq_dividend [of ?o ?b] by (simp add: min.coboundedI2)
  qed (simp_all add: assms(3))
  then show ?thesis using ran by (simp add: after_run_def)
qed

text \<open>A mount whose client reads through a backend that has the file, with one block cached.\<close>

definition reading_backend :: "bytes \<Rightarrow> script read_transport" where
  "reading_backend content = \<lparr>rt_read = (\<lambda>_ offset len. give (Inr (take (unat len) (drop (unat offset) content))))\<rparr>"

definition read_by_backend :: "bytes \<Rightarrow> script client \<Rightarrow> bool" where
  "read_by_backend content c \<longleftrightarrow>
     (case cl_read_transports c of
        [e] \<Rightarrow> te_transport e = reading_backend content \<and> bk_state (te_breaker e) = BreakerClosed
      | _ \<Rightarrow> False)"

lemma backend_serves: "serves (read_by_backend content) (script_env auth J) path content"
  by (auto simp: serves_def read_by_backend_def now_def in_world_def script_env_def download_def or_http_def
      via_read_def let_op_def reading_backend_def give_def breaker_allows_def Let_def
      split: list.splits)

definition reading_mount :: script_mount where
  "reading_mount =
     (let m = mount_over ((script_client [])\<lparr>cl_read_transports := [entry_new (reading_backend [1, 2, 3, 4, 5, 6, 7])]\<rparr>)
      in m\<lparr>mo_read_cache := read_insert bounded_moka 2 1 [4, 5, 6] (mo_read_cache m)\<rparr>)"

theorem read_returns_the_file_witness:
  "\<exists>m'. read_range quiet_mount_env 2 [47, 97] 1 5 reading_mount = Some (Inr [2, 3, 4, 5, 6], m') \<and>
     [2, 3, 4, 5, 6] = take 5 (drop 1 ([1, 2, 3, 4, 5, 6, 7] :: bytes))"
proof -
  let ?held = "\<lambda>m. map_of (snd m)"
  let ?content = "[1, 2, 3, 4, 5, 6, 7] :: bytes"
  have start: "blocks_true ?held (read_by_backend ?content) 3 2 ?content reading_mount"
    by (auto simp: blocks_true_def reading_mount_def mount_over_def mount_new_def read_by_backend_def entry_new_def
        with_breaker_def breaker_new_def read_insert_def read_cache_new_def resolve_def or_default_def
        bounded_moka_def bounded_insert_def block_of_def Let_def split: if_splits)
  have "map_option fst (read_range quiet_mount_env 2 [47, 97] 1 5 reading_mount) = Some (Inr [2, 3, 4, 5, 6])"
    by (simp add: read_range_def quiet_mount_env_def reading_mount_def mount_over_def mount_new_def entry_new_def with_breaker_def
        breaker_new_def read_insert_def read_cache_new_def resolve_def or_default_def bounded_moka_def
        bounded_insert_def Let_def get_op_def upt_rec try_run_def let_run_def total_op_def fetch_block_def
        block_get_def block_claim_def block_insert_def set_read_cache_def on_read_cache_def read_get_def
        claim_inflight_def on_client_def script_env_def download_def or_http_def via_read_def let_op_def
        reading_backend_def give_def breaker_allows_def block_part_def saturating_sub_def script_client_def
        client_new_def word_le_nat_alt)
  then obtain m' where run: "read_range quiet_mount_env 2 [47, 97] 1 5 reading_mount = Some (Inr [2, 3, 4, 5, 6], m')"
    by auto
  have "[2, 3, 4, 5, 6] = take (unat (5 :: u64)) (drop (unat (1 :: u64)) ?content)"
    using read_returns_the_file [of quiet_mount_env ?held "read_by_backend ?content" "[47, 97]" ?content 3 2
        reading_mount 5 1 "Inr [2, 3, 4, 5, 6]" m'] run start bounded.moka_laws_axioms backend_serves
    by (simp add: quiet_mount_env_def)
  then show ?thesis using run by auto
qed

end
