(* ===== verification/Mount_Write_Props.thy ===== *)
theory Mount_Write_Props
  imports Mount_Write Mount_Read_Props
begin

text \<open>
  What happens to what is written: a file that was buffered is uploaded as it was written, a failure
  is reported and not forgotten, and a registered rewrite is always taken back.
\<close>

section \<open>An open file in its buffer\<close>

definition opened ::
  "('w \<Rightarrow> str \<Rightarrow> bytes option) \<Rightarrow> u64 \<Rightarrow> nat \<Rightarrow> str \<Rightarrow> bool \<Rightarrow> bool \<Rightarrow> bytes \<Rightarrow> ('w, 'i, 'd, 'b) mount \<Rightarrow> bool" where
  "opened content fh b path new dirty v m \<longleftrightarrow>
     map_of (mo_write_buffers m) fh = Some \<lparr>oh_path = path, oh_buffer = b\<rparr> \<and>
     (\<exists>s sp. map_of (mo_buffers m) b = Some s \<and> \<not> sb_locked s \<and> sb_holders s \<ge> 1 \<and>
        wb_nas_path (sb_buffer s) = path \<and> wb_new_file (sb_buffer s) = new \<and> wb_dirty (sb_buffer s) = dirty \<and>
        \<not> wb_broken (sb_buffer s) \<and> wb_sink (sb_buffer s) = BufferedSink sp \<and>
        stored content (sp, cl_world (mo_client m)) = Some v)"

lemma after_change_buffer [after_simps]:
  "after (change_buffer b f) Q m \<longleftrightarrow> Q () (m\<lparr>mo_buffers := AList.map_entry b f (mo_buffers m)\<rparr>)"
  by (simp add: change_buffer_def after_set)

lemma after_set_buffer [after_simps]:
  "after (set_buffer b f) Q m \<longleftrightarrow>
     Q () (m\<lparr>mo_buffers := AList.map_entry b (\<lambda>s. s\<lparr>sb_buffer := f (sb_buffer s)\<rparr>) (mo_buffers m)\<rparr>)"
  by (simp add: set_buffer_def after_change_buffer)

lemma after_on_client [after_simps]:
  "after (on_client f) Q m \<longleftrightarrow> after f (\<lambda>a c. Q a (m\<lparr>mo_client := c\<rparr>)) (mo_client m)"
  by (simp add: after_def on_client_def split: prod.splits)

lemma after_world_op [after_simps]:
  "after (in_world f) Q c \<longleftrightarrow> after f (\<lambda>a w. Q a (c\<lparr>cl_world := w\<rparr>)) (cl_world c)"
  by (simp add: after_def in_world_def split: prod.splits)

lemma after_on_spill [after_simps]:
  "after (on_spill b sp f) Q m \<longleftrightarrow>
     after f (\<lambda>r (sp, w). Q r (m\<lparr>mo_client := (mo_client m)\<lparr>cl_world := w\<rparr>,
       mo_buffers := AList.map_entry b (\<lambda>s. s\<lparr>sb_buffer := (sb_buffer s)\<lparr>wb_sink := BufferedSink sp\<rparr>\<rparr>) (mo_buffers m)\<rparr>))
       (sp, cl_world (mo_client m))"
  by (simp add: after_def on_spill_def let_op_def on_client_def in_world_def set_buffer_def change_buffer_def
      set_op_def give_def split: prod.splits)

lemma after_caches [after_simps]:
  "after (set_cache f) Q m \<longleftrightarrow> Q () (m\<lparr>mo_cache := f (mo_cache m)\<rparr>)"
  "after (set_dir_cache g) Q m \<longleftrightarrow> Q () (m\<lparr>mo_dir_cache := g (mo_dir_cache m)\<rparr>)"
  "after (set_read_cache h) Q m \<longleftrightarrow> Q () (m\<lparr>mo_read_cache := h (mo_read_cache m)\<rparr>)"
  by (simp_all add: after_def set_cache_def on_cache_def set_dir_cache_def on_dir_cache_def set_read_cache_def
      on_read_cache_def)

lemma after_trivial [simp]: "after p (\<lambda>a s. True) m"
  by (simp add: after_def split: prod.split)

lemma not_awaited: "\<not> taken s \<Longrightarrow> await_lock taken others s = Some ((), s)"
  by (subst await_lock.simps) simp

lemma after_funs:
  "after_run (let_run p f) Q = after_run p (\<lambda>a. after_run (f a) Q)"
  "after_run (total_op q) R = after q R"
  "after (let_op q g) T = after q (\<lambda>a. after (g a) T)"
  "after (give d) U = U d"
  by (auto simp: fun_eq_iff after_simps)

lemma after_with_buffer:
  assumes "map_of (mo_buffers m) b = Some s" and "\<not> sb_locked s"
  shows "after_run (with_buffer G b run) Q m \<longleftrightarrow>
    after_run (run (sb_buffer s)) (\<lambda>a. after (change_buffer b (\<lambda>s. s\<lparr>sb_locked := False\<rparr>)) (\<lambda>_. Q a))
      (m\<lparr>mo_buffers := AList.map_entry b (\<lambda>s. s\<lparr>sb_locked := True\<rparr>) (mo_buffers m)\<rparr>)"
proof -
  have "with_buffer G b run m =
      let_run (run (sb_buffer s)) (\<lambda>a. let_run (total_op (change_buffer b (\<lambda>s. s\<lparr>sb_locked := False\<rparr>))) (\<lambda>_. total_op (give a)))
        (m\<lparr>mo_buffers := AList.map_entry b (\<lambda>s. s\<lparr>sb_locked := True\<rparr>) (mo_buffers m)\<rparr>)"
    using assms by (simp add: with_buffer_def let_run_def not_awaited locked_def total_op_def change_buffer_def
        set_op_def get_op_def map_of_map_entry)
  then have "after_run (with_buffer G b run) Q m \<longleftrightarrow>
      after_run (let_run (run (sb_buffer s)) (\<lambda>a. let_run (total_op (change_buffer b (\<lambda>s. s\<lparr>sb_locked := False\<rparr>))) (\<lambda>_. total_op (give a)))) Q
        (m\<lparr>mo_buffers := AList.map_entry b (\<lambda>s. s\<lparr>sb_locked := True\<rparr>) (mo_buffers m)\<rparr>)"
    by (simp add: after_run_def)
  then show ?thesis by (simp add: after_funs after_give)
qed

lemma write_keeps_opened:
  assumes "spill_disk (me_spill G) content pos" and "opened content fh b path new dirty v m"
  shows "after_run (write_buffer_at G fh offset data)
    (\<lambda>r m'. r = Inr () \<longrightarrow> opened content fh b path new True (put_at v (offset, data)) m') m"
proof -
  obtain s sp where handle: "map_of (mo_write_buffers m) fh = Some \<lparr>oh_path = path, oh_buffer = b\<rparr>"
    and s: "map_of (mo_buffers m) b = Some s" "\<not> sb_locked s" "sb_holders s \<ge> 1"
      "wb_nas_path (sb_buffer s) = path" "wb_new_file (sb_buffer s) = new" "\<not> wb_broken (sb_buffer s)"
      "wb_sink (sb_buffer s) = BufferedSink sp" "stored content (sp, cl_world (mo_client m)) = Some v"
    using assms(2) unfolding opened_def by blast
  let ?m = "m\<lparr>mo_buffers := AList.map_entry b (\<lambda>s. s\<lparr>sb_holders := sb_holders s + 1\<rparr>) (mo_buffers m)\<rparr>"
  let ?s = "s\<lparr>sb_holders := sb_holders s + 1\<rparr>"
  have held: "map_of (mo_buffers ?m) b = Some ?s" using s(1) by (simp add: map_of_map_entry)
  have free: "\<not> sb_locked ?s" using s(2) by simp
  have wrote: "after (spill_write_at (me_spill G) offset data)
      (\<lambda>r s'. (r = Inr () \<longrightarrow> stored content s' = Some (overlay (unat offset) data v)))
      (sp, cl_world (mo_client m))"
    using spill_disk.write_stored [OF assms(1) s(8)] by (rule after_mono) blast
  show ?thesis
    unfolding write_buffer_at_def buffer_of_def
    using handle s(3-7)
    apply (simp add: after_simps after_funs after_with_buffer [OF held free, simplified] write_to_def write_buffered_def)
    apply (rule after_mono [OF wrote])
    apply (auto simp: after_simps opened_def map_of_map_entry let_go_def put_at_def s split: sum.splits)
    done
qed

text \<open>The upload of the buffer was this one, and it went well.\<close>

definition sent_whole ::
  "('w, 'i, 'd, 'b) mount_env \<Rightarrow> ('w \<Rightarrow> str \<Rightarrow> bytes option) \<Rightarrow> str \<Rightarrow> bool \<Rightarrow> bytes \<Rightarrow> ('w, 'i, 'd, 'b) mount \<Rightarrow> bool" where
  "sent_whole G content path overwrite v m' \<longleftrightarrow>
     (\<exists>parent filename p c c'. split_nas_path path = Some (parent, filename) \<and>
        payload_bytes content (cl_world c) p = Some v \<and>
        upload_payload (me_env G) parent filename p overwrite c = Some (Inr (), c') \<and>
        mo_client m' = snd (in_world (me_release G TransferLimit) c'))"

lemma sent_whole_client: "mo_client m = mo_client m' \<Longrightarrow> sent_whole G content path over v m = sent_whole G content path over v m'"
  by (simp add: sent_whole_def)

lemma after_run_client [after_simps]:
  "after_run (run_client f) Q m \<longleftrightarrow> after_run f (\<lambda>a c. Q a (m\<lparr>mo_client := c\<rparr>)) (mo_client m)"
  by (auto simp: after_run_def run_client_def)

lemma sends_payload:
  assumes "\<And>w. content (snd (me_acquire G TransferLimit w)) = content w"
    and "payload_bytes content (cl_world (mo_client m)) p = Some v"
  shows "after_run (send_payload_of G path overwrite p) (\<lambda>r m'. mo_write_buffers m' = mo_write_buffers m \<and>
    mo_buffers m' = mo_buffers m \<and> (r = Inr () \<longrightarrow> sent_whole G content path overwrite v m')) m"
proof (cases "split_nas_path path")
  case None
  then show ?thesis by (simp add: send_payload_of_def after_simps)
next
  case (Some split)
  obtain parent filename where split: "split = (parent, filename)" by fastforce
  obtain w where w: "me_acquire G TransferLimit (cl_world (mo_client m)) = ((), w)"
    by (cases "me_acquire G TransferLimit (cl_world (mo_client m))") simp
  let ?c = "(mo_client m)\<lparr>cl_world := w\<rparr>"
  have "content w = content (cl_world (mo_client m))" using assms(1) [of "cl_world (mo_client m)"] w by simp
  then have "payload_bytes content (cl_world ?c) p = Some v"
    using assms(2) by (simp add: payload_bytes_def cong: payload.case_cong)
  moreover have "in_world (me_acquire G TransferLimit) (mo_client m) = ((), ?c)" by (simp add: in_world_def w)
  ultimately show ?thesis
    unfolding send_payload_of_def Some split permitted_def sent_whole_def
    by (auto simp: after_simps after_funs after_def on_client_def after_run_def run_client_def split: prod.splits)
      (rule exI [of _ p], rule exI [of _ ?c], force)
qed

lemma upload_sends_opened:
  assumes "spill_disk (me_spill G) content pos" and "opened content fh b path new True v m"
    and "\<And>w. content (snd (me_acquire G TransferLimit w)) = content w"
  shows "after_run (transfer_upload G fh) (\<lambda>r m'. r = Inr () \<longrightarrow> sent_whole G content path (\<not> new) v m') m"
proof -
  obtain s sp where handle: "map_of (mo_write_buffers m) fh = Some \<lparr>oh_path = path, oh_buffer = b\<rparr>"
    and s: "map_of (mo_buffers m) b = Some s" "\<not> sb_locked s" "sb_holders s \<ge> 1"
      "wb_nas_path (sb_buffer s) = path" "wb_new_file (sb_buffer s) = new" "\<not> wb_broken (sb_buffer s)"
      "wb_sink (sb_buffer s) = BufferedSink sp" "stored content (sp, cl_world (mo_client m)) = Some v"
      "wb_dirty (sb_buffer s)"
    using assms(2) unfolding opened_def by blast
  let ?m = "m\<lparr>mo_buffers := AList.map_entry b (\<lambda>s. s\<lparr>sb_holders := sb_holders s + 1\<rparr>) (mo_buffers m)\<rparr>"
  let ?s = "s\<lparr>sb_holders := sb_holders s + 1\<rparr>"
  have held: "map_of (mo_buffers ?m) b = Some ?s" using s(1) by (simp add: map_of_map_entry)
  have free: "\<not> sb_locked ?s" using s(2) by simp
  have paid: "after (payload_for (me_spill G)) (\<lambda>r s'. \<forall>p. r = Inr p \<longrightarrow> payload_bytes content (snd s') p = Some v)
      (sp, cl_world (mo_client m))"
    using spill_disk.payload_stored [OF assms(1) s(8)] by (rule after_mono) blast
  show ?thesis
    unfolding transfer_upload_def buffer_of_def
    using handle s(3-)
    apply (simp add: after_simps after_funs after_with_buffer [OF held free, simplified] upload_locked_def
        finish_buffered_def)
    apply (rule after_mono [OF paid])
    apply (auto simp: after_simps split: sum.splits)
     apply (rule after_run_mono [OF sends_payload [where content = content and v = v]], simp add: assms(3), simp,
        auto simp: after_simps s(1) let_go_def forget_parent_listing_def map_of_map_entry cong: sent_whole_client)+
    done
qed

text \<open>Writing several times; the first failure ends it.\<close>

fun writes_at ::
  "('w, 'i, 'd, 'b) mount_env \<Rightarrow> u64 \<Rightarrow> (u64 \<times> bytes) list \<Rightarrow> ('w, 'i, 'd, 'b, syno_error + unit) mount_run" where
  "writes_at G fh [] = total_op (give (Inr ()))"
| "writes_at G fh ((offset, data) # ws) = try_run (write_buffer_at G fh offset data) (\<lambda>_. writes_at G fh ws)"

lemma writes_keep_opened:
  assumes "spill_disk (me_spill G) content pos"
  shows "opened content fh b path new dirty v m \<Longrightarrow>
    after_run (writes_at G fh ws) (\<lambda>r m'. r = Inr () \<longrightarrow>
      opened content fh b path new (dirty \<or> ws \<noteq> []) (foldl put_at v ws) m') m"
proof (induction ws arbitrary: m v dirty)
  case (Cons w ws)
  obtain offset data where w: "w = (offset, data)" by fastforce
  show ?case
    unfolding w writes_at.simps after_run_try
    by (rule after_run_mono [OF write_keeps_opened [OF assms Cons.prems]])
      (use Cons.IH in fastforce)
qed (simp add: after_simps)

lemma add_opens:
  assumes "map_of (mo_write_buffers m) fh = None"
    and "\<And>stream. fst (client_open_write (me_env G) path Existing (mo_client m)) \<noteq> Inr (Some stream)"
  shows "after (add_write_buffer G fh path ino new True)
    (\<lambda>_ m'. opened content fh (mo_next_buffer m) path new new [] m') m"
proof -
  obtain r c where open_write: "client_open_write (me_env G) path Existing (mo_client m) = (r, c)" by fastforce
  have sp: "after (spill_buffer_new (me_spill G) seq) (\<lambda>(sp, _) w. stored content (sp, w) = Some []) w" for seq w
    by (simp add: spill_buffer_new_def with_spill_at_def after_simps)
      (auto simp: after_def stored_def with_spill_at_in_def give_def split: prod.splits)
  have buffered: "after (new_spill G) (\<lambda>sp m'. mo_write_buffers m' = mo_write_buffers m \<and>
      mo_next_buffer m' = mo_next_buffer m \<and> stored content (sp, cl_world (mo_client m')) = Some []) (m\<lparr>mo_client := c\<rparr>)"
    unfolding new_spill_def after_funs after_get after_on_client after_world_op
    by (rule after_mono [OF sp]) (auto simp: after_simps)
  have "after (open_sink G path) (\<lambda>sink m'. (\<exists>sp. sink = BufferedSink sp \<and>
      stored content (sp, cl_world (mo_client m')) = Some []) \<and> mo_write_buffers m' = mo_write_buffers m \<and>
      mo_next_buffer m' = mo_next_buffer m) m"
    using assms(2) buffered unfolding open_sink_def after_let after_on_client
    by (auto simp: open_write after_def let_op_def give_def split: sum.splits option.splits prod.splits)
  then show ?thesis
    unfolding add_write_buffer_def if_True after_let
    by (rule after_mono) (auto simp: after_simps opened_def open_handle_new_def assms(1) after_def Let_def get_op_def
      set_op_def let_op_def update_conv' give_def)
qed

section \<open>Closing reports what became of the data\<close>

text \<open>
  C6. From open to close: a file opened for writing that no backend streams, written to any number
  of times and closed, is uploaded, and a close that reports success means that the one upload of
  it succeeded, under the file's own name, with exactly the bytes written, each where it was
  written (also when the buffer had moved to a local file), and replacing a file only if the handle
  did not create it.
\<close>

theorem close_uploads_what_was_written:
  assumes "spill_disk (me_spill G) content pos"
    and "\<And>w. content (snd (me_acquire G TransferLimit w)) = content w"
    and "\<And>stream. fst (client_open_write (me_env G) path Existing (mo_client m)) \<noteq> Inr (Some stream)"
    and "map_of (mo_write_buffers m) fh = None" and "new \<or> ws \<noteq> []"
    and "writes_at G fh ws (snd (add_write_buffer G fh path ino new True m)) = Some (Inr (), m1)"
    and "transfer_upload G fh m1 = Some (Inr (), m2)"
  shows "sent_whole G content path (\<not> new) (foldl put_at [] ws) m2"
proof -
  let ?b = "mo_next_buffer m"
  have "opened content fh ?b path new new [] (snd (add_write_buffer G fh path ino new True m))"
    using afterD [OF add_opens [OF assms(4,3)]] by (metis prod.collapse)
  from writes_keep_opened [OF assms(1) this, of ws]
  have "opened content fh ?b path new True (foldl put_at [] ws) m1"
    using assms(5,6) by (simp add: after_run_def)
  from upload_sends_opened [OF assms(1) this assms(2)] show ?thesis
    using assms(7) by (simp add: after_run_def)
qed

text \<open>An existing file rewritten through a backend that takes whole files.\<close>

lemmas mount_write_defs =
  add_write_buffer_def open_sink_def client_open_write_def new_spill_def spill_buffer_new_def with_spill_at_def
  spill_dir_def usable_or_fallback_def with_spill_at_in_def DEFAULT_SPILL_AT_def open_handle_new_def
  write_buffer_at_def buffer_of_def change_buffer_def with_buffer_def not_awaited locked_def write_to_def
  write_buffered_def write_streamed_def on_spill_def spill_write_at_def spill_if_past_def is_spilled_def store_bytes_def
  on_buffer_def on_files_def set_buffer_def let_go_def transfer_upload_def upload_locked_def finish_buffered_def
  finish_stream_def payload_for_def spilled_path_def as_bytes_def send_payload_of_def split_nas_path_def
  rfind_slash_def upload_payload_def upload_def forget_parent_listing_def script_spill_def

definition writing_mount :: script_mount where
  "writing_mount =
     mount_over ((script_client [])\<lparr>cl_write_transports := [entry_new \<lparr>wt_write = (\<lambda>_ _. give (Inr ()))\<rparr>]\<rparr>)"

theorem close_uploads_what_was_written_witness:
  "\<exists>m1 m2. writes_at quiet_mount_env 1 [(0, [1, 2]), (3, [9, 9])]
      (snd (add_write_buffer quiet_mount_env 1 [47, 97, 47, 98] 2 False True writing_mount)) = Some (Inr (), m1) \<and>
    transfer_upload quiet_mount_env 1 m1 = Some (Inr (), m2) \<and>
    sent_whole quiet_mount_env sc_disk [47, 97, 47, 98] True [1, 2, 0, 9, 9] m2"
proof -
  let ?ws = "[(0, [1, 2]), (3, [9, 9])] :: (u64 \<times> bytes) list"
  let ?m = "snd (add_write_buffer quiet_mount_env 1 [47, 97, 47, 98] 2 False True writing_mount)"
  have "map_option fst (let_run (writes_at quiet_mount_env 1 ?ws) (\<lambda>r m1. map_option (\<lambda>(c, m). ((r, c), m))
      (transfer_upload quiet_mount_env 1 m1)) ?m) = Some (Inr (), Inr ())"
    by (simp add: writing_mount_def effect_defs script_mount_defs mount_write_defs)
  then obtain m1 where wrote: "writes_at quiet_mount_env 1 ?ws ?m = Some (Inr (), m1)"
    and close: "map_option fst (transfer_upload quiet_mount_env 1 m1) = Some (Inr ())"
    by (auto simp: let_run_def split: Option.bind_splits)
  obtain m2 where closed: "transfer_upload quiet_mount_env 1 m1 = Some (Inr (), m2)" using close by auto
  have "sent_whole quiet_mount_env sc_disk [47, 97, 47, 98] (\<not> False) (foldl put_at [] ?ws) m2"
    by (rule close_uploads_what_was_written [where pos = "\<lambda>w _. sc_pos w", OF _ _ _ _ _ wrote closed])
      (auto simp: quiet_mount_env_def script_spill.spill_disk_axioms writing_mount_def mount_over_def mount_new_def
        script_client_def client_new_def client_open_write_def)
  then show ?thesis using wrote closed by (simp add: put_at_def overlay_def resize_def)
qed

section \<open>A failed write stays failed\<close>

text \<open>What an operation on buffer \<open>b\<close> leaves alone: the handles, its lock and holds, and that it broke.\<close>

definition same_handles :: "nat \<Rightarrow> ('w, 'i, 'd, 'b) mount \<Rightarrow> ('w, 'i, 'd, 'b) mount \<Rightarrow> bool" where
  "same_handles b m m' \<longleftrightarrow>
     mo_write_buffers m' = mo_write_buffers m \<and>
     (\<forall>s. map_of (mo_buffers m) b = Some s \<longrightarrow>
        (\<exists>s'. map_of (mo_buffers m') b = Some s' \<and> sb_locked s' = sb_locked s \<and> sb_holders s' = sb_holders s \<and>
           (wb_broken (sb_buffer s) \<longrightarrow> wb_broken (sb_buffer s'))))"

interpretation handles: kept "same_handles b" for b
  by unfold_locales (auto simp: same_handles_def)

lemma keeps_set_buffer: "(\<And>buf. wb_broken buf \<Longrightarrow> wb_broken (f buf)) \<Longrightarrow> keeps (same_handles b) (set_buffer b f)"
  by (simp add: keeps_def same_handles_def set_buffer_def change_buffer_def set_op_def map_of_map_entry)

lemma keeps_on_client: "keeps (same_handles b) (on_client f)"
  by (simp add: keeps_def same_handles_def on_client_def split: prod.split)

lemma keeps_new_spill: "keeps (same_handles b) (new_spill G)"
  unfolding new_spill_def
  by (intro handles.keeps_rules keeps_on_client | clarsimp)+ (simp_all add: keeps_def same_handles_def set_op_def)

lemma keeps_on_spill: "keeps (same_handles b) (on_spill b sp f)"
  unfolding on_spill_def
  by (intro handles.keeps_rules keeps_on_client keeps_set_buffer | clarsimp)+

lemma keeps_write_buffered: "keeps (same_handles b) (write_buffered G b sp offset data)"
  unfolding write_buffered_def
  by (intro handles.keeps_rules keeps_on_spill) (auto split: sum.split intro!: handles.keeps_rules keeps_set_buffer)

lemma keeps_write_streamed: "keeps (same_handles b) (write_streamed G b buf stream offset data)"
  unfolding write_streamed_def
  by (intro handles.keeps_rules keeps_on_client)
    (auto split: sum.split intro!: handles.keeps_rules keeps_set_buffer keeps_new_spill keeps_write_buffered)

lemma keeps_write_to: "keeps (same_handles b) (write_to G b offset data buf)"
  unfolding write_to_def
  by (auto split: write_sink.split option.split intro!: handles.keeps_rules keeps_write_streamed keeps_write_buffered)

text \<open>An open handle whose buffer nobody holds locked; one that broke.\<close>

definition free_handle :: "u64 \<Rightarrow> nat \<Rightarrow> 'w shared_buffer \<Rightarrow> ('w, 'i, 'd, 'b) mount \<Rightarrow> bool" where
  "free_handle fh b s m \<longleftrightarrow>
     map_option oh_buffer (map_of (mo_write_buffers m) fh) = Some b \<and> map_of (mo_buffers m) b = Some s \<and>
     \<not> sb_locked s \<and> sb_holders s \<ge> 1"

definition broken_handle :: "u64 \<Rightarrow> ('w, 'i, 'd, 'b) mount \<Rightarrow> bool" where
  "broken_handle fh m \<longleftrightarrow> (\<exists>b s. free_handle fh b s m \<and> wb_broken (sb_buffer s))"

lemma failure_breaks:
  assumes "map_of (mo_buffers m) b = Some s" and "wb_sink (sb_buffer s) \<noteq> StreamedSink None"
  shows "after (write_to G b offset data (sb_buffer s))
    (\<lambda>r m'. (\<exists>e. r = Inl e) \<longrightarrow> (\<exists>s'. map_of (mo_buffers m') b = Some s' \<and> wb_broken (sb_buffer s'))) m"
proof -
  have buffered: "after (write_buffered G b sp offset data)
      (\<lambda>r m'. (\<exists>e. r = Inl e) \<longrightarrow> (\<exists>s'. map_of (mo_buffers m') b = Some s' \<and> wb_broken (sb_buffer s'))) m1"
    if "map_of (mo_buffers m1) b = Some s1" for sp m1 s1
    by (auto simp: write_buffered_def after_def on_spill_def effect_defs set_buffer_def change_buffer_def
        map_of_map_entry that split: prod.splits sum.splits)
  have spilled: "after (new_spill G) (\<lambda>_ m'. mo_buffers m' = mo_buffers m1) m1" for m1
    by (simp add: new_spill_def after_def effect_defs split: prod.splits)
  have streamed: "after (write_streamed G b (sb_buffer s) stream offset data)
      (\<lambda>r m'. (\<exists>e. r = Inl e) \<longrightarrow> (\<exists>s'. map_of (mo_buffers m') b = Some s' \<and> wb_broken (sb_buffer s'))) m" for stream
    unfolding write_streamed_def after_let after_on_client
  proof (rule afterI)
    fix r c
    let ?m = "m\<lparr>mo_client := c\<rparr>"
    show "after (case r of Inl e \<Rightarrow>
          let_op (set_buffer b (wb_sink_update (\<lambda>_. StreamedSink None))) (\<lambda>_.
            if wb_streamed (sb_buffer s) \<or> \<not> wb_new_file (sb_buffer s)
            then let_op (set_buffer b (wb_broken_update (\<lambda>_. True))) (\<lambda>_. give (Inl e))
            else let_op (new_spill G) (\<lambda>sp. let_op (set_buffer b (wb_sink_update (\<lambda>_. BufferedSink sp)))
              (\<lambda>_. write_buffered G b sp offset data)))
        | Inr x \<Rightarrow> let_op (set_buffer b (\<lambda>buf. buf\<lparr>wb_streamed := True, wb_dirty := True\<rparr>)) (\<lambda>_. give (Inr ())))
      (\<lambda>r m'. (\<exists>e. r = Inl e) \<longrightarrow> (\<exists>s'. map_of (mo_buffers m') b = Some s' \<and> wb_broken (sb_buffer s'))) ?m"
      using assms(1)
      by (cases r) (auto simp: after_simps map_of_map_entry intro!: after_mono [OF spilled] buffered)
  qed
  show ?thesis
    using assms streamed buffered [OF assms(1)] unfolding write_to_def
    by (auto split: write_sink.split option.split)
qed

lemma write_settles:
  assumes handle: "free_handle fh b s m" and wrote: "write_buffer_at G fh offset data m = Some (r, m')"
  shows "\<exists>s'. free_handle fh b s' m' \<and> (wb_broken (sb_buffer s) \<longrightarrow> wb_broken (sb_buffer s')) \<and>
    (wb_sink (sb_buffer s) \<noteq> StreamedSink None \<longrightarrow> (\<forall>e. r = Inl e \<longrightarrow> wb_broken (sb_buffer s')))"
proof -
  let ?s = "s\<lparr>sb_holders := Suc (sb_holders s)\<rparr>"
  let ?m = "m\<lparr>mo_buffers := AList.map_entry b (\<lambda>s. s\<lparr>sb_holders := Suc (sb_holders s)\<rparr>) (mo_buffers m)\<rparr>"
  let ?l = "?m\<lparr>mo_buffers := AList.map_entry b (\<lambda>s. s\<lparr>sb_locked := True\<rparr>) (mo_buffers ?m)\<rparr>"
  from handle obtain h where h: "map_of (mo_write_buffers m) fh = Some h" "oh_buffer h = b"
    and s: "map_of (mo_buffers m) b = Some s" "\<not> sb_locked s" "sb_holders s \<ge> 1"
    by (auto simp: free_handle_def)
  have held: "map_of (mo_buffers ?m) b = Some ?s" "\<not> sb_locked ?s" using s by (simp_all add: map_of_map_entry)
  have locked: "map_of (mo_buffers ?l) b = Some (?s\<lparr>sb_locked := True\<rparr>)" using s by (simp add: map_of_map_entry)
  let ?Q = "\<lambda>r m'. \<exists>s'. free_handle fh b s' m' \<and> (wb_broken (sb_buffer s) \<longrightarrow> wb_broken (sb_buffer s')) \<and>
        (wb_sink (sb_buffer s) \<noteq> StreamedSink None \<longrightarrow> (\<forall>e. r = Inl e \<longrightarrow> wb_broken (sb_buffer s')))"
  have "after (write_to G b offset data (sb_buffer s)) (\<lambda>r. after (change_buffer b (\<lambda>s. s\<lparr>sb_locked := False\<rparr>))
      (\<lambda>_. after (let_go G b) (\<lambda>_. ?Q r))) ?l"
  proof (rule afterI)
    fix r m2 assume ran: "write_to G b offset data (sb_buffer s) ?l = (r, m2)"
    have "same_handles b ?l m2" using keepsD [OF keeps_write_to ran] by simp
    then obtain s2 where s2: "map_of (mo_buffers m2) b = Some s2" "sb_holders s2 = Suc (sb_holders s)"
        "wb_broken (sb_buffer s) \<longrightarrow> wb_broken (sb_buffer s2)" and m2: "mo_write_buffers m2 = mo_write_buffers m"
      using locked unfolding same_handles_def by auto
    have "wb_sink (sb_buffer s) \<noteq> StreamedSink None \<longrightarrow> (\<forall>e. r = Inl e \<longrightarrow> wb_broken (sb_buffer s2))"
      using afterD [OF failure_breaks [OF locked]] ran s2(1) by fastforce
    then show "after (change_buffer b (\<lambda>s. s\<lparr>sb_locked := False\<rparr>)) (\<lambda>_. after (let_go G b) (\<lambda>_. ?Q r)) m2"
      using s2 s(3) h unfolding let_go_def
      by (auto simp: after_simps map_of_map_entry free_handle_def m2)
  qed
  then have "after_run (write_buffer_at G fh offset data) ?Q m"
    unfolding write_buffer_at_def buffer_of_def
    by (simp add: after_simps after_funs h after_with_buffer [OF held])
  then show ?thesis using wrote by (simp add: after_run_def)
qed

text \<open>What is done with a handle whose caller ignores the answers: writes and closes, in any order.\<close>

datatype handle_use = Writes u64 bytes | Closes

fun handle_used ::
  "('w, 'i, 'd, 'b) mount_env \<Rightarrow> u64 \<Rightarrow> handle_use list \<Rightarrow> ('w, 'i, 'd, 'b, unit) mount_run" where
  "handle_used G fh [] = total_op (give ())"
| "handle_used G fh (Writes offset data # us) =
     let_run (write_buffer_at G fh offset data) (\<lambda>_. handle_used G fh us)"
| "handle_used G fh (Closes # us) = let_run (transfer_upload G fh) (\<lambda>_. handle_used G fh us)"

lemma broken_close:
  assumes "broken_handle fh m"
  shows "\<exists>e m'. transfer_upload G fh m = Some (Inl e, m') \<and> mo_client m' = mo_client m \<and> broken_handle fh m'"
proof -
  obtain b s h where h: "map_of (mo_write_buffers m) fh = Some h" "oh_buffer h = b"
    and s: "map_of (mo_buffers m) b = Some s" "\<not> sb_locked s" "sb_holders s \<ge> 1" "wb_broken (sb_buffer s)"
    using assms by (auto simp: broken_handle_def free_handle_def)
  show ?thesis
    using s by (simp add: transfer_upload_def buffer_of_def let_run_def total_op_def let_op_def get_op_def h
        change_buffer_def set_op_def give_def with_buffer_def not_awaited locked_def map_of_map_entry upload_locked_def
        let_go_def broken_handle_def free_handle_def)
qed

lemma stays_broken: "broken_handle fh m \<Longrightarrow> handle_used G fh us m = Some (u, m') \<Longrightarrow> broken_handle fh m'"
proof (induction us arbitrary: m)
  case (Cons x us)
  show ?case
  proof (cases x)
    case (Writes offset data)
    with Cons.prems(2) obtain r m1 where "write_buffer_at G fh offset data m = Some (r, m1)"
        and rest: "handle_used G fh us m1 = Some (u, m')"
      by (auto simp: let_run_eq_Some)
    then have "broken_handle fh m1"
      using Cons.prems(1) write_settles unfolding broken_handle_def by metis
    then show ?thesis using Cons.IH rest by blast
  next
    case Closes
    with Cons.prems(2) obtain r m1 where "transfer_upload G fh m = Some (r, m1)"
        and rest: "handle_used G fh us m1 = Some (u, m')"
      by (auto simp: let_run_eq_Some)
    with broken_close [OF Cons.prems(1), of G] have "broken_handle fh m1" by auto
    then show ?thesis using Cons.IH rest by blast
  qed
qed (simp add: total_op_def give_def)

text \<open>A write that finds the stream closed leaves everything as it is.\<close>

lemma closed_write:
  assumes "free_handle fh b s m" and "wb_sink (sb_buffer s) = StreamedSink None"
  shows "\<exists>m'. write_buffer_at G fh offset data m = Some (Inl (SynoIo (lit ''write to a closed handle'')), m') \<and>
    mo_client m' = mo_client m \<and> free_handle fh b s m'"
proof -
  obtain h where h: "map_of (mo_write_buffers m) fh = Some h" "oh_buffer h = b"
    and s: "map_of (mo_buffers m) b = Some s" "\<not> sb_locked s" "sb_holders s \<ge> 1"
    using assms(1) by (auto simp: free_handle_def)
  show ?thesis
    using s assms(2) by (cases s) (simp add: write_buffer_at_def buffer_of_def let_run_def total_op_def let_op_def get_op_def h
        change_buffer_def set_op_def give_def with_buffer_def not_awaited locked_def map_of_map_entry write_to_def
        let_go_def free_handle_def)
qed

text \<open>
  C7. A write that fails is not forgotten, but for one case. Whatever became of the failing write (a
  stream cut off, a local file that could not be written, a fall-back that failed too), and whatever is written
  to the handle and however often it is closed afterwards, with whatever answers, every close of the handle
  reports an error and sends nothing to the NAS. The one case is a write that finds its stream
  closed already, by a flush before it: it is refused with its own error and changes nothing, neither
  the buffer nor the NAS, so that it is the answer of the write alone that tells of it.
\<close>

theorem failed_write_fails_every_close:
  assumes "free_handle fh b s m"
    and "write_buffer_at G fh offset data m = Some (Inl e, m1)"
    and "handle_used G fh us m1 = Some ((), m2)"
  shows "(\<exists>e' m3. transfer_upload G fh m2 = Some (Inl e', m3) \<and> mo_client m3 = mo_client m2) \<or>
    wb_sink (sb_buffer s) = StreamedSink None \<and> \<not> wb_broken (sb_buffer s) \<and>
      e = SynoIo (lit ''write to a closed handle'') \<and> mo_client m1 = mo_client m \<and> free_handle fh b s m1"
proof (cases "broken_handle fh m1")
  case True
  from stays_broken [OF this assms(3)] broken_close show ?thesis by metis
next
  case False
  with write_settles [OF assms(1,2)] have s: "wb_sink (sb_buffer s) = StreamedSink None" "\<not> wb_broken (sb_buffer s)"
    by (auto simp: broken_handle_def)
  with closed_write [OF assms(1), of G offset data] assms(2) show ?thesis by auto
qed

text \<open>An existing file, streamed by a backend whose writes answer \<open>wrote\<close> and whose close \<open>closed\<close>.\<close>

definition streaming_mount :: "syno_error + unit \<Rightarrow> syno_error + unit \<Rightarrow> script_mount" where
  "streaming_mount wrote closed =
     snd (add_write_buffer quiet_mount_env 1 [47, 97, 47, 98] 2 False True
       (mount_over ((script_client [])\<lparr>cl_open_write_transports :=
         [entry_new \<lparr>ow_open_write = (\<lambda>_ _. give (Inr \<lparr>wh_write_at = (\<lambda>_ _. give wrote), wh_close = give closed\<rparr>))\<rparr>]\<rparr>)))"

theorem failed_write_fails_every_close_witness:
  "\<exists>m1 m2 e m3. write_buffer_at quiet_mount_env 1 0 [1] (streaming_mount (Inl SynoNoSpace) (Inr ())) =
      Some (Inl SynoNoSpace, m1) \<and>
    handle_used quiet_mount_env 1 [Closes, Writes 1 [2]] m1 = Some ((), m2) \<and>
    transfer_upload quiet_mount_env 1 m2 = Some (Inl e, m3)"
proof -
  let ?m = "streaming_mount (Inl SynoNoSpace) (Inr ())"
  have "map_option fst (let_run (write_buffer_at quiet_mount_env 1 0 [1]) (\<lambda>r. let_run (handle_used quiet_mount_env 1 [Closes, Writes 1 [2]])
      (\<lambda>u. total_op (give r))) ?m) = Some (Inl SynoNoSpace)"
    by (simp add: streaming_mount_def effect_defs script_mount_defs mount_write_defs)
  then obtain m1 m2 where wrote: "write_buffer_at quiet_mount_env 1 0 [1] ?m = Some (Inl SynoNoSpace, m1)"
    and again: "handle_used quiet_mount_env 1 [Closes, Writes 1 [2]] m1 = Some ((), m2)"
    by (auto simp: let_run_eq_Some total_op_def give_def)
  obtain s where "free_handle 1 0 s ?m" and "wb_sink (sb_buffer s) \<noteq> StreamedSink None"
    by (simp add: streaming_mount_def effect_defs script_mount_defs mount_write_defs free_handle_def)
  with failed_write_fails_every_close [OF this(1) wrote again] show ?thesis using wrote again by blast
qed

text \<open>
  A close that fails is remembered only until the next one: the stream is gone, nothing says that it
  broke, and another close of the same handle reports success.
\<close>

lemma failed_close_is_forgotten:
  "\<exists>m1 m2 m3. write_buffer_at quiet_mount_env 1 0 [1] (streaming_mount (Inr ()) (Inl SynoNoSpace)) = Some (Inr (), m1) \<and>
    transfer_upload quiet_mount_env 1 m1 = Some (Inl SynoNoSpace, m2) \<and>
    transfer_upload quiet_mount_env 1 m2 = Some (Inr (), m3)"
proof -
  have "map_option fst (let_run (write_buffer_at quiet_mount_env 1 0 [1]) (\<lambda>r. let_run (transfer_upload quiet_mount_env 1)
      (\<lambda>r1. let_run (transfer_upload quiet_mount_env 1) (\<lambda>r2. total_op (give (r, r1, r2)))))
      (streaming_mount (Inr ()) (Inl SynoNoSpace))) = Some (Inr (), Inl SynoNoSpace, Inr ())"
    by (simp add: streaming_mount_def effect_defs script_mount_defs mount_write_defs)
  then show ?thesis by (auto simp: let_run_eq_Some total_op_def give_def)
qed

text \<open>
  So is a write after a flush: the flush closed the stream, the write is refused, and the next close
  of the handle reports success.
\<close>

lemma write_after_flush_is_forgotten:
  "\<exists>m1 m2 m3 m4. write_buffer_at quiet_mount_env 1 0 [1] (streaming_mount (Inr ()) (Inr ())) = Some (Inr (), m1) \<and>
    transfer_upload quiet_mount_env 1 m1 = Some (Inr (), m2) \<and>
    write_buffer_at quiet_mount_env 1 1 [2] m2 = Some (Inl (SynoIo (lit ''write to a closed handle'')), m3) \<and>
    transfer_upload quiet_mount_env 1 m3 = Some (Inr (), m4)"
proof -
  have "map_option fst (let_run (write_buffer_at quiet_mount_env 1 0 [1]) (\<lambda>r. let_run (transfer_upload quiet_mount_env 1)
      (\<lambda>r1. let_run (write_buffer_at quiet_mount_env 1 1 [2]) (\<lambda>r2. let_run (transfer_upload quiet_mount_env 1)
      (\<lambda>r3. total_op (give (r, r1, r2, r3))))))
      (streaming_mount (Inr ()) (Inr ()))) =
    Some (Inr (), Inr (), Inl (SynoIo (lit ''write to a closed handle'')), Inr ())"
    by (simp add: streaming_mount_def effect_defs script_mount_defs mount_write_defs)
  then show ?thesis by (auto simp: let_run_eq_Some total_op_def give_def)
qed

section \<open>Moves\<close>

lemma permitted_client: "permitted G l (total_op (on_client f)) = total_op (on_client (\<lambda>c.
    case f (snd (in_world (me_acquire G l) c)) of (r, c) \<Rightarrow> (r, snd (in_world (me_release G l) c))))"
  by (simp add: permitted_def fun_eq_iff on_client_def total_op_def let_run_def give_def in_world_def split: prod.split)

lemma turn_taken:
  assumes "on_client (\<lambda>c. case f (snd (in_world acquire c)) of (r, c) \<Rightarrow> (r, snd (in_world release c))) m = (r, m')"
  obtains c where "f (snd (in_world acquire (mo_client m))) = (r, c)" "mo_client m' = snd (in_world release c)"
  using assms by (auto simp: on_client_def split: prod.splits)

text \<open>
  C19. A file copied because the NAS would not move it is never lost. Let \<open>P\<close> be that the source is
  on the NAS with its content, and \<open>Copied\<close> that the copy is there with the same content; a download
  leaves the source and, when it answers, answers its content; an upload of that content that fails
  leaves the source, and one that succeeds makes the copy; deleting the source leaves the copy. Then
  whatever goes wrong, a copy that reports an error leaves the source where it was, and one that
  reports success has put the copy on the NAS: the source is deleted only then.
\<close>

theorem copied_file_is_never_lost:
  assumes source: "P (mo_client m)"
    and fetch: "\<And>c r c'. P c \<Longrightarrow> download (me_env G) old_path 0 0 c = (r, c') \<Longrightarrow> P c' \<and> (\<forall>data. r = Inr data \<longrightarrow> data = content)"
    and put_failed: "\<And>c e c'. P c \<Longrightarrow> upload (me_env G) new_parent new_name content True c = (Inl e, c') \<Longrightarrow> P c'"
    and put: "\<And>c c'. P c \<Longrightarrow> upload (me_env G) new_parent new_name content True c = (Inr (), c') \<Longrightarrow> Copied c'"
    and gone: "\<And>c. Copied c \<Longrightarrow> Copied (snd (delete (me_env G) old_path c))"
    and turns: "\<And>c. P c \<Longrightarrow> P (snd (in_world (me_acquire G TransferLimit) c)) \<and> P (snd (in_world (me_release G TransferLimit) c))"
      "\<And>c. Copied c \<Longrightarrow> Copied (snd (in_world (me_release G TransferLimit) c))"
    and ran: "copy_across_dirs G old_path new_parent new_name m = Some (r, m')"
  shows "(\<forall>e. r = Inl e \<longrightarrow> P (mo_client m')) \<and> (r = Inr () \<longrightarrow> Copied (mo_client m'))"
proof -
  let ?turn = "\<lambda>f c. case f (snd (in_world (me_acquire G TransferLimit) c)) of
    (r, c) \<Rightarrow> (r, snd (in_world (me_release G TransferLimit) c))"
  let ?Q = "\<lambda>(r :: syno_error + unit) m'. (\<forall>e. r = Inl e \<longrightarrow> P (mo_client m')) \<and> (r = Inr () \<longrightarrow> Copied (mo_client m'))"
  have fetched: "P (mo_client m') \<and> (\<forall>data. r = Inr data \<longrightarrow> data = content)"
    if ran: "on_client (?turn (download (me_env G) old_path 0 0)) m = (r, m')" and "P (mo_client m)" for r m m'
    by (rule turn_taken [OF ran]) (use fetch turns(1) that(2) in metis)
  have sent: "?Q r m'"
    if ran: "on_client (?turn (upload (me_env G) new_parent new_name content True)) m = (r, m')" and "P (mo_client m)" for r m m'
    by (rule turn_taken [OF ran]) (use put_failed put turns that(2) in metis)
  have "after_run (copy_across_dirs G old_path new_parent new_name) ?Q m"
    unfolding copy_across_dirs_def permitted_client after_run_try after_run_total
  proof (rule afterI, intro conjI allI impI)
    fix r m1 e assume "on_client (?turn (download (me_env G) old_path 0 0)) m = (r, m1)" "r = Inl e"
    with fetched [OF this(1) source] show "P (mo_client m1)" by simp
  next
    fix r m1 and e :: syno_error assume "Inl e = (Inr () :: syno_error + unit)"
    then show "Copied (mo_client m1)" by simp
  next
    fix r m1 data assume got: "on_client (?turn (download (me_env G) old_path 0 0)) m = (r, m1)" "r = Inr data"
    from fetched [OF got(1) source] got(2) have p: "P (mo_client m1)" and d: "data = content" by simp_all
    show "after (on_client (?turn (upload (me_env G) new_parent new_name data True)))
        (\<lambda>r m2. (\<forall>e. r = Inl e \<longrightarrow> ?Q (Inl e) m2) \<and>
          (\<forall>a. r = Inr a \<longrightarrow> after_run (let_run (total_op (on_client (delete (me_env G) old_path)))
            (\<lambda>_. total_op (give (Inr ())))) ?Q m2)) m1"
      unfolding d
    proof (rule afterI, intro conjI allI impI)
      fix r m2 and a :: unit
      assume "on_client (?turn (upload (me_env G) new_parent new_name content True)) m1 = (r, m2)" "r = Inr a"
      with sent [OF this(1) p] have "Copied (mo_client m2)" by simp
      from gone [OF this] show "after_run (let_run (total_op (on_client (delete (me_env G) old_path)))
          (\<lambda>_. total_op (give (Inr ())))) ?Q m2"
        by (cases "delete (me_env G) old_path (mo_client m2)") (simp add: after_simps after_funs after_def on_client_def)
    qed (use sent [OF _ p] in \<open>auto\<close>)
  qed
  then show ?thesis using ran by (simp add: after_run_def)
qed

text \<open>
  A NAS that has the source, keeps what is written to it under its path (here in the scripted
  world's files), and deletes without touching that.
\<close>

definition whole_backend :: "bytes \<Rightarrow> script read_transport" where
  "whole_backend content = \<lparr>rt_read = (\<lambda>_ _ _. give (Inr content))\<rparr>"

definition keeping_backend :: "script write_transport" where
  "keeping_backend = \<lparr>wt_write = (\<lambda>path data w. (Inr (), w\<lparr>sc_disk := (sc_disk w)(path \<mapsto> data)\<rparr>))\<rparr>"

definition deleting_backend :: "script metadata_transport" where
  "deleting_backend =
     \<lparr>mt_list_shares = give (Inl SynoNotSupported), mt_list_dir = (\<lambda>_. give (Inl SynoNotSupported)),
      mt_get_info = (\<lambda>_. give (Inl SynoNotSupported)), mt_create_folder = (\<lambda>_ _. give (Inl SynoNotSupported)),
      mt_rename = (\<lambda>_ _. give (Inl SynoNotSupported)), mt_delete = (\<lambda>_. give (Inr ())),
      mt_truncate = (\<lambda>_ _. give (Inl SynoNotSupported)), mt_move_to = (\<lambda>_ _. give (Inl SynoNotSupported))\<rparr>"

definition deletes_by_backend :: "script client \<Rightarrow> bool" where
  "deletes_by_backend c \<longleftrightarrow>
     (case cl_metadata_transports c of
        [e] \<Rightarrow> te_transport e = deleting_backend \<and> bk_state (te_breaker e) = BreakerClosed
      | _ \<Rightarrow> False)"

definition source_on_nas :: "bytes \<Rightarrow> script client \<Rightarrow> bool" where
  "source_on_nas content c \<longleftrightarrow>
     deletes_by_backend c \<and>
     (case cl_read_transports c of
        [e] \<Rightarrow> te_transport e = whole_backend content \<and> bk_state (te_breaker e) = BreakerClosed
      | _ \<Rightarrow> False) \<and>
     (case cl_write_transports c of
        [e] \<Rightarrow> te_transport e = keeping_backend \<and> bk_state (te_breaker e) = BreakerClosed
      | _ \<Rightarrow> False)"

definition kept_on_nas :: "str \<Rightarrow> bytes \<Rightarrow> script client \<Rightarrow> bool" where
  "kept_on_nas path content c \<longleftrightarrow> sc_disk (cl_world c) path = Some content \<and> deletes_by_backend c"

lemma source_stays:
  assumes "source_on_nas content c"
  shows "source_on_nas content (snd (download (script_env auth J) path offset len c))"
    and "fst (download (script_env auth J) path offset len c) = Inr content"
    and "fst (upload (script_env auth J) folder name data True c) = Inr ()"
    and "kept_on_nas (join_path folder name) data (snd (upload (script_env auth J) folder name data True c))"
    and "source_on_nas content (snd (in_world (Pair ()) c))"
  using assms
  by (auto simp: source_on_nas_def deletes_by_backend_def kept_on_nas_def in_world_def
      script_env_def download_def upload_def or_http_def via_read_def via_write_def let_op_def whole_backend_def
      keeping_backend_def give_def breaker_allows_def Let_def split: list.splits prod.splits)

lemma copy_stays:
  assumes "kept_on_nas path content c"
  shows "kept_on_nas path content (snd (delete (script_env auth J) other c))"
    and "kept_on_nas path content (snd (in_world (Pair ()) c))"
  using assms
  by (auto simp: kept_on_nas_def deletes_by_backend_def in_world_def script_env_def delete_def or_http_def
      via_metadata_def let_op_def deleting_backend_def give_def breaker_allows_def Let_def
      split: list.splits prod.splits)

definition copying_mount :: script_mount where
  "copying_mount =
     mount_over ((script_client [])\<lparr>cl_read_transports := [entry_new (whole_backend [1, 2, 3])],
       cl_write_transports := [entry_new keeping_backend], cl_metadata_transports := [entry_new deleting_backend]\<rparr>)"

theorem copied_file_is_never_lost_witness:
  "\<exists>m'. copy_across_dirs quiet_mount_env [47, 97, 47, 98] [47, 99] [98] copying_mount = Some (Inr (), m') \<and>
    kept_on_nas [47, 99, 47, 98] [1, 2, 3] (mo_client m')"
proof -
  have "map_option fst (copy_across_dirs quiet_mount_env [47, 97, 47, 98] [47, 99] [98] copying_mount) = Some (Inr ())"
    by (simp add: copy_across_dirs_def copying_mount_def effect_defs script_mount_defs download_def upload_def
        whole_backend_def keeping_backend_def delete_def or_http_def via_metadata_def deleting_backend_def)
  then obtain m' where ran: "copy_across_dirs quiet_mount_env [47, 97, 47, 98] [47, 99] [98] copying_mount =
      Some (Inr (), m')" by auto
  have path: "join_path [47, 99] [98] = [47, 99, 47, 98]" by (simp add: join_path_def)
  have start: "source_on_nas [1, 2, 3] (mo_client copying_mount)"
    by (simp add: source_on_nas_def deletes_by_backend_def copying_mount_def script_mount_defs)
  have "(\<forall>e. (Inr () :: syno_error + unit) = Inl e \<longrightarrow> source_on_nas [1, 2, 3] (mo_client m')) \<and>
      ((Inr () :: syno_error + unit) = Inr () \<longrightarrow> kept_on_nas [47, 99, 47, 98] [1, 2, 3] (mo_client m'))"
  proof (rule copied_file_is_never_lost [OF _ _ _ _ _ _ _ ran])
    show "source_on_nas [1, 2, 3] (mo_client copying_mount)" by (rule start)
  next
    fix c r c' assume "source_on_nas [1, 2, 3] c" "download (me_env quiet_mount_env) [47, 97, 47, 98] 0 0 c = (r, c')"
    with source_stays(1,2) [of "[1, 2, 3]" c no_login no_json "[47, 97, 47, 98]" 0 0]
    show "source_on_nas [1, 2, 3] c' \<and> (\<forall>data. r = Inr data \<longrightarrow> data = [1, 2, 3])"
      by (simp add: quiet_mount_env_def)
  next
    fix c e c' assume "source_on_nas [1, 2, 3] c"
      "upload (me_env quiet_mount_env) [47, 99] [98] [1, 2, 3] True c = (Inl e, c')"
    with source_stays(3) [of "[1, 2, 3]" c no_login no_json "[47, 99]" "[98]" "[1, 2, 3]"]
    show "source_on_nas [1, 2, 3] c'" by (simp add: quiet_mount_env_def)
  next
    fix c c' assume "source_on_nas [1, 2, 3] c"
      "upload (me_env quiet_mount_env) [47, 99] [98] [1, 2, 3] True c = (Inr (), c')"
    with source_stays(4) [of "[1, 2, 3]" c "[47, 99]" "[98]" "[1, 2, 3]" no_login no_json]
    show "kept_on_nas [47, 99, 47, 98] [1, 2, 3] c'" by (simp add: quiet_mount_env_def path)
  qed (simp_all add: quiet_mount_env_def source_stays(5) copy_stays)
  then show ?thesis using ran by blast
qed

section \<open>Registered rewrites are taken back\<close>

definition counted :: "(str \<times> nat) list \<Rightarrow> bool" where
  "counted rewrites \<longleftrightarrow> (\<forall>path n. map_of rewrites path = Some n \<longrightarrow> 0 < n)"

definition same_rewrites :: "('w, 'i, 'd, 'b) mount \<Rightarrow> ('w, 'i, 'd, 'b) mount \<Rightarrow> bool" where
  "same_rewrites m m' \<longleftrightarrow> (counted (mo_rewrites m) \<longrightarrow> map_of (mo_rewrites m') = map_of (mo_rewrites m))"

definition run_keeps :: "('s \<Rightarrow> 's \<Rightarrow> bool) \<Rightarrow> ('s \<Rightarrow> ('a \<times> 's) option) \<Rightarrow> bool" where
  "run_keeps R p \<longleftrightarrow> (\<forall>s a s'. p s = Some (a, s') \<longrightarrow> R s s')"

interpretation registered: kept same_rewrites
  by unfold_locales (auto simp: same_rewrites_def counted_def)

lemma run_keeps_total: "keeps R q \<Longrightarrow> run_keeps R (total_op q)"
  by (auto simp: run_keeps_def total_op_def keeps_def) (metis snd_conv)

lemma run_keeps_let:
  assumes "kept R" and "run_keeps R p" and "\<And>a. run_keeps R (f a)"
  shows "run_keeps R (let_run p f)"
  using assms unfolding run_keeps_def let_run_eq_Some kept_def by blast

lemma run_keeps_try:
  assumes "kept R" and "run_keeps R p" and "\<And>a. run_keeps R (f a)"
  shows "run_keeps R (try_run p f)"
  unfolding try_run_def
  by (rule run_keeps_let [OF assms(1,2)])
    (auto split: sum.split intro!: run_keeps_total assms(3) kept.keeps_give [OF assms(1)])

lemmas run_keeps_rules = run_keeps_total run_keeps_let run_keeps_try

lemma keeps_rewrites:
  "keeps same_rewrites (on_client f)"
  "keeps same_rewrites (set_cache g)"
  "keeps same_rewrites (set_dir_cache h)"
  "keeps same_rewrites (set_read_cache k)"
  "keeps same_rewrites (on_cache l)"
  "run_keeps same_rewrites (run_client q)"
  by (auto simp: keeps_def run_keeps_def same_rewrites_def on_client_def set_cache_def on_cache_def set_dir_cache_def
      on_dir_cache_def set_read_cache_def on_read_cache_def run_client_def split: prod.splits)

lemma keeps_permitted: "run_keeps same_rewrites p \<Longrightarrow> run_keeps same_rewrites (permitted G l p)"
  unfolding permitted_def
  by (intro run_keeps_rules keeps_rewrites registered.kept_axioms registered.keeps_rules)

lemma keeps_rewriting:
  assumes "run_keeps same_rewrites p"
  shows "run_keeps same_rewrites (rewriting path p)"
  unfolding run_keeps_def
proof (intro allI impI)
  fix m a m' assume ran: "rewriting path p m = Some (a, m')"
  let ?begun = "m\<lparr>mo_rewrites := AList.update path (or_default 0 path (mo_rewrites m) + 1) (mo_rewrites m)\<rparr>"
  obtain m1 where p: "p ?begun = Some (a, m1)"
    and m': "mo_rewrites m' = (case map_of (mo_rewrites m1) path of None \<Rightarrow> mo_rewrites m1
        | Some n \<Rightarrow> if n - 1 = 0 then AList.delete path (mo_rewrites m1) else AList.update path (n - 1) (mo_rewrites m1))"
    using ran by (auto simp: rewriting_def begin_rewriting_def end_rewriting_def let_run_eq_Some total_op_def
        set_op_def give_def)
  show "same_rewrites m m'"
    unfolding same_rewrites_def
  proof
    assume counted: "counted (mo_rewrites m)"
    then have "counted (mo_rewrites ?begun)" by (simp add: counted_def update_conv')
    then have "map_of (mo_rewrites m1) = (map_of (mo_rewrites m))(path \<mapsto> or_default 0 path (mo_rewrites m) + 1)"
      using assms p unfolding run_keeps_def same_rewrites_def by (force simp: update_conv')
    then show "map_of (mo_rewrites m') = map_of (mo_rewrites m)"
      using counted unfolding counted_def
      by (auto simp: m' or_default_def update_conv' delete_conv' fun_eq_iff split: option.splits)
  qed
qed

lemma keeps_forget: "keeps same_rewrites (forget_path G path)"
  unfolding forget_path_def forget_parent_listing_def Let_def
  by (intro registered.keeps_rules keeps_rewrites) (auto split: option.split intro!: registered.keeps_rules keeps_rewrites)

lemma keeps_move: "run_keeps same_rewrites (move_or_copy G old_path new_parent new_name new_path)"
proof -
  have copy: "run_keeps same_rewrites (copy_across_dirs G old_path new_parent new_name)"
    unfolding copy_across_dirs_def
    by (intro run_keeps_rules keeps_permitted keeps_rewrites registered.kept_axioms registered.keeps_rules)
  show ?thesis
    unfolding move_or_copy_def
    by (intro run_keeps_rules keeps_permitted keeps_rewrites registered.kept_axioms)
      (auto split: sum.split syno_error.split option.split
        intro!: run_keeps_rules keeps_rewrites registered.kept_axioms registered.keeps_rules copy)
qed

text \<open>
  C21. No file stays marked as being rewritten. Whatever happens to a truncation or a move between
  folders, at whichever step it fails, the rewrites registered when it has ended are those that
  were registered before it began, each as often.
\<close>

theorem rewrites_are_taken_back:
  assumes "counted (mo_rewrites m)" and "\<And>info. keeps same_rewrites (answer info)"
  shows "(start_move_across_dirs G old_path new_parent new_name m = Some (r, m1) \<longrightarrow>
      map_of (mo_rewrites m1) = map_of (mo_rewrites m)) \<and>
    (start_truncate G ino path new_size answer m = Some (a, m2) \<longrightarrow>
      map_of (mo_rewrites m2) = map_of (mo_rewrites m))"
proof -
  have "run_keeps same_rewrites (start_move_across_dirs G old_path new_parent new_name)"
    unfolding start_move_across_dirs_def transfer_move_across_dirs_def Let_def forget_moved_def
    by (intro keeps_rewriting run_keeps_rules keeps_move registered.keeps_rules keeps_forget registered.kept_axioms)
  moreover have "run_keeps same_rewrites (start_truncate G ino path new_size answer)"
    unfolding start_truncate_def transfer_truncate_def
    by (intro keeps_rewriting run_keeps_rules keeps_permitted keeps_rewrites registered.kept_axioms assms(2))
  ultimately show ?thesis using assms(1) unfolding run_keeps_def same_rewrites_def by blast
qed

text \<open>A truncation that the NAS has no space for.\<close>

definition truncating_mount :: script_mount where
  "truncating_mount =
     mount_over ((script_client [])\<lparr>cl_metadata_transports :=
       [entry_new (metadata_default\<lparr>mt_truncate := (\<lambda>_ _. give (Inl SynoNoSpace))\<rparr>)]\<rparr>)"

theorem rewrites_are_taken_back_witness:
  "\<exists>m2. start_truncate quiet_mount_env 2 [47, 97, 47, 98] 9 give truncating_mount = Some (Inl SynoNoSpace, m2) \<and>
    map_of (mo_rewrites m2) = Map.empty"
proof -
  have "map_option fst (start_truncate quiet_mount_env 2 [47, 97, 47, 98] 9 give truncating_mount) = Some (Inl SynoNoSpace)"
    by (simp add: start_truncate_def transfer_truncate_def rewriting_def begin_rewriting_def end_rewriting_def
        truncating_mount_def effect_defs script_mount_defs Upload.truncate_def via_metadata_def)
  then obtain m2 where failed: "start_truncate quiet_mount_env 2 [47, 97, 47, 98] 9 give truncating_mount = Some (Inl SynoNoSpace, m2)"
    by auto
  have start: "mo_rewrites truncating_mount = []" by (simp add: truncating_mount_def script_mount_defs)
  have "map_of (mo_rewrites m2) = map_of (mo_rewrites truncating_mount)"
    using rewrites_are_taken_back [where answer = give and m = truncating_mount] failed
    by (metis counted_def map_of.simps(1) option.distinct(1) registered.keeps_give start)
  then show ?thesis using failed start by simp
qed

end
