(* ===== verification/Mount_Calls_Props.thy ===== *)
theory Mount_Calls_Props
  imports Mount_Calls Mount_Write_Props "HOL-Library.Multiset"
begin

text \<open>
  What the kernel's calls promise: a request for a digest is answered, once; an inode the mount does
  not know is refused without asking the NAS; and what renaming and removing a folder touch.
\<close>

section \<open>Requests for a digest\<close>

text \<open>A task whose request may join a hash, one that leads the hash of a path, one that has its answer.\<close>

datatype hash_task = Joining nat str | Leading str | Answering str xattr_answer

definition same_hashes :: "('w, 'i, 'd, 'b) mount \<Rightarrow> ('w, 'i, 'd, 'b) mount \<Rightarrow> bool" where
  "same_hashes m m' \<longleftrightarrow> mo_hashes m' = mo_hashes m"

interpretation hashed: kept same_hashes
  by unfold_locales (auto simp: same_hashes_def)

text \<open>
  Requests and tasks, in any order: what has been asked (each request under a number of its own),
  the tasks, the mount, and what has been answered.
\<close>

inductive hashing ::
  "('w, 'i, 'd, 'b) mount_env \<Rightarrow> nat list \<Rightarrow> hash_task list \<Rightarrow> ('w, 'i, 'd, 'b) mount \<Rightarrow> (nat \<times> xattr_answer) list \<Rightarrow> bool"
  for G where
  quiet: "mo_hashes m = [] \<Longrightarrow> hashing G [] [] m []"
| asks: "hashing G asked ts m given \<Longrightarrow> req \<notin> set asked \<Longrightarrow> hashing G (req # asked) (Joining req path # ts) m given"
| joins: "hashing G asked (as @ Joining req path # bs) m given \<Longrightarrow> join_hash path req m = (leads, m') \<Longrightarrow>
    hashing G asked (as @ (if leads then [Leading path] else []) @ bs) m' given"
| hashes: "hashing G asked (as @ Leading path # bs) m given \<Longrightarrow> lead_hash G path m = Some (answer, m') \<Longrightarrow>
    hashing G asked (as @ Answering path answer # bs) m' given"
| answers: "hashing G asked (as @ Answering path answer # bs) m given \<Longrightarrow> answer_waiters path answer m = (sent, m') \<Longrightarrow>
    hashing G asked (as @ bs) m' (sent @ given)"
| others: "hashing G asked ts m given \<Longrightarrow> same_hashes m m' \<Longrightarrow> hashing G asked ts m' given"

fun joining :: "hash_task \<Rightarrow> nat list" where
  "joining (Joining req path) = [req]"
| "joining _ = []"

fun leading :: "hash_task \<Rightarrow> str list" where
  "leading (Joining req path) = []"
| "leading (Leading path) = [path]"
| "leading (Answering path answer) = [path]"

definition waiters :: "('w, 'i, 'd, 'b) mount \<Rightarrow> nat multiset" where
  "waiters m = mset (concat (map snd (mo_hashes m)))"

definition hashes_ok :: "nat list \<Rightarrow> hash_task list \<Rightarrow> ('w, 'i, 'd, 'b) mount \<Rightarrow> (nat \<times> xattr_answer) list \<Rightarrow> bool" where
  "hashes_ok asked ts m given \<longleftrightarrow>
     distinct asked \<and> distinct (map fst (mo_hashes m)) \<and>
     mset (concat (map leading ts)) = mset (map fst (mo_hashes m)) \<and>
     mset (concat (map joining ts)) + waiters m + mset (map fst given) = mset asked"

lemma update_new_waiters:
  "map_of xs k = None \<Longrightarrow> AList.update k v xs = xs @ [(k, v)]"
  by (induction xs) (auto split: if_splits)

lemma update_waiters:
  assumes "map_of xs k = Some v"
  shows "mset (concat (map snd (AList.update k v' xs))) + mset v = mset (concat (map snd xs)) + mset v'"
  using assms by (induction xs) (auto simp: ac_simps split: if_splits)

lemma delete_waiters:
  assumes "distinct (map fst xs)" and "map_of xs k = Some v"
  shows "mset (concat (map snd (AList.delete k xs))) + mset v = mset (concat (map snd xs))"
    and "add_mset k (mset (map fst (AList.delete k xs))) = mset (map fst xs)"
proof -
  have gone: "AList.delete k ys = ys" if "k \<notin> fst ` set ys" for ys :: "('a \<times> 'b list) list"
    using that by (simp add: delete_id)
  show "mset (concat (map snd (AList.delete k xs))) + mset v = mset (concat (map snd xs))"
    using assms by (induction xs) (auto simp: gone image_iff ac_simps split: if_splits)
  show "add_mset k (mset (map fst (AList.delete k xs))) = mset (map fst xs)"
    using assms by (induction xs) (auto simp: gone image_iff split: if_splits)
qed

lemma lead_hash_keeps: "run_keeps same_hashes (lead_hash G path)"
proof -
  have kept: "keeps same_hashes (on_client f)" "run_keeps same_hashes (run_client q)" for f q
    by (auto simp: keeps_def run_keeps_def same_hashes_def on_client_def run_client_def split: prod.splits)
  show ?thesis
    unfolding lead_hash_def permitted_def
    by (intro run_keeps_rules kept hashed.kept_axioms hashed.keeps_rules)
      (auto intro!: run_keeps_rules kept hashed.kept_axioms hashed.keeps_rules)
qed

lemma join_keeps_ok:
  assumes ok: "hashes_ok asked (as @ Joining req path # bs) m given" and "join_hash path req m = (leads, m')"
  shows "hashes_ok asked (as @ (if leads then [Leading path] else []) @ bs) m' given"
proof (cases "map_of (mo_hashes m) path")
  case None
  then have m': "leads" "mo_hashes m' = mo_hashes m @ [(path, [req])]"
    using assms(2) by (auto simp: join_hash_def update_new_waiters)
  have "path \<notin> fst ` set (mo_hashes m)" using None by (simp add: map_of_eq_None_iff)
  then show ?thesis using ok m' by (simp add: hashes_ok_def waiters_def ac_simps)
next
  case (Some v)
  then have m': "\<not> leads" "mo_hashes m' = AList.update path (v @ [req]) (mo_hashes m)"
    using assms(2) by (auto simp: join_hash_def)
  have "path \<in> fst ` set (mo_hashes m)" using Some by (metis map_of_eq_None_iff option.distinct(1))
  then have keys: "map fst (mo_hashes m') = map fst (mo_hashes m)" by (simp add: m'(2) update_keys)
  have "waiters m' + mset v = waiters m + mset (v @ [req])"
    unfolding waiters_def m'(2) by (rule update_waiters [OF Some])
  then have "waiters m' = add_mset req (waiters m)" by simp
  then show ?thesis using ok keys m'(1) by (simp add: hashes_ok_def ac_simps)
qed

lemma answer_keeps_ok:
  assumes ok: "hashes_ok asked (as @ Answering path answer # bs) m given" and "answer_waiters path answer m = (sent, m')"
  shows "hashes_ok asked (as @ bs) m' (sent @ given)"
proof -
  have dist: "distinct (map fst (mo_hashes m))"
    and lead: "add_mset path (mset (concat (map leading (as @ bs)))) = mset (map fst (mo_hashes m))"
    using ok by (simp_all add: hashes_ok_def)
  have "path \<in># mset (map fst (mo_hashes m))" unfolding lead [symmetric] by simp
  then have "path \<in> fst ` set (mo_hashes m)" by simp
  then obtain v where v: "map_of (mo_hashes m) path = Some v"
    by (metis map_of_eq_None_iff not_None_eq)
  have m': "mo_hashes m' = AList.delete path (mo_hashes m)" "map fst sent = v"
    using assms(2) v by (auto simp: answer_waiters_def or_default_def comp_def)
  have "waiters m' + mset v = waiters m" "add_mset path (mset (map fst (mo_hashes m'))) = mset (map fst (mo_hashes m))"
    unfolding waiters_def m'(1) by (rule delete_waiters [OF dist v])+
  then have now: "waiters m' + mset (map fst sent) = waiters m"
      "mset (concat (map leading (as @ bs))) = mset (map fst (mo_hashes m'))"
    using lead m'(2) by (metis, metis add_mset_add_mset_same_iff)
  have all: "mset (concat (map joining (as @ bs))) + waiters m + mset (map fst given) = mset asked"
    using ok by (simp add: hashes_ok_def)
  have "mset (concat (map joining (as @ bs))) + waiters m' + mset (map fst (sent @ given)) = mset asked"
    unfolding all [symmetric] now(1) [symmetric] by (simp add: ac_simps)
  moreover have "distinct (map fst (mo_hashes m'))" using dist by (simp add: m'(1) distinct_delete)
  ultimately show ?thesis using ok now(2) unfolding hashes_ok_def by blast
qed

lemma hashing_ok: "hashing G asked ts m given \<Longrightarrow> hashes_ok asked ts m given"
proof (induction rule: hashing.induct)
  case (hashes asked as path bs m given answer m')
  then have "mo_hashes m' = mo_hashes m"
    using lead_hash_keeps [of G path] by (auto simp: run_keeps_def same_hashes_def)
  then show ?case using hashes.IH by (simp add: hashes_ok_def waiters_def)
next
  case (joins asked as req path bs m given leads m')
  show ?case by (rule join_keeps_ok [OF joins.IH joins.hyps(2)])
next
  case (answers asked as path answer bs m given sent m')
  show ?case by (rule answer_keeps_ok [OF answers.IH answers.hyps(2)])
qed (simp_all add: hashes_ok_def waiters_def same_hashes_def)

text \<open>A digest is as long as was promised, and in lower case.\<close>

fun answer_ok :: "xattr_answer \<Rightarrow> bool" where
  "answer_ok (XattrValue v) \<longleftrightarrow> length v = 32 \<and> list_all is_ascii_hexdigit v \<and> to_ascii_lowercase v = v"
| "answer_ok _ \<longleftrightarrow> True"

lemma hexdigit_lower:
  "is_ascii_hexdigit b \<Longrightarrow> is_ascii_hexdigit (to_ascii_lower b) \<and> to_ascii_lower (to_ascii_lower b) = to_ascii_lower b"
  by (auto simp: is_ascii_hexdigit_def to_ascii_lower_def word_le_nat_alt unat_word_ariths)

lemma md5_hex_lower: "is_md5_hex digest \<Longrightarrow> answer_ok (XattrValue (to_ascii_lowercase digest))"
  by (auto simp: is_md5_hex_def MD5_HEX_LEN_def to_ascii_lowercase_def list_all_iff hexdigit_lower)

lemma md5_answer_ok: "answer_ok (md5_answer r)"
  using md5_hex_lower by (simp add: md5_answer_def del: answer_ok.simps(1) split: sum.split)

lemma lead_hash_answer: "lead_hash G path m = Some (answer, m') \<Longrightarrow> answer_ok answer"
  by (auto simp: lead_hash_def permitted_def let_run_eq_Some total_op_def give_def md5_answer_ok
      on_client_def in_world_def split: if_splits prod.splits)

fun task_ok :: "hash_task \<Rightarrow> bool" where
  "task_ok (Answering path answer) = answer_ok answer"
| "task_ok _ = True"

lemma hashing_values: "hashing G asked ts m given \<Longrightarrow> list_all task_ok ts \<and> (\<forall>(w, a) \<in> set given. answer_ok a)"
  by (induction rule: hashing.induct) (auto simp: answer_waiters_def dest: lead_hash_answer)

text \<open>
  C20. A request for a file's digest is answered once. Whatever requests come and however their tasks
  interleave, no request is answered twice and none that was not made; once no task is left every
  request has been answered and none is still kept waiting; at no time do two hashes of one file
  run; and every digest handed over has the 32 lowercase hexadecimal digits its length was promised
  as.
\<close>

theorem digests_are_answered_once:
  assumes "hashing G asked ts m given"
  shows "distinct (map fst given) \<and> set (map fst given) \<subseteq> set asked \<and> distinct (concat (map leading ts)) \<and>
    (\<forall>(w, a) \<in> set given. answer_ok a) \<and> (ts = [] \<longrightarrow> set (map fst given) = set asked \<and> mo_hashes m = [])"
proof -
  have ok: "hashes_ok asked ts m given" by (rule hashing_ok [OF assms])
  then have all: "mset (concat (map joining ts)) + waiters m + mset (map fst given) = mset asked"
    and asked: "distinct asked" by (simp_all add: hashes_ok_def)
  have sub: "mset (map fst given) \<subseteq># mset asked" unfolding all [symmetric] by simp
  have keys: "mset (concat (map leading ts)) = mset (map fst (mo_hashes m))" "distinct (map fst (mo_hashes m))"
    using ok by (simp_all add: hashes_ok_def)
  obtain rest where "mset asked = mset (map fst given @ rest)"
    using sub by (metis mset_append subset_mset.le_iff_add ex_mset)
  then have "distinct (map fst given)" using asked by (metis mset_eq_imp_distinct_iff distinct_append)
  moreover have "set (map fst given) \<subseteq> set asked" using set_mset_mono [OF sub] by simp
  moreover have "distinct (concat (map leading ts))" using keys by (metis mset_eq_imp_distinct_iff)
  moreover have "set (map fst given) = set asked \<and> mo_hashes m = []" if "ts = []"
  proof -
    have "mo_hashes m = []" using keys(1) that by simp
    then have "mset (map fst given) = mset asked" using all that by (simp add: waiters_def)
    then show ?thesis using \<open>mo_hashes m = []\<close> by (metis set_mset_mset)
  qed
  ultimately show ?thesis using hashing_values [OF assms] by blast
qed

text \<open>Two requests for the digest of a file that is being written.\<close>

definition hashing_mount :: script_mount where
  "hashing_mount = (mount_over (script_client []))\<lparr>mo_rewrites := [([47, 97], 1)]\<rparr>"

lemma asks_and_leads:
  assumes "hashing G asked ts m given" and "req \<notin> set asked" and "join_hash path req m = (leads, m')"
  shows "hashing G (req # asked) ((if leads then [Leading path] else []) @ ts) m' given"
  using joins [of G "req # asked" "[]" req path ts m given leads m'] asks [OF assms(1,2)] assms(3) by simp

theorem digests_are_answered_once_witness:
  "\<exists>m. hashing quiet_mount_env [8, 7] [] m [(7, XattrError EBUSY), (8, XattrError EBUSY)]"
proof -
  let ?G = quiet_mount_env and ?p = "[47, 97] :: str"
  let ?m1 = "hashing_mount\<lparr>mo_hashes := [(?p, [7])]\<rparr>" and ?m2 = "hashing_mount\<lparr>mo_hashes := [(?p, [7, 8])]\<rparr>"
  have "mo_hashes hashing_mount = []" by (simp add: hashing_mount_def script_mount_defs)
  from asks_and_leads [OF quiet [OF this], of 7 ?p True ?m1]
  have "hashing ?G [7] [Leading ?p] ?m1 []" by (simp add: join_hash_def hashing_mount_def script_mount_defs)
  from asks_and_leads [OF this, of 8 ?p False ?m2]
  have two: "hashing ?G [8, 7] [Leading ?p] ?m2 []" by (simp add: join_hash_def)
  have "lead_hash ?G ?p ?m2 = Some (XattrError EBUSY, ?m2)"
    by (simp add: lead_hash_def effect_defs script_mount_defs hashing_mount_def busy_def)
  from hashes [where as = "[]" and bs = "[]", OF _ this] two
  have "hashing ?G [8, 7] [Answering ?p (XattrError EBUSY)] ?m2 []" by simp
  from answers [where as = "[]" and bs = "[]", simplified, OF this]
  have over: "\<exists>m. hashing ?G [8, 7] [] m [(7, XattrError EBUSY), (8, XattrError EBUSY)]"
    by (auto simp: answer_waiters_def or_default_def)
  show ?thesis using over digests_are_answered_once by blast
qed

section \<open>Inodes that are not known\<close>

definition refused :: "('w, 'i, 'd, 'b, fuse_errno + 'a) mount_run \<Rightarrow> ('w, 'i, 'd, 'b) mount \<Rightarrow> bool" where
  "refused run m \<longleftrightarrow> (\<exists>m'. run m = Some (Inl (Errno ENOENT), m') \<and> mo_client m' = mo_client m)"

lemma refused_name: "os_to_str name = None \<Longrightarrow> refused (with_name name f) m"
  by (simp add: refused_def with_name_def total_op_def give_def)

lemma refused_path: "fst (mount_path_for_ino G ino m) = None \<Longrightarrow> refused (with_path G ino f) m"
  by (auto simp: refused_def with_path_def let_run_def total_op_def give_def mount_path_for_ino_def on_cache_def
      split: prod.splits)

lemma refused_inside: "(\<And>name. refused (f name) m) \<Longrightarrow> refused (with_name name f) m"
  by (cases "os_to_str name") (simp_all add: refused_name, simp add: with_name_def)

lemmas refused_rules = refused_name refused_path refused_inside

text \<open>
  A call that names an entry of a directory whose path the mount does not know, or by a name
  that is not UTF-8, is refused with \<open>ENOENT\<close>, and so is one on such an inode itself; nothing is
  asked of the NAS.
\<close>

theorem unknown_inodes_are_refused:
  assumes "fst (mount_path_for_ino G ino m) = None \<or> os_to_str name = None"
  shows "refused (mount_lookup G ino name) m \<and> refused (mount_create G ino name flags) m \<and>
    refused (mount_unlink G ino name) m \<and> refused (mount_rmdir G ino name) m \<and> refused (mount_mkdir G ino name) m \<and>
    refused (mount_rename G ino name other name') m \<and>
    (fst (mount_path_for_ino G ino m) = None \<longrightarrow>
       refused (mount_open G ino flags) m \<and> refused (mount_opendir G tid ino) m \<and>
       (len \<noteq> 0 \<longrightarrow> refused (mount_read G ino fh offset len) m) \<and> refused (mount_setattr G ino (Some size')) m)"
proof (intro conjI impI)
  show "refused (mount_lookup G ino name) m" "refused (mount_create G ino name flags) m"
    "refused (mount_unlink G ino name) m" "refused (mount_rmdir G ino name) m" "refused (mount_mkdir G ino name) m"
    "refused (mount_rename G ino name other name') m"
    using assms unfolding mount_lookup_def mount_create_def mount_unlink_def mount_rmdir_def mount_mkdir_def mount_rename_def
    by (elim disjE; blast intro: refused_rules)+
qed (simp_all add: mount_open_def mount_opendir_def mount_read_def mount_setattr_def refused_path)

text \<open>A mount that has looked nothing up yet, and a name that is not UTF-8.\<close>

theorem unknown_inodes_are_refused_witness:
  "refused (mount_unlink quiet_mount_env 9 [97]) (mount_over (script_client [])) \<and>
   refused (mount_rename quiet_mount_env 1 [255] 1 [97]) (mount_over (script_client []))"
proof -
  have path: "fst (mount_path_for_ino quiet_mount_env 9 (mount_over (script_client []))) = None"
    by (simp add: mount_path_for_ino_def effect_defs script_mount_defs get_path_for_ino_def get_by_ino_def)
  have name: "os_to_str [255] = None"
    by (simp add: os_to_str_def utf8_pieces.simps utf8_piece_def at_or_0_def)
  show ?thesis using unknown_inodes_are_refused [OF disjI1 [OF path]] unknown_inodes_are_refused [OF disjI2 [OF name]] by blast
qed

section \<open>Renaming within a folder\<close>

lemma forget_file_client: "mo_client (snd (forget_file G path m)) = mo_client m"
  by (simp add: forget_file_def forget_parent_listing_def effect_defs split: option.splits prod.splits)

text \<open>
  What is asked of the NAS: to delete what has the new name, whatever comes of that, and to rename;
  so a renaming that is refused leaves the destination deleted.
\<close>

lemma client_let: "mo_client (snd (let_op p f m)) = mo_client (snd (f (fst (p m)) (snd (p m))))"
  by (simp add: let_op_def split: prod.split)

lemma rename_here_asks:
  "mo_client (snd (rename_here G old_path new_path new_name m)) =
     snd (rename (me_env G) old_path new_name
       (if old_path = new_path then mo_client m else snd (delete (me_env G) new_path (mo_client m))))"
proof -
  have on: "mo_client (snd (on_client f m)) = snd (f (mo_client m))"
      "fst (on_client f m) = fst (f (mo_client m))" for f :: "'a client \<Rightarrow> 'e \<times> 'a client" and m :: "('a, 'b, 'c, 'd) mount"
    by (simp_all add: on_client_def split: prod.split)
  have caches: "mo_client (snd (on_cache g m)) = mo_client m" "mo_client (snd (set_cache k m)) = mo_client m"
    for g :: "'b inode_cache \<Rightarrow> 'e \<times> 'b inode_cache" and k and m :: "('a, 'b, 'c, 'd) mount"
    by (simp_all add: on_cache_def set_cache_def split: prod.split)
  show ?thesis
    by (simp add: rename_here_def when_op_def client_let on caches forget_file_client give_def split: sum.split)
qed

end
