(* ===== verification/Mount_Dirs_Props.thy ===== *)
theory Mount_Dirs_Props
  imports Mount_Dirs Mount_Script
begin

text \<open>
  That readers of a directory share one fetch of it and leave nothing behind, and that a pass over
  a directory sees each entry once.
\<close>

section \<open>Readers and their flights\<close>

text \<open>A reader that has joined a flight: still to get the listing, or about to let go of it.\<close>

datatype reader = Waiting (rd_path: str) (rd_cell: nat) | Leaving (rd_path: str) (rd_cell: nat) (rd_ok: bool)

text \<open>
  The steps readers take, in any order: one finds no cached listing and joins, one that has joined
  gets the listing or an error, one that has it lets go; the rest of the mount does anything else.
\<close>

definition same_flights :: "('w, 'i, 'd, 'b) mount \<Rightarrow> ('w, 'i, 'd, 'b) mount \<Rightarrow> bool" where
  "same_flights m m' \<longleftrightarrow>
     mo_flights m' = mo_flights m \<and> mo_cells m' = mo_cells m \<and> mo_next_cell m' = mo_next_cell m"

inductive reading ::
  "('w, 'i, 'd, 'b) mount_env \<Rightarrow> reader list \<Rightarrow> ('w, 'i, 'd, 'b) mount \<Rightarrow> reader list \<Rightarrow> ('w, 'i, 'd, 'b) mount \<Rightarrow> bool"
  for G where
  join: "join_flight (me_low G path) m = (cell, m') \<Longrightarrow> reading G rs m (Waiting path cell # rs) m'"
| fetch: "init_flight G path cell m = (r, m') \<Longrightarrow>
    reading G (as @ Waiting path cell # bs) m (as @ Leaving path cell (\<not> isl r) # bs) m'"
| leave: "leave_flight (me_low G path) cell ok m = ((), m') \<Longrightarrow>
    reading G (as @ Leaving path cell ok # bs) m (as @ bs) m'"
| others: "same_flights m m' \<Longrightarrow> reading G rs m rs m'"

definition cell_value :: "nat \<Rightarrow> ('w, 'i, 'd, 'b) mount \<Rightarrow> syno_file_info list option" where
  "cell_value cell m = Option.bind (map_of (mo_cells m) cell) fl_value"

definition holding_cell :: "nat \<Rightarrow> reader list \<Rightarrow> nat" where
  "holding_cell cell rs = length (filter (\<lambda>r. rd_cell r = cell) rs)"

definition flights_ok :: "(str \<Rightarrow> str) \<Rightarrow> reader list \<Rightarrow> ('w, 'i, 'd, 'b) mount \<Rightarrow> bool" where
  "flights_ok low rs m \<longleftrightarrow>
     (\<forall>key cell. map_of (mo_flights m) key = Some cell \<longrightarrow> (\<exists>r \<in> set rs. low (rd_path r) = key \<and> rd_cell r = cell)) \<and>
     (\<forall>r \<in> set rs. rd_cell r < mo_next_cell m \<and>
        map_option fl_holders (map_of (mo_cells m) (rd_cell r)) = Some (holding_cell (rd_cell r) rs)) \<and>
     (\<forall>r \<in> set rs. \<forall>r' \<in> set rs. rd_cell r = rd_cell r' \<longrightarrow> low (rd_path r) = low (rd_path r')) \<and>
     (\<forall>path cell. Waiting path cell \<in> set rs \<longrightarrow> cell_value cell m = None \<longrightarrow>
        map_of (mo_flights m) (low path) = Some cell) \<and>
     (\<forall>path cell. Leaving path cell True \<in> set rs \<longrightarrow> cell_value cell m \<noteq> None)"

lemma flights_okD:
  assumes "flights_ok low rs m"
  shows "map_of (mo_flights m) key = Some cell \<Longrightarrow> \<exists>r \<in> set rs. low (rd_path r) = key \<and> rd_cell r = cell"
    and "r \<in> set rs \<Longrightarrow> rd_cell r < mo_next_cell m"
    and "r \<in> set rs \<Longrightarrow> map_option fl_holders (map_of (mo_cells m) (rd_cell r)) = Some (holding_cell (rd_cell r) rs)"
    and "r \<in> set rs \<Longrightarrow> r' \<in> set rs \<Longrightarrow> rd_cell r = rd_cell r' \<Longrightarrow> low (rd_path r) = low (rd_path r')"
    and "Waiting path cell \<in> set rs \<Longrightarrow> cell_value cell m = None \<Longrightarrow> map_of (mo_flights m) (low path) = Some cell"
    and "Leaving path cell True \<in> set rs \<Longrightarrow> cell_value cell m \<noteq> None"
proof -
  note parts = assms [unfolded flights_ok_def]
  note rest = parts [THEN conjunct2] and rest2 = parts [THEN conjunct2, THEN conjunct2]
  note rest3 = rest2 [THEN conjunct2]
  show "\<exists>r \<in> set rs. low (rd_path r) = key \<and> rd_cell r = cell" if "map_of (mo_flights m) key = Some cell"
    by (rule parts [THEN conjunct1, rule_format, OF that])
  show "rd_cell r < mo_next_cell m" if "r \<in> set rs"
    by (rule rest [THEN conjunct1, THEN bspec, OF that, THEN conjunct1])
  show "map_option fl_holders (map_of (mo_cells m) (rd_cell r)) = Some (holding_cell (rd_cell r) rs)" if "r \<in> set rs"
    by (rule rest [THEN conjunct1, THEN bspec, OF that, THEN conjunct2])
  show "low (rd_path r) = low (rd_path r')" if "r \<in> set rs" "r' \<in> set rs" "rd_cell r = rd_cell r'"
    by (rule rest2 [THEN conjunct1, rule_format, OF that])
  show "map_of (mo_flights m) (low path) = Some cell" if "Waiting path cell \<in> set rs" "cell_value cell m = None"
    by (rule rest3 [THEN conjunct1, rule_format, OF that])
  show "cell_value cell m \<noteq> None" if "Leaving path cell True \<in> set rs"
    by (rule rest3 [THEN conjunct2, rule_format, OF that])
qed

lemma flights_okI:
  assumes "\<And>key cell. map_of (mo_flights m) key = Some cell \<Longrightarrow> \<exists>r \<in> set rs. low (rd_path r) = key \<and> rd_cell r = cell"
    and "\<And>r. r \<in> set rs \<Longrightarrow> rd_cell r < mo_next_cell m"
    and "\<And>r. r \<in> set rs \<Longrightarrow>
      map_option fl_holders (map_of (mo_cells m) (rd_cell r)) = Some (holding_cell (rd_cell r) rs)"
    and "\<And>r r'. r \<in> set rs \<Longrightarrow> r' \<in> set rs \<Longrightarrow> rd_cell r = rd_cell r' \<Longrightarrow> low (rd_path r) = low (rd_path r')"
    and "\<And>path cell. Waiting path cell \<in> set rs \<Longrightarrow> cell_value cell m = None \<Longrightarrow>
      map_of (mo_flights m) (low path) = Some cell"
    and "\<And>path cell. Leaving path cell True \<in> set rs \<Longrightarrow> cell_value cell m \<noteq> None"
  shows "flights_ok low rs m"
  unfolding flights_ok_def by (intro conjI allI impI ballI) (rule assms; assumption)+

lemma fetch_listing_flights: "same_flights m (snd (fetch_listing G path m))"
  by (simp add: same_flights_def fetch_listing_def effect_defs split: prod.splits sum.splits)

lemma joined:
  assumes "join_flight key m = (cell, m')"
  shows "(map_of (mo_flights m) key = Some cell \<and> mo_flights m' = mo_flights m \<and> mo_next_cell m' = mo_next_cell m \<and>
      mo_cells m' = AList.map_entry cell (\<lambda>f. f\<lparr>fl_holders := fl_holders f + 1\<rparr>) (mo_cells m)) \<or>
    (map_of (mo_flights m) key = None \<and> cell = mo_next_cell m \<and> mo_flights m' = AList.update key cell (mo_flights m) \<and>
      mo_next_cell m' = cell + 1 \<and> map_of (mo_cells m') = (map_of (mo_cells m))(cell \<mapsto> \<lparr>fl_value = None, fl_holders = 1\<rparr>))"
  using assms by (auto simp: join_flight_def Let_def map_of_map_entry update_conv' fun_eq_iff split: option.splits)

lemma join_ok:
  assumes ok: "flights_ok low rs m" and "join_flight (low path) m = (cell, m')"
  shows "flights_ok low (Waiting path cell # rs) m'"
  using joined [OF assms(2)]
proof (elim disjE conjE)
  assume f: "map_of (mo_flights m) (low path) = Some cell"
    and m': "mo_flights m' = mo_flights m" "mo_next_cell m' = mo_next_cell m"
      "mo_cells m' = AList.map_entry cell (\<lambda>f. f\<lparr>fl_holders := fl_holders f + 1\<rparr>) (mo_cells m)"
  obtain r0 where r0: "r0 \<in> set rs" "low (rd_path r0) = low path" "rd_cell r0 = cell"
    using flights_okD(1) [OF ok f] by blast
  have vals: "cell_value c m' = cell_value c m" for c
    by (auto simp: cell_value_def m'(3) map_of_map_entry split: option.splits)
  have holders: "map_option fl_holders (map_of (mo_cells m') c) =
      (if c = cell then map_option Suc (map_option fl_holders (map_of (mo_cells m) c)) else map_option fl_holders (map_of (mo_cells m) c))" for c
    by (auto simp: m'(3) map_of_map_entry split: option.splits)
  have key: "low (rd_path q) = low path" if "q \<in> set (Waiting path cell # rs)" "rd_cell q = cell" for q
    using flights_okD(4) [OF ok, of q r0] that r0 by (cases "q \<in> set rs") simp_all
  show ?thesis
  proof (rule flights_okI)
    show "\<exists>r \<in> set (Waiting path cell # rs). low (rd_path r) = k \<and> rd_cell r = c" if "map_of (mo_flights m') k = Some c" for k c
      using flights_okD(1) [OF ok, of k c] that by (auto simp: m'(1))
    show "rd_cell r < mo_next_cell m'" if "r \<in> set (Waiting path cell # rs)" for r
      using flights_okD(2) [OF ok] r0(1,3) that by (auto simp: m'(2))
    show "map_option fl_holders (map_of (mo_cells m') (rd_cell r)) = Some (holding_cell (rd_cell r) (Waiting path cell # rs))"
      if "r \<in> set (Waiting path cell # rs)" for r
      using flights_okD(3) [OF ok, of r] flights_okD(3) [OF ok r0(1)] r0(3) that
      by (auto simp: holders holding_cell_def)
    show "low (rd_path r) = low (rd_path r')"
      if "r \<in> set (Waiting path cell # rs)" "r' \<in> set (Waiting path cell # rs)" "rd_cell r = rd_cell r'" for r r'
      using key [OF that(1)] key [OF that(2)] flights_okD(4) [OF ok, of r r'] that by (cases "rd_cell r = cell") auto
    show "map_of (mo_flights m') (low p) = Some c"
      if "Waiting p c \<in> set (Waiting path cell # rs)" "cell_value c m' = None" for p c
      using flights_okD(5) [OF ok, of p c] that f by (auto simp: vals m'(1))
    show "cell_value c m' \<noteq> None" if "Leaving p c True \<in> set (Waiting path cell # rs)" for p c
      using flights_okD(6) [OF ok, of p c] that by (auto simp: vals)
  qed
next
  assume new: "map_of (mo_flights m) (low path) = None" "cell = mo_next_cell m"
    and m': "mo_flights m' = AList.update (low path) cell (mo_flights m)" "mo_next_cell m' = cell + 1"
      "map_of (mo_cells m') = (map_of (mo_cells m))(cell \<mapsto> \<lparr>fl_value = None, fl_holders = 1\<rparr>)"
  have fresh: "rd_cell r \<noteq> cell" if "r \<in> set rs" for r using flights_okD(2) [OF ok that] new(2) by simp
  then have none: "holding_cell cell rs = 0" by (simp add: holding_cell_def filter_empty_conv)
  have vals: "cell_value c m' = cell_value c m" if "c \<noteq> cell" for c using that by (simp add: cell_value_def m'(3))
  show ?thesis
  proof (rule flights_okI)
    show "\<exists>r \<in> set (Waiting path cell # rs). low (rd_path r) = k \<and> rd_cell r = c" if "map_of (mo_flights m') k = Some c" for k c
      using flights_okD(1) [OF ok, of k c] that by (auto simp: m'(1) update_conv' split: if_splits)
    show "rd_cell r < mo_next_cell m'" if "r \<in> set (Waiting path cell # rs)" for r
      using flights_okD(2) [OF ok, of r] that by (auto simp: m'(2) new(2))
    show "map_option fl_holders (map_of (mo_cells m') (rd_cell r)) = Some (holding_cell (rd_cell r) (Waiting path cell # rs))"
      if "r \<in> set (Waiting path cell # rs)" for r
      using flights_okD(3) [OF ok, of r] fresh [of r] none that by (auto simp: m'(3) holding_cell_def)
    show "low (rd_path r) = low (rd_path r')"
      if "r \<in> set (Waiting path cell # rs)" "r' \<in> set (Waiting path cell # rs)" "rd_cell r = rd_cell r'" for r r'
      using fresh [of r] fresh [of r'] flights_okD(4) [OF ok, of r r'] that by auto
    show "map_of (mo_flights m') (low p) = Some c"
      if "Waiting p c \<in> set (Waiting path cell # rs)" "cell_value c m' = None" for p c
    proof (cases "p = path \<and> c = cell")
      case False
      then have "Waiting p c \<in> set rs" using that(1) by auto
      then have "map_of (mo_flights m) (low p) = Some c"
        using flights_okD(5) [OF ok, of p c] fresh [of "Waiting p c"] vals [of c] that(2) by simp
      then show ?thesis using new(1) by (auto simp: m'(1) update_conv')
    qed (simp add: m'(1) update_conv')
    show "cell_value c m' \<noteq> None" if "Leaving p c True \<in> set (Waiting path cell # rs)" for p c
      using flights_okD(6) [OF ok, of p c] fresh [of "Leaving p c True"] vals [of c] that by auto
  qed
qed

lemma fetch_ok:
  assumes ok: "flights_ok low (as @ Waiting path cell # bs) m" and "init_flight G path cell m = (r, m')"
  shows "flights_ok low (as @ Leaving path cell (\<not> isl r) # bs) m'"
proof -
  let ?rs = "as @ Waiting path cell # bs" and ?rs' = "as @ Leaving path cell (\<not> isl r) # bs"
  have m': "mo_flights m' = mo_flights m" "mo_next_cell m' = mo_next_cell m"
    "\<And>c. map_option fl_holders (map_of (mo_cells m') c) = map_option fl_holders (map_of (mo_cells m) c)"
    "\<And>c. cell_value c m \<noteq> None \<Longrightarrow> cell_value c m' \<noteq> None"
    using assms(2) fetch_listing_flights [of m G path]
    by (auto simp: init_flight_def effect_defs same_flights_def cell_value_def map_of_map_entry
        split: option.splits sum.splits prod.splits)
  have "map_of (mo_cells m) cell \<noteq> None" using flights_okD(3) [OF ok, of "Waiting path cell"] by force
  then have got: "cell_value cell m' \<noteq> None" if "\<not> isl r"
    using assms(2) that fetch_listing_flights [of m G path]
    by (auto simp: init_flight_def effect_defs same_flights_def cell_value_def map_of_map_entry
        split: option.splits sum.splits prod.splits)
  have holds: "holding_cell c ?rs' = holding_cell c ?rs" for c by (simp add: holding_cell_def)
  have older: "\<exists>q' \<in> set ?rs. rd_path q' = rd_path q \<and> rd_cell q' = rd_cell q" if "q \<in> set ?rs'" for q using that by force
  show ?thesis
  proof (rule flights_okI)
    show "\<exists>q \<in> set ?rs'. low (rd_path q) = k \<and> rd_cell q = c" if "map_of (mo_flights m') k = Some c" for k c
      using flights_okD(1) [OF ok, of k c] that by (force simp: m'(1))
    show "rd_cell q < mo_next_cell m'" if "q \<in> set ?rs'" for q
      using older [OF that] flights_okD(2) [OF ok] unfolding m'(2) by metis
    show "map_option fl_holders (map_of (mo_cells m') (rd_cell q)) = Some (holding_cell (rd_cell q) ?rs')" if "q \<in> set ?rs'" for q
      using older [OF that] flights_okD(3) [OF ok] unfolding m'(3) holds by metis
    show "low (rd_path q) = low (rd_path q')" if "q \<in> set ?rs'" "q' \<in> set ?rs'" "rd_cell q = rd_cell q'" for q q'
      using older [OF that(1)] older [OF that(2)] flights_okD(4) [OF ok] that(3) by metis
    show "map_of (mo_flights m') (low p) = Some c" if "Waiting p c \<in> set ?rs'" "cell_value c m' = None" for p c
      using flights_okD(5) [OF ok, of p c] m'(4) [of c] that by (auto simp: m'(1))
    show "cell_value c m' \<noteq> None" if "Leaving p c True \<in> set ?rs'" for p c
      using flights_okD(6) [OF ok, of p c] m'(4) [of c] got that by auto
  qed
qed

lemma leave_flight_effects:
  assumes "leave_flight key cell ok m = ((), m')" and "map_option fl_holders (map_of (mo_cells m) cell) = Some n"
  shows "mo_next_cell m' = mo_next_cell m"
    and "map_of (mo_flights m') =
      (if map_of (mo_flights m) key = Some cell \<and> (ok \<or> n = 1 \<or> n = 0) then (map_of (mo_flights m))(key := None) else map_of (mo_flights m))"
    and "c \<noteq> cell \<Longrightarrow> map_of (mo_cells m') c = map_of (mo_cells m) c"
    and "2 \<le> n \<Longrightarrow> map_option fl_holders (map_of (mo_cells m') cell) = Some (n - 1)"
    and "2 \<le> n \<Longrightarrow> cell_value cell m' = cell_value cell m"
  using assms by (auto simp: leave_flight_def Let_def map_of_map_entry delete_conv' cell_value_def fun_eq_iff)

lemma leave_ok:
  assumes ok: "flights_ok low (as @ Leaving path cell b # bs) m" and run: "leave_flight (low path) cell b m = ((), m')"
  shows "flights_ok low (as @ bs) m'"
proof -
  let ?rs = "as @ Leaving path cell b # bs" and ?rs' = "as @ bs"
  let ?n = "holding_cell cell ?rs"
  have held: "map_option fl_holders (map_of (mo_cells m) cell) = Some ?n"
    using flights_okD(3) [OF ok, of "Leaving path cell b"] by simp
  note m' = leave_flight_effects [OF run held]
  have n: "?n = Suc (holding_cell cell ?rs')" by (simp add: holding_cell_def)
  have others: "holding_cell c ?rs = holding_cell c ?rs'" if "c \<noteq> cell" for c using that by (simp add: holding_cell_def)
  have sub: "q \<in> set ?rs" if "q \<in> set ?rs'" for q using that by auto
  have two: "2 \<le> ?n" if "q \<in> set ?rs'" "rd_cell q = cell" for q
  proof -
    have "q \<in> set (filter (\<lambda>r. rd_cell r = cell) ?rs')" using that by simp
    then have "0 < holding_cell cell ?rs'" unfolding holding_cell_def by (rule length_pos_if_in_set)
    then show ?thesis using n by simp
  qed
  have vals: "cell_value (rd_cell q) m' = cell_value (rd_cell q) m" if "q \<in> set ?rs'" for q
    using m'(3) [of "rd_cell q"] m'(5) two [OF that] by (cases "rd_cell q = cell") (simp_all add: cell_value_def)
  have key: "low (rd_path q) = low path" if "q \<in> set ?rs'" "rd_cell q = cell" for q
    using flights_okD(4) [OF ok sub [OF that(1)], of "Leaving path cell b"] that(2) by simp
  show ?thesis
  proof (rule flights_okI)
    show "\<exists>r \<in> set ?rs'. low (rd_path r) = k \<and> rd_cell r = c" if f: "map_of (mo_flights m') k = Some c" for k c
    proof -
      have old: "map_of (mo_flights m) k = Some c" using f by (auto simp: m'(2) split: if_splits)
      obtain r where r: "r \<in> set ?rs" "low (rd_path r) = k" "rd_cell r = c" using flights_okD(1) [OF ok old] by blast
      show ?thesis
      proof (cases "r \<in> set ?rs'")
        case False
        then have "r = Leaving path cell b" using r(1) by auto
        then have kc: "k = low path" "c = cell" using r(2,3) by simp_all
        then have "?n \<noteq> 1" using f old by (auto simp: m'(2) split: if_splits)
        then have "filter (\<lambda>r. rd_cell r = cell) ?rs' \<noteq> []" using n by (auto simp: holding_cell_def)
        then obtain q where q: "q \<in> set ?rs'" "rd_cell q = cell" by (auto simp: filter_empty_conv)
        then show ?thesis using key [OF q] kc by blast
      qed (use r in blast)
    qed
    show "rd_cell q < mo_next_cell m'" if "q \<in> set ?rs'" for q
      using flights_okD(2) [OF ok sub [OF that]] by (simp add: m'(1))
    show "map_option fl_holders (map_of (mo_cells m') (rd_cell q)) = Some (holding_cell (rd_cell q) ?rs')" if "q \<in> set ?rs'" for q
      using flights_okD(3) [OF ok sub [OF that]] m'(3) [of "rd_cell q"] m'(4) two [OF that] others [of "rd_cell q"] n
      by (cases "rd_cell q = cell") simp_all
    show "low (rd_path q) = low (rd_path q')" if "q \<in> set ?rs'" "q' \<in> set ?rs'" "rd_cell q = rd_cell q'" for q q'
      by (rule flights_okD(4) [OF ok sub [OF that(1)] sub [OF that(2)] that(3)])
    show "map_of (mo_flights m') (low p) = Some c" if w: "Waiting p c \<in> set ?rs'" "cell_value c m' = None" for p c
    proof -
      have none: "cell_value c m = None" using vals [OF w(1)] w(2) by simp
      have old: "map_of (mo_flights m) (low p) = Some c" by (rule flights_okD(5) [OF ok sub [OF w(1)] none])
      have "\<not> (b \<or> ?n = 1 \<or> ?n = 0)" if "c = cell"
        using that two [OF w(1)] flights_okD(6) [OF ok, of path cell] none by auto
      then show ?thesis using old by (auto simp: m'(2))
    qed
    show "cell_value c m' \<noteq> None" if "Leaving p c True \<in> set ?rs'" for p c
      using flights_okD(6) [OF ok sub [OF that]] vals [OF that] by simp
  qed
qed

lemma same_flights_ok: "same_flights m m' \<Longrightarrow> flights_ok low rs m \<Longrightarrow> flights_ok low rs m'"
  unfolding same_flights_def flights_ok_def cell_value_def by (elim conjE) (simp only: simp_thms)

inductive readings ::
  "('w, 'i, 'd, 'b) mount_env \<Rightarrow> ('w, 'i, 'd, 'b) mount \<Rightarrow> reader list \<Rightarrow> ('w, 'i, 'd, 'b) mount \<Rightarrow> bool" for G m0 where
  mounted: "mo_flights m0 = [] \<Longrightarrow> readings G m0 [] m0"
| stepped: "readings G m0 rs m \<Longrightarrow> reading G rs m rs' m' \<Longrightarrow> readings G m0 rs' m'"

lemma reading_ok: "reading G rs m rs' m' \<Longrightarrow> flights_ok (me_low G) rs m \<Longrightarrow> flights_ok (me_low G) rs' m'"
  by (induction rule: reading.induct) (auto intro: join_ok fetch_ok leave_ok same_flights_ok)

lemma readings_ok: "readings G m0 rs m \<Longrightarrow> flights_ok (me_low G) rs m"
  by (induction rule: readings.induct) (simp add: flights_ok_def, blast intro: reading_ok)

text \<open>
  C18. Readers of a directory share one fetch. Whatever readers do and in whatever order, two that
  wait for a listing not fetched yet, of directories the mount takes for one (their names may
  differ in case), wait for the same cell; and once no reader is left, no flight is kept.
\<close>

theorem listing_is_fetched_once:
  assumes "readings G m0 rs m"
  shows "(Waiting path cell \<in> set rs \<and> Waiting path' cell' \<in> set rs \<and> me_low G path = me_low G path' \<and>
      cell_value cell m = None \<and> cell_value cell' m = None \<longrightarrow> cell = cell') \<and>
    (rs = [] \<longrightarrow> map_of (mo_flights m) key = None)"
proof -
  note ok = readings_ok [OF assms]
  have "cell = cell'" if "Waiting path cell \<in> set rs" "Waiting path' cell' \<in> set rs" "me_low G path = me_low G path'"
      "cell_value cell m = None" "cell_value cell' m = None"
    using flights_okD(5) [OF ok that(1,4)] flights_okD(5) [OF ok that(2,5)] unfolding that(3) by simp
  moreover have "map_of (mo_flights m) key = None" if "rs = []"
    using flights_okD(1) [OF ok, of key] that by (cases "map_of (mo_flights m) key") auto
  ultimately show ?thesis by blast
qed

definition listing_mount :: script_mount where
  "listing_mount = mount_over (script_client [])"

theorem listing_is_fetched_once_witness:
  "\<exists>cell m m'. readings quiet_mount_env listing_mount [Waiting [47, 65] cell, Waiting [47, 97] cell] m \<and>
     readings quiet_mount_env listing_mount [] m' \<and> map_of (mo_flights m') [47, 97] = None"
proof -
  let ?G = "quiet_mount_env"
  obtain c m1 where one: "join_flight (me_low ?G [47, 97]) listing_mount = (c, m1)" by fastforce
  obtain c' m2 where two: "join_flight (me_low ?G [47, 65]) m1 = (c', m2)" by fastforce
  have start: "readings ?G listing_mount [] listing_mount"
    by (rule mounted) (simp add: listing_mount_def mount_over_def mount_new_def)
  have r1: "readings ?G listing_mount [Waiting [47, 97] c] m1" by (rule stepped [OF start join [OF one]])
  have r2: "readings ?G listing_mount [Waiting [47, 65] c', Waiting [47, 97] c] m2" by (rule stepped [OF r1 join [OF two]])
  have low: "me_low ?G [47, 65] = me_low ?G [47, 97]" by (simp add: quiet_mount_env_def to_ascii_lowercase_def to_ascii_lower_def)
  have none: "cell_value c m2 = None" "cell_value c' m2 = None"
    using one two unfolding low by (auto simp: join_flight_def listing_mount_def mount_over_def mount_new_def cell_value_def Let_def)
  have same: "c' = c" using listing_is_fetched_once [OF r2, of "[47, 65]" c' "[47, 97]" c] low none by simp
  obtain r m3 where three: "init_flight ?G [47, 97] c m1 = (r, m3)" by fastforce
  obtain m4 where four: "leave_flight (me_low ?G [47, 97]) c (\<not> isl r) m3 = ((), m4)"
    by (cases "leave_flight (me_low ?G [47, 97]) c (\<not> isl r) m3") simp
  have r3: "readings ?G listing_mount [Leaving [47, 97] c (\<not> isl r)] m3"
    using stepped [OF r1, of "[] @ Leaving [47, 97] c (\<not> isl r) # []"] fetch [OF three, of "[]" "[]"] by simp
  have r4: "readings ?G listing_mount [] m4"
    using stepped [OF r3, of "[] @ []"] leave [OF four, of "[]" "[]"] by simp
  show ?thesis using r2 r4 listing_is_fetched_once [OF r4] same by blast
qed

section \<open>One pass over a directory\<close>

definition listed :: "snapshot \<Rightarrow> (file_kind \<times> str) list" where
  "listed sn = (Directory, lit ''.'') # (Directory, lit ''..'') #
     map (\<lambda>info. (if fi_isdir info then Directory else RegularFile, fi_name info)) (sn_listing sn)"

definition shown :: "dir_entry list \<Rightarrow> (file_kind \<times> str) list" where
  "shown = map (\<lambda>e. (de_kind e, de_name e))"

text \<open>A call takes at least one entry.\<close>

definition takes_one :: "(dir_entry list \<Rightarrow> dir_entry \<Rightarrow> bool) \<Rightarrow> bool" where
  "takes_one full \<longleftrightarrow> (\<forall>e. \<not> full [] e)"

text \<open>The kernel's calls: each goes on after the last entry it was given.\<close>

fun readdir_pass ::
  "('w, 'i, 'd, 'b) mount_env \<Rightarrow> u64 \<Rightarrow> u64 \<Rightarrow> (dir_entry list \<Rightarrow> dir_entry \<Rightarrow> bool) list \<Rightarrow> u64 \<Rightarrow>
     ('w, 'i, 'd, 'b, fuse_errno + dir_entry list) mount_op" where
  "readdir_pass G ino fh [] offset = give (Inr [])"
| "readdir_pass G ino fh (full # fulls) offset =
     try_op (mount_readdir G full ino fh offset) (\<lambda>es.
     try_op (readdir_pass G ino fh fulls (offset + of_nat (length es))) (\<lambda>rest. give (Inr (es @ rest))))"

lemma length_listed: "length (listed sn) = snapshot_len sn"
  by (simp add: listed_def snapshot_len_def)

lemma snapshot_entry_listed:
  assumes "snapshot_entry G sn i m = (r, m')" and "i < snapshot_len sn"
  shows "\<exists>e. r = Some e \<and> (de_kind e, de_name e) = listed sn ! i \<and> mo_dir_handles m' = mo_dir_handles m"
proof (cases "i = 0 \<or> i = 1")
  case True
  then show ?thesis using assms(1) by (auto simp: snapshot_entry_def listed_def effect_defs)
next
  case False
  then obtain j where j: "i = Suc (Suc j)" by (cases i; cases "i - 1") auto
  then have "j < length (sn_listing sn)" using assms(2) by (simp add: snapshot_len_def)
  then show ?thesis using assms(1) j by (auto simp: snapshot_entry_def listed_def effect_defs split: prod.splits)
qed

lemma readdir_entries_listed:
  assumes "readdir_entries G full sn [i..<snapshot_len sn] taken m = (es, m')"
  shows "\<exists>new. es = taken @ new \<and> shown new = take (length new) (drop i (listed sn)) \<and>
    mo_dir_handles m' = mo_dir_handles m \<and> (i < snapshot_len sn \<longrightarrow> (\<forall>e. \<not> full taken e) \<longrightarrow> new \<noteq> [])"
  using assms
proof (induction "snapshot_len sn - i" arbitrary: i taken m)
  case 0
  then show ?case by (simp add: give_def shown_def)
next
  case (Suc n)
  then have i: "i < snapshot_len sn" by simp
  obtain r m1 where r: "snapshot_entry G sn i m = (r, m1)" by fastforce
  obtain e where e: "r = Some e" "(de_kind e, de_name e) = listed sn ! i" "mo_dir_handles m1 = mo_dir_handles m"
    using snapshot_entry_listed [OF r i] by blast
  have idx: "[i..<snapshot_len sn] = i # [Suc i..<snapshot_len sn]" using i by (rule upt_conv_Cons)
  have run: "(if full taken e then give taken else readdir_entries G full sn [Suc i..<snapshot_len sn] (taken @ [e])) m1 = (es, m')"
    using Suc.prems r e(1) unfolding idx by (simp add: let_op_def)
  show ?case
  proof (cases "full taken e")
    case True
    then show ?thesis using run e(3) by (auto simp: give_def shown_def)
  next
    case False
    have "n = snapshot_len sn - Suc i" using Suc.hyps(2) by simp
    then obtain new where new: "es = (taken @ [e]) @ new" "shown new = take (length new) (drop (Suc i) (listed sn))"
        "mo_dir_handles m' = mo_dir_handles m1"
      using Suc.hyps(1) [of "Suc i" "taken @ [e]" m1] run False by auto
    have "shown (e # new) = take (length (e # new)) (drop i (listed sn))"
      using new(2) e(2) i by (simp add: shown_def length_listed Cons_nth_drop_Suc [of i "listed sn", symmetric])
    then show ?thesis using new(1,3) e(3) by (intro exI [of _ "e # new"]) simp
  qed
qed

lemma flight_handles:
  "mo_dir_handles (snd (join_flight key m)) = mo_dir_handles m"
  "mo_dir_handles (snd (fetch_listing G path m)) = mo_dir_handles m"
  "mo_dir_handles (snd (leave_flight key cell ok m)) = mo_dir_handles m"
  by (simp_all add: join_flight_def leave_flight_def fetch_listing_def effect_defs split: prod.splits sum.splits option.splits)

lemma init_flight_handles: "mo_dir_handles (snd (init_flight G path cell m)) = mo_dir_handles m"
  using flight_handles(2) [of G path m]
  by (auto simp: init_flight_def let_op_def get_op_def try_op_def set_op_def give_def split: prod.splits sum.splits option.splits)

lemma lister_get_handles: "mo_dir_handles (snd (lister_get G path m)) = mo_dir_handles m"
proof -
  obtain cached m1 where one: "on_dir_cache (dir_get (me_listings G) (me_low G) path) m = (cached, m1)" by fastforce
  obtain cell m2 where two: "join_flight (me_low G path) m1 = (cell, m2)" by fastforce
  obtain r m3 where three: "init_flight G path cell m2 = (r, m3)" by fastforce
  obtain m4 where four: "leave_flight (me_low G path) cell (\<not> isl r) m3 = ((), m4)"
    by (cases "leave_flight (me_low G path) cell (\<not> isl r) m3") simp
  have "mo_dir_handles m1 = mo_dir_handles m" using one by (auto simp: on_dir_cache_def split: prod.splits)
  then show ?thesis
    using one two three four flight_handles(1) [of "me_low G path" m1] init_flight_handles [of G path cell m2]
      flight_handles(3) [of "me_low G path" cell "\<not> isl r" m3]
    by (simp add: lister_get_def let_op_def give_def split: option.splits)
qed

lemma snapshot_new_handles: "mo_dir_handles (snd (snapshot_new G ino path listing m)) = mo_dir_handles m"
  by (simp add: snapshot_new_def effect_defs split: prod.splits option.splits)

lemma fetch_snapshot_kept:
  assumes "fetch_snapshot G fh ino path m = (Inr sn, m')" and "fh \<in> fst ` set (mo_dir_handles m)"
  shows "kept_snapshot fh m' = Some sn \<and> fh \<in> fst ` set (mo_dir_handles m')"
proof -
  obtain listing m1 where one: "lister_get G path m = (Inr listing, m1)"
    using assms(1) by (auto simp: fetch_snapshot_def try_op_def let_op_def give_def split: prod.splits sum.splits)
  obtain m2 where m2: "snapshot_new G ino path listing m1 = (sn, m2)"
      "m' = m2\<lparr>mo_dir_handles := AList.map_entry fh (\<lambda>_. Some sn) (mo_dir_handles m2)\<rparr>"
    using assms(1) one by (auto simp: fetch_snapshot_def try_op_def let_op_def give_def set_op_def split: prod.splits)
  have "mo_dir_handles m2 = mo_dir_handles m"
    using lister_get_handles [of G path m] snapshot_new_handles [of G ino path listing m1] one m2(1) by simp
  moreover obtain v where "map_of (mo_dir_handles m) fh = Some v"
    using assms(2) by (cases "map_of (mo_dir_handles m) fh") (auto simp: map_of_eq_None_iff)
  ultimately show ?thesis using assms(2) m2(2) by (simp add: kept_snapshot_def map_of_map_entry dom_map_entry)
qed

text \<open>A call that goes on reads the snapshot the handle keeps; the first one puts it there.\<close>

lemma mount_readdir_listed:
  assumes run: "mount_readdir G full ino fh offset m = (Inr es, m')"
    and handle: "fh \<in> fst ` set (mo_dir_handles m)"
    and going_on: "0 < offset \<Longrightarrow> kept_snapshot fh m = Some sn"
  obtains sn' where "kept_snapshot fh m' = Some sn'" and "0 < offset \<Longrightarrow> sn' = sn"
    and "fh \<in> fst ` set (mo_dir_handles m')"
    and "shown es = take (length es) (drop (unat offset) (listed sn'))"
    and "unat offset < snapshot_len sn' \<longrightarrow> (\<forall>e. \<not> full [] e) \<longrightarrow> es \<noteq> []"
proof -
  obtain path m1 where path: "mount_path_for_ino G ino m = (Some path, m1)" "mo_dir_handles m1 = mo_dir_handles m"
    using run by (auto simp: mount_readdir_def let_op_def mount_path_for_ino_def on_cache_def give_def
        split: prod.splits option.splits)
  obtain sn' m2 where start: "start_readdir G fh ino path offset m1 = (Inr sn', m2)"
    and entries: "readdir_entries G full sn' [unat offset..<snapshot_len sn'] [] m2 = (es, m')"
    using run path(1) by (auto simp: mount_readdir_def let_op_def give_def split: prod.splits sum.splits)
  note listed = readdir_entries_listed [OF entries]
  have kept: "kept_snapshot fh m2 = Some sn' \<and> (0 < offset \<longrightarrow> sn' = sn) \<and> fh \<in> fst ` set (mo_dir_handles m2)"
  proof (cases "0 < offset")
    case True
    then have "kept_snapshot fh m1 = Some sn" using going_on path(2) by (simp add: kept_snapshot_def)
    then show ?thesis using start True handle path(2) by (simp add: start_readdir_def let_op_def get_op_def give_def)
  next
    case False
    then have "fetch_snapshot G fh ino path m1 = (Inr sn', m2)"
      using start by (auto simp: start_readdir_def let_op_def get_op_def split: option.splits)
    then show ?thesis using False handle path(2) fetch_snapshot_kept by fastforce
  qed
  then show ?thesis using listed that [of sn'] by (auto simp: kept_snapshot_def)
qed

lemma pass_goes_on:
  assumes "readdir_pass G ino fh fulls offset m = (Inr es, m')" and "fh \<in> fst ` set (mo_dir_handles m)"
    and "0 < offset" and "kept_snapshot fh m = Some sn" and "snapshot_len sn < 2 ^ 64" and "unat offset \<le> snapshot_len sn"
    and "list_all takes_one fulls"
  shows "kept_snapshot fh m' = Some sn \<and> shown es = take (length es) (drop (unat offset) (listed sn)) \<and>
    min (length fulls) (snapshot_len sn - unat offset) \<le> length es"
  using assms
proof (induction fulls arbitrary: offset m es)
  case Nil
  then show ?case by (simp add: give_def shown_def)
next
  case (Cons full fulls)
  obtain es1 m1 where one: "mount_readdir G full ino fh offset m = (Inr es1, m1)"
    using Cons.prems(1) by (auto simp: try_op_def split: prod.splits sum.splits)
  obtain es2 where two: "readdir_pass G ino fh fulls (offset + of_nat (length es1)) m1 = (Inr es2, m')"
      and es: "es = es1 @ es2"
    using Cons.prems(1) one by (auto simp: try_op_def give_def split: prod.splits sum.splits)
  obtain sn' where sn': "kept_snapshot fh m1 = Some sn'" "0 < offset \<Longrightarrow> sn' = sn" "fh \<in> fst ` set (mo_dir_handles m1)"
    "shown es1 = take (length es1) (drop (unat offset) (listed sn'))"
    "unat offset < snapshot_len sn' \<longrightarrow> (\<forall>e. \<not> full [] e) \<longrightarrow> es1 \<noteq> []"
    using mount_readdir_listed [OF one Cons.prems(2), of sn] Cons.prems(4) by metis
  have same: "sn' = sn" by (rule sn'(2) [OF Cons.prems(3)])
  have "length es1 = length (shown es1)" by (simp add: shown_def)
  also have "\<dots> \<le> snapshot_len sn - unat offset" unfolding sn'(4) same by (simp add: length_listed)
  finally have fits: "length es1 + unat offset \<le> snapshot_len sn" using Cons.prems(6) by simp
  have off: "unat (offset + of_nat (length es1)) = unat offset + length es1"
    using fits Cons.prems(5) by (simp add: unat_word_ariths unat_of_nat)
  have more: "0 < offset + of_nat (length es1)"
    using off Cons.prems(3) by (simp add: word_less_nat_alt)
  have IH: "kept_snapshot fh m' = Some sn \<and> shown es2 = take (length es2) (drop (unat offset + length es1) (listed sn)) \<and>
      min (length fulls) (snapshot_len sn - (unat offset + length es1)) \<le> length es2"
    using Cons.IH [OF two sn'(3) more sn'(1) [unfolded same] Cons.prems(5)] fits Cons.prems(7) unfolding off by simp
  have "shown es = take (length es1) (drop (unat offset) (listed sn)) @
      take (length es2) (drop (length es1) (drop (unat offset) (listed sn)))"
    using IH sn'(4) same by (simp add: es shown_def add.commute)
  then have "shown es = take (length es) (drop (unat offset) (listed sn))"
    by (simp add: es take_add)
  moreover have "unat offset < snapshot_len sn \<Longrightarrow> 1 \<le> length es1"
    using sn'(5) same Cons.prems(7) by (cases es1) (auto simp: takes_one_def)
  then have "min (length (full # fulls)) (snapshot_len sn - unat offset) \<le> length es"
    using IH fits by (cases "unat offset < snapshot_len sn") (simp_all add: es, linarith)
  ultimately show ?case using IH by blast
qed

text \<open>
  C17. A pass over an open directory, however many calls the kernel makes of it and however much it
  takes of each, hands over the directory, its parent and then the entries of one listing: each
  once, in the listing's order, and all of them once the calls are enough. The kernel takes at least
  one entry a call; a listing of \<open>2^64\<close> entries is out of reach.
\<close>

theorem directory_pass_is_complete:
  assumes "mount_readdir G full ino fh 0 m = (Inr es, m1)" and "fh \<in> fst ` set (mo_dir_handles m)"
    and "kept_snapshot fh m1 = Some sn" and "snapshot_len sn < 2 ^ 64"
    and "readdir_pass G ino fh fulls (of_nat (length es)) m1 = (Inr es', m')"
    and "list_all takes_one (full # fulls)"
  shows "shown (es @ es') = take (length (es @ es')) (listed sn) \<and>
    (snapshot_len sn \<le> length (full # fulls) \<longrightarrow> shown (es @ es') = listed sn)"
proof -
  have sn: "fh \<in> fst ` set (mo_dir_handles m1)" "shown es = take (length es) (listed sn)"
    "0 < snapshot_len sn \<longrightarrow> (\<forall>e. \<not> full [] e) \<longrightarrow> es \<noteq> []"
    by (rule mount_readdir_listed [OF assms(1,2)]; use assms(3) in simp)+
  have some: "es \<noteq> []" using sn(3) assms(6) by (simp add: snapshot_len_def takes_one_def)
  have "length es = length (shown es)" by (simp add: shown_def)
  also have "\<dots> \<le> snapshot_len sn" unfolding sn(2) by (simp add: length_listed)
  finally have fits: "length es \<le> snapshot_len sn" .
  have off: "unat (of_nat (length es) :: u64) = length es" using fits assms(4) by (simp add: unat_of_nat)
  have more: "0 < (of_nat (length es) :: u64)" using off some by (simp add: word_less_nat_alt)
  have rest: "shown es' = take (length es') (drop (length es) (listed sn))"
      "min (length fulls) (snapshot_len sn - length es) \<le> length es'"
    using pass_goes_on [OF assms(5) sn(1) more assms(3,4)] fits assms(6) unfolding off by simp_all
  have given: "shown (es @ es') = take (length (es @ es')) (listed sn)" using sn(2) rest(1) by (simp add: shown_def take_add)
  moreover have "snapshot_len sn \<le> length (es @ es')" if "snapshot_len sn \<le> length (full # fulls)"
    using that rest(2) some fits by (cases es) auto
  ultimately show ?thesis by (auto simp: length_listed)
qed

text \<open>A mount with one directory open, whose listing is cached; the kernel takes two entries a call.\<close>

definition pass_mount :: script_mount where
  "pass_mount =
     (let c = mount_over (script_client [])
      in c\<lparr>mo_cache := inode_insert bounded_moka to_ascii_lowercase 2 (plain_info [47, 97]) (mo_cache c),
           mo_dir_cache := snd (dir_insert bounded_moka to_ascii_lowercase [47, 97] [plain_info [47, 97, 47, 98]] (mo_dir_cache c)),
           mo_dir_handles := [(7, None)]\<rparr>)"

definition two_at_a_time :: "dir_entry list \<Rightarrow> dir_entry \<Rightarrow> bool" where
  "two_at_a_time taken e \<longleftrightarrow> length taken = 2"

lemmas readdir_defs =
  mount_readdir_def start_readdir_def kept_snapshot_def fetch_snapshot_def lister_get_def snapshot_new_def
  snapshot_len_def snapshot_entry_def two_at_a_time_def effect_defs script_mount_defs pass_mount_def
  get_or_alloc_ino_def inode_insert_def dir_insert_def dir_get_def mount_path_for_ino_def get_path_for_ino_def
  get_by_ino_def upt_rec to_ascii_lowercase_def to_ascii_lower_def rfind_slash_def VIRTUAL_ROOT_PATH_def plain_info_def

theorem directory_pass_is_complete_witness:
  "\<exists>es es' m1 m' sn. mount_readdir quiet_mount_env two_at_a_time 2 7 0 pass_mount = (Inr es, m1) \<and>
     readdir_pass quiet_mount_env 2 7 [two_at_a_time, two_at_a_time] (of_nat (length es)) m1 = (Inr es', m') \<and>
     snapshot_len sn = 3 \<and> shown (es @ es') = listed sn"
proof -
  let ?G = quiet_mount_env
  let ?sn = "\<lparr>sn_listing = [plain_info [47, 97, 47, 98]], sn_ino = 2, sn_parent_ino = ROOT_INO\<rparr>"
  let ?first = "mount_readdir ?G two_at_a_time 2 7 0 pass_mount"
  have "map_prod (map_sum id length) (kept_snapshot 7) ?first = (Inr 2, Some ?sn)"
    by (simp add: readdir_defs)
  then obtain es m1 where run: "?first = (Inr es, m1)" "length es = 2" "kept_snapshot 7 m1 = Some ?sn"
    by (cases ?first; cases "fst ?first") auto
  obtain r m' where rest0: "readdir_pass ?G 2 7 [two_at_a_time, two_at_a_time] 2 m1 = (r, m')" by fastforce
  have "\<not> isl (fst (readdir_pass ?G 2 7 [two_at_a_time, two_at_a_time] 2 (snd ?first)))"
    by (simp add: readdir_defs)
  then have "\<not> isl r" by (simp only: run(1) rest0 fst_conv snd_conv not_False_eq_True)
  then obtain es' where "r = Inr es'" by (cases r) simp_all
  then have rest: "readdir_pass ?G 2 7 [two_at_a_time, two_at_a_time] (of_nat (length es)) m1 = (Inr es', m')"
    using rest0 by (simp only: run(2) of_nat_numeral)
  have "7 \<in> fst ` set (mo_dir_handles pass_mount)" by (simp add: pass_mount_def Let_def)
  then have "shown (es @ es') = listed ?sn"
    using directory_pass_is_complete [OF run(1) _ run(3) _ rest, THEN conjunct2]
    by (simp add: snapshot_len_def takes_one_def two_at_a_time_def)
  then show ?thesis using run(1) rest by (intro exI [of _ es] exI [of _ es'] exI [of _ m1] exI [of _ m'] exI [of _ ?sn]) (simp add: snapshot_len_def)
qed

end
