(* ===== verification/Walks_Props.thy ===== *)
theory Walks_Props
  imports Walks
begin

text \<open>
  What the watcher counts is what is open, it says of every walk that it started and that it ended,
  and it signals nothing but the process it saw walking.
\<close>

section \<open>The invariant\<close>

definition handles_of :: "u32 \<Rightarrow> inner \<Rightarrow> nat" where
  "handles_of pid s = length (filter (\<lambda>(_, p). p = pid) (in_handles s))"

definition open_count :: "u32 \<Rightarrow> inner \<Rightarrow> nat" where
  "open_count pid s = (case map_of (in_tracks s) pid of Some t \<Rightarrow> tk_open t | None \<Rightarrow> 0)"

definition reported_now :: "u32 \<Rightarrow> inner \<Rightarrow> bool" where
  "reported_now pid s \<longleftrightarrow> (case map_of (in_tracks s) pid of Some t \<Rightarrow> tk_reported t | None \<Rightarrow> False)"

definition walks_ok :: "walks_core \<Rightarrow> inner \<Rightarrow> bool" where
  "walks_ok C s \<longleftrightarrow>
     distinct (map fst (in_handles s)) \<and> distinct (map fst (in_tracks s)) \<and>
     wc_own C \<notin> fst ` set (in_tracks s) \<and> (\<forall>pid. handles_of pid s = open_count pid s)"

text \<open>How often a log says that a process started, or stopped, walking.\<close>

fun starts :: "u32 \<Rightarrow> walk_news list \<Rightarrow> nat" where
  "starts pid [] = 0"
| "starts pid (Started p # news) = (if pr_pid p = pid then 1 else 0) + starts pid news"
| "starts pid (Stopped w # news) = starts pid news"

fun stops :: "u32 \<Rightarrow> walk_news list \<Rightarrow> nat" where
  "stops pid [] = 0"
| "stops pid (Stopped w # news) = (if wk_pid w = pid then 1 else 0) + stops pid news"
| "stops pid (Started p # news) = stops pid news"

lemma news_append [simp]:
  "starts pid (xs @ ys) = starts pid xs + starts pid ys" "stops pid (xs @ ys) = stops pid xs + stops pid ys"
  by (induction xs rule: starts.induct) simp_all

definition balanced :: "inner \<Rightarrow> walk_news list \<Rightarrow> inner \<Rightarrow> bool" where
  "balanced s news s' \<longleftrightarrow>
     (\<forall>pid. starts pid news + of_bool (reported_now pid s) = stops pid news + of_bool (reported_now pid s'))"


text \<open>A step that keeps the invariant and whose news account for what is reported.\<close>

definition accounted :: "walks_core \<Rightarrow> inner \<Rightarrow> walk_news list \<Rightarrow> inner \<Rightarrow> bool" where
  "accounted C s news s' \<longleftrightarrow> walks_ok C s \<longrightarrow> walks_ok C s' \<and> balanced s news s'"


lemma accounted_none [simp]: "accounted C s [] s"
  by (simp add: accounted_def balanced_def)

section \<open>Sweeping\<close>






section \<open>Announcing, opening, closing\<close>






lemma map_of_some_key: "map_of al k = Some v \<Longrightarrow> k \<in> fst ` set al"
  by (metis domI dom_map_of_conv_image_fst)


lemma distinct_tracks_update: "distinct (map fst al) \<Longrightarrow> distinct (map fst (AList.update k v al))"
  by (simp add: distinct_update)












section \<open>Runs of the watcher\<close>

text \<open>
  What may happen to the watcher, and what it says of it: a directory is opened under a handle that
  is not open, or closed; it sweeps; somebody has a walker stopped. \<open>log\<close> is what it has said.
\<close>

inductive watched ::
  "'w procs \<Rightarrow> walks_core \<Rightarrow> walk_news list \<Rightarrow> inner \<Rightarrow> 'w \<Rightarrow> walk_news list \<Rightarrow> inner \<Rightarrow> 'w \<Rightarrow> bool"
  for P C where
  watch_open: "fh \<notin> fst ` set (in_handles s) \<Longrightarrow> tid \<noteq> 0 \<Longrightarrow>
    open_news P C fh tid path tm (s, w) = (r, news, s1, w1) \<Longrightarrow>
    announce_walks P C news tm (s1, w1) = (ws, s', w') \<Longrightarrow> watched P C log s w (log @ news) s' w'"
| watch_close: "watched P C log s w log (walks_released fh s) w"
| watch_tick: "prune C tm force s = (news, s1) \<Longrightarrow> announce_walks P C news tm (s1, w) = (ws, s', w') \<Longrightarrow>
    watched P C log s w (log @ news) s' w'"
| watch_stop: "forget_gone C p s = (news, s1) \<Longrightarrow> announce_walks P C news tm (s1, w) = (ws, s', w') \<Longrightarrow>
    watched P C log s w (log @ news) s' w'"
| watch_world: "watched P C log s w log s w'"







text \<open>Every turn of the watcher's thread and every request to stop a walker is such a run.\<close>

lemma turns_are_watched:
  assumes "walks_turn clock P C e (s, w) = (s', w')"
    and "\<forall>fh tid path at. e = Some (Opened fh tid path at) \<longrightarrow> fh \<notin> fst ` set (in_handles s)"
  shows "\<exists>log' w0. watched P C log s w0 log' s' w'"
proof (cases e)
  case None
  then show ?thesis
    using assms(1) by (auto simp: walks_turn_def tick_def split: prod.splits) (metis snd_conv surj_pair watch_tick)
next
  case (Some ev)
  show ?thesis
  proof (cases ev)
    case (Opened fh tid path at)
    then show ?thesis
      using assms Some
      by (cases "tid = 0") (auto simp: walks_turn_def opened_at_def split: prod.splits
          intro: watch_world dest: watch_open [rotated 2])
  next
    case (Released fh)
    then show ?thesis using assms(1) Some by (auto simp: walks_turn_def intro: watch_close)
  qed
qed

lemma stop_is_watched:
  assumes "stop_at P C pid tm (s, w) = (r, s', w')"
  shows "\<exists>log' w0. watched P C log s w0 log' s' w'"
  using assms
  by (auto simp: stop_at_def Let_def split: option.splits if_splits prod.splits sum.splits kill_error.splits
      intro: watch_world) (metis snd_conv surj_pair watch_stop)

text \<open>
  What only a signal changes. Reading \<open>/proc\<close>, opening a descriptor of a process and closing it send
  none, so an observation of the signals sent stays as it is through everything but
  \<open>pidfd_send_signal\<close>.
\<close>

definition only_signals_show :: "'w proc_files \<Rightarrow> ('w \<Rightarrow> 'x) \<Rightarrow> bool" where
  "only_signals_show F signals \<longleftrightarrow>
     (\<forall>path w. signals (snd (pf_read_to_string F path w)) = signals w) \<and>
     (\<forall>path w. signals (snd (pf_read F path w)) = signals w) \<and>
     (\<forall>pid w. signals (snd (pf_pidfd_open F pid w)) = signals w) \<and>
     (\<forall>fd w. signals (snd (pf_close F fd w)) = signals w)"

lemma signals_of_opened:
  "only_signals_show F signals \<Longrightarrow> pf_pidfd_open F pid w = (r, w') \<Longrightarrow> signals w' = signals w"
  by (metis only_signals_show_def snd_conv)

lemma signals_of_closed: "only_signals_show F signals \<Longrightarrow> signals (snd (pf_close F fd w)) = signals w"
  by (simp add: only_signals_show_def)

lemma signals_of_started:
  assumes "only_signals_show F signals" "started F pid w = (r, w')"
  shows "signals w' = signals w"
proof -
  have "w' = snd (pf_read_to_string F (proc_path pid (lit ''stat'')) w)"
    using assms(2) by (auto simp: started_def let_op_def give_def split: prod.splits)
  then show ?thesis using assms(1) by (simp add: only_signals_show_def)
qed

text \<open>A signal goes out only behind the check of the start time; success is that it was sent.\<close>

definition signalled :: "'w proc_files \<Rightarrow> ('w \<Rightarrow> 'x) \<Rightarrow> proc_id \<Rightarrow> kill_error + unit \<Rightarrow> 'w \<Rightarrow> 'w \<Rightarrow> bool" where
  "signalled F signals p r w w' \<longleftrightarrow>
     (\<exists>fd w1 w2 sent w3. pf_pidfd_open F (pr_pid p) w = (Inr fd, w1) \<and>
        started F (pr_pid p) w1 = (Some (pr_started p), w2) \<and> pf_pidfd_terminate F fd w2 = (sent, w3) \<and>
        signals w' = signals w3 \<and> (r = Inr () \<longrightarrow> sent = Inr ()))"

lemma terminate_signals:
  assumes quiet: "only_signals_show F signals" and ran: "terminate F p w = (r, w')"
  shows "signalled F signals p r w w' \<or> signals w' = signals w \<and> r \<noteq> Inr ()"
proof (cases "unat (pr_pid p) \<ge> 2 ^ 31")
  case False
  obtain opened w1 where o: "pf_pidfd_open F (pr_pid p) w = (opened, w1)" by fastforce
  note n1 = signals_of_opened [OF quiet o]
  show ?thesis
  proof (cases opened)
    case (Inl e)
    with ran False o n1 show ?thesis by (auto simp: terminate_def let_op_def give_def)
  next
    case (Inr fd)
    obtain found w2 where f: "started F (pr_pid p) w1 = (found, w2)" by fastforce
    note n2 = signals_of_started [OF quiet f]
    show ?thesis
    proof (cases "found = Some (pr_started p)")
      case True
      obtain sent w3 where t: "pf_pidfd_terminate F fd w2 = (sent, w3)" by fastforce
      have r: "r = map_err kill_of sent" "w' = snd (pf_close F fd w3)"
        using ran False o Inr f True t by (auto simp: terminate_def let_op_def give_def split: prod.splits)
      have "signals w' = signals w3" unfolding r(2) by (rule signals_of_closed [OF quiet])
      moreover have "r = Inr () \<longrightarrow> sent = Inr ()" using r(1) by (auto simp: map_err_def split: sum.splits)
      ultimately show ?thesis using o f t Inr True unfolding signalled_def by blast
    next
      case other: False
      then have "r = Inl KillNotFound" "w' = snd (pf_close F fd w2)"
        using ran False o Inr f by (auto simp: terminate_def let_op_def give_def split: prod.splits)
      with n1 n2 show ?thesis by (simp add: signals_of_closed [OF quiet])
    qed
  qed
qed (use ran in \<open>auto simp: terminate_def give_def\<close>)

lemma forgetting_is_quiet:
  "forget_gone C p s = (news, s1) \<Longrightarrow> snd (announce_walks P C news tm (s1, w)) = (s', w') \<Longrightarrow> w' = w"
  by (auto simp: forget_gone_def announce_walks_def split: option.splits if_splits)

text \<open>
  C23. Only a walker is ever signalled. Let \<open>signals\<close> be the signals the system has sent, which no
  reading of \<open>/proc\<close> and no opening or closing of a descriptor changes. Whatever a request to stop
  a process answers, it has sent no signal; or the process was being listed as a walker at that moment
  and, on Linux, the one signal went through a descriptor opened for its id, after the process behind it
  was found to have the start time recorded for the walker, so that a later process that was given
  the same id gets none. A request that reports success has sent it, and one that is refused has done nothing
  at all.
\<close>

theorem stop_signals_only_the_walker:
  assumes "only_signals_show F signals"
    and "stop_at (linux_procs F) C pid tm (s, w) = (r, s', w')"
  shows "(r = Inl NotWalking \<longrightarrow> s' = s \<and> w' = w) \<and>
    (signals w' = signals w \<and> r \<noteq> Inr () \<or>
     (\<exists>t fd w1 w2 sent w3. map_of (in_tracks s) pid = Some t \<and> tk_reported t \<and> walking tm t \<and>
        pf_pidfd_open F pid w = (Inr fd, w1) \<and> started F pid w1 = (Some (tk_started t), w2) \<and>
        pf_pidfd_terminate F fd w2 = (sent, w3) \<and> signals w' = signals w3 \<and> (r = Inr () \<longrightarrow> sent = Inr ())))"
proof (cases "map_of (in_tracks s) pid")
  case None
  then show ?thesis using assms(2) by (auto simp: stop_at_def)
next
  case (Some t)
  show ?thesis
  proof (cases "tk_reported t \<and> walking tm t")
    case False
    then show ?thesis using assms(2) Some by (auto simp: stop_at_def)
  next
    case True
    let ?p = "\<lparr>pr_pid = pid, pr_started = tk_started t\<rparr>"
    obtain killed w1 where k: "terminate F ?p w = (killed, w1)" by fastforce
    have w': "w' = w1" "r = Inr () \<longrightarrow> killed = Inr ()" "r \<noteq> Inl NotWalking"
      using assms(2) True Some k
      by (auto simp: stop_at_def linux_procs_def Let_def dest: forgetting_is_quiet
          split: prod.splits sum.splits kill_error.splits)
    from terminate_signals [OF assms(1) k] w' True Some show ?thesis
      unfolding signalled_def by (simp, blast)
  qed
qed

text \<open>A machine that records its signals, whose process 5 started at tick 9, and a watcher that has seen it hold a thousand directories.\<close>

definition stat_of_five :: str where
  "stat_of_five =
     [41, 32, 49, 32, 49, 32, 49, 32, 49, 32, 49, 32, 49, 32, 49, 32, 49, 32, 49, 32, 49, 32, 49, 32, 49,
     32, 49, 32, 49, 32, 49, 32, 49, 32, 49, 32, 49, 32, 49, 32, 57]"

definition process_five :: "nat list proc_files" where
  "process_five =
     \<lparr>pf_read_to_string = (\<lambda>_. give (Some stat_of_five)), pf_read = (\<lambda>_. give None),
      pf_pidfd_open = (\<lambda>_. give (Inr 3)), pf_pidfd_terminate = (\<lambda>fd sent. (Inr (), sent @ [fd])), pf_close = (\<lambda>_. give ())\<rparr>"

definition holding_many :: inner where
  "holding_many =
     inner_new\<lparr>in_tracks := [(5, (new_track \<lparr>pr_pid = 5, pr_started = 9\<rparr> 0)\<lparr>tk_open := 1000, tk_reported := True\<rparr>)]\<rparr>"

lemma ws_split_ascii:
  "ws_split [] = [[]]"
  "ws_split (32 # s) = [] # ws_split s"
  "ws_split (49 # s) = (case ws_split s of x # xs \<Rightarrow> (49 # x) # xs | [] \<Rightarrow> [[49]])"
  "ws_split (57 # s) = (case ws_split s of x # xs \<Rightarrow> (57 # x) # xs | [] \<Rightarrow> [[57]])"
  by (subst ws_split.simps, simp add: ws_len_def WHITESPACE_def starts_with_def)+

lemma stat_of_five: "started_in stat_of_five = Some 9"
proof -
  have "after_last 41 stat_of_five = Some (drop 1 stat_of_five)" by (simp add: after_last_def stat_of_five_def)
  moreover have "split_whitespace (drop 1 stat_of_five) ! 19 = [57]" "length (split_whitespace (drop 1 stat_of_five)) = 20"
    by (simp_all add: split_whitespace_def stat_of_five_def ws_split_ascii)
  moreover have "parse_uint (2 ^ 64 - 1) [57] = Some 9"
    by (simp add: parse_uint_def starts_with_def is_digit_def decimal_def)
  ultimately show ?thesis by (simp add: started_in_def)
qed

theorem stop_signals_only_the_walker_witness:
  "stop_at (linux_procs process_five) \<lparr>wc_own = 1, wc_mountpoint = [47]\<rparr> 5 60 (holding_many, []) = (Inr (), holding_many, [3]) \<and>
    (\<exists>t. map_of (in_tracks holding_many) 5 = Some t \<and> walking 60 t \<and> started process_five 5 [] = (Some (tk_started t), []))"
proof -
  have start: "started process_five 5 [] = (Some 9, [])"
    by (simp add: started_def process_five_def let_op_def give_def stat_of_five)
  have stopped: "stop_at (linux_procs process_five) \<lparr>wc_own = 1, wc_mountpoint = [47]\<rparr> 5 60 (holding_many, []) =
      (Inr (), holding_many, [3])"
    using start
    by (simp add: stop_at_def holding_many_def inner_new_def new_track_def walking_def held_open_def HELD_DIRS_def
        linux_procs_def terminate_def let_op_def give_def map_err_def process_five_def)
  have quiet: "only_signals_show process_five id"
    by (simp add: only_signals_show_def process_five_def give_def)
  have opened: "pf_pidfd_open process_five 5 [] = (Inr 3, [])" by (simp add: process_five_def give_def)
  show ?thesis using stop_signals_only_the_walker [OF quiet stopped] stopped opened start by auto
qed

end
