(* ===== verification/Chain.thy ===== *)
theory Chain
  imports Effects Text
begin

text \<open>
  Which way to reach the NAS, and when to look again (\<open>synology-filestation-connect/src/lib.rs\<close>).
  The network is the environment's: whether a host answers on the SMB port, and opening a connection
  through the tunnel, which is an opaque value. Each lock of the chain is held for one access only,
  so an operation is a sequence of those; the sequence is what is modelled. Log lines are not.
\<close>

section \<open>Legs and policies\<close>

definition DEFAULT_RECHECK :: duration where
  "DEFAULT_RECHECK = secs 60"

definition DEFAULT_TUNNEL_RECHECK :: duration where
  "DEFAULT_TUNNEL_RECHECK = secs (10 * 60)"

datatype leg = Https | SmbOverVpn | SmbDirect

text \<open>The order the source derives: later is better.\<close>

fun leg_rank :: "leg \<Rightarrow> nat" where
  "leg_rank Https = 0"
| "leg_rank SmbOverVpn = 1"
| "leg_rank SmbDirect = 2"

instantiation leg :: linorder
begin

definition less_eq_leg :: "leg \<Rightarrow> leg \<Rightarrow> bool" where
  "less_eq_leg a b \<longleftrightarrow> leg_rank a \<le> leg_rank b"

definition less_leg :: "leg \<Rightarrow> leg \<Rightarrow> bool" where
  "less_leg a b \<longleftrightarrow> leg_rank a < leg_rank b"

instance
proof
  fix a b :: leg
  show "a = b" if "a \<le> b" "b \<le> a" using that by (cases a; cases b) (simp_all add: less_eq_leg_def)
qed (auto simp: less_eq_leg_def less_leg_def)

end

definition is_best :: "leg \<Rightarrow> bool" where
  "is_best leg \<longleftrightarrow> leg = SmbDirect"

record transport_policy =
  po_smb :: bool
  po_vpn :: bool
  po_https :: bool

definition policy_default :: transport_policy where
  "policy_default = \<lparr>po_smb = True, po_vpn = True, po_https = True\<rparr>"

text \<open>\<open>NothingEnabled\<close> is the left unit.\<close>

definition policy_from_flags :: "bool \<Rightarrow> bool \<Rightarrow> bool \<Rightarrow> unit + transport_policy" where
  "policy_from_flags disable_smb disable_vpn disable_https =
     (if disable_smb \<and> disable_https then Inl ()
      else Inr \<lparr>po_smb = \<not> disable_smb, po_vpn = \<not> disable_smb \<and> \<not> disable_vpn, po_https = \<not> disable_https\<rparr>)"

record endpoints =
  ep_public_host :: str
  ep_tunnel_host :: "str option"

definition endpoints_public_only :: "str \<Rightarrow> endpoints" where
  "endpoints_public_only host = \<lparr>ep_public_host = host, ep_tunnel_host = None\<rparr>"

definition endpoints_with_tunnel :: "str \<Rightarrow> str \<Rightarrow> endpoints" where
  "endpoints_with_tunnel host tunnel_host = \<lparr>ep_public_host = host, ep_tunnel_host = Some tunnel_host\<rparr>"

record route =
  rt_transport :: leg
  rt_smb_host :: "str option"

section \<open>Probing and tunnels\<close>

datatype tunnel_unavailable = Transient str | Refused str

fun tunnel_reason :: "tunnel_unavailable \<Rightarrow> str" where
  "tunnel_reason (Transient why) = why"
| "tunnel_reason (Refused why) = why"

definition no_tunnel :: "str \<Rightarrow> u16 \<Rightarrow> 'w \<Rightarrow> (tunnel_unavailable + 'c) \<times> 'w" where
  "no_tunnel host port = give (Inl (Transient (lit ''no tunnel is configured'')))"

text \<open>A connect that is given a time: it was made, failed, or was given up on.\<close>

datatype tcp_outcome = TcpConnected | TcpFailed | TcpTimedOut

definition tcp_probe ::
  "(duration \<Rightarrow> str \<Rightarrow> u16 \<Rightarrow> 'w \<Rightarrow> tcp_outcome \<times> 'w) \<Rightarrow> u16 \<Rightarrow> duration \<Rightarrow> str \<Rightarrow> 'w \<Rightarrow> bool \<times> 'w" where
  "tcp_probe tcp port timeout host = let_op (tcp timeout host port) (\<lambda>r. give (r = TcpConnected))"

record decision =
  dn_route :: route
  dn_expires_at :: "instant option"

definition SMB_PORT :: u16 where
  "SMB_PORT = 445"

datatype 'c smb_route = RouteDirect str | RouteTunnelled str 'c | RouteUnavailable

section \<open>The chain\<close>

record 'w chain =
  ch_policy :: transport_policy
  ch_endpoints :: endpoints
  ch_recheck :: duration
  ch_decision :: "decision option"
  ch_refused :: "str option"
  ch_tunnel_recheck :: duration
  ch_tunnel_failed_at :: "instant option"
  ch_smb_port :: u16
  ch_world :: 'w

record ('w, 'c) network =
  nw_now :: "'w \<Rightarrow> instant \<times> 'w"
  nw_reachable :: "str \<Rightarrow> 'w \<Rightarrow> bool \<times> 'w"
  nw_open :: "str \<Rightarrow> u16 \<Rightarrow> 'w \<Rightarrow> (tunnel_unavailable + 'c) \<times> 'w"

type_synonym ('w, 'a) chain_op = "'w chain \<Rightarrow> 'a \<times> 'w chain"

definition on_network :: "('w \<Rightarrow> 'a \<times> 'w) \<Rightarrow> ('w, 'a) chain_op" where
  "on_network f c = (case f (ch_world c) of (a, w) \<Rightarrow> (a, c\<lparr>ch_world := w\<rparr>))"

definition chain_new :: "transport_policy \<Rightarrow> endpoints \<Rightarrow> duration \<Rightarrow> 'w \<Rightarrow> 'w chain" where
  "chain_new policy ends recheck w =
     \<lparr>ch_policy = policy, ch_endpoints = ends, ch_recheck = recheck, ch_decision = None, ch_refused = None,
      ch_tunnel_recheck = DEFAULT_TUNNEL_RECHECK, ch_tunnel_failed_at = None, ch_smb_port = SMB_PORT, ch_world = w\<rparr>"

definition with_smb_port :: "u16 \<Rightarrow> 'w chain \<Rightarrow> 'w chain" where
  "with_smb_port port c = c\<lparr>ch_smb_port := port\<rparr>"

definition with_tunnel_recheck :: "duration \<Rightarrow> 'w chain \<Rightarrow> 'w chain" where
  "with_tunnel_recheck interval c = c\<lparr>ch_tunnel_recheck := interval\<rparr>"

definition may_use_smb :: "'w chain \<Rightarrow> bool" where
  "may_use_smb c \<longleftrightarrow> po_smb (ch_policy c)"

section \<open>What is remembered\<close>

definition current_route :: "'w chain \<Rightarrow> route option" where
  "current_route c = map_option dn_route (ch_decision c)"

definition cached_route :: "instant \<Rightarrow> 'w chain \<Rightarrow> route option" where
  "cached_route tm c =
     (case ch_decision c of
        None \<Rightarrow> None
      | Some d \<Rightarrow>
          (case dn_expires_at d of
             None \<Rightarrow> Some (dn_route d)
           | Some at \<Rightarrow> if tm < at then Some (dn_route d) else None))"

definition remember :: "('w, 'c) network \<Rightarrow> route \<Rightarrow> ('w, unit) chain_op" where
  "remember G r =
     let_op (on_network (nw_now G)) (\<lambda>tm.
       set_op (\<lambda>c. c\<lparr>ch_decision := Some \<lparr>dn_route = r,
         dn_expires_at = (if is_best (rt_transport r) then None else Some (tm + ch_recheck c))\<rparr>\<rparr>))"

definition forget_route :: "route \<Rightarrow> ('w, unit) chain_op" where
  "forget_route acted_on =
     set_op (\<lambda>c. case ch_decision c of
       Some d \<Rightarrow> if dn_route d = acted_on then c\<lparr>ch_decision := None\<rparr> else c
     | None \<Rightarrow> c)"

definition settle :: "('w, 'c) network \<Rightarrow> route \<Rightarrow> ('w, unit) chain_op" where
  "settle G r = remember G r"

definition reconsider :: "('w, unit) chain_op" where
  "reconsider = set_op (\<lambda>c. c\<lparr>ch_decision := None, ch_refused := None, ch_tunnel_failed_at := None\<rparr>)"

section \<open>The tunnel\<close>

definition tunnel_failed :: "('w, 'c) network \<Rightarrow> tunnel_unavailable \<Rightarrow> ('w, unit) chain_op" where
  "tunnel_failed G e =
     (case e of
        Refused why \<Rightarrow> set_op (\<lambda>c. c\<lparr>ch_refused := Some why\<rparr>)
      | Transient _ \<Rightarrow>
          let_op (on_network (nw_now G)) (\<lambda>tm. set_op (\<lambda>c. c\<lparr>ch_tunnel_failed_at := Some tm\<rparr>)))"

definition tunnel_carried_nothing :: "('w, 'c) network \<Rightarrow> str \<Rightarrow> ('w, unit) chain_op" where
  "tunnel_carried_nothing G why =
     tunnel_failed G (Transient (lit ''it opened, but carried no session: '' @ why))"

definition open_tunnel_to :: "('w, 'c) network \<Rightarrow> str \<Rightarrow> ('w, tunnel_unavailable + 'c) chain_op" where
  "open_tunnel_to G host = let_op (get_op ch_smb_port) (\<lambda>port. on_network (nw_open G host port))"

definition too_soon :: "('w, 'c) network \<Rightarrow> ('w, bool) chain_op" where
  "too_soon G =
     let_op (get_op ch_tunnel_failed_at) (\<lambda>failed. case failed of
       None \<Rightarrow> give False
     | Some at \<Rightarrow>
         let_op (on_network (nw_now G)) (\<lambda>tm. get_op (\<lambda>c. tm < at + ch_tunnel_recheck c)))"

definition raise_tunnel :: "('w, 'c) network \<Rightarrow> str \<Rightarrow> ('w, 'c option) chain_op" where
  "raise_tunnel G inside =
     let_op (get_op (\<lambda>c. po_vpn (ch_policy c) \<and> ch_refused c = None)) (\<lambda>may.
     if \<not> may then give None
     else
       let_op (too_soon G) (\<lambda>early.
       if early then give None
       else
         let_op (open_tunnel_to G inside) (\<lambda>r. case r of
           Inr connection \<Rightarrow> let_op (set_op (\<lambda>c. c\<lparr>ch_tunnel_failed_at := None\<rparr>)) (\<lambda>_. give (Some connection))
         | Inl e \<Rightarrow> let_op (tunnel_failed G e) (\<lambda>_. give None))))"

section \<open>Deciding\<close>

text \<open>\<open>NoTransport\<close> is the left unit.\<close>

definition decide_http :: "('w, unit + route \<times> 'c option) chain_op" where
  "decide_http =
     let_op (get_op (\<lambda>c. po_https (ch_policy c))) (\<lambda>https.
       give (if https then Inr (\<lparr>rt_transport = Https, rt_smb_host = None\<rparr>, None) else Inl ()))"

definition decide_with_tunnel :: "('w, 'c) network \<Rightarrow> bool \<Rightarrow> ('w, unit + route \<times> 'c option) chain_op" where
  "decide_with_tunnel G may_open =
     let_op (get_op (\<lambda>c. (ch_policy c, ch_endpoints c))) (\<lambda>(policy, ends).
     if \<not> po_smb policy then decide_http
     else
       let_op (on_network (nw_reachable G (ep_public_host ends))) (\<lambda>answers.
       if answers then
         give (Inr (\<lparr>rt_transport = SmbDirect, rt_smb_host = Some (ep_public_host ends)\<rparr>, None))
       else
         (case (po_vpn policy, ep_tunnel_host ends) of
            (True, Some inside) \<Rightarrow>
              if may_open then
                let_op (raise_tunnel G inside) (\<lambda>opened. case opened of
                  Some connection \<Rightarrow>
                    give (Inr (\<lparr>rt_transport = SmbOverVpn, rt_smb_host = Some inside\<rparr>, Some connection))
                | None \<Rightarrow> decide_http)
              else decide_http
          | _ \<Rightarrow> decide_http)))"

definition find_route :: "('w, 'c) network \<Rightarrow> ('w, unit + route) chain_op" where
  "find_route G =
     let_op (on_network (nw_now G)) (\<lambda>tm.
     let_op (get_op (cached_route tm)) (\<lambda>cached. case cached of
       Some r \<Rightarrow> give (Inr r)
     | None \<Rightarrow>
         try_op (decide_with_tunnel G True) (\<lambda>(chosen, _).
         let_op (remember G chosen) (\<lambda>_. give (Inr chosen)))))"

definition another_smb_connection :: "('w, 'c) network \<Rightarrow> ('w, tunnel_unavailable + 'c smb_route) chain_op" where
  "another_smb_connection G =
     let_op (get_op current_route) (\<lambda>r. case r of
       None \<Rightarrow> give (Inr RouteUnavailable)
     | Some r \<Rightarrow>
         (case rt_smb_host r of
            None \<Rightarrow> give (Inr RouteUnavailable)
          | Some host \<Rightarrow>
              (case rt_transport r of
                 SmbDirect \<Rightarrow> give (Inr (RouteDirect host))
               | SmbOverVpn \<Rightarrow> try_op (open_tunnel_to G host) (\<lambda>connection. give (Inr (RouteTunnelled host connection)))
               | Https \<Rightarrow> give (Inr RouteUnavailable))))"

text \<open>The answer of a fresh decision.\<close>

definition as_smb_route :: "route \<Rightarrow> 'c option \<Rightarrow> 'c smb_route" where
  "as_smb_route r opened =
     (case (rt_transport r, rt_smb_host r, opened) of
        (SmbOverVpn, Some host, Some connection) \<Rightarrow> RouteTunnelled host connection
      | (SmbDirect, Some host, _) \<Rightarrow> RouteDirect host
      | _ \<Rightarrow> RouteUnavailable)"

definition reach_anew :: "('w, 'c) network \<Rightarrow> bool \<Rightarrow> ('w, unit + 'c smb_route) chain_op" where
  "reach_anew G may_open =
     try_op (decide_with_tunnel G may_open) (\<lambda>(chosen, opened).
     let_op (remember G chosen) (\<lambda>_. give (Inr (as_smb_route chosen opened))))"

definition reach_smb :: "('w, 'c) network \<Rightarrow> ('w, unit + 'c smb_route) chain_op" where
  "reach_smb G =
     let_op (on_network (nw_now G)) (\<lambda>tm.
     let_op (get_op (cached_route tm)) (\<lambda>cached. case cached of
       None \<Rightarrow> reach_anew G True
     | Some r \<Rightarrow>
         (case (rt_transport r, rt_smb_host r) of
            (SmbDirect, Some host) \<Rightarrow> give (Inr (RouteDirect host))
          | (Https, _) \<Rightarrow> give (Inr RouteUnavailable)
          | (SmbOverVpn, Some host) \<Rightarrow>
              let_op (open_tunnel_to G host) (\<lambda>opened. case opened of
                Inr connection \<Rightarrow> give (Inr (RouteTunnelled host connection))
              | Inl e \<Rightarrow>
                  let_op (tunnel_failed G e) (\<lambda>_.
                  let_op (forget_route r) (\<lambda>_. reach_anew G False)))
          | _ \<Rightarrow> reach_anew G True)))"

definition better_than :: "('w, 'c) network \<Rightarrow> leg \<Rightarrow> ('w, 'c smb_route option) chain_op" where
  "better_than G leg =
     let_op (get_op (\<lambda>c. (ch_policy c, ch_endpoints c))) (\<lambda>(policy, ends).
     if is_best leg \<or> \<not> po_smb policy then give None
     else
       let_op (on_network (nw_reachable G (ep_public_host ends))) (\<lambda>answers.
       if answers then give (Some (RouteDirect (ep_public_host ends)))
       else if leg \<ge> SmbOverVpn then give None
       else
         (case ep_tunnel_host ends of
            None \<Rightarrow> give None
          | Some inside \<Rightarrow>
              let_op (raise_tunnel G inside) (\<lambda>opened.
                give (map_option (RouteTunnelled inside) opened)))))"

end
