(* ===== verification/Chain_Props.thy ===== *)
theory Chain_Props
  imports Chain
begin

text \<open>
  What the chain promises: it settles on the best leg there is, asks nothing of the network while it
  is on the best leg of all, and leaves a tunnel that refused alone.
\<close>

section \<open>The best leg\<close>

text \<open>The legs that are allowed and answer, on a network whose answers are known.\<close>

definition available :: "(str \<Rightarrow> bool) \<Rightarrow> (str \<Rightarrow> u16 \<Rightarrow> bool) \<Rightarrow> 'w chain \<Rightarrow> leg set" where
  "available answers carries c =
     {l. l = SmbDirect \<and> po_smb (ch_policy c) \<and> answers (ep_public_host (ch_endpoints c)) \<or>
         l = SmbOverVpn \<and> po_smb (ch_policy c) \<and> po_vpn (ch_policy c) \<and>
           (\<exists>inside. ep_tunnel_host (ch_endpoints c) = Some inside \<and> carries inside (ch_smb_port c)) \<or>
         l = Https \<and> po_https (ch_policy c)}"

lemma finite_legs: "finite (S :: leg set)"
proof (rule finite_subset)
  show "S \<subseteq> {Https, SmbOverVpn, SmbDirect}" by (auto intro: leg.exhaust)
qed simp

text \<open>A network that answers the same whenever it is asked.\<close>

locale steady_network =
  fixes G :: "('w, 'c) network" and answers :: "str \<Rightarrow> bool" and carries :: "str \<Rightarrow> u16 \<Rightarrow> bool"
  assumes reach: "fst (nw_reachable G host w) = answers host"
    and carry: "isl (fst (nw_open G host port w)) = (\<not> carries host port)"
begin

lemma probe: "on_network (nw_reachable G host) c = (a, c') \<Longrightarrow> a = answers host \<and> (\<exists>w. c' = c\<lparr>ch_world := w\<rparr>)"
  using reach [of host "ch_world c"] by (auto simp: on_network_def split: prod.splits)

lemma opens: "open_tunnel_to G host c = (r, c') \<Longrightarrow> isl r = (\<not> carries host (ch_smb_port c)) \<and> (\<exists>w. c' = c\<lparr>ch_world := w\<rparr>)"
  using carry [of host "ch_smb_port c" "ch_world c"]
  by (auto simp: open_tunnel_to_def on_network_def let_op_def get_op_def split: prod.splits)

lemma raises:
  assumes "raise_tunnel G inside c = (r, c')" and "ch_refused c = None" and "ch_tunnel_failed_at c = None"
  shows "r \<noteq> None \<longleftrightarrow> po_vpn (ch_policy c) \<and> carries inside (ch_smb_port c)" and "ch_policy c' = ch_policy c"
proof -
  obtain o1 c1 where o1: "open_tunnel_to G inside c = (o1, c1)" by fastforce
  note opened = opens [OF o1]
  show "r \<noteq> None \<longleftrightarrow> po_vpn (ch_policy c) \<and> carries inside (ch_smb_port c)"
    using assms opened o1
    by (cases o1) (auto simp: raise_tunnel_def too_soon_def let_op_def get_op_def set_op_def give_def split: if_splits prod.splits)
  show "ch_policy c' = ch_policy c"
    using assms opened o1
    by (cases o1) (auto simp: raise_tunnel_def too_soon_def tunnel_failed_def on_network_def let_op_def get_op_def set_op_def
        give_def split: if_splits prod.splits tunnel_unavailable.splits)
qed

lemma decides:
  assumes "decide_with_tunnel G True c = (r, c')" and "ch_refused c = None" and "ch_tunnel_failed_at c = None"
  shows "case r of
      Inl _ \<Rightarrow> available answers carries c = {}
    | Inr (rt, _) \<Rightarrow> rt_transport rt \<in> available answers carries c \<and> (\<forall>l \<in> available answers carries c. l \<le> rt_transport rt)"
proof (cases "po_smb (ch_policy c)")
  case False
  then show ?thesis
    using assms(1) by (auto simp: decide_with_tunnel_def decide_http_def let_op_def get_op_def give_def available_def
        less_eq_leg_def split: if_splits leg.splits)
next
  case smb: True
  let ?public = "ep_public_host (ch_endpoints c)"
  obtain a c1 where probed: "on_network (nw_reachable G ?public) c = (a, c1)" by fastforce
  have c1: "a = answers ?public" "ch_policy c1 = ch_policy c" "ch_refused c1 = None" "ch_tunnel_failed_at c1 = None"
      "ch_smb_port c1 = ch_smb_port c"
    using probe [OF probed] assms(2,3) by auto
  show ?thesis
  proof (cases "answers ?public")
    case True
    then show ?thesis
      using assms(1) smb probed c1(1)
      by (auto simp: decide_with_tunnel_def let_op_def get_op_def give_def available_def less_eq_leg_def split: leg.splits)
  next
    case False
    then have quiet: "\<not> a" using c1(1) by simp
    show ?thesis
    proof (cases "po_vpn (ch_policy c) \<and> ep_tunnel_host (ch_endpoints c) \<noteq> None")
      case True
      then obtain inside where inside: "ep_tunnel_host (ch_endpoints c) = Some inside" by blast
      obtain o2 c2 where raised: "raise_tunnel G inside c1 = (o2, c2)" by fastforce
      have o2: "o2 \<noteq> None \<longleftrightarrow> carries inside (ch_smb_port c)" "ch_policy c2 = ch_policy c"
        using raises [OF raised c1(3,4)] True c1(2,5) by simp_all
      show ?thesis
        using assms(1) smb quiet probed True inside raised o2 False
        by (cases o2) (auto simp: decide_with_tunnel_def decide_http_def let_op_def get_op_def give_def available_def
            less_eq_leg_def split: if_splits leg.splits)
    next
      case none: False
      then show ?thesis
        using assms(1) smb quiet probed False c1(2)
        by (auto simp: decide_with_tunnel_def decide_http_def let_op_def get_op_def give_def available_def
            less_eq_leg_def split: if_splits leg.splits option.splits bool.splits)
    qed
  qed
qed

end

text \<open>
  C10. A chain that has decided nothing yet settles on the best leg that its policy allows and that
  answers, in the order of the legs, and reports that there is none exactly when none does.
\<close>

theorem chosen_leg_is_the_best:
  assumes "steady_network G answers carries"
    and "ch_decision c = None" and "ch_refused c = None" and "ch_tunnel_failed_at c = None"
  shows "map_sum id rt_transport (fst (find_route G c)) =
    (if available answers carries c = {} then Inl () else Inr (Max (available answers carries c)))"
proof -
  obtain tm c0 where clock: "on_network (nw_now G) c = (tm, c0)" by fastforce
  have c0: "ch_decision c0 = None" "ch_refused c0 = None" "ch_tunnel_failed_at c0 = None"
      "available answers carries c0 = available answers carries c"
    using clock assms(2-4) by (auto simp: on_network_def available_def split: prod.splits)
  obtain r c1 where decided: "decide_with_tunnel G True c0 = (r, c1)" by fastforce
  note best = steady_network.decides [OF assms(1) decided c0(2,3), unfolded c0(4)]
  have found: "map_sum id rt_transport (fst (find_route G c)) = map_sum id (rt_transport \<circ> fst) r"
    using clock c0(1) decided
    by (cases r) (auto simp: find_route_def let_op_def try_op_def get_op_def give_def cached_route_def split: prod.splits)
  show ?thesis
  proof (cases r)
    case (Inl u)
    then show ?thesis using best found by simp
  next
    case (Inr p)
    then have "rt_transport (fst p) = Max (available answers carries c)" "available answers carries c \<noteq> {}"
      using best by (cases p; force intro!: Max_eqI [symmetric] finite_legs)+
    then show ?thesis using found Inr by simp
  qed
qed

text \<open>A network whose NAS does not answer on its SMB port, and a tunnel that carries; it counts what it opens.\<close>

definition tunnel_only :: "(nat, unit) network" where
  "tunnel_only =
     \<lparr>nw_now = Pair 0, nw_reachable = tcp_probe (\<lambda>_ _ _. Pair TcpTimedOut) SMB_PORT (secs 5),
      nw_open = (\<lambda>_ _ w. (Inr (), Suc w))\<rparr>"

interpretation tunnel_only: steady_network tunnel_only "\<lambda>_. False" "\<lambda>_ _. True"
  by unfold_locales (simp_all add: tunnel_only_def tcp_probe_def let_op_def give_def)

text \<open>The chain without a tunnel, whatever the probe answers, as long as it always answers the same.\<close>

interpretation no_tunnel: steady_network
    "\<lparr>nw_now = Pair 0, nw_reachable = tcp_probe (\<lambda>_ host _. Pair (if answers host then TcpConnected else TcpFailed)) port timeout,
      nw_open = no_tunnel\<rparr>" answers "\<lambda>_ _. False" for answers port timeout
  by unfold_locales (simp_all add: tcp_probe_def no_tunnel_def let_op_def give_def)

definition lab_chain :: "nat chain" where
  "lab_chain = chain_new policy_default (endpoints_with_tunnel (lit ''nas'') (lit ''10.0.0.1'')) DEFAULT_RECHECK 0"

theorem chosen_leg_is_the_best_witness:
  "map_sum id rt_transport (fst (find_route tunnel_only lab_chain)) = Inr SmbOverVpn"
proof -
  have legs: "available (\<lambda>_. False) (\<lambda>_ _. True) lab_chain = {SmbOverVpn, Https}"
    by (auto simp: available_def lab_chain_def chain_new_def policy_default_def endpoints_with_tunnel_def)
  have "Max {SmbOverVpn, Https} = SmbOverVpn" by (rule Max_eqI) (auto simp: less_eq_leg_def)
  then show ?thesis
    using chosen_leg_is_the_best [OF tunnel_only.steady_network_axioms, of lab_chain]
    by (simp add: legs) (simp add: lab_chain_def chain_new_def)
qed

section \<open>A tunnel that refused\<close>

text \<open>A network that counts the connections opened through its tunnel.\<close>

locale counted_network =
  fixes G :: "('w, 'c) network" and opens :: "'w \<Rightarrow> nat"
  assumes now_opens: "opens (snd (nw_now G w)) = opens w"
    and probe_opens: "opens (snd (nw_reachable G host w)) = opens w"
    and open_opens: "opens (snd (nw_open G host port w)) = Suc (opens w)"

definition over_vpn :: "route \<Rightarrow> bool" where
  "over_vpn r \<longleftrightarrow> rt_transport r = SmbOverVpn"

lemma over_vpn_route [simp]: "over_vpn \<lparr>rt_transport = l, rt_smb_host = host\<rparr> \<longleftrightarrow> l = SmbOverVpn"
  by (simp add: over_vpn_def)

definition spared :: "('w \<Rightarrow> nat) \<Rightarrow> nat \<Rightarrow> str \<Rightarrow> 'w chain \<Rightarrow> bool" where
  "spared opens n why c \<longleftrightarrow>
     opens (ch_world c) = n \<and> ch_refused c = Some why \<and> (\<forall>r. current_route c = Some r \<longrightarrow> \<not> over_vpn r)"

text \<open>What is done with a chain: everything but telling it that something has changed.\<close>

inductive chain_calls :: "('w, 'c) network \<Rightarrow> 'w chain \<Rightarrow> 'w chain \<Rightarrow> bool" for G c0 where
  begins: "chain_calls G c0 c0"
| finds: "chain_calls G c0 c \<Longrightarrow> find_route G c = (r, c') \<Longrightarrow> chain_calls G c0 c'"
| reaches: "chain_calls G c0 c \<Longrightarrow> reach_smb G c = (r, c') \<Longrightarrow> chain_calls G c0 c'"
| betters: "chain_calls G c0 c \<Longrightarrow> better_than G l c = (r, c') \<Longrightarrow> chain_calls G c0 c'"
| another: "chain_calls G c0 c \<Longrightarrow> another_smb_connection G c = (r, c') \<Longrightarrow> chain_calls G c0 c'"
| settles: "chain_calls G c0 c \<Longrightarrow> \<not> over_vpn rt \<Longrightarrow> settle G rt c = ((), c') \<Longrightarrow> chain_calls G c0 c'"
| carried: "chain_calls G c0 c \<Longrightarrow> tunnel_carried_nothing G why c = ((), c') \<Longrightarrow> chain_calls G c0 c'"

context counted_network
begin

lemma after_clock: "spared opens n why c \<Longrightarrow> after (on_network (nw_now G)) (\<lambda>_. spared opens n why) c"
  using now_opens [of "ch_world c"]
  by (auto simp: after_def on_network_def spared_def current_route_def split: prod.splits)

lemma after_probe: "spared opens n why c \<Longrightarrow> after (on_network (nw_reachable G host)) (\<lambda>_. spared opens n why) c"
  using probe_opens [of host "ch_world c"]
  by (auto simp: after_def on_network_def spared_def current_route_def split: prod.splits)

lemma after_remember: "spared opens n why c \<Longrightarrow> \<not> over_vpn r \<Longrightarrow> after (remember G r) (\<lambda>_. spared opens n why) c"
  unfolding remember_def
  by (auto simp: after_simps spared_def current_route_def intro!: after_mono [OF after_clock])

lemma after_raise: "spared opens n why c \<Longrightarrow> after (raise_tunnel G host) (\<lambda>r c'. r = None \<and> spared opens n why c') c"
  by (simp add: raise_tunnel_def after_simps spared_def)

lemma after_http:
  "spared opens n why c \<Longrightarrow>
     after decide_http (\<lambda>r c'. spared opens n why c' \<and> (\<forall>rt o1. r = Inr (rt, o1) \<longrightarrow> \<not> over_vpn rt)) c"
  by (simp add: decide_http_def after_simps)

lemma after_decide:
  "spared opens n why c \<Longrightarrow> after (decide_with_tunnel G b)
    (\<lambda>r c'. spared opens n why c' \<and> (\<forall>rt o1. r = Inr (rt, o1) \<longrightarrow> \<not> over_vpn rt)) c"
  unfolding decide_with_tunnel_def
  by (simp only: after_simps prod.case)
    (auto simp only: after_simps split: bool.split option.split if_splits
      intro!: after_http after_mono [OF after_probe] after_mono [OF after_raise]; simp add: after_simps after_http)

lemma after_anew: "spared opens n why c \<Longrightarrow> after (reach_anew G b) (\<lambda>_. spared opens n why) c"
  unfolding reach_anew_def
  by (auto simp: after_simps intro!: after_mono [OF after_decide] after_mono [OF after_remember])

lemma cached_not_vpn: "spared opens n why c \<Longrightarrow> cached_route tm c = Some r \<Longrightarrow> \<not> over_vpn r"
  by (auto simp: spared_def cached_route_def current_route_def split: option.splits if_splits)

lemma after_find: "spared opens n why c \<Longrightarrow> after (find_route G) (\<lambda>_. spared opens n why) c"
  unfolding find_route_def
  by (auto simp: after_simps intro!: after_mono [OF after_clock] after_mono [OF after_decide] after_mono [OF after_remember]
      split: option.split)

lemma after_reach: "spared opens n why c \<Longrightarrow> after (reach_smb G) (\<lambda>_. spared opens n why) c"
  unfolding reach_smb_def
  by (auto simp: after_simps intro!: after_mono [OF after_clock] after_anew dest: cached_not_vpn [unfolded over_vpn_def]
      split: option.split leg.split)

lemma after_better: "spared opens n why c \<Longrightarrow> after (better_than G l) (\<lambda>_. spared opens n why) c"
  unfolding better_than_def
  by (auto simp: after_simps intro!: after_mono [OF after_probe] after_mono [OF after_raise] split: option.split)

lemma after_another: "spared opens n why c \<Longrightarrow> after (another_smb_connection G) (\<lambda>_. spared opens n why) c"
  by (auto simp: another_smb_connection_def after_simps spared_def over_vpn_def split: option.split leg.split)

lemma after_carried: "spared opens n why c \<Longrightarrow> after (tunnel_carried_nothing G text) (\<lambda>_. spared opens n why) c"
  unfolding tunnel_carried_nothing_def tunnel_failed_def
  by (auto simp: after_simps intro!: after_mono [OF after_clock]) (simp add: spared_def current_route_def)

lemma calls_spare: "chain_calls G c0 c \<Longrightarrow> spared opens n why c0 \<Longrightarrow> spared opens n why c"
proof (induction rule: chain_calls.induct)
  case (settles c rt c')
  then show ?case using afterD [OF after_remember] unfolding settle_def by metis
qed (blast dest: afterD [OF after_find] afterD [OF after_reach] afterD [OF after_better] afterD [OF after_another]
    afterD [OF after_carried])+

end

text \<open>
  C11. A tunnel that refused is not asked again. Once a refusal is recorded and the tunnel is not the
  leg in use, whatever is asked of the chain, however often and however long, opens no connection
  through the tunnel (each is a login of the user's, and enough of them lock the account), until the
  chain is told that something has changed.
\<close>

theorem refused_tunnel_is_left_alone:
  assumes "counted_network G opens" and "ch_refused c = Some why"
    and "\<And>r. current_route c = Some r \<Longrightarrow> rt_transport r \<noteq> SmbOverVpn"
    and "chain_calls G c c'"
  shows "opens (ch_world c') = opens (ch_world c) \<and> ch_refused c' = Some why"
proof -
  have "spared opens (opens (ch_world c)) why c" using assms(2,3) by (simp add: spared_def over_vpn_def)
  from counted_network.calls_spare [OF assms(1,4) this] show ?thesis by (simp add: spared_def)
qed

text \<open>A tunnel that refuses every login, and counts them.\<close>

definition refusing :: "(nat, unit) network" where
  "refusing = tunnel_only\<lparr>nw_open := (\<lambda>_ _ w. (Inl (Refused (lit ''AUTH_FAILED'')), Suc w))\<rparr>"

interpretation refusing: counted_network refusing "\<lambda>w. w"
  by unfold_locales (simp_all add: refusing_def tunnel_only_def tcp_probe_def let_op_def give_def)

lemmas lab_defs =
  lab_chain_def chain_new_def policy_default_def endpoints_with_tunnel_def refusing_def tunnel_only_def tcp_probe_def
  find_route_def decide_with_tunnel_def decide_http_def raise_tunnel_def too_soon_def open_tunnel_to_def tunnel_failed_def
  remember_def on_network_def cached_route_def current_route_def let_op_def try_op_def get_op_def set_op_def give_def

theorem refused_tunnel_is_left_alone_witness:
  "\<exists>c c'. find_route refusing lab_chain = (Inr \<lparr>rt_transport = Https, rt_smb_host = None\<rparr>, c) \<and> ch_world c = 1 \<and>
     better_than refusing Https c = (None, c') \<and> ch_world c' = 1"
proof -
  obtain r c where found: "find_route refusing lab_chain = (r, c)" by fastforce
  obtain b c' where better: "better_than refusing Https c = (b, c')" by fastforce
  have c: "r = Inr \<lparr>rt_transport = Https, rt_smb_host = None\<rparr>" "ch_world c = 1"
      "ch_refused c = Some (lit ''AUTH_FAILED'')" "current_route c = Some \<lparr>rt_transport = Https, rt_smb_host = None\<rparr>"
    using found by (auto simp: lab_defs)
  have "chain_calls refusing c c'" by (rule betters [OF begins better])
  from refused_tunnel_is_left_alone [OF refusing.counted_network_axioms c(3) _ this] have "ch_world c' = 1"
    using c(2,4) by simp
  moreover have "b = None" using found better by (auto simp: lab_defs better_than_def is_best_def less_eq_leg_def)
  ultimately show ?thesis using found better c by blast
qed

text \<open>
  Two ways of asking the tunnel do not go by \<open>raise_tunnel\<close>: a refusal met by another connection on
  the settled leg is not recorded, and a leg remembered through the tunnel asks in spite of one.
\<close>

lemma another_connection_records_nothing:
  "another_smb_connection G c = (r, c') \<Longrightarrow>
     ch_refused c' = ch_refused c \<and> ch_tunnel_failed_at c' = ch_tunnel_failed_at c \<and> ch_decision c' = ch_decision c"
  by (auto simp: another_smb_connection_def let_op_def try_op_def get_op_def give_def open_tunnel_to_def on_network_def
      split: option.splits leg.splits prod.splits sum.splits)

end
