(* ===== verification/Spec2Isabelle.thy ===== *)
theory Spec2Isabelle
  imports Reliable_Link Profile Session_Rotation Driver Stack Mux Smb_Path Smb_Framing Handles Pool Moves_Props Mount_Calls_Props Mount_Dirs_Props Walks_Props Chain_Props
begin

text \<open>
  A verification development for the Rust crates of the Synology File Station clients
  (\<open>src/rust/synology-filestation-*\<close>). The program mounts and scripts a Synology NAS: a client
  of the File Station HTTP API (\<open>-core\<close>) prefers faster backends that are injected into it
  (\<open>-smb\<close>), reaches a NAS behind a VPN through an OpenVPN client of its own that runs in the
  process (\<open>-openvpn\<close>), and is used by a FUSE mount (\<open>-fuse\<close>), by foreign-language bindings
  (\<open>-ffi\<close>, Python) and by a desktop application in C#.

  \<^bold>\<open>Conventions.\<close> A Rust function is a definition of the same name, prefixed by its type where
  the name is not unique (\<open>rw_accept\<close> is \<open>ReplayWindow::accept\<close>). A method that takes
  \<open>&mut self\<close> returns the updated record; one that is fallible returns a sum, its error on the
  left. Integers whose overflow matters are words of the width of the source; a length is a
  \<open>nat\<close>; \<open>Instant\<close> and \<open>Duration\<close> are \<open>nat\<close> counts of nanoseconds. Code outside \<open>src/\<close> is a
  parameter: the HMACs, AES, TLS and TCP libraries, random values, reference counts, the byte
  streams. Where a property relies on such code its statement says how, and a witness gives an
  instance.

  \<^bold>\<open>The OpenVPN client\<close> (\<open>synology-filestation-openvpn\<close>), from the wire up:
  \<^item> \<open>Prelude\<close>, \<open>Ordered_Map\<close>, \<open>Text\<close>, \<open>Decimal\<close>, \<open>Utf8\<close>: what the code uses of the
    standard library: results and \<open>?\<close>, big-endian integers, \<open>BTreeMap\<close>, \<open>str\<close>, lossy decoding.
  \<^item> \<open>Errors\<close>, \<open>Cursor\<close>, \<open>Packet\<close> (\<open>lib.rs\<close>, \<open>packet.rs\<close>): the packet codec; what decodes
    is exactly what encodes.
  \<^item> \<open>Static_Key\<close>, \<open>Tls_Auth\<close>, \<open>Replay\<close>: the envelope of control packets; a packet is accepted
    only when signed, and never twice. The replay window refines a set of seen packet ids.
  \<^item> \<open>Reliable\<close>, \<open>Reliable_Link\<close>: the send and receive windows, then both of them over a
    network that loses, repeats and reorders (an inductive step relation): delivery in order and
    once, and no deadlock.
  \<^item> \<open>Channel\<close>: the control channel with its key generations; who is heard, what is sent, when
    it wants to be woken, and that a superseded generation stays dead.
  \<^item> \<open>Prf\<close>, \<open>Key_Method\<close>, \<open>Data\<close>, \<open>Ip\<close>, \<open>Push\<close>: key derivation, the key exchange, the data
    channel, and the server's push reply.
  \<^item> \<open>Session_Config\<close>, \<open>Session\<close>, \<open>Session_Props\<close>, \<open>Session_Safety\<close>, \<open>Session_Rotation\<close>
    (\<open>session.rs\<close>): the state machine over all of these: its invariant, that a tunnel exists only
    on the terms pushed, that its wakeup, asked ahead of time, misses nothing that falls due,
    and what a rotation of the keys does to it.
  \<^item> \<open>Driver\<close> (\<open>driver.rs\<close>): the loop that runs a session, a turn at a time; a silent peer is
    noticed, no error of one datagram or of the moment ends the loop, and \<open>connect\<close> is told
    the truth.
  \<^item> \<open>Stack\<close>, \<open>Mux\<close> (\<open>stack.rs\<close>, \<open>mux.rs\<close>): TCP connections through the tunnel, and several
    of them side by side.
  \<^item> \<open>Profile\<close> (\<open>profile.rs\<close>): the \<open>.ovpn\<close> file.

  \<^bold>\<open>The workspace's errors and secrets\<close> (\<open>-core/src/error.rs\<close>, \<open>redact.rs\<close>): \<open>Syno_Error\<close>,
  \<open>Redact\<close>. \<^bold>\<open>The SMB backend\<close> (\<open>-smb\<close>): \<open>Smb_Path\<close>, \<open>Smb_Framing\<close>, \<open>Handles\<close> (a bounded
  LRU cache, refining an abstract one), \<open>Pool\<close> (several connections for one read).

  \<^bold>\<open>The File Station client\<close> (\<open>-core/src/client\<close>, \<open>types.rs\<close>, \<open>transport.rs\<close>). Its
  operations are functions on the client's record, which holds the world they act on: HTTP
  exchanges, JSON decoding, local files, the clock and random numbers are operations of an
  environment record, so a theorem about the client holds for every NAS and every disk.
  \<^item> \<open>Effects\<close>: sequencing of such operations, and the rules that say what holds after them.
  \<^item> \<open>Transports\<close>: the backends a client may be given, the circuit breaker that guards each,
    and the offer of an operation to them in turn.
  \<^item> \<open>Client\<close>, \<open>Client_Session\<close> (\<open>mod.rs\<close>, \<open>session.rs\<close>, \<open>throttle.rs\<close>): the client, its
    requests and what is resent, login and relogin, the throttle. \<open>Scripted\<close>: environments that
    keep a log of the exchanges, one of them concrete; what is sent and what a login settles.
  \<^item> \<open>Download\<close>, \<open>Listing\<close> (\<open>metadata.rs\<close>), \<open>Verify\<close>, \<open>Upload\<close>, \<open>Moves\<close>: one theory for each
    file of operations. \<open>World_Steps\<close>: that the waits among them end. \<open>Upload_Props\<close>,
    \<open>Moves_Props\<close>: that a sliced upload is checked by its size on the NAS and sends every byte
    once or is checked by its hash, and what a refused move may have done.

  \<^bold>\<open>The FUSE mount\<close> (\<open>-fuse/src\<close>). What the source shares between threads is one record, \<open>mount\<close>, and
  an operation is a function on it. It is one step except where the source waits for another thread:
  there an operation of the environment stands for what the others do, or a step relation
  interleaves the parts. The kernel, moka's caches, local files and \<open>/proc\<close> are parameters.
  \<^item> \<open>Moka\<close>: what is relied on of a cache that forgets when it likes. \<open>Inode_Cache\<close>, \<open>Read_Cache\<close>
    (\<open>cache.rs\<close>): inode numbers and listings, and over any history of allocations, inserts and
    forgetting that a number never changes hands; blocks of files and who is fetching them.
  \<^item> \<open>Prefetch\<close> (\<open>fs/prefetch.rs\<close>): when to read ahead. \<open>Spill\<close> (\<open>spill.rs\<close>): the buffer of a
    file being written, in memory or in a local file.
  \<^item> \<open>Mount\<close> (\<open>fs/mod.rs\<close>, \<open>fs/attr.rs\<close>): the mount's state. \<open>Mount_Read\<close>, \<open>Mount_Read_Props\<close>:
    a range read from blocks is the file's. \<open>Mount_Write\<close>, \<open>Mount_Write_Props\<close> (\<open>fs/transfer.rs\<close>):
    what is written is uploaded whole or the close fails, but for a write that finds its stream
    closed by an earlier flush; a file moved by copying it is never lost; truncation. \<open>Mount_Dirs\<close>,
    \<open>Mount_Dirs_Props\<close> (\<open>fs/dirs.rs\<close>): one fetch for all readers, complete passes. \<open>Mount_Xattr\<close>
    (\<open>fs/xattr.rs\<close>), \<open>Mount_Calls\<close>, \<open>Mount_Calls_Props\<close> (\<open>fs/callbacks.rs\<close>): the kernel's calls;
    digests are answered once. \<open>Mount_Script\<close>: a concrete mount for the witnesses.
  \<^item> \<open>Walks\<close>, \<open>Walks_Props\<close> (\<open>walks.rs\<close>): noticing and stopping a process that reads every
    directory; each walk is reported once, and whatever a request to stop answers, the system
    sends no signal but to the walker.

  \<^bold>\<open>The choice of route\<close> (\<open>-connect/src/lib.rs\<close>): \<open>Chain\<close>, \<open>Chain_Props\<close>. Which of SMB, SMB through the
  tunnel and HTTP carries the data, and when a better one is looked for: the best leg there is, and a
  tunnel that refused is left alone.

  \<^bold>\<open>Bounds and termination.\<close> Loops that consume their input or count their attempts are \<open>fun\<close>
  or \<open>function\<close> with a measure. Loops of the driver and of the sockets, which run as long as the
  network does, those that wait for a task of the NAS and those that wait for another thread are \<open>partial_function (option)\<close>: a
  property that says what they return is proved by their induction rule, and one that they return
  is proved as such (for the NAS's tasks under the assumption that time passes). No fuel is used.

  \<^bold>\<open>Interfaces.\<close> Where one component relies on the promise of another the promise is a locale,
  interpreted on the model's own definitions in the theory that provides it.

  \<^bold>\<open>Not modelled.\<close> Sockets, files, threads and timers themselves; log lines and \<open>Display\<close>
  texts that no decision reads; the building of TLS and HTTP clients; cancellation of a caller between two
  steps; the SMB transport and the probe over the \<open>smb2\<close> library, the fetching of the VPN profile and
  the raising of the tunnel, which are calls into libraries and files; of the mount, its start-up, log files, WebDAV and Windows
  file systems; the language bindings, which only marshal values; the C# application.
\<close>

end
